(* ===== verification/Prelude.thy ===== *)
theory Prelude
  imports Main "HOL-Library.Char_ord" "HOL-Library.List_Lexorder" "HOL-Library.Sublist"
    "HOL-Library.Code_Target_Nat"
begin

text \<open>
  Shared vocabulary of the development: the JavaScript string and number primitives the
  modelled modules call, the result type of code that throws, and the lemmas about them that
  the component theories use.

  A JavaScript string is a sequence of 16-bit code units. The model uses \<^typ>\<open>string\<close>, whose
  characters are the code units below 256; \<open>trim\<close> and \<open>toLowerCase\<close> are exact on that
  range (white space is TAB, LF, VT, FF, CR, SPACE and NO-BREAK SPACE; lower-casing covers ASCII
  and the Latin-1 letters). A BigInt that never goes negative is a \<^typ>\<open>nat\<close>. A function that
  throws returns \<open>'e + 'a\<close>, with \<open>Inl\<close> for the thrown error.
\<close>

unbundle bit_operations_syntax

named_theorems js_simps \<open>rewrite rules for the JavaScript primitives\<close>
named_theorems js_chars \<open>facts about single characters\<close>

section \<open>Errors as values\<close>

text \<open>Sequencing of code that may throw: the first error wins, as an exception would.\<close>

definition ebind :: "'e + 'a \<Rightarrow> ('a \<Rightarrow> 'e + 'b) \<Rightarrow> 'e + 'b" where
  "ebind r f = (case r of Inl e \<Rightarrow> Inl e | Inr x \<Rightarrow> f x)"

lemma ebind_simps [simp]:
  "ebind (Inl e) f = Inl e"
  "ebind (Inr x) f = f x"
  by (simp_all add: ebind_def)

lemma ebind_eq_Inr_iff: "ebind r f = Inr y \<longleftrightarrow> (\<exists>x. r = Inr x \<and> f x = Inr y)"
  by (cases r) auto

lemma ebind_eq_Inl_iff: "ebind r f = Inl e \<longleftrightarrow> r = Inl e \<or> (\<exists>x. r = Inr x \<and> f x = Inl e)"
  by (cases r) auto

text \<open>A loop that calls a throwing function on every element, in order.\<close>

fun emap :: "('a \<Rightarrow> 'e + 'b) \<Rightarrow> 'a list \<Rightarrow> 'e + 'b list" where
  "emap f [] = Inr []"
| "emap f (x # xs) = ebind (f x) (\<lambda>y. ebind (emap f xs) (\<lambda>ys. Inr (y # ys)))"

lemma emap_all_Inr: "(\<And>x. x \<in> set xs \<Longrightarrow> f x = Inr (g x)) \<Longrightarrow> emap f xs = Inr (map g xs)"
  by (induction xs) auto

lemma emap_eq_Inr_iff:
  "emap f xs = Inr ys \<longleftrightarrow> length xs = length ys \<and> (\<forall>i < length xs. f (xs ! i) = Inr (ys ! i))"
proof (induction xs arbitrary: ys)
  case Nil
  then show ?case by auto
next
  case (Cons x xs)
  show ?case
  proof (cases ys)
    case Nil
    then show ?thesis by (auto simp: ebind_eq_Inr_iff)
  next
    case (Cons y ys')
    then show ?thesis
      using Cons.IH[of ys'] by (auto simp: ebind_eq_Inr_iff nth_Cons split: nat.splits)
  qed
qed

lemma emap_Inr_list_all2: "emap f xs = Inr ys \<Longrightarrow> list_all2 (\<lambda>x y. f x = Inr y) xs ys"
  by (simp add: emap_eq_Inr_iff list_all2_conv_all_nth)

text \<open>\<open>xs.filter(...)\<close> with a test that may throw.\<close>

fun efilter :: "('a \<Rightarrow> 'e + bool) \<Rightarrow> 'a list \<Rightarrow> 'e + 'a list" where
  "efilter p [] = Inr []"
| "efilter p (x # xs) = ebind (p x) (\<lambda>b. ebind (efilter p xs) (\<lambda>ys. Inr (if b then x # ys else ys)))"

lemma efilter_all: "(\<And>x. x \<in> set xs \<Longrightarrow> p x = Inr (q x)) \<Longrightarrow> efilter p xs = Inr (filter q xs)"
  by (induction xs) auto

lemma efilter_Inr:
  "efilter p xs = Inr ys \<Longrightarrow> ys = filter (\<lambda>x. p x = Inr True) xs \<and> (\<forall>x \<in> set xs. \<exists>b. p x = Inr b)"
  by (induction xs arbitrary: ys) (auto simp: ebind_eq_Inr_iff)

definition is_ok :: "'e + 'a \<Rightarrow> bool" where
  "is_ok r = (case r of Inl _ \<Rightarrow> False | Inr _ \<Rightarrow> True)"

lemma is_ok_simps [simp]: "is_ok (Inl e) = False" "is_ok (Inr x) = True"
  by (simp_all add: is_ok_def)

section \<open>Characters\<close>

text \<open>\<open>charCodeAt\<close>: the code unit of a character.\<close>

abbreviation code :: "char \<Rightarrow> nat" where
  "code c \<equiv> of_char c"

definition is_digit :: "char \<Rightarrow> bool" where
  "is_digit c = (48 \<le> code c \<and> code c \<le> (57 :: nat))"

definition is_hex_digit :: "char \<Rightarrow> bool" where
  "is_hex_digit c = (is_digit c \<or> (97 \<le> code c \<and> code c \<le> (102 :: nat))
     \<or> (65 \<le> code c \<and> code c \<le> (70 :: nat)))"

definition is_lower_hex :: "char \<Rightarrow> bool" where
  "is_lower_hex c = (is_digit c \<or> (97 \<le> code c \<and> code c \<le> (102 :: nat)))"

definition is_alpha :: "char \<Rightarrow> bool" where
  "is_alpha c = ((97 \<le> code c \<and> code c \<le> (122 :: nat)) \<or> (65 \<le> code c \<and> code c \<le> (90 :: nat)))"

definition is_alnum :: "char \<Rightarrow> bool" where
  "is_alnum c = (is_digit c \<or> is_alpha c)"

text \<open>White space as \<open>String.prototype.trim\<close> sees it, on code units below 256.\<close>

definition is_space :: "char \<Rightarrow> bool" where
  "is_space c = ((9 \<le> code c \<and> code c \<le> (13 :: nat)) \<or> code c = (32 :: nat) \<or> code c = (160 :: nat))"

text \<open>\<open>toLowerCase\<close> of one code unit below 256 (215 is the multiplication sign).\<close>

definition lower_char :: "char \<Rightarrow> char" where
  "lower_char c = (let n = code c :: nat in
     if (65 \<le> n \<and> n \<le> 90) \<or> (192 \<le> n \<and> n \<le> 222 \<and> n \<noteq> 215) then char_of (n + 32) else c)"

definition toLowerCase :: "string \<Rightarrow> string" where
  "toLowerCase s = map lower_char s"

lemma length_toLowerCase [simp]: "length (toLowerCase s) = length s"
  by (simp add: toLowerCase_def)

lemma toLowerCase_append: "toLowerCase (s @ t) = toLowerCase s @ toLowerCase t"
  by (simp add: toLowerCase_def)

lemma of_char_less_256: "of_char (c :: char) < (256 :: nat)"
  by (metis of_char_mod_256 mod_less_divisor zero_less_numeral)

lemma of_char_lower_char:
  "of_char (lower_char c) = (let n = of_char c :: nat in
     if (65 \<le> n \<and> n \<le> 90) \<or> (192 \<le> n \<and> n \<le> 222 \<and> n \<noteq> 215) then n + 32 else n)"
  by (auto simp: lower_char_def Let_def of_char_of)

lemma lower_char_idem [simp]: "lower_char (lower_char c) = lower_char c"
proof -
  have "of_char (lower_char (lower_char c)) = (of_char (lower_char c) :: nat)"
    unfolding of_char_lower_char[of "lower_char c"] unfolding of_char_lower_char[of c]
    by (auto simp: Let_def)
  then show ?thesis by (metis char_of_char)
qed

lemma toLowerCase_idem [simp]: "toLowerCase (toLowerCase s) = toLowerCase s"
  by (simp add: toLowerCase_def)

section \<open>String primitives\<close>

text \<open>\<open>s.trim()\<close>\<close>

definition trim :: "string \<Rightarrow> string" where
  "trim s = rev (dropWhile is_space (rev (dropWhile is_space s)))"

lemma trim_no_space_ends:
  "s = [] \<or> (\<not> is_space (hd s) \<and> \<not> is_space (List.last s)) \<Longrightarrow> trim s = s"
  by (auto simp: trim_def dropWhile_eq_self_iff[THEN iffD2] hd_rev)

lemma trim_id: "list_all (\<lambda>c. \<not> is_space c) s \<Longrightarrow> trim s = s"
  by (rule trim_no_space_ends) (auto simp: list_all_iff)

lemma trim_eq_NilD: "trim s = [] \<Longrightarrow> \<forall>c \<in> set s. is_space c"
proof -
  assume "trim s = []"
  then have *: "\<forall>c \<in> set (dropWhile is_space s). is_space c"
    by (simp add: trim_def)
  have "dropWhile is_space s = []"
    using * by (metis hd_dropWhile hd_in_set)
  then show ?thesis by simp
qed

text \<open>\<open>s.split(c)\<close> for a separator of one character.\<close>

fun split_chr :: "char \<Rightarrow> string \<Rightarrow> string list" where
  "split_chr c [] = [[]]"
| "split_chr c (x # xs) =
     (if x = c then [] # split_chr c xs
      else (case split_chr c xs of [] \<Rightarrow> [[x]] | y # ys \<Rightarrow> (x # y) # ys))"

text \<open>\<open>parts.join(sep)\<close>\<close>

fun join :: "string \<Rightarrow> string list \<Rightarrow> string" where
  "join sep [] = []"
| "join sep [p] = p"
| "join sep (p # q # ps) = p @ sep @ join sep (q # ps)"

lemma split_chr_not_Nil [simp]: "split_chr c s \<noteq> []"
  by (cases s) (auto split: list.splits)

lemma split_chr_no_sep: "c \<notin> set s \<Longrightarrow> split_chr c s = [s]"
  by (induction s) auto

lemma split_chr_append_sep: "c \<notin> set s \<Longrightarrow> split_chr c (s @ c # t) = s # split_chr c t"
  by (induction s) auto

lemma split_join [js_simps]:
  "ps \<noteq> [] \<Longrightarrow> \<forall>p \<in> set ps. c \<notin> set p \<Longrightarrow> split_chr c (join [c] ps) = ps"
  by (induction "[c]" ps rule: join.induct) (auto simp: split_chr_no_sep split_chr_append_sep)

lemma join_split [js_simps]: "join [c] (split_chr c s) = s"
proof (induction s)
  case (Cons x xs)
  then show ?case
    by (cases "split_chr c xs"; cases "tl (split_chr c xs)") (auto split: list.splits)
qed simp

lemma split_parts_no_sep: "p \<in> set (split_chr c s) \<Longrightarrow> c \<notin> set p"
proof (induction s arbitrary: p)
  case (Cons x xs)
  then show ?case by (cases "split_chr c xs") (auto split: if_splits)
qed simp

lemma set_join: "set (join sep ps) \<subseteq> set sep \<union> (\<Union>p \<in> set ps. set p)"
  by (induction sep ps rule: join.induct) auto

lemma join_append:
  "ps \<noteq> [] \<Longrightarrow> qs \<noteq> [] \<Longrightarrow> join sep (ps @ qs) = join sep ps @ sep @ join sep qs"
proof (induction sep ps rule: join.induct)
  case (2 sep p)
  then show ?case by (cases qs) auto
qed auto

text \<open>\<open>s.includes(t)\<close>, \<open>s.endsWith(t)\<close>, and the index functions.\<close>

fun str_includes :: "string \<Rightarrow> string \<Rightarrow> bool" where
  "str_includes t [] = (t = [])"
| "str_includes t (x # xs) = (prefix t (x # xs) \<or> str_includes t xs)"

definition endsWith :: "string \<Rightarrow> string \<Rightarrow> bool" where
  "endsWith s t = suffix t s"

fun indexOf :: "string \<Rightarrow> string \<Rightarrow> nat option" where
  "indexOf t [] = (if t = [] then Some 0 else None)"
| "indexOf t (x # xs) = (if prefix t (x # xs) then Some 0 else map_option Suc (indexOf t xs))"

fun lastIndexOf :: "string \<Rightarrow> string \<Rightarrow> nat option" where
  "lastIndexOf t [] = (if t = [] then Some 0 else None)"
| "lastIndexOf t (x # xs) =
     (case lastIndexOf t xs of
        Some i \<Rightarrow> Some (Suc i)
      | None \<Rightarrow> if prefix t (x # xs) then Some 0 else None)"

lemma includes_iff_indexOf: "str_includes t s \<longleftrightarrow> indexOf t s \<noteq> None"
  by (induction s) auto

lemma indexOf_None_iff_lastIndexOf: "indexOf t s = None \<longleftrightarrow> lastIndexOf t s = None"
  by (induction s) (auto split: option.splits)

lemma includes_char_iff: "str_includes [c] s \<longleftrightarrow> c \<in> set s"
  by (induction s) (auto simp: prefix_Cons)

lemma indexOf_char_None_iff: "indexOf [c] s = None \<longleftrightarrow> c \<notin> set s"
  using includes_iff_indexOf includes_char_iff by metis

lemma lastIndexOf_char_append: "c \<notin> set t \<Longrightarrow> lastIndexOf [c] (s @ c # t) = Some (length s)"
proof -
  assume "c \<notin> set t"
  then have "lastIndexOf [c] t = None"
    using indexOf_char_None_iff indexOf_None_iff_lastIndexOf by metis
  then show ?thesis by (induction s) (auto simp: prefix_Cons)
qed

text \<open>\<open>s.split(sep)\<close> for a separator of any positive length.\<close>

function split_str :: "string \<Rightarrow> string \<Rightarrow> string \<Rightarrow> string list" where
  "split_str sep acc s =
     (case s of
        [] \<Rightarrow> [rev acc]
      | x # xs \<Rightarrow>
          if sep \<noteq> [] \<and> prefix sep s then rev acc # split_str sep [] (drop (length sep) s)
          else split_str sep (x # acc) xs)"
  by pat_completeness auto
termination
proof (relation "measure (\<lambda>(sep, acc, s). length s)")
  fix sep acc s x and xs :: string
  assume "s = x # xs" "sep \<noteq> [] \<and> prefix sep s"
  then show "((sep, [], drop (length sep) s), sep, acc, s) \<in> measure (\<lambda>(sep, acc, s). length s)"
    by (cases sep) auto
qed auto

declare split_str.simps [simp del]

text \<open>\<open>s.padStart(n, c)\<close>\<close>

definition padStart :: "nat \<Rightarrow> char \<Rightarrow> string \<Rightarrow> string" where
  "padStart n c s = replicate (n - length s) c @ s"

lemma length_padStart: "length s \<le> n \<Longrightarrow> length (padStart n c s) = n"
  by (simp add: padStart_def)

section \<open>Numbers and digit strings\<close>

text \<open>The value of a digit in bases up to 16, as \<open>parseInt(s, b)\<close> reads it.\<close>

definition digit_val :: "char \<Rightarrow> nat" where
  "digit_val c = (let n = code c in
     if 48 \<le> n \<and> n \<le> 57 then n - 48
     else if 97 \<le> n \<and> n \<le> 102 then n - 87
     else if 65 \<le> n \<and> n \<le> 70 then n - 55 else 0)"

definition digit_char :: "nat \<Rightarrow> char" where
  "digit_char d = char_of (if d < 10 then d + 48 else d + 87)"

definition of_digits :: "nat \<Rightarrow> string \<Rightarrow> nat" where
  "of_digits b s = foldl (\<lambda>a c. a * b + digit_val c) 0 s"

text \<open>\<open>n.toString(b)\<close>: the digits of a non-negative integer, most significant first.\<close>

fun to_digits :: "nat \<Rightarrow> nat \<Rightarrow> string" where
  "to_digits b n = (if b < 2 \<or> n < b then [digit_char n] else to_digits b (n div b) @ [digit_char (n mod b)])"

declare to_digits.simps [simp del]

abbreviation dec :: "nat \<Rightarrow> string" where
  "dec \<equiv> to_digits 10"

abbreviation hex :: "nat \<Rightarrow> string" where
  "hex \<equiv> to_digits 16"

lemma of_char_digit_char: "d < 16 \<Longrightarrow> of_char (digit_char d) = (if d < 10 then d + 48 else d + 87 :: nat)"
  by (simp add: digit_char_def of_char_of)

lemma digit_val_digit_char [js_chars]: "d < 16 \<Longrightarrow> digit_val (digit_char d) = d"
  by (auto simp: digit_val_def of_char_digit_char Let_def)

lemma digit_char_is_hex [js_chars]: "d < 16 \<Longrightarrow> is_hex_digit (digit_char d)"
  by (auto simp: is_hex_digit_def is_digit_def of_char_digit_char)

lemma digit_char_is_lower_hex [js_chars]: "d < 16 \<Longrightarrow> is_lower_hex (digit_char d)"
  by (auto simp: is_lower_hex_def is_digit_def of_char_digit_char)

lemma digit_char_is_digit [js_chars]: "d < 10 \<Longrightarrow> is_digit (digit_char d)"
  by (auto simp: is_digit_def of_char_digit_char)

lemma digit_char_less_iff: "d < 16 \<Longrightarrow> e < 16 \<Longrightarrow> digit_char d < digit_char e \<longleftrightarrow> d < e"
  by (auto simp: less_char_def of_char_digit_char)

lemma digit_char_eq_iff: "d < 16 \<Longrightarrow> e < 16 \<Longrightarrow> digit_char d = digit_char e \<longleftrightarrow> d = e"
  by (metis digit_val_digit_char)

lemma is_digit_is_hex [js_chars]: "is_digit c \<Longrightarrow> is_hex_digit c"
  by (simp add: is_hex_digit_def)

lemma is_hex_digit_not_special [js_chars]:
  "is_hex_digit c \<Longrightarrow> c \<noteq> CHR '':''"
  "is_hex_digit c \<Longrightarrow> c \<noteq> CHR ''.''"
  "is_hex_digit c \<Longrightarrow> c \<noteq> CHR ''/''"
  "is_hex_digit c \<Longrightarrow> c \<noteq> CHR ''%''"
  "is_hex_digit c \<Longrightarrow> \<not> is_space c"
  by (auto simp: is_hex_digit_def is_digit_def is_space_def)

lemma of_digits_Nil [simp]: "of_digits b [] = 0"
  by (simp add: of_digits_def)

lemma of_digits_snoc: "of_digits b (s @ [c]) = of_digits b s * b + digit_val c"
  by (simp add: of_digits_def)

lemma of_digits_append: "of_digits b (s @ t) = of_digits b s * b ^ length t + of_digits b t"
proof (induction t rule: rev_induct)
  case (snoc c t)
  have "of_digits b (s @ t @ [c]) = of_digits b (s @ t) * b + digit_val c"
    using of_digits_snoc[of b "s @ t" c] by simp
  then show ?case using snoc by (simp add: of_digits_snoc algebra_simps)
qed simp

lemma of_digits_replicate_0: "of_digits b (replicate n (CHR ''0'') @ s) = of_digits b s"
proof -
  have "of_digits b (replicate n (CHR ''0'')) = 0"
  proof (induction n)
    case (Suc n)
    have "replicate (Suc n) (CHR ''0'') = replicate n (CHR ''0'') @ ''0''"
      by (simp add: replicate_append_same)
    with Suc show ?case
      by (simp only: of_digits_snoc) (simp add: digit_val_def)
  qed simp
  then show ?thesis by (simp add: of_digits_append)
qed

lemma of_digits_to_digits [js_simps]:
  "2 \<le> b \<Longrightarrow> b \<le> 16 \<Longrightarrow> of_digits b (to_digits b n) = n"
proof (induction b n rule: to_digits.induct)
  case (1 b n)
  show ?case
  proof (cases "n < b")
    case True
    with "1.prems" show ?thesis
      by (subst to_digits.simps) (simp add: of_digits_def digit_val_digit_char)
  next
    case False
    moreover have "n mod b < 16"
      using "1.prems" mod_less_divisor[of b n] by linarith
    ultimately show ?thesis
      using 1 by (subst to_digits.simps) (simp add: of_digits_snoc digit_val_digit_char)
  qed
qed

lemma to_digits_not_Nil [simp]: "to_digits b n \<noteq> []"
  by (subst to_digits.simps) simp

lemma to_digits_chars: "b \<le> 16 \<Longrightarrow> 2 \<le> b \<Longrightarrow> list_all (\<lambda>c. \<exists>d < b. c = digit_char d) (to_digits b n)"
proof (induction b n rule: to_digits.induct)
  case (1 b n)
  have "\<exists>d < b. digit_char (n mod b) = digit_char d"
    using "1.prems" by (intro exI[of _ "n mod b"]) simp
  with 1 show ?case by (subst to_digits.simps) auto
qed

lemma hex_chars: "list_all is_hex_digit (hex n)"
  using to_digits_chars[of 16 n] by (auto simp: list_all_iff digit_char_is_hex)

lemma hex_lower_chars: "list_all is_lower_hex (hex n)"
  using to_digits_chars[of 16 n] by (auto simp: list_all_iff digit_char_is_lower_hex)

lemma dec_chars: "list_all is_digit (dec n)"
  using to_digits_chars[of 10 n] by (auto simp: list_all_iff digit_char_is_digit)

lemma dec_hex_chars: "list_all is_hex_digit (dec n)"
  using dec_chars by (auto simp: list_all_iff is_digit_is_hex)

lemma length_to_digits_le: "2 \<le> b \<Longrightarrow> n < b ^ k \<Longrightarrow> 0 < k \<Longrightarrow> length (to_digits b n) \<le> k"
proof (induction b n arbitrary: k rule: to_digits.induct)
  case (1 b n)
  show ?case
  proof (cases "n < b")
    case True
    with "1.prems" show ?thesis by (subst to_digits.simps) simp
  next
    case False
    with "1.prems" have "k \<noteq> 1" by auto
    with "1.prems" obtain k' where k': "k = Suc k'" "0 < k'" by (cases k) auto
    have "n div b < b ^ k'"
      using "1.prems" k' by (simp add: less_mult_imp_div_less mult.commute)
    then have "length (to_digits b (n div b)) \<le> k'"
      using "1.IH" "1.prems" False k' by simp
    with False k' show ?thesis
      by (subst to_digits.simps) simp
  qed
qed

lemma length_dec_le3: "n < 1000 \<Longrightarrow> length (dec n) \<le> 3"
  using length_to_digits_le[of 10 n 3] by simp

lemma length_hex_le4: "n < 65536 \<Longrightarrow> length (hex n) \<le> 4"
  using length_to_digits_le[of 16 n 4] by simp

lemma to_digits_inj: "2 \<le> b \<Longrightarrow> b \<le> 16 \<Longrightarrow> to_digits b m = to_digits b n \<longleftrightarrow> m = n"
  by (metis of_digits_to_digits)

lemma hex_eq_0_iff: "hex n = ''0'' \<longleftrightarrow> n = 0"
proof -
  have "hex 0 = ''0''" by code_simp
  then show ?thesis using to_digits_inj[of 16 n 0] by auto
qed

text \<open>The test \<open>/^\d+$/\<close>.\<close>

definition all_digits :: "string \<Rightarrow> bool" where
  "all_digits s = (s \<noteq> [] \<and> list_all is_digit s)"

lemma all_digits_dec [simp]: "all_digits (dec n)"
  by (simp add: all_digits_def dec_chars)

section \<open>Digits of a number in a power-of-two base\<close>

text \<open>
  The \<open>n\<close> base-\<open>b\<close> digits of a number, most significant first, and the Horner loop
  \<open>v = (v << k) + part\<close> that reads them back.
\<close>

definition groups_of :: "nat \<Rightarrow> nat \<Rightarrow> nat \<Rightarrow> nat list" where
  "groups_of b n v = map (\<lambda>k. v div b ^ k mod b) (rev [0..<n])"

lemma length_groups_of [simp]: "length (groups_of b n v) = n"
  by (simp add: groups_of_def)

lemma groups_of_Suc: "groups_of b (Suc n) v = (v div b ^ n mod b) # groups_of b n v"
  by (simp add: groups_of_def)

lemma groups_of_bound: "0 < b \<Longrightarrow> g \<in> set (groups_of b n v) \<Longrightarrow> g < b"
  by (auto simp: groups_of_def)

lemma horner_groups_of: "foldl (\<lambda>a g. a * b + g) a (groups_of b n v) = a * b ^ n + v mod b ^ n"
proof (induction n arbitrary: a)
  case 0
  then show ?case by (simp add: groups_of_def)
next
  case (Suc n)
  have "v mod b ^ Suc n = b ^ n * (v div b ^ n mod b) + v mod b ^ n"
    by (simp add: mod_mult2_eq mult.commute[of b])
  then show ?case using Suc by (simp add: groups_of_Suc algebra_simps)
qed

section \<open>Masks\<close>

text \<open>
  The BigInt expressions of the CIDR code, for an address of \<open>n\<close> bits with \<open>h\<close> host bits:
  \<open>all\<close> is \<open>mask n\<close>, the network mask \<open>(all << h) & all\<close>, and the host part
  \<open>all ^ mask\<close>.
\<close>

lemma netmask_and:
  fixes v :: nat
  assumes "v < 2 ^ n" and "h \<le> n"
  shows "v AND (push_bit h (mask n) AND mask n) = v div 2 ^ h * 2 ^ h"
proof -
  have "take_bit n v = v" using assms(1) by (simp add: take_bit_nat_eq_self_iff)
  then have v: "v = v AND mask n" by (simp add: take_bit_eq_mask)
  have "v AND (push_bit h (mask n) AND mask n) = push_bit h (drop_bit h v)"
    by (subst v, rule bit_eqI) (auto simp: bit_simps)
  then show ?thesis by (simp add: push_bit_eq_mult drop_bit_eq_div)
qed

lemma netmask_xor:
  assumes "h \<le> n"
  shows "mask n XOR (push_bit h (mask n) AND mask n) = (mask h :: nat)"
  by (rule bit_eqI) (use assms in \<open>auto simp: bit_simps\<close>)

lemma aligned_or_mask: "(k * 2 ^ h) OR mask h = k * 2 ^ h + (2 ^ h - 1 :: nat)"
proof -
  have "(k * 2 ^ h) AND mask h = (0 :: nat)"
    by (simp add: take_bit_eq_mask[symmetric] take_bit_eq_mod)
  then have "(k * 2 ^ h) OR mask h = k * 2 ^ h + (mask h :: nat)"
    by (simp add: disjunctive_add bit_and_iff bit_eq_iff)
  then show ?thesis by (simp add: mask_eq_exp_minus_1)
qed

section \<open>Powers of two\<close>

text \<open>The test \<open>(n & (n - 1)) === 0\<close> and the exponent \<open>n.toString(2).length - 1\<close>.\<close>

lemma power_of_two_test: "0 < n \<Longrightarrow> n AND (n - 1) = 0 \<Longrightarrow> \<exists>k. n = (2 ^ k :: nat)"
proof (induction n rule: less_induct)
  case (less n)
  show ?case
  proof (cases "even n")
    case True
    then obtain m where m: "n = 2 * m" "0 < m" using less.prems by auto
    have "m AND (m - 1) = 0"
    proof (rule bit_eqI)
      fix i
      have "\<not> (bit n (Suc i) \<and> bit (n - 1) (Suc i))"
        unfolding bit_and_iff[symmetric] less.prems(2) by simp
      moreover have "n - 1 = 2 * (m - 1) + 1" using m by simp
      ultimately have "\<not> (bit m i \<and> bit (m - 1) i)" by (simp add: bit_Suc m(1))
      then show "bit (m AND (m - 1)) i \<longleftrightarrow> bit 0 i" by (simp add: bit_and_iff)
    qed
    then obtain k where "m = 2 ^ k" using less.IH[of m] m by auto
    then show ?thesis using m by (intro exI[of _ "Suc k"]) simp
  next
    case False
    then obtain m where m: "n = 2 * m + 1" by (elim oddE)
    have "m = 0"
    proof (rule bit_eqI)
      fix i
      have "\<not> (bit n (Suc i) \<and> bit (n - 1) (Suc i))"
        unfolding bit_and_iff[symmetric] less.prems(2) by simp
      then show "bit m i \<longleftrightarrow> bit 0 i" by (simp add: bit_Suc m)
    qed
    then show ?thesis using m by (intro exI[of _ 0]) simp
  qed
qed

lemma power_of_two_and: "(2 ^ k) AND (2 ^ k - 1) = (0 :: nat)"
proof -
  have "(2 ^ k) AND (2 ^ k - 1) = take_bit k (2 ^ k :: nat)"
    by (simp add: take_bit_eq_mask mask_eq_exp_minus_1)
  then show ?thesis by (simp add: take_bit_eq_mod)
qed

lemma length_binary_power: "length (to_digits 2 (2 ^ k)) = Suc k"
proof (induction k)
  case 0
  then show ?case by (simp add: to_digits.simps)
next
  case (Suc k)
  then show ?case by (subst to_digits.simps) simp
qed

section \<open>Searching rows\<close>

lemma find_map: "find P (map f xs) = map_option f (find (P \<circ> f) xs)"
  by (induction xs) auto

lemma find_append: "find P (xs @ ys) = (case find P xs of Some x \<Rightarrow> Some x | None \<Rightarrow> find P ys)"
  by (induction xs) auto

lemma find_SomeD: "find P xs = Some x \<Longrightarrow> x \<in> set xs \<and> P x"
  by (auto simp: find_Some_iff)

lemma find_distinct:
  assumes "distinct (map k xs)" "x \<in> set xs" "P x" "\<And>y. y \<in> set xs \<Longrightarrow> P y \<Longrightarrow> k y = k x"
  shows "find P xs = Some x"
proof (cases "find P xs")
  case None
  then show ?thesis using assms(2,3) by (simp add: find_None_iff)
next
  case (Some y)
  then have "y \<in> set xs" "P y" by (auto dest: find_SomeD)
  then have "y = x" using assms by (meson inj_onD distinct_map)
  with Some show ?thesis by simp
qed

lemma filter_map_cond:
  "(\<And>r. Q (f r) = Q r) \<Longrightarrow> filter Q (map (\<lambda>r. if P r then f r else r) xs) = map (\<lambda>r. if P r then f r else r) (filter Q xs)"
  by (induction xs) auto

end
