(* ===== verification/Address.thy ===== *)
theory Address
  imports Prelude
begin

text \<open>
  The shared IPv4 and IPv6 address core, \<open>server/src/utils/address.js\<close>: parsing an address
  string to a number (\<open>parseV4\<close>, \<open>parseV6\<close>, \<open>parseIp\<close>), printing it back in the one
  canonical spelling (\<open>formatIp\<close>, RFC 5952 zero compression included), and the fixed-width
  sort key. The main facts are that printing and parsing are inverse to each other, that the
  canonical spelling is a fixed point, and that sort keys order addresses numerically.
\<close>

section \<open>Parsing\<close>

definition IPV4_BITS :: nat where "IPV4_BITS = 32"
definition IPV6_BITS :: nat where "IPV6_BITS = 128"

definition V4_OCTET_RE :: "string \<Rightarrow> bool" where
  "V4_OCTET_RE s = (1 \<le> length s \<and> length s \<le> 3 \<and> list_all is_digit s)"

definition V6_GROUP_RE :: "string \<Rightarrow> bool" where
  "V6_GROUP_RE s = (1 \<le> length s \<and> length s \<le> 4 \<and> list_all is_hex_digit s)"

text \<open>The loop of \<open>parseV4\<close> over the octets.\<close>

fun parseV4_octets :: "nat \<Rightarrow> string list \<Rightarrow> nat option" where
  "parseV4_octets v [] = Some v"
| "parseV4_octets v (octet # rest) =
     (if \<not> V4_OCTET_RE octet then None
      else let n = of_digits 10 octet in
        if n > 255 then None else parseV4_octets (push_bit 8 v + n) rest)"

definition parseV4 :: "string \<Rightarrow> nat option" where
  "parseV4 str =
     (let octets = split_chr (CHR ''.'') str in
      if length octets \<noteq> 4 then None else parseV4_octets 0 octets)"

text \<open>The loop of \<open>parseV6\<close> over the hextets.\<close>

fun parseV6_groups :: "nat \<Rightarrow> string list \<Rightarrow> nat option" where
  "parseV6_groups v [] = Some v"
| "parseV6_groups v (part # rest) =
     (if \<not> V6_GROUP_RE part then None
      else parseV6_groups (push_bit 16 v + of_digits 16 part) rest)"

text \<open>
  The trailing dotted quad: \<open>None\<close> rejects the address; otherwise the parts without the quad
  and the quad's value.
\<close>

definition parseV6_trailing ::
  "bool \<Rightarrow> bool \<Rightarrow> string list \<Rightarrow> string list \<Rightarrow> (string list \<times> nat option) option" where
  "parseV6_trailing embeddedV4 hasDoubleColon tailParts parts =
     (if parts \<noteq> [] \<and> CHR ''.'' \<in> set (last parts) then
        (if \<not> embeddedV4 then None
         else if hasDoubleColon \<and> tailParts = [] then None
         else (case parseV4 (last parts) of
                 None \<Rightarrow> None
               | Some v4 \<Rightarrow> Some (butlast parts, Some v4)))
      else Some (parts, None))"

text \<open>The two halves around \<open>::\<close>, each split into its groups.\<close>

definition parseV6_halves :: "string \<Rightarrow> bool \<times> string list \<times> string list" where
  "parseV6_halves str =
     (let hasDoubleColon = str_includes ''::'' str;
          pieces = (if hasDoubleColon then split_str ''::'' [] str else [str, []]);
          head = (case pieces of h # _ \<Rightarrow> h | [] \<Rightarrow> []);
          tail = (case pieces of _ # t # _ \<Rightarrow> t | _ \<Rightarrow> [])
      in (hasDoubleColon,
          if head \<noteq> [] then split_chr (CHR '':'') head else [],
          if tail \<noteq> [] then split_chr (CHR '':'') tail else []))"

text \<open>The zero groups \<open>::\<close> stands for; \<open>None\<close> when there is none left to fill.\<close>

definition parseV6_fill :: "bool \<Rightarrow> string list \<Rightarrow> nat \<Rightarrow> string list \<Rightarrow> string list option" where
  "parseV6_fill hasDoubleColon headParts groupCount parts =
     (if hasDoubleColon then
        (let fill = groupCount - length parts in
         if fill < 1 then None
         else Some (take (length headParts) parts @ replicate fill ''0''
                      @ drop (length headParts) parts))
      else Some parts)"

text \<open>The group count check, the loop over the groups and the trailing quad.\<close>

definition parseV6_value :: "nat option \<Rightarrow> nat \<Rightarrow> string list \<Rightarrow> nat option" where
  "parseV6_value trailing groupCount parts =
     (if length parts \<noteq> groupCount then None
      else case parseV6_groups 0 parts of
             None \<Rightarrow> None
           | Some v \<Rightarrow> Some (case trailing of None \<Rightarrow> v | Some q \<Rightarrow> push_bit 32 v + q))"

definition parseV6 :: "string \<Rightarrow> bool \<Rightarrow> nat option" where
  "parseV6 str embeddedV4 =
     (if indexOf ''::'' str \<noteq> lastIndexOf ''::'' str then None
      else case parseV6_halves str of (hasDoubleColon, headParts, tailParts) \<Rightarrow>
        let parts = (if hasDoubleColon then headParts @ tailParts else headParts)
        in case parseV6_trailing embeddedV4 hasDoubleColon tailParts parts of
             None \<Rightarrow> None
           | Some (parts1, trailing) \<Rightarrow>
               let groupCount = (if trailing = None then 8 else 6)
               in case parseV6_fill hasDoubleColon headParts groupCount parts1 of
                    None \<Rightarrow> None
                  | Some filled \<Rightarrow> parseV6_value trailing groupCount filled)"

definition V4_MAPPED_PREFIX :: nat where "V4_MAPPED_PREFIX = push_bit 32 0xffff"
definition V4_MAPPED_LAST :: nat where "V4_MAPPED_LAST = V4_MAPPED_PREFIX + 0xffffffff"
definition V4_MAPPED_MASK :: nat where "V4_MAPPED_MASK = push_bit 128 1 - push_bit 32 1"

record parsed_ip =
  ip_value :: nat
  ip_bits :: nat
  ip_zoneId :: "string option"

record ip_options =
  opt_zoneId :: bool
  opt_mapV4 :: bool
  opt_embeddedV4 :: bool

definition default_options :: ip_options where
  "default_options = \<lparr>opt_zoneId = True, opt_mapV4 = True, opt_embeddedV4 = True\<rparr>"

definition parseIp_with :: "ip_options \<Rightarrow> string \<Rightarrow> parsed_ip option" where
  "parseIp_with options str =
     (let s0 = trim str in
      if s0 = [] then None
      else
        let pct = indexOf ''%'' s0;
            zoneId = map_option (\<lambda>i. drop (i + 1) s0) pct;
            s = (case pct of None \<Rightarrow> s0 | Some i \<Rightarrow> take i s0)
        in if pct \<noteq> None \<and> (\<not> opt_zoneId options \<or> zoneId = Some []) then None
           else if CHR '':'' \<in> set s then
             (case parseV6 s (opt_embeddedV4 options \<or> opt_mapV4 options) of
                None \<Rightarrow> None
              | Some v \<Rightarrow>
                  if opt_mapV4 options \<and> v AND V4_MAPPED_MASK = V4_MAPPED_PREFIX
                  then Some \<lparr>ip_value = v AND 0xffffffff, ip_bits = IPV4_BITS, ip_zoneId = zoneId\<rparr>
                  else Some \<lparr>ip_value = v, ip_bits = IPV6_BITS, ip_zoneId = zoneId\<rparr>)
           else if zoneId \<noteq> None then None
           else (case parseV4 s of
                   None \<Rightarrow> None
                 | Some v \<Rightarrow> Some \<lparr>ip_value = v, ip_bits = IPV4_BITS, ip_zoneId = None\<rparr>))"

definition parseIp :: "string \<Rightarrow> parsed_ip option" where
  "parseIp str = parseIp_with default_options str"

definition addressFamily :: "string \<Rightarrow> nat option" where
  "addressFamily str =
     (case parseIp str of None \<Rightarrow> None
      | Some parsed \<Rightarrow> Some (if ip_bits parsed = IPV4_BITS then 4 else 6))"

definition isValidIp :: "string \<Rightarrow> bool" where
  "isValidIp str = (parseIp str \<noteq> None)"

definition isValidIpv6 :: "string \<Rightarrow> bool" where
  "isValidIpv6 str =
     (case parseIp str of None \<Rightarrow> False | Some parsed \<Rightarrow> ip_bits parsed = IPV6_BITS)"

section \<open>Printing\<close>

text \<open>The inner \<open>while\<close> and the outer \<open>for\<close> of the search for the longest zero run.\<close>

function zero_run_end :: "string list \<Rightarrow> nat \<Rightarrow> nat" where
  "zero_run_end groups j = (if j < 8 \<and> groups ! j = ''0'' then zero_run_end groups (Suc j) else j)"
  by pat_completeness auto
termination by (relation "measure (\<lambda>(groups, j). 8 - j)") auto

declare zero_run_end.simps [simp del]

lemma zero_run_end_le: "j \<le> zero_run_end groups j"
proof (induction groups j rule: zero_run_end.induct)
  case (1 groups j)
  then show ?case by (subst zero_run_end.simps) auto
qed

lemma zero_run_end_less: "i < 8 \<Longrightarrow> groups ! i = ''0'' \<Longrightarrow> i < zero_run_end groups i"
  using zero_run_end_le[of "Suc i" groups] by (subst zero_run_end.simps) simp

function best_zero_run :: "string list \<Rightarrow> nat \<Rightarrow> int \<Rightarrow> nat \<Rightarrow> int \<times> nat" where
  "best_zero_run groups i bestStart bestLen =
     (if i < 8 then
        (if groups ! i \<noteq> ''0'' then best_zero_run groups (Suc i) bestStart bestLen
         else
           let j = zero_run_end groups i in
             if j - i > bestLen then best_zero_run groups j (int i) (j - i)
             else best_zero_run groups j bestStart bestLen)
      else (bestStart, bestLen))"
  by pat_completeness auto
termination
  by (relation "measure (\<lambda>(groups, i, bestStart, bestLen). 8 - i)")
    (auto simp: zero_run_end_less diff_less_mono2)

declare best_zero_run.simps [simp del]

definition formatV6_groups :: "nat \<Rightarrow> string list" where
  "formatV6_groups value =
     map (\<lambda>shift. hex (drop_bit shift value AND 0xffff)) [112, 96, 80, 64, 48, 32, 16, 0]"

definition formatIp :: "nat \<Rightarrow> nat \<Rightarrow> string" where
  "formatIp value bits =
     (if bits = IPV4_BITS then
        join ''.'' (map (\<lambda>shift. dec (drop_bit shift value AND 0xff)) [24, 16, 8, 0])
      else
        let groups = formatV6_groups value;
            (bestStart, bestLen) = best_zero_run groups 0 (- 1) 0
        in if bestLen \<ge> 2 then
             join '':'' (take (nat bestStart) groups) @ ''::''
               @ join '':'' (drop (nat bestStart + bestLen) groups)
           else join '':'' groups)"

definition canonicalizeIp :: "string \<Rightarrow> string option" where
  "canonicalizeIp str =
     (case parseIp str of None \<Rightarrow> None
      | Some parsed \<Rightarrow> Some (formatIp (ip_value parsed) (ip_bits parsed)))"

definition sortKey :: "string \<Rightarrow> string option" where
  "sortKey str =
     (case parseIp str of None \<Rightarrow> None
      | Some parsed \<Rightarrow>
          Some ((if ip_bits parsed = IPV4_BITS then ''4'' else ''6'')
                  @ padStart 32 (CHR ''0'') (hex (ip_value parsed))))"

section \<open>Values and bounds of parsed addresses\<close>

lemma push_bit_horner: "push_bit k v + n = v * 2 ^ k + (n :: nat)"
  by (simp add: push_bit_eq_mult)

lemma parseV4_octets_bound: "parseV4_octets a os = Some v \<Longrightarrow> v < (a + 1) * 256 ^ length os"
proof (induction a os rule: parseV4_octets.induct)
  case (2 a octet rest)
  then have n: "of_digits 10 octet \<le> 255"
    and v: "v < (push_bit 8 a + of_digits 10 octet + 1) * 256 ^ length rest"
    by (auto simp: Let_def split: if_splits)
  have "push_bit 8 a + of_digits 10 octet + 1 \<le> (a + 1) * 256"
    using n by (simp add: push_bit_horner)
  then have "(push_bit 8 a + of_digits 10 octet + 1) * 256 ^ length rest
      \<le> (a + 1) * 256 * 256 ^ length rest"
    by (rule mult_right_mono) simp
  with v have "v < (a + 1) * 256 * 256 ^ length rest" by (rule less_le_trans)
  then show ?case by (simp only: mult.assoc power_Suc list.size(4) add_0_right Nat.add_Suc_right One_nat_def)
qed simp

lemma parseV4_bound: "parseV4 s = Some v \<Longrightarrow> v < 2 ^ 32"
  by (auto simp: parseV4_def Let_def split: if_splits dest: parseV4_octets_bound)

lemma hex_digit_val_bound: "is_hex_digit c \<Longrightarrow> digit_val c < 16"
  by (auto simp: is_hex_digit_def is_digit_def digit_val_def Let_def)

lemma of_digits_hex_bound: "list_all is_hex_digit s \<Longrightarrow> of_digits 16 s < 16 ^ length s"
proof (induction s rule: rev_induct)
  case (snoc c s)
  then have "of_digits 16 s + 1 \<le> 16 ^ length s" and "digit_val c < 16"
    by (auto simp: hex_digit_val_bound)
  then show ?case by (simp add: of_digits_snoc)
qed simp

lemma V6_GROUP_RE_bound: "V6_GROUP_RE p \<Longrightarrow> of_digits 16 p < 65536"
proof -
  assume p: "V6_GROUP_RE p"
  then have "of_digits 16 p < 16 ^ length p"
    by (simp add: V6_GROUP_RE_def of_digits_hex_bound)
  also have "\<dots> \<le> 16 ^ 4"
    using p by (intro power_increasing) (auto simp: V6_GROUP_RE_def)
  finally show ?thesis by simp
qed

lemma parseV6_groups_bound: "parseV6_groups a ps = Some v \<Longrightarrow> v < (a + 1) * 65536 ^ length ps"
proof (induction a ps rule: parseV6_groups.induct)
  case (2 a part rest)
  then have n: "of_digits 16 part < 65536"
    and v: "v < (push_bit 16 a + of_digits 16 part + 1) * 65536 ^ length rest"
    by (auto simp: V6_GROUP_RE_bound split: if_splits)
  have "push_bit 16 a + of_digits 16 part + 1 \<le> (a + 1) * 65536"
    using n by (simp add: push_bit_horner)
  then have "(push_bit 16 a + of_digits 16 part + 1) * 65536 ^ length rest
      \<le> (a + 1) * 65536 * 65536 ^ length rest"
    by (rule mult_right_mono) simp
  with v have "v < (a + 1) * 65536 * 65536 ^ length rest" by (rule less_le_trans)
  then show ?case by (simp only: mult.assoc power_Suc list.size(4) add_0_right Nat.add_Suc_right One_nat_def)
qed simp

lemma parseV6_trailing_bound:
  "parseV6_trailing e dc tps ps = Some (ps', Some q) \<Longrightarrow> q < 2 ^ 32"
  by (auto simp: parseV6_trailing_def split: if_splits option.splits dest: parseV4_bound)

lemma parseV6_value_bound:
  assumes "parseV6_value trailing (if trailing = None then 8 else 6) parts = Some v"
    and "\<And>q. trailing = Some q \<Longrightarrow> q < 2 ^ 32"
  shows "v < 2 ^ 128"
proof -
  obtain w where len: "length parts = (if trailing = None then 8 else 6)"
    and w: "parseV6_groups 0 parts = Some w"
    and v: "v = (case trailing of None \<Rightarrow> w | Some q \<Rightarrow> push_bit 32 w + q)"
    using assms(1) by (auto simp: parseV6_value_def split: if_splits option.splits)
  show ?thesis
  proof (cases trailing)
    case None
    with len v parseV6_groups_bound[OF w] show ?thesis by simp
  next
    case (Some q)
    moreover have "w < 65536 ^ 6" using parseV6_groups_bound[OF w] len Some by simp
    ultimately show ?thesis using v assms(2)[of q] by (simp add: push_bit_horner)
  qed
qed

lemma parseV6_bound:
  assumes "parseV6 s e = Some v"
  shows "v < 2 ^ 128"
proof -
  obtain dc hps tps where h: "parseV6_halves s = (dc, hps, tps)" by (cases "parseV6_halves s")
  define parts where "parts = (if dc then hps @ tps else hps)"
  obtain parts1 trailing filled where
    tr: "parseV6_trailing e dc tps parts = Some (parts1, trailing)" and
    v: "parseV6_value trailing (if trailing = None then 8 else 6) filled = Some v"
    using assms h unfolding parseV6_def Let_def parts_def
    by (simp split: if_split_asm option.split_asm prod.split_asm)
  show ?thesis
    by (rule parseV6_value_bound[OF v]) (use tr parseV6_trailing_bound in blast)
qed

text \<open>The IPv4-mapped block \<open>::ffff:0:0/96\<close>, as a range test.\<close>

definition is_v4_mapped :: "nat \<Rightarrow> bool" where
  "is_v4_mapped v = (V4_MAPPED_PREFIX \<le> v \<and> v \<le> V4_MAPPED_LAST)"

lemma V4_MAPPED_MASK_mask: "V4_MAPPED_MASK = push_bit 32 (mask 128) AND mask 128"
  by (simp add: V4_MAPPED_MASK_def mask_eq_exp_minus_1 push_bit_eq_mult)

lemma v4_mapped_mask_iff:
  assumes "v < 2 ^ 128"
  shows "v AND V4_MAPPED_MASK = V4_MAPPED_PREFIX \<longleftrightarrow> is_v4_mapped v"
proof -
  have "v AND V4_MAPPED_MASK = v div 2 ^ 32 * 2 ^ 32"
    unfolding V4_MAPPED_MASK_mask by (rule netmask_and) (use assms in simp_all)
  then show ?thesis
    by (auto simp: is_v4_mapped_def V4_MAPPED_PREFIX_def V4_MAPPED_LAST_def push_bit_eq_mult)
qed

text \<open>What every parsed address satisfies: it fits its family, and is not a folded one.\<close>

definition valid_addr :: "nat \<Rightarrow> nat \<Rightarrow> bool" where
  "valid_addr v b = (b = 32 \<and> v < 2 ^ 32 \<or> b = 128 \<and> v < 2 ^ 128 \<and> \<not> is_v4_mapped v)"

lemma and_ffffffff_bound: "v AND 0xffffffff < (2 ^ 32 :: nat)"
proof -
  have "(0xffffffff :: nat) = mask 32" by (simp add: mask_eq_exp_minus_1)
  then have "v AND 0xffffffff = take_bit 32 v" by (simp add: take_bit_eq_mask)
  then show ?thesis by (simp only: take_bit_nat_less_exp)
qed

lemma parseIp_with_mapV4_valid:
  "opt_mapV4 options \<Longrightarrow> parseIp_with options s = Some p \<Longrightarrow> valid_addr (ip_value p) (ip_bits p)"
proof -
  assume map: "opt_mapV4 options" and p: "parseIp_with options s = Some p"
  have "(\<exists>w e v. parseV6 w e = Some v \<and> (v AND V4_MAPPED_MASK = V4_MAPPED_PREFIX \<and>
          ip_value p = v AND 0xffffffff \<and> ip_bits p = 32
        \<or> v AND V4_MAPPED_MASK \<noteq> V4_MAPPED_PREFIX \<and> ip_value p = v \<and> ip_bits p = 128))
      \<or> (\<exists>w. parseV4 w = Some (ip_value p) \<and> ip_bits p = 32)"
    using p map unfolding parseIp_with_def Let_def IPV4_BITS_def IPV6_BITS_def
    by (simp only: split: if_split_asm option.split_asm) (simp_all, (metis parsed_ip.select_convs)+)
  then show ?thesis
    using and_ffffffff_bound parseV6_bound parseV4_bound v4_mapped_mask_iff
    unfolding valid_addr_def by metis
qed

lemma parseIp_valid: "parseIp s = Some p \<Longrightarrow> valid_addr (ip_value p) (ip_bits p)"
  unfolding parseIp_def by (rule parseIp_with_mapV4_valid) (simp_all add: default_options_def)

section \<open>Round trip: IPv4\<close>

lemma and_mask_div: "drop_bit k v AND mask m = v div 2 ^ k mod (2 ^ m :: nat)"
  by (simp add: take_bit_eq_mask[symmetric] take_bit_eq_mod drop_bit_eq_div)

lemma mask_8_16: "(0xff :: nat) = mask 8" "(0xffff :: nat) = mask 16"
  by (simp_all add: mask_eq_exp_minus_1)

lemma rev_upt_4_8: "rev [0..<4] = [3, 2, 1, 0 :: nat]" "rev [0..<8] = [7, 6, 5, 4, 3, 2, 1, 0 :: nat]"
  by code_simp+

lemma formatIp_v4: "formatIp v 32 = join ''.'' (map dec (groups_of 256 4 v))"
proof -
  have "map (\<lambda>shift. dec (drop_bit shift v AND 0xff)) [24, 16, 8, 0] = map dec (groups_of 256 4 v)"
    unfolding mask_8_16 and_mask_div groups_of_def rev_upt_4_8 by simp
  then show ?thesis by (simp only: formatIp_def IPV4_BITS_def if_True refl)
qed

lemma formatV6_groups_eq: "formatV6_groups v = map hex (groups_of 65536 8 v)"
  unfolding formatV6_groups_def mask_8_16 and_mask_div groups_of_def rev_upt_4_8 by simp

lemma V4_OCTET_RE_dec: "n < 256 \<Longrightarrow> V4_OCTET_RE (dec n)"
  using length_dec_le3[of n] by (simp add: V4_OCTET_RE_def dec_chars Suc_le_eq)

lemma V6_GROUP_RE_hex: "n < 65536 \<Longrightarrow> V6_GROUP_RE (hex n)"
  using length_hex_le4[of n] by (simp add: V6_GROUP_RE_def hex_chars Suc_le_eq)

lemma parseV4_octets_dec:
  "\<forall>g \<in> set gs. g < 256 \<Longrightarrow> parseV4_octets a (map dec gs) = Some (foldl (\<lambda>a g. a * 256 + g) a gs)"
  by (induction gs arbitrary: a)
    (auto simp: V4_OCTET_RE_dec of_digits_to_digits push_bit_horner Let_def)

lemma parseV6_groups_hex:
  "\<forall>g \<in> set gs. g < 65536 \<Longrightarrow>
   parseV6_groups a (map hex gs) = Some (foldl (\<lambda>a g. a * 65536 + g) a gs)"
  by (induction gs arbitrary: a) (auto simp: V6_GROUP_RE_hex of_digits_to_digits push_bit_horner)

lemma dec_no_special: "c \<in> set (dec n) \<Longrightarrow> c \<noteq> CHR ''.'' \<and> c \<noteq> CHR '':'' \<and> c \<noteq> CHR ''%'' \<and> c \<noteq> CHR ''/'' \<and> \<not> is_space c"
  using dec_hex_chars[of n] by (auto simp: list_all_iff js_chars)

lemma hex_no_special: "c \<in> set (hex n) \<Longrightarrow> c \<noteq> CHR ''.'' \<and> c \<noteq> CHR '':'' \<and> c \<noteq> CHR ''%'' \<and> c \<noteq> CHR ''/'' \<and> \<not> is_space c"
  using hex_chars[of n] by (auto simp: list_all_iff js_chars)

lemma parseV4_format:
  assumes "v < 2 ^ 32"
  shows "parseV4 (formatIp v 32) = Some v"
proof -
  have split: "split_chr (CHR ''.'') (formatIp v 32) = map dec (groups_of 256 4 v)"
    unfolding formatIp_v4 by (rule split_join) (use dec_no_special in \<open>force simp: groups_of_def\<close>)+
  have "parseV4_octets 0 (map dec (groups_of 256 4 v)) = Some (v mod 256 ^ 4)"
    by (subst parseV4_octets_dec) (auto simp: groups_of_bound horner_groups_of)
  with split assms show ?thesis by (simp add: parseV4_def)
qed

text \<open>Characters of a printed address: nothing that \<open>parseIp\<close> treats specially.\<close>

definition addr_char :: "char \<Rightarrow> bool" where
  "addr_char c = (is_hex_digit c \<or> c = CHR ''.'' \<or> c = CHR '':'')"

lemma addr_char_not_special:
  "addr_char c \<Longrightarrow> c \<noteq> CHR ''%''" "addr_char c \<Longrightarrow> c \<noteq> CHR ''/''" "addr_char c \<Longrightarrow> \<not> is_space c"
  by (auto simp: addr_char_def is_space_def is_hex_digit_def is_digit_def)

lemma list_all_join:
  "list_all P sep \<Longrightarrow> \<forall>p \<in> set ps. list_all P p \<Longrightarrow> list_all P (join sep ps)"
  using set_join[of sep ps] by (auto simp: list_all_iff)

lemma formatIp_chars: "list_all addr_char (formatIp v b)"
proof -
  have g: "\<forall>p \<in> set (formatV6_groups v). list_all addr_char p"
    using hex_chars by (auto simp: formatV6_groups_eq list_all_iff addr_char_def)
  then have t: "\<forall>p \<in> set (take n (formatV6_groups v)). list_all addr_char p"
    and d: "\<forall>p \<in> set (drop n (formatV6_groups v)). list_all addr_char p" for n
    by (meson in_set_takeD, meson in_set_dropD)
  have d4: "list_all addr_char (dec n)" for n
    using dec_hex_chars[of n] by (auto simp: list_all_iff addr_char_def)
  have "list_all addr_char ''.''" "list_all addr_char '':''" "list_all addr_char ''::''"
    by (simp_all add: addr_char_def)
  then show ?thesis
    using g t d d4 by (auto simp: formatIp_def Let_def split: prod.splits intro!: list_all_join)
qed

lemma formatIp_v4_no_colon: "CHR '':'' \<notin> set (formatIp v 32)"
  using set_join[of "''.''" "map dec (groups_of 256 4 v)"] dec_no_special
  by (auto simp: formatIp_v4)

lemma printed_address_plain:
  assumes "list_all addr_char s"
  shows "trim s = s" "indexOf ''%'' s = None"
proof -
  have "list_all (\<lambda>c. \<not> is_space c) s"
    using assms addr_char_not_special(3) by (auto simp: list_all_iff)
  then show "trim s = s" by (rule trim_id)
  show "indexOf ''%'' s = None"
    using assms addr_char_not_special(1) by (auto simp: list_all_iff indexOf_char_None_iff)
qed

lemma formatIp_v4_not_Nil: "formatIp v 32 \<noteq> []"
proof -
  have "length (split_chr (CHR ''.'') (formatIp v 32)) = 4"
    unfolding formatIp_v4 by (subst split_join) (use dec_no_special in \<open>force simp: groups_of_def\<close>)+
  then show ?thesis by auto
qed

section \<open>The longest zero run\<close>

definition zeros :: "string list \<Rightarrow> nat \<Rightarrow> nat \<Rightarrow> bool" where
  "zeros g a b = (\<forall>k. a \<le> k \<and> k < b \<longrightarrow> g ! k = ''0'')"

lemma zero_run_end_zeros: "zeros g i (zero_run_end g i)"
proof (induction g i rule: zero_run_end.induct)
  case (1 g j)
  show ?case
  proof (cases "j < 8 \<and> g ! j = ''0''")
    case True
    with 1 have "zeros g (Suc j) (zero_run_end g (Suc j))" by simp
    with True show ?thesis
      by (subst zero_run_end.simps) (auto simp: zeros_def, metis Suc_leI order_le_imp_less_or_eq)
  next
    case False
    then show ?thesis by (subst zero_run_end.simps) (auto simp: zeros_def)
  qed
qed

lemma zero_run_end_stop:
  "i \<le> 8 \<Longrightarrow> zero_run_end g i \<le> 8 \<and> (zero_run_end g i < 8 \<longrightarrow> g ! zero_run_end g i \<noteq> ''0'')"
proof (induction g i rule: zero_run_end.induct)
  case (1 g j)
  show ?case
  proof (cases "j < 8 \<and> g ! j = ''0''")
    case True
    moreover have "zero_run_end g j = zero_run_end g (Suc j)"
      using True by (subst zero_run_end.simps) simp
    ultimately show ?thesis using 1 by simp
  next
    case False
    then have "zero_run_end g j = j" by (subst zero_run_end.simps) auto
    with False "1.prems" show ?thesis by auto
  qed
qed

text \<open>
  The invariant of the outer loop at index \<open>i\<close>: the best run so far is a zero run, it is the
  longest and leftmost of the runs that end by \<open>i\<close>, and no run crosses \<open>i\<close>.
\<close>

definition run_inv :: "string list \<Rightarrow> nat \<Rightarrow> int \<Rightarrow> nat \<Rightarrow> bool" where
  "run_inv g i bs bl =
     (i \<le> 8 \<and> bs \<le> int i
      \<and> (0 < bl \<longrightarrow> 0 \<le> bs \<and> nat bs + bl \<le> i \<and> zeros g (nat bs) (nat bs + bl))
      \<and> (\<forall>a b. a < b \<and> b \<le> i \<and> zeros g a b \<longrightarrow> b - a \<le> bl \<and> (b - a = bl \<longrightarrow> bs \<le> int a))
      \<and> (\<forall>a b. a < i \<and> i < b \<and> b \<le> 8 \<longrightarrow> \<not> zeros g a b))"

lemma run_inv_nonzero:
  assumes "run_inv g i bs bl" and "i < 8" and nz: "g ! i \<noteq> ''0''"
  shows "run_inv g (Suc i) bs bl"
proof -
  have "b - a \<le> bl \<and> (b - a = bl \<longrightarrow> bs \<le> int a)" if "a < b" "b \<le> Suc i" "zeros g a b" for a b
  proof -
    have "b \<noteq> Suc i" using nz that by (auto simp: zeros_def)
    with that have "b \<le> i" by simp
    with that assms(1) show ?thesis unfolding run_inv_def by blast
  qed
  moreover have "\<not> zeros g a b" if "a < Suc i" "Suc i < b" for a b
    using nz that unfolding zeros_def by (intro notI) (drule spec[of _ i], simp)
  ultimately show ?thesis using assms(1,2) by (auto simp: run_inv_def)
qed

lemma run_inv_zero:
  assumes inv: "run_inv g i bs bl" and i: "i < 8" and z: "g ! i = ''0''"
  defines "j \<equiv> zero_run_end g i"
  shows "run_inv g j (if j - i > bl then int i else bs) (if j - i > bl then j - i else bl)"
proof -
  have j: "i < j" "j \<le> 8" "j < 8 \<Longrightarrow> g ! j \<noteq> ''0''" "zeros g i j"
    using i z zero_run_end_less zero_run_end_stop[of i g] zero_run_end_zeros by (auto simp: j_def)
  have old: "b \<le> i \<or> i \<le> a" if "a < b" "b \<le> j" "zeros g a b" for a b
    using inv that j(2) unfolding run_inv_def by (meson le_trans not_le)
  have *: "b - a \<le> (if j - i > bl then j - i else bl)
      \<and> (b - a = (if j - i > bl then j - i else bl)
          \<longrightarrow> (if j - i > bl then int i else bs) \<le> int a)"
    if "a < b" "b \<le> j" "zeros g a b" for a b
  proof (cases "b \<le> i")
    case True
    then have "b - a \<le> bl \<and> (b - a = bl \<longrightarrow> bs \<le> int a)"
      using inv that unfolding run_inv_def by blast
    then show ?thesis by auto
  next
    case False
    then have "i \<le> a" using old that by auto
    moreover have "bs \<le> int i" using inv by (simp add: run_inv_def)
    ultimately show ?thesis using that by auto
  qed
  have "\<not> zeros g a b" if "a < j" "j < b" "b \<le> 8" for a b
    using j that by (auto simp: zeros_def)
  then show ?thesis using inv j i * by (auto simp: run_inv_def)
qed

lemma best_zero_run_inv:
  "run_inv g i bs bl \<Longrightarrow> best_zero_run g i bs bl = (s, l) \<Longrightarrow> run_inv g 8 s l"
proof (induction g i bs bl rule: best_zero_run.induct)
  case (1 g i bs bl)
  note eq = best_zero_run.simps[of g i bs bl]
  consider "\<not> i < 8" | "i < 8" "g ! i \<noteq> ''0''" | "i < 8" "g ! i = ''0''" by blast
  then show ?case
  proof cases
    case 1
    then have "i = 8" using "1.prems"(1) by (auto simp: run_inv_def)
    with "1.prems" eq show ?thesis by simp
  next
    case 2
    with "1.prems" eq "1.IH"(1) run_inv_nonzero show ?thesis by simp
  next
    case 3
    let ?j = "zero_run_end g i"
    note inv = run_inv_zero[OF "1.prems"(1) 3]
    show ?thesis
    proof (cases "?j - i > bl")
      case True
      with eq 3 "1.prems"(2) have "best_zero_run g ?j (int i) (?j - i) = (s, l)"
        by (simp add: Let_def)
      with "1.IH"(2)[of ?j] 3 True inv show ?thesis by simp
    next
      case False
      with eq 3 "1.prems"(2) have "best_zero_run g ?j bs bl = (s, l)"
        by (simp add: Let_def)
      with "1.IH"(3)[of ?j] 3 False inv show ?thesis by simp
    qed
  qed
qed

lemma best_zero_run_spec: "best_zero_run g 0 (- 1) 0 = (s, l) \<Longrightarrow> run_inv g 8 s l"
  by (rule best_zero_run_inv) (auto simp: run_inv_def)

section \<open>Round trip: IPv6\<close>

lemma prefix_dc_iff: "prefix ''::'' s \<longleftrightarrow> (\<exists>t. s = CHR '':'' # CHR '':'' # t)"
  by (auto simp: prefix_def)

text \<open>A half of a compressed address: no \<open>::\<close> inside and no colon at either end.\<close>

definition plain_half :: "string \<Rightarrow> bool" where
  "plain_half s = (\<not> str_includes ''::'' s
     \<and> (s \<noteq> [] \<longrightarrow> hd s \<noteq> CHR '':'' \<and> last s \<noteq> CHR '':''))"

lemma str_includes_dc_append_no_colon:
  "CHR '':'' \<notin> set p \<Longrightarrow> str_includes ''::'' (p @ s) = str_includes ''::'' s"
  by (induction p) (auto simp: prefix_dc_iff)

lemma plain_half_Nil: "plain_half []"
  by (simp add: plain_half_def)

lemma plain_half_part: "CHR '':'' \<notin> set p \<Longrightarrow> p \<noteq> [] \<Longrightarrow> plain_half p"
  using str_includes_dc_append_no_colon[of p "[]"]
  by (auto simp: plain_half_def) (metis hd_in_set, metis last_in_set)

lemma plain_half_join:
  "\<forall>p \<in> set ps. p \<noteq> [] \<and> CHR '':'' \<notin> set p \<Longrightarrow> plain_half (join '':'' ps) \<and> (ps \<noteq> [] \<longrightarrow> join '':'' ps \<noteq> [])"
proof (induction "'':''" ps rule: join.induct)
  case (3 p q ps)
  let ?r = "join '':'' (q # ps)"
  have r: "plain_half ?r" "?r \<noteq> []" and p: "p \<noteq> []" "CHR '':'' \<notin> set p"
    using 3 by auto
  have "\<not> str_includes ''::'' (p @ CHR '':'' # ?r)"
    using p r by (cases ?r) (auto simp: str_includes_dc_append_no_colon plain_half_def prefix_dc_iff)
  moreover have "hd p \<noteq> CHR '':''" using p by (metis hd_in_set)
  ultimately show ?case using p r by (auto simp: plain_half_def)
qed (auto simp: plain_half_Nil plain_half_part)

lemma no_dc_before:
  assumes "\<not> str_includes ''::'' (x # h)" and "last (x # h) \<noteq> CHR '':''"
  shows "\<not> prefix ''::'' (x # h @ t)"
  using assms by (cases h) (auto simp: prefix_dc_iff)

lemma indexOf_dc:
  "\<not> str_includes ''::'' h \<Longrightarrow> h \<noteq> [] \<longrightarrow> last h \<noteq> CHR '':'' \<Longrightarrow>
   indexOf ''::'' (h @ ''::'' @ t) = Some (length h)"
proof (induction h)
  case (Cons x h)
  then have "\<not> prefix ''::'' (x # h @ ''::'' @ t)" by (intro no_dc_before) auto
  moreover have "indexOf ''::'' (h @ ''::'' @ t) = Some (length h)"
    using Cons.prems by (intro Cons.IH) auto
  ultimately show ?case by simp
qed (simp add: prefix_dc_iff)

lemma lastIndexOf_dc:
  assumes "plain_half t"
  shows "lastIndexOf ''::'' (h @ ''::'' @ t) = Some (length h)"
proof -
  have "lastIndexOf ''::'' t = None"
    using assms includes_iff_indexOf indexOf_None_iff_lastIndexOf by (auto simp: plain_half_def)
  then have "lastIndexOf ''::'' (CHR '':'' # t) = None"
    using assms by (cases t) (auto simp: plain_half_def prefix_dc_iff)
  then have "lastIndexOf ''::'' (''::'' @ t) = Some 0" by (simp add: prefix_dc_iff)
  then show ?thesis by (induction h) auto
qed

lemma split_str_none: "\<not> str_includes ''::'' t \<Longrightarrow> split_str ''::'' acc t = [rev acc @ t]"
proof (induction t arbitrary: acc)
  case (Cons x t)
  then show ?case by (subst split_str.simps) auto
qed (simp add: split_str.simps)

lemma split_str_dc:
  "\<not> str_includes ''::'' h \<Longrightarrow> h \<noteq> [] \<longrightarrow> last h \<noteq> CHR '':'' \<Longrightarrow>
   split_str ''::'' acc (h @ ''::'' @ t) = (rev acc @ h) # split_str ''::'' [] t"
proof (induction h arbitrary: acc)
  case (Cons x h)
  then have "\<not> prefix ''::'' (x # h @ ''::'' @ t)" by (intro no_dc_before) auto
  moreover have "split_str ''::'' (x # acc) (h @ ''::'' @ t) = (rev (x # acc) @ h) # split_str ''::'' [] t"
    using Cons.prems by (intro Cons.IH) auto
  ultimately show ?case by (subst split_str.simps) simp
qed (subst split_str.simps, simp add: prefix_dc_iff)

lemma half_groups:
  "\<forall>p \<in> set ps. p \<noteq> [] \<and> CHR '':'' \<notin> set p \<Longrightarrow>
   (if join '':'' ps \<noteq> [] then split_chr (CHR '':'') (join '':'' ps) else []) = ps"
  using plain_half_join[of ps] split_join[of ps "CHR '':''"] by (cases "ps = []") auto

lemma parseV6_halves_dc:
  assumes h: "plain_half (join '':'' hs)" and t: "plain_half (join '':'' ts)"
    and parts: "\<forall>p \<in> set hs \<union> set ts. p \<noteq> [] \<and> CHR '':'' \<notin> set p"
  shows "parseV6_halves (join '':'' hs @ ''::'' @ join '':'' ts) = (True, hs, ts)"
proof -
  let ?s = "join '':'' hs @ ''::'' @ join '':'' ts"
  have "split_str ''::'' [] ?s = [join '':'' hs, join '':'' ts]"
    using h t by (subst split_str_dc) (auto simp: plain_half_def split_str_none)
  moreover have "str_includes ''::'' ?s"
    using indexOf_dc[of "join '':'' hs" "join '':'' ts"] h includes_iff_indexOf[of "''::''" ?s]
    by (auto simp: plain_half_def)
  ultimately have "parseV6_halves ?s =
      (True, if join '':'' hs \<noteq> [] then split_chr (CHR '':'') (join '':'' hs) else [],
        if join '':'' ts \<noteq> [] then split_chr (CHR '':'') (join '':'' ts) else [])"
    by (simp only: parseV6_halves_def Let_def if_True list.case)
  then show ?thesis using parts half_groups[of hs] half_groups[of ts] by simp
qed

lemma parseV6_halves_plain:
  assumes parts: "\<forall>p \<in> set ps. p \<noteq> [] \<and> CHR '':'' \<notin> set p" and "ps \<noteq> []"
  shows "parseV6_halves (join '':'' ps) = (False, ps, [])"
  using plain_half_join[OF parts] split_join[of ps "CHR '':''"] assms
  by (simp add: parseV6_halves_def Let_def plain_half_def)

text \<open>Parsing a compressed or full list of hextets gives the value of the eight groups.\<close>

lemma parseV6_trailing_no_dot:
  "\<forall>p \<in> set ps. CHR ''.'' \<notin> set p \<Longrightarrow> parseV6_trailing e dc ts ps = Some (ps, None)"
  by (auto simp: parseV6_trailing_def)

lemma parseV6_hextets_dc:
  assumes gs: "\<forall>g \<in> set (hs @ ts). g < 65536" and len: "length hs + length ts < 8"
  shows "parseV6 (join '':'' (map hex hs) @ ''::'' @ join '':'' (map hex ts)) e
    = Some (foldl (\<lambda>a g. a * 65536 + g) 0 (hs @ replicate (8 - length hs - length ts) 0 @ ts))"
proof -
  let ?fill = "8 - length hs - length ts"
  let ?s = "join '':'' (map hex hs) @ ''::'' @ join '':'' (map hex ts)"
  have parts: "\<forall>p \<in> set (map hex hs) \<union> set (map hex ts). p \<noteq> [] \<and> CHR '':'' \<notin> set p"
    using hex_no_special by force
  have plain: "plain_half (join '':'' (map hex hs))" "plain_half (join '':'' (map hex ts))"
    using parts plain_half_join by (meson UnI1 UnI2)+
  have idx: "indexOf ''::'' ?s = lastIndexOf ''::'' ?s"
    using plain indexOf_dc[of "join '':'' (map hex hs)"] lastIndexOf_dc[OF plain(2)]
    by (simp add: plain_half_def)
  have tr: "parseV6_trailing e True (map hex ts) (map hex hs @ map hex ts)
      = Some (map hex hs @ map hex ts, None)"
    by (rule parseV6_trailing_no_dot) (use hex_no_special in force)
  have fill: "parseV6_fill True (map hex hs) 8 (map hex hs @ map hex ts)
      = Some (map hex (hs @ replicate ?fill 0 @ ts))"
    using len hex_eq_0_iff[of 0] by (simp add: parseV6_fill_def Let_def)
  have "parseV6_groups 0 (map hex (hs @ replicate ?fill 0 @ ts))
      = Some (foldl (\<lambda>a g. a * 65536 + g) 0 (hs @ replicate ?fill 0 @ ts))"
    by (rule parseV6_groups_hex) (use gs in auto)
  then have "parseV6_value None 8 (map hex (hs @ replicate ?fill 0 @ ts))
      = Some (foldl (\<lambda>a g. a * 65536 + g) 0 (hs @ replicate ?fill 0 @ ts))"
    using len by (simp add: parseV6_value_def del: map_append foldl_append)
  then show ?thesis
    using idx parseV6_halves_dc[OF plain parts] tr fill
    by (simp add: parseV6_def Let_def del: map_append foldl_append)
qed

lemma parseV6_hextets_plain:
  assumes gs: "\<forall>g \<in> set gs. g < 65536" and len: "length gs = 8"
  shows "parseV6 (join '':'' (map hex gs)) e = Some (foldl (\<lambda>a g. a * 65536 + g) 0 gs)"
proof -
  let ?s = "join '':'' (map hex gs)"
  have parts: "\<forall>p \<in> set (map hex gs). p \<noteq> [] \<and> CHR '':'' \<notin> set p"
    using hex_no_special by force
  have "gs \<noteq> []" using len by auto
  then have halves: "parseV6_halves ?s = (False, map hex gs, [])"
    using parts by (intro parseV6_halves_plain) auto
  have "\<not> str_includes ''::'' ?s"
    using plain_half_join[OF parts] by (simp add: plain_half_def)
  then have idx: "indexOf ''::'' ?s = lastIndexOf ''::'' ?s"
    using includes_iff_indexOf indexOf_None_iff_lastIndexOf by metis
  have tr: "parseV6_trailing e False [] (map hex gs) = Some (map hex gs, None)"
    by (rule parseV6_trailing_no_dot) (use hex_no_special in force)
  show ?thesis
    using idx halves tr len parseV6_groups_hex[OF gs]
    by (simp add: parseV6_def Let_def parseV6_fill_def parseV6_value_def)
qed

lemma zeros_middle:
  assumes "zeros (map hex gs) a b" and "a \<le> b" and "b \<le> length gs"
  shows "gs = take a gs @ replicate (b - a) 0 @ drop b gs"
proof (rule nth_equalityI)
  show "length gs = length (take a gs @ replicate (b - a) 0 @ drop b gs)"
    using assms by simp
  have z: "gs ! k = 0" if "a \<le> k" "k < b" for k
    using that assms hex_eq_0_iff[of "gs ! k"] by (auto simp: zeros_def)
  show "gs ! k = (take a gs @ replicate (b - a) 0 @ drop b gs) ! k" if "k < length gs" for k
    using that assms z by (auto simp: nth_append)
qed

lemma formatIp_v6_cases:
  obtains s l where "formatIp v 128 = join '':'' (map hex (take s (groups_of 65536 8 v))) @ ''::''
      @ join '':'' (map hex (drop (s + l) (groups_of 65536 8 v)))"
    "2 \<le> l" "s + l \<le> 8" "zeros (map hex (groups_of 65536 8 v)) s (s + l)"
  | "formatIp v 128 = join '':'' (map hex (groups_of 65536 8 v))"
proof -
  let ?g = "groups_of 65536 8 v"
  obtain s l where r: "best_zero_run (map hex ?g) 0 (- 1) 0 = (s, l)" by force
  have inv: "run_inv (map hex ?g) 8 s l" by (rule best_zero_run_spec[OF r])
  show ?thesis
  proof (cases "2 \<le> l")
    case True
    then have "formatIp v 128 = join '':'' (map hex (take (nat s) ?g)) @ ''::''
        @ join '':'' (map hex (drop (nat s + l) ?g))"
      using r by (simp add: formatIp_def IPV4_BITS_def formatV6_groups_eq take_map drop_map)
    then show ?thesis using True inv that(1) by (auto simp: run_inv_def)
  next
    case False
    then have "formatIp v 128 = join '':'' (map hex ?g)"
      using r by (simp add: formatIp_def IPV4_BITS_def formatV6_groups_eq)
    then show ?thesis by (rule that(2))
  qed
qed

lemma parseV6_format:
  assumes "v < 2 ^ 128"
  shows "parseV6 (formatIp v 128) e = Some v"
proof -
  let ?g = "groups_of 65536 8 v"
  have v: "foldl (\<lambda>a g. a * 65536 + g) 0 ?g = v"
    using assms horner_groups_of[of 65536 0 8 v] by simp
  have b: "\<forall>g \<in> set ?g. g < 65536" using groups_of_bound[of 65536] by auto
  show ?thesis
  proof (cases v rule: formatIp_v6_cases)
    case (1 s l)
    have "\<forall>g \<in> set (take s ?g @ drop (s + l) ?g). g < 65536"
      using b by (auto dest: in_set_takeD in_set_dropD)
    then have "parseV6 (formatIp v 128) e
        = Some (foldl (\<lambda>a g. a * 65536 + g) 0 (take s ?g @ replicate l 0 @ drop (s + l) ?g))"
      unfolding 1(1) using 1(2,3) by (subst parseV6_hextets_dc) (auto simp del: foldl_append)
    moreover have "take s ?g @ replicate l 0 @ drop (s + l) ?g = ?g"
      using zeros_middle[OF 1(4)] 1(3) by simp
    ultimately show ?thesis using v by simp
  next
    case 2
    then show ?thesis using parseV6_hextets_plain[OF b] v by simp
  qed
qed

lemma formatIp_v6_colon: "CHR '':'' \<in> set (formatIp v 128)"
proof (cases v rule: formatIp_v6_cases)
  case 2
  then show ?thesis by (simp add: groups_of_def rev_upt_4_8)
qed auto

section \<open>Round trip: every address\<close>

lemma parseIp_with_format:
  assumes "valid_addr v b"
  shows "parseIp_with options (formatIp v b) = Some \<lparr>ip_value = v, ip_bits = b, ip_zoneId = None\<rparr>"
proof -
  note plain = printed_address_plain[OF formatIp_chars]
  consider "b = 32" "v < 2 ^ 32" | "b = 128" "v < 2 ^ 128" "\<not> is_v4_mapped v"
    using assms by (auto simp: valid_addr_def)
  then show ?thesis
  proof cases
    case 1
    then show ?thesis
      using plain[of v 32] formatIp_v4_not_Nil[of v] formatIp_v4_no_colon[of v] parseV4_format[of v]
      by (simp add: parseIp_with_def IPV4_BITS_def)
  next
    case 2
    have ne: "formatIp v 128 \<noteq> []" using formatIp_v6_colon[of v] by auto
    have "v AND V4_MAPPED_MASK \<noteq> V4_MAPPED_PREFIX" using v4_mapped_mask_iff 2 by blast
    with ne show ?thesis
      unfolding 2(1) parseIp_with_def Let_def plain IPV6_BITS_def
      by (simp add: formatIp_v6_colon parseV6_format[OF 2(2)])
  qed
qed

lemma parseIp_format:
  "valid_addr v b \<Longrightarrow> parseIp (formatIp v b) = Some \<lparr>ip_value = v, ip_bits = b, ip_zoneId = None\<rparr>"
  unfolding parseIp_def by (rule parseIp_with_format)

lemma formatIp_inj:
  assumes "valid_addr v b" "valid_addr w c" "formatIp v b = formatIp w c"
  shows "v = w \<and> b = c"
proof -
  have "Some \<lparr>ip_value = v, ip_bits = b, ip_zoneId = None\<rparr> = Some \<lparr>ip_value = w, ip_bits = c, ip_zoneId = None\<rparr>"
    using parseIp_format[OF assms(1)] parseIp_format[OF assms(2)] unfolding assms(3) by (rule trans[OF sym])
  then show ?thesis by simp
qed

section \<open>The interface other components rely on\<close>

text \<open>
  What the rest of the program uses of an address codec: a parsed address is valid, and a valid
  address is read back from its printed form. \<open>cidr.js\<close>, the GeoIP allowlist matcher and the
  lifecycle tables are clients of this contract.
\<close>

locale address_codec =
  fixes parse :: "string \<Rightarrow> (nat \<times> nat) option"
    and fmt :: "nat \<Rightarrow> nat \<Rightarrow> string"
    and valid :: "nat \<Rightarrow> nat \<Rightarrow> bool"
  assumes parse_valid: "parse s = Some (v, b) \<Longrightarrow> valid v b"
    and parse_fmt: "valid v b \<Longrightarrow> parse (fmt v b) = Some (v, b)"
begin

lemma fmt_inj: "valid v b \<Longrightarrow> valid w c \<Longrightarrow> fmt v b = fmt w c \<longleftrightarrow> v = w \<and> b = c"
  using parse_fmt by (metis option.inject prod.inject)

lemma canonical_fixpoint: "parse s = Some (v, b) \<Longrightarrow> parse (fmt v b) = Some (v, b)"
  using parse_valid parse_fmt by blast

lemma canonical_complete:
  "parse s = Some (v, b) \<Longrightarrow> parse t = Some (w, c) \<Longrightarrow> fmt v b = fmt w c \<longleftrightarrow> parse s = parse t"
  using fmt_inj parse_valid by auto

end

definition parse_address :: "string \<Rightarrow> (nat \<times> nat) option" where
  "parse_address s = map_option (\<lambda>p. (ip_value p, ip_bits p)) (parseIp s)"

interpretation ip_codec: address_codec parse_address formatIp valid_addr
  by unfold_locales (auto simp: parse_address_def parseIp_format dest: parseIp_valid)

lemma canonicalizeIp_eq: "canonicalizeIp s = map_option (\<lambda>(v, b). formatIp v b) (parse_address s)"
  by (auto simp: canonicalizeIp_def parse_address_def split: option.splits)

section \<open>Sort keys\<close>

lemma of_digits_Cons: "of_digits b (c # s) = digit_val c * b ^ length s + of_digits b s"
  using of_digits_append[of b "[c]" s] by (simp add: of_digits_def)

lemma lower_hex_is_hex: "is_lower_hex c \<Longrightarrow> is_hex_digit c"
  by (auto simp: is_lower_hex_def is_hex_digit_def)

lemma lower_hex_less_iff:
  "is_lower_hex c \<Longrightarrow> is_lower_hex d \<Longrightarrow> c < d \<longleftrightarrow> digit_val c < digit_val d"
  by (auto simp: is_lower_hex_def is_digit_def digit_val_def less_char_def Let_def)

lemma lower_hex_eq_iff:
  "is_lower_hex c \<Longrightarrow> is_lower_hex d \<Longrightarrow> c = d \<longleftrightarrow> digit_val c = digit_val d"
  by (metis lower_hex_less_iff nat_neq_iff not_less_iff_gr_or_eq)

lemma hex_strings_less_iff:
  "length s = length t \<Longrightarrow> list_all is_lower_hex s \<Longrightarrow> list_all is_lower_hex t \<Longrightarrow>
   s < t \<longleftrightarrow> of_digits 16 s < of_digits 16 t"
proof (induction s t rule: list_induct2)
  case (Cons c s d t)
  have bs: "of_digits 16 s < 16 ^ length s" and bt: "of_digits 16 t < 16 ^ length s"
    using of_digits_hex_bound[of s] of_digits_hex_bound[of t] Cons
    by (auto simp: list_all_iff lower_hex_is_hex)
  consider "digit_val c < digit_val d" | "digit_val c = digit_val d" | "digit_val d < digit_val c"
    by linarith
  then show ?case
  proof cases
    case 1
    then have "(digit_val c + 1) * 16 ^ length s \<le> digit_val d * 16 ^ length s"
      by (intro mult_right_mono) auto
    with 1 Cons bs show ?thesis by (simp add: of_digits_Cons lower_hex_less_iff)
  next
    case 2
    with Cons show ?thesis by (simp add: of_digits_Cons lower_hex_less_iff lower_hex_eq_iff)
  next
    case 3
    then have "(digit_val d + 1) * 16 ^ length s \<le> digit_val c * 16 ^ length s"
      by (intro mult_right_mono) auto
    with 3 Cons bt show ?thesis by (auto simp: of_digits_Cons lower_hex_less_iff)
  qed
qed simp

lemma valid_addr_less_128: "valid_addr v b \<Longrightarrow> v < 2 ^ 128"
  by (auto simp: valid_addr_def)

lemma padded_hex_less_iff:
  assumes "v < 2 ^ 128" "w < 2 ^ 128"
  shows "padStart 32 (CHR ''0'') (hex v) < padStart 32 (CHR ''0'') (hex w) \<longleftrightarrow> v < w"
proof -
  have len: "length (padStart 32 (CHR ''0'') (hex u)) = 32" if "u < 2 ^ 128" for u
    using that length_to_digits_le[of 16 u 32] by (intro length_padStart) simp
  have chars: "list_all is_lower_hex (padStart 32 (CHR ''0'') (hex u))" for u
    using hex_lower_chars[of u] by (auto simp: padStart_def list_all_iff is_lower_hex_def is_digit_def)
  have val: "of_digits 16 (padStart 32 (CHR ''0'') (hex u)) = u" for u
    by (simp add: padStart_def of_digits_replicate_0 of_digits_to_digits)
  show ?thesis
    using hex_strings_less_iff[OF _ chars chars, of v w] len assms val by simp
qed

section \<open>Properties\<close>

text \<open>C7. Printing and parsing are inverse: an address that fits its family (and is not an
  IPv4-mapped IPv6 one) is read back from its printed form with the same value and width, and its
  printed form is its canonical spelling.\<close>

theorem parse_format_roundtrip:
  assumes "valid_addr v b"
  shows "parseIp (formatIp v b) = Some \<lparr>ip_value = v, ip_bits = b, ip_zoneId = None\<rparr>
    \<and> canonicalizeIp (formatIp v b) = Some (formatIp v b)"
  using parseIp_format[OF assms] by (simp add: canonicalizeIp_def)

theorem parse_format_roundtrip_witness:
  "valid_addr 0x20010db8000000000000000000000001 128
   \<and> parseIp (formatIp 0x20010db8000000000000000000000001 128)
     = Some \<lparr>ip_value = 0x20010db8000000000000000000000001, ip_bits = 128, ip_zoneId = None\<rparr>"
proof -
  have v: "valid_addr 0x20010db8000000000000000000000001 128"
    by (simp add: valid_addr_def is_v4_mapped_def V4_MAPPED_PREFIX_def V4_MAPPED_LAST_def push_bit_eq_mult)
  then show ?thesis using parse_format_roundtrip[OF v] by blast
qed

text \<open>C20. The canonical spelling is one per address: it is a fixed point of canonicalization, and
  another string has the same canonical spelling exactly when it parses to the same value and
  family.\<close>

theorem canonicalizeIp_canonical:
  assumes "canonicalizeIp s = Some c"
  shows "canonicalizeIp c = Some c \<and> (canonicalizeIp t = Some c \<longleftrightarrow> parse_address t = parse_address s)"
proof -
  obtain v b where s: "parse_address s = Some (v, b)" and c: "c = formatIp v b"
    using assms by (auto simp: canonicalizeIp_eq)
  have "canonicalizeIp c = Some c"
    using ip_codec.canonical_fixpoint[OF s] by (simp add: canonicalizeIp_eq c)
  moreover have "canonicalizeIp t = Some c \<longleftrightarrow> parse_address t = parse_address s"
  proof (cases "parse_address t")
    case None
    then show ?thesis by (simp add: canonicalizeIp_eq s)
  next
    case (Some a)
    obtain w d where a: "a = (w, d)" by force
    have "formatIp v b = formatIp w d \<longleftrightarrow> parse_address s = parse_address t"
      using ip_codec.canonical_complete[OF s] Some a by blast
    then show ?thesis by (auto simp: canonicalizeIp_eq Some a c)
  qed
  ultimately show ?thesis by blast
qed

theorem canonicalizeIp_canonical_witness:
  "canonicalizeIp ''10.1'' = None \<and> canonicalizeIp '' 010.0.0.1'' = Some ''10.0.0.1''
   \<and> canonicalizeIp ''10.0.0.1'' = Some ''10.0.0.1''"
proof -
  have h: "canonicalizeIp '' 010.0.0.1'' = Some ''10.0.0.1''" by code_simp
  have "canonicalizeIp ''10.1'' = None" by code_simp
  with h show ?thesis using canonicalizeIp_canonical[OF h, of "''10.0.0.1''"] by blast
qed

text \<open>The zero run \<open>formatIp\<close> compresses is the one RFC 5952 asks for: whenever a run is
  found it consists of zero groups, no zero run is longer, and no zero run of the same length
  starts further left.\<close>

theorem best_zero_run_longest_leftmost:
  assumes "best_zero_run groups 0 (- 1) 0 = (start, len)" and "0 < len"
    and "a < b" "b \<le> 8" "\<forall>k. a \<le> k \<and> k < b \<longrightarrow> groups ! k = ''0''"
  shows "0 \<le> start \<and> nat start + len \<le> 8
    \<and> (\<forall>k. nat start \<le> k \<and> k < nat start + len \<longrightarrow> groups ! k = ''0'')
    \<and> b - a \<le> len \<and> (b - a = len \<longrightarrow> nat start \<le> a)"
proof -
  have inv: "run_inv groups 8 start len" by (rule best_zero_run_spec[OF assms(1)])
  have "zeros groups a b" using assms(5) by (simp add: zeros_def)
  then have "b - a \<le> len \<and> (b - a = len \<longrightarrow> start \<le> int a)"
    using inv assms(3,4) unfolding run_inv_def by blast
  then show ?thesis using inv assms(2) by (auto simp: run_inv_def zeros_def nat_le_iff)
qed

theorem best_zero_run_longest_leftmost_witness:
  "best_zero_run [''1'', ''0'', ''0'', ''2'', ''0'', ''0'', ''3'', ''4''] 0 (- 1) 0 = (1, 2)
   \<and> 6 - 4 \<le> (2 :: nat) \<and> nat 1 \<le> (4 :: nat)"
proof -
  let ?g = "[''1'', ''0'', ''0'', ''2'', ''0'', ''0'', ''3'', ''4'']"
  have h: "best_zero_run ?g 0 (- 1) 0 = (1, 2)" by code_simp
  have "\<forall>k. 4 \<le> k \<and> k < 6 \<longrightarrow> ?g ! k = ''0''"
  proof (intro allI impI)
    fix k :: nat
    assume "4 \<le> k \<and> k < 6"
    then have "k = 4 \<or> k = 5" by auto
    then show "?g ! k = ''0''" by auto
  qed
  then show ?thesis using best_zero_run_longest_leftmost[OF h, of 4 6] h by simp
qed

text \<open>Sort keys order addresses: the text order of two keys is the numeric order of the
  addresses within a family, and every IPv4 address sorts before every IPv6 one.\<close>

theorem sortKey_order:
  assumes "parseIp s = Some p" "parseIp t = Some q"
    and "sortKey s = Some k" "sortKey t = Some l"
  shows "k < l \<longleftrightarrow> ip_bits p < ip_bits q \<or> (ip_bits p = ip_bits q \<and> ip_value p < ip_value q)"
proof -
  have p: "valid_addr (ip_value p) (ip_bits p)" and q: "valid_addr (ip_value q) (ip_bits q)"
    using assms parseIp_valid by auto
  note less = padded_hex_less_iff[OF valid_addr_less_128[OF p] valid_addr_less_128[OF q]]
  have "ip_bits p = 32 \<or> ip_bits p = 128" "ip_bits q = 32 \<or> ip_bits q = 128"
    using p q by (auto simp: valid_addr_def)
  then show ?thesis
    using assms less by (auto simp: sortKey_def IPV4_BITS_def less_char_def)
qed

theorem sortKey_order_witness:
  "parse_address ''9.0.0.1'' = Some (0x09000001, 32) \<and> the (sortKey ''9.0.0.1'') < the (sortKey ''10.0.0.1'')"
proof -
  obtain p q where p: "parseIp ''9.0.0.1'' = Some p" and q: "parseIp ''10.0.0.1'' = Some q"
    and b: "ip_bits p = 32" "ip_bits q = 32" and v: "ip_value p = 0x09000001" "ip_value q = 0x0a000001"
  proof
    show "parseIp ''9.0.0.1'' = Some \<lparr>ip_value = 0x09000001, ip_bits = 32, ip_zoneId = None\<rparr>"
      by code_simp
    show "parseIp ''10.0.0.1'' = Some \<lparr>ip_value = 0x0a000001, ip_bits = 32, ip_zoneId = None\<rparr>"
      by code_simp
  qed simp_all
  obtain k l where k: "sortKey ''9.0.0.1'' = Some k" and l: "sortKey ''10.0.0.1'' = Some l"
    using p q by (simp add: sortKey_def)
  have "k < l" using sortKey_order[OF p q k l] b v by simp
  then show ?thesis using k l p b v by (simp add: parse_address_def)
qed

end
