(* ===== verification/Cidr.thy ===== *)
theory Cidr
  imports Address
begin

text \<open>
  CIDR arithmetic for both families, \<open>server/src/utils/cidr.js\<close>: parsing a network, containment
  and overlap, subtraction (carve), division (split) and merging, naming templates, the reserved
  ranges, and the IPv4 wrappers. The networks of the model carry the same fields as the objects
  \<open>parseNetwork\<close> returns. The main facts are that the string operations are exact set
  operations on the addresses they denote: carve and split partition the parent, and merge
  recognises exactly the sets of networks whose union is one network.
\<close>

section \<open>Address primitives\<close>

datatype cidr_error =
    InvalidIpAddress
  | InvalidCidrNotation
  | InvalidPrefixLength
  | ChildNotWithinParent
  | ChildPrefixNotLonger
  | NewPrefixOutOfRange
  | TooManyNetworks

record address =
  a_value :: nat
  a_bits :: nat
  a_family :: nat

definition unscoped :: ip_options where
  "unscoped = \<lparr>opt_zoneId = False, opt_mapV4 = True, opt_embeddedV4 = True\<rparr>"

definition addressToBig :: "string \<Rightarrow> cidr_error + address" where
  "addressToBig ip =
     (case parseIp_with unscoped ip of
        None \<Rightarrow> Inl InvalidIpAddress
      | Some parsed \<Rightarrow>
          Inr \<lparr>a_value = ip_value parsed, a_bits = ip_bits parsed,
               a_family = (if ip_bits parsed = IPV4_BITS then 4 else 6)\<rparr>)"

definition bigToAddress :: "nat \<Rightarrow> nat \<Rightarrow> string" where
  "bigToAddress value family = formatIp value (if family = 6 then IPV6_BITS else IPV4_BITS)"

text \<open>\<open>longToIp\<close> works on 32-bit unsigned values.\<close>

definition longToIp :: "nat \<Rightarrow> string" where
  "longToIp long = join ''.'' [dec (drop_bit 24 long AND 255), dec (drop_bit 16 long AND 255),
     dec (drop_bit 8 long AND 255), dec (long AND 255)]"

section \<open>Networks\<close>

record network =
  net_family :: nat
  net_bits :: nat
  net_prefix :: nat
  net_network :: string
  net_cidr :: string
  net_mask :: string
  net_first :: string
  net_last :: string
  net_firstUsable :: string
  net_lastUsable :: string
  net_size :: "nat option"
  net_usable :: "nat option"
  networkBig :: nat
  lastBig :: nat
  sizeBig :: nat
  usableBig :: nat
  net_broadcast :: "string option"
  net_networkLong :: "nat option"
  net_broadcastLong :: "nat option"
  net_totalAddresses :: "nat option"
  net_usableCount :: "nat option"

definition MAX_SAFE :: nat where "MAX_SAFE = 2 ^ 53 - 1"

definition safeNumber :: "nat \<Rightarrow> nat option" where
  "safeNumber big = (if big \<le> MAX_SAFE then Some big else None)"

text \<open>The object \<open>parseNetwork\<close> builds once the address and the prefix are known.\<close>

definition build_network :: "nat \<Rightarrow> nat \<Rightarrow> nat \<Rightarrow> nat \<Rightarrow> network" where
  "build_network family bits plen value =
     (let all = push_bit bits 1 - 1;
          netmask = (if plen = 0 then 0 else push_bit (bits - plen) all AND all);
          network = value AND netmask;
          lastA = network OR (all XOR netmask);
          sz = lastA - network + 1;
          reservesEndpoints = (plen < bits - 1);
          firstUsableBig = (if reservesEndpoints then network + 1 else network);
          lastUsableBig = (if reservesEndpoints \<and> family = 4 then lastA - 1 else lastA);
          usable = lastUsableBig - firstUsableBig + 1;
          v4 = (\<lambda>x. if family = 4 then Some x else None)
      in \<lparr>net_family = family, net_bits = bits, net_prefix = plen,
          net_network = bigToAddress network family,
          net_cidr = bigToAddress network family @ ''/'' @ dec plen,
          net_mask = bigToAddress netmask family,
          net_first = bigToAddress network family,
          net_last = bigToAddress lastA family,
          net_firstUsable = bigToAddress firstUsableBig family,
          net_lastUsable = bigToAddress lastUsableBig family,
          net_size = safeNumber sz, net_usable = safeNumber usable,
          networkBig = network, lastBig = lastA, sizeBig = sz, usableBig = usable,
          net_broadcast = (if family = 4 then Some (bigToAddress lastA family) else None),
          net_networkLong = v4 network, net_broadcastLong = v4 lastA,
          net_totalAddresses = v4 sz, net_usableCount = v4 usable\<rparr>)"

text \<open>
  An IPv4-mapped IPv6 network folds to its IPv4 identity, so its prefix loses the 96 bits of the
  mapping; then the range check.
\<close>

definition effective_prefix :: "bool \<Rightarrow> nat \<Rightarrow> nat \<Rightarrow> cidr_error + nat" where
  "effective_prefix folded bits plen =
     (if folded \<and> plen < 96 then Inl InvalidPrefixLength
      else let plen = (if folded then plen - 96 else plen)
           in if plen > bits then Inl InvalidPrefixLength else Inr plen)"

text \<open>
  \<open>parseInt(prefixText, 10)\<close> rounds a prefix text beyond 53 bits to a double; every such value
  is far above 128 and refused, as the exact value is.
\<close>

definition parseNetwork :: "string \<Rightarrow> cidr_error + network" where
  "parseNetwork cidr =
     (case lastIndexOf ''/'' cidr of
        None \<Rightarrow> Inl InvalidCidrNotation
      | Some slash \<Rightarrow>
          if slash < 1 \<or> slash = length cidr - 1 then Inl InvalidCidrNotation
          else
            let prefixText = drop (slash + 1) cidr in
            if \<not> all_digits prefixText then Inl InvalidCidrNotation
            else (case addressToBig (take slash cidr) of
                    Inl _ \<Rightarrow> Inl InvalidCidrNotation
                  | Inr address \<Rightarrow>
                      ebind (effective_prefix (a_family address = 4 \<and> CHR '':'' \<in> set cidr)
                               (a_bits address) (of_digits 10 prefixText))
                        (\<lambda>plen. Inr (build_network (a_family address) (a_bits address) plen
                                      (a_value address)))))"

definition isValidNetwork :: "string \<Rightarrow> bool" where
  "isValidNetwork cidr = is_ok (parseNetwork cidr)"

definition normalizeNetwork :: "string \<Rightarrow> cidr_error + string" where
  "normalizeNetwork cidr = ebind (parseNetwork cidr) (\<lambda>net. Inr (net_cidr net))"

definition networkContains :: "string \<Rightarrow> string \<Rightarrow> cidr_error + bool" where
  "networkContains cidr ip =
     ebind (parseNetwork cidr) (\<lambda>net.
     ebind (addressToBig ip) (\<lambda>address.
       if a_family address \<noteq> net_family net then Inr False
       else Inr (a_value address \<ge> networkBig net \<and> a_value address \<le> lastBig net)))"

definition networksOverlap :: "string \<Rightarrow> string \<Rightarrow> cidr_error + bool" where
  "networksOverlap cidrA cidrB =
     ebind (parseNetwork cidrA) (\<lambda>a.
     ebind (parseNetwork cidrB) (\<lambda>b.
       if net_family a \<noteq> net_family b then Inr False
       else Inr (networkBig a \<le> lastBig b \<and> networkBig b \<le> lastBig a)))"

definition isNetworkWithin :: "string \<Rightarrow> string \<Rightarrow> cidr_error + bool" where
  "isNetworkWithin childCidr parentCidr =
     ebind (parseNetwork childCidr) (\<lambda>child.
     ebind (parseNetwork parentCidr) (\<lambda>parent.
       if net_family child \<noteq> net_family parent then Inr False
       else Inr (networkBig child \<ge> networkBig parent \<and> lastBig child \<le> lastBig parent
                   \<and> net_prefix child > net_prefix parent)))"

section \<open>Carve, split, merge\<close>

text \<open>The \<open>while\<close> loop of \<open>subtractNetwork\<close>.\<close>

function subtract_loop :: "network \<Rightarrow> network \<Rightarrow> nat \<Rightarrow> nat \<Rightarrow> string list" where
  "subtract_loop parent child currentNet currentPrefix =
     (if currentPrefix < net_prefix child then
        let nextPrefix = currentPrefix + 1;
            halfSize = push_bit (net_bits parent - nextPrefix) 1;
            midpoint = currentNet + halfSize
        in if networkBig child \<ge> midpoint
           then (bigToAddress currentNet (net_family parent) @ ''/'' @ dec nextPrefix)
                  # subtract_loop parent child midpoint nextPrefix
           else (bigToAddress midpoint (net_family parent) @ ''/'' @ dec nextPrefix)
                  # subtract_loop parent child currentNet nextPrefix
      else [])"
  by pat_completeness auto
termination
  by (relation "measure (\<lambda>(parent, child, currentNet, currentPrefix). net_prefix child - currentPrefix)")
    auto

declare subtract_loop.simps [simp del]

definition subtractNetwork :: "string \<Rightarrow> string \<Rightarrow> cidr_error + string list" where
  "subtractNetwork parentCidr childCidr =
     ebind (parseNetwork parentCidr) (\<lambda>parent.
     ebind (parseNetwork childCidr) (\<lambda>child.
       if net_family child \<noteq> net_family parent then Inl ChildNotWithinParent
       else if networkBig child < networkBig parent \<or> lastBig child > lastBig parent
         then Inl ChildNotWithinParent
       else if net_prefix child \<le> net_prefix parent then Inl ChildPrefixNotLonger
       else Inr (subtract_loop parent child (networkBig parent) (net_prefix parent))))"

definition splitNetwork :: "string \<Rightarrow> int \<Rightarrow> nat \<Rightarrow> cidr_error + network list" where
  "splitNetwork cidr newPrefix maxCount =
     ebind (parseNetwork cidr) (\<lambda>parent.
       if newPrefix \<le> int (net_prefix parent) \<or> newPrefix > int (net_bits parent)
         then Inl NewPrefixOutOfRange
       else
         let count = push_bit (nat newPrefix - net_prefix parent) 1 :: nat in
         if count > maxCount then Inl TooManyNetworks
         else
           let childSize = push_bit (net_bits parent - nat newPrefix) 1 in
           emap (\<lambda>i. parseNetwork (bigToAddress (networkBig parent + i * childSize) (net_family parent)
                                     @ ''/'' @ dec (nat newPrefix)))
             [0..<count])"

datatype merge_error =
    NeedTwoNetworks
  | DifferentFamilies
  | NetworksOverlapError
  | NetworksNotContiguous
  | UnionNotPowerOfTwo
  | NotAlignedToBoundary

datatype merge_result = MergeInvalid merge_error | Merged string

text \<open>The neighbour checks of \<open>mergeNetworks\<close>, on the sorted networks.\<close>

fun merge_gaps :: "network list \<Rightarrow> merge_error option" where
  "merge_gaps (a # b # rest) =
     (if networkBig b \<le> lastBig a then Some NetworksOverlapError
      else if networkBig b \<noteq> lastBig a + 1 then Some NetworksNotContiguous
      else merge_gaps (b # rest))"
| "merge_gaps _ = None"

definition merge_sorted :: "network list \<Rightarrow> merge_result" where
  "merge_sorted parsed =
     (case merge_gaps parsed of
        Some e \<Rightarrow> MergeInvalid e
      | None \<Rightarrow>
          let total = sum_list (map sizeBig parsed) in
          if total AND (total - 1) \<noteq> 0 then MergeInvalid UnionNotPowerOfTwo
          else
            let exponent = length (to_digits 2 total) - 1;
                newPrefix = net_bits (hd parsed) - exponent;
                lastNet = last parsed
            in if networkBig (hd parsed) mod total \<noteq> 0
                  \<or> lastBig lastNet \<noteq> networkBig (hd parsed) + total - 1
               then MergeInvalid NotAlignedToBoundary
               else Merged (net_network (hd parsed) @ ''/'' @ dec newPrefix))"

definition mergeNetworks :: "string list \<Rightarrow> cidr_error + merge_result" where
  "mergeNetworks cidrs =
     (if length cidrs < 2 then Inr (MergeInvalid NeedTwoNetworks)
      else ebind (emap parseNetwork cidrs) (\<lambda>parsed.
        if \<exists>net \<in> set parsed. net_family net \<noteq> net_family (hd parsed)
        then Inr (MergeInvalid DifferentFamilies)
        else Inr (merge_sorted (sort_key networkBig parsed))))"

section \<open>Names\<close>

text \<open>\<open>s.replace(/pat/g, r)\<close> for a literal pattern and a replacement without \<open>$\<close>.\<close>

function replace_all :: "string \<Rightarrow> string \<Rightarrow> string \<Rightarrow> string" where
  "replace_all pat r s =
     (case s of
        [] \<Rightarrow> []
      | x # xs \<Rightarrow>
          if pat \<noteq> [] \<and> prefix pat s then r @ replace_all pat r (drop (length pat) s)
          else x # replace_all pat r xs)"
  by pat_completeness auto
termination
proof (relation "measure (\<lambda>(pat, r, s). length s)")
  fix pat r s x and xs :: string
  assume "s = x # xs" "pat \<noteq> [] \<and> prefix pat s"
  then show "((pat, r, drop (length pat) s), pat, r, s) \<in> measure (\<lambda>(pat, r, s). length s)"
    by (cases pat) auto
qed auto

declare replace_all.simps [simp del]

definition is_group_digit :: "char \<Rightarrow> bool" where
  "is_group_digit d = (d \<in> set ''1234'')"

text \<open>\<open>template.replace(/(%[1-4])\.(?=%[1-4])/g, '$1:')\<close>\<close>

fun colons_between_groups :: "string \<Rightarrow> string" where
  "colons_between_groups (p # d # dot # q # e # rest) =
     (if p = CHR ''%'' \<and> is_group_digit d \<and> dot = CHR ''.'' \<and> q = CHR ''%'' \<and> is_group_digit e
      then p # d # CHR '':'' # colons_between_groups (q # e # rest)
      else p # colons_between_groups (d # dot # q # e # rest))"
| "colons_between_groups s = s"

definition networkNameFromTemplate :: "string \<Rightarrow> string \<Rightarrow> cidr_error + string" where
  "networkNameFromTemplate template cidr =
     ebind (parseNetwork cidr) (\<lambda>parsed.
       let groups = (if net_family parsed = 4 then split_chr (CHR ''.'') (net_network parsed)
                     else map (\<lambda>i. hex (drop_bit (112 - 16 * i) (networkBig parsed) AND 0xffff)) [0..<8]);
           t1 = (if net_family parsed = 6 then colons_between_groups template else template);
           t2 = (if net_family parsed = 6 \<and> net_prefix parsed > 64
                 then replace_all ''%1:%2:%3:%4'' ''%network'' t1 else t1)
       in Inr (replace_all ''%bitmask'' (dec (net_prefix parsed))
            (replace_all ''%4'' (groups ! 3) (replace_all ''%3'' (groups ! 2)
            (replace_all ''%2'' (groups ! 1) (replace_all ''%1'' (groups ! 0)
            (replace_all ''%network'' (net_network parsed) t2)))))))"

section \<open>Addresses within networks\<close>

definition isValidAddress :: "string \<Rightarrow> bool" where
  "isValidAddress ip = (parseIp_with unscoped ip \<noteq> None)"

definition parsedNetworkContains :: "network \<Rightarrow> string \<Rightarrow> bool" where
  "parsedNetworkContains parsed ip =
     (case parseIp_with unscoped ip of
        None \<Rightarrow> False
      | Some address \<Rightarrow>
          let family = (if ip_bits address = IPV4_BITS then 4 else 6) in
          if family \<noteq> net_family parsed then False
          else ip_value address \<ge> networkBig parsed \<and> ip_value address \<le> lastBig parsed)"

definition topologyAddresses :: "network \<Rightarrow> string list" where
  "topologyAddresses parsed =
     (if net_prefix parsed \<ge> net_bits parsed - 1 then []
      else if net_family parsed = 4
        then [net_network parsed, (case net_broadcast parsed of Some b \<Rightarrow> b | None \<Rightarrow> [])]
      else [net_network parsed])"

definition isTopologyAddress :: "network \<Rightarrow> nat \<Rightarrow> bool" where
  "isTopologyAddress parsed value =
     (if net_prefix parsed \<ge> net_bits parsed - 1 then False
      else value = networkBig parsed \<or> (net_family parsed = 4 \<and> value = lastBig parsed))"

definition addressAtOffset :: "network \<Rightarrow> nat \<Rightarrow> string" where
  "addressAtOffset parsed offset = bigToAddress (networkBig parsed + offset) (net_family parsed)"

definition addressRangesOverlap :: "string \<Rightarrow> string \<Rightarrow> string \<Rightarrow> string \<Rightarrow> cidr_error + bool" where
  "addressRangesOverlap startA endA startB endB =
     ebind (addressToBig startA) (\<lambda>a0. ebind (addressToBig endA) (\<lambda>a1.
     ebind (addressToBig startB) (\<lambda>b0. ebind (addressToBig endB) (\<lambda>b1.
       if a_family a0 \<noteq> a_family b0 then Inr False
       else Inr (a_value a0 \<le> a_value b1 \<and> a_value b0 \<le> a_value a1)))))"

definition addressInRange :: "string \<Rightarrow> string \<Rightarrow> string \<Rightarrow> cidr_error + bool" where
  "addressInRange ip startIp endIp = addressRangesOverlap ip ip startIp endIp"

section \<open>Reserved ranges\<close>

definition RESERVED_RANGES :: "(string \<times> string) list" where
  "RESERVED_RANGES =
     [(''10.0.0.0/8'', ''RFC1918 Class A''), (''172.16.0.0/12'', ''RFC1918 Class B''),
      (''192.168.0.0/16'', ''RFC1918 Class C''), (''100.64.0.0/10'', ''CGNAT (RFC6598)''),
      (''169.254.0.0/16'', ''Link-Local (RFC3927)''), (''127.0.0.0/8'', ''Loopback (RFC1122)''),
      (''224.0.0.0/4'', ''Multicast (RFC5771)''), (''240.0.0.0/4'', ''Reserved (RFC1112)''),
      (''fc00::/7'', ''Unique Local (RFC4193)''), (''fe80::/10'', ''Link-Local (RFC4291)''),
      (''::1/128'', ''Loopback (RFC4291)''), (''ff00::/8'', ''Multicast (RFC4291)''),
      (''2001:db8::/32'', ''Documentation (RFC3849)'')]"

datatype bounds_result = BoundsValid | OverlapsMapped | ExtendsBeyond string string

text \<open>The loop over the reserved ranges, after the IPv4-mapped check.\<close>

fun bounds_loop :: "string \<Rightarrow> network \<Rightarrow> (string \<times> string) list \<Rightarrow> cidr_error + bounds_result" where
  "bounds_loop cidr parsed [] = Inr BoundsValid"
| "bounds_loop cidr parsed ((rcidr, rname) # rest) =
     ebind (parseNetwork rcidr) (\<lambda>res.
       if net_family res \<noteq> net_family parsed then bounds_loop cidr parsed rest
       else ebind (networksOverlap cidr rcidr) (\<lambda>overlap.
         if overlap then
           (if networkBig parsed \<ge> networkBig res \<and> lastBig parsed \<le> lastBig res
            then Inr BoundsValid else Inr (ExtendsBeyond rname rcidr))
         else bounds_loop cidr parsed rest))"

definition validateNetworkBounds :: "string \<Rightarrow> cidr_error + bounds_result" where
  "validateNetworkBounds cidr =
     ebind (parseNetwork cidr) (\<lambda>parsed.
       if net_family parsed = 6 \<and> networkBig parsed \<le> V4_MAPPED_LAST
          \<and> V4_MAPPED_PREFIX \<le> lastBig parsed
       then Inr OverlapsMapped
       else bounds_loop cidr parsed RESERVED_RANGES)"

section \<open>The IPv4 layer\<close>

definition requireIpv4 :: "network \<Rightarrow> cidr_error + network" where
  "requireIpv4 parsed = (if net_family parsed \<noteq> 4 then Inl InvalidCidrNotation else Inr parsed)"

definition parseCidr :: "string \<Rightarrow> cidr_error + network" where
  "parseCidr cidr = ebind (parseNetwork cidr) requireIpv4"

definition normalizeCidr :: "string \<Rightarrow> cidr_error + string" where
  "normalizeCidr cidr = ebind (parseCidr cidr) (\<lambda>net. Inr (net_cidr net))"

definition validateSupernet :: "string \<Rightarrow> cidr_error + bounds_result" where
  "validateSupernet cidr = ebind (parseCidr cidr) (\<lambda>_. validateNetworkBounds cidr)"

definition applyNameTemplate :: "string \<Rightarrow> string \<Rightarrow> cidr_error + string" where
  "applyNameTemplate template cidr = ebind (parseCidr cidr) (\<lambda>_. networkNameFromTemplate template cidr)"

definition canMergeCidrs :: "string list \<Rightarrow> cidr_error + merge_result" where
  "canMergeCidrs cidrs = ebind (emap parseCidr cidrs) (\<lambda>_. mergeNetworks cidrs)"

definition calculateSubnets :: "string \<Rightarrow> int \<Rightarrow> nat \<Rightarrow> cidr_error + network list" where
  "calculateSubnets cidr newPrefix maxCount =
     ebind (parseCidr cidr) (\<lambda>_. splitNetwork cidr newPrefix maxCount)"

text \<open>\<open>/^(\d{1,3}\.){3}\d{1,3}$/\<close>: four groups of one to three digits.\<close>

definition IPV4_RE :: "string \<Rightarrow> bool" where
  "IPV4_RE ip = (let parts = split_chr (CHR ''.'') ip in
     length parts = 4 \<and> list_all V4_OCTET_RE parts)"

definition isValidIpv4 :: "string \<Rightarrow> bool" where
  "isValidIpv4 ip =
     (if \<not> IPV4_RE ip then False
      else list_all (\<lambda>o'. of_digits 10 o' \<le> 255) (split_chr (CHR ''.'') ip))"

definition isValidCidr :: "string \<Rightarrow> bool" where
  "isValidCidr cidr = is_ok (parseCidr cidr)"

definition isSubnetOf :: "string \<Rightarrow> string \<Rightarrow> cidr_error + bool" where
  "isSubnetOf childCidr parentCidr =
     ebind (parseCidr childCidr) (\<lambda>_. ebind (parseCidr parentCidr) (\<lambda>_.
       isNetworkWithin childCidr parentCidr))"

definition cidrsOverlap :: "string \<Rightarrow> string \<Rightarrow> cidr_error + bool" where
  "cidrsOverlap cidrA cidrB =
     ebind (parseCidr cidrA) (\<lambda>_. ebind (parseCidr cidrB) (\<lambda>_. networksOverlap cidrA cidrB))"

definition subtractCidr :: "string \<Rightarrow> string \<Rightarrow> cidr_error + string list" where
  "subtractCidr parentCidr childCidr =
     ebind (parseCidr parentCidr) (\<lambda>_. ebind (parseCidr childCidr) (\<lambda>_.
       subtractNetwork parentCidr childCidr))"

section \<open>DHCPv6 modes\<close>

definition DHCP_V6_MODES :: "string list" where
  "DHCP_V6_MODES = [''stateless'', ''slaac'', ''stateful'']"

definition dhcpV6ModesFor :: "int \<Rightarrow> string list" where
  "dhcpV6ModesFor plen =
     (if plen = 64 then DHCP_V6_MODES else if plen > 64 then [''stateful''] else [])"

datatype v6_mode_error = NeedsSixtyFourOrLonger | ModeRequiresSixtyFour

definition dhcpV6ModeError :: "int \<Rightarrow> string \<Rightarrow> v6_mode_error option" where
  "dhcpV6ModeError plen mode =
     (if plen < 64 then Some NeedsSixtyFourOrLonger
      else if mode \<notin> set (dhcpV6ModesFor plen) then Some ModeRequiresSixtyFour
      else None)"

section \<open>Networks as blocks of addresses\<close>

abbreviation fam :: "nat \<Rightarrow> nat" where
  "fam b \<equiv> (if b = 32 then 4 else 6)"

lemma bigToAddress_fam: "b = 32 \<or> b = 128 \<Longrightarrow> bigToAddress v (fam b) = formatIp v b"
  by (auto simp: bigToAddress_def IPV4_BITS_def IPV6_BITS_def)

lemma valid_addr_bits: "valid_addr v b \<Longrightarrow> b = 32 \<or> b = 128"
  by (auto simp: valid_addr_def)

lemma valid_addr_bound: "valid_addr v b \<Longrightarrow> v < 2 ^ b"
  by (auto simp: valid_addr_def)

lemma is_v4_mapped_div: "is_v4_mapped v \<longleftrightarrow> v div 2 ^ 32 = 0xffff"
  by (auto simp: is_v4_mapped_def V4_MAPPED_PREFIX_def V4_MAPPED_LAST_def push_bit_eq_mult)

lemma block_base_div_32: "h \<le> 32 \<Longrightarrow> v div 2 ^ h * 2 ^ h div 2 ^ 32 = v div (2 ^ 32 :: nat)"
proof -
  assume "h \<le> 32"
  then have e: "(2 :: nat) ^ 32 = 2 ^ h * 2 ^ (32 - h)" by (simp add: power_add[symmetric])
  show ?thesis unfolding e by (simp only: div_mult2_eq) simp
qed

lemma block_base_not_mapped:
  assumes "\<not> is_v4_mapped v"
  shows "\<not> is_v4_mapped (v div 2 ^ h * 2 ^ h)"
proof (cases "h \<le> 32")
  case True
  with assms show ?thesis by (simp only: is_v4_mapped_div block_base_div_32 not_False_eq_True)
next
  case False
  then have h: "h = 32 + Suc (h - 33)" by simp
  define j where "j = h - 33"
  have e: "(2 :: nat) ^ h = 2 ^ Suc j * 2 ^ 32"
    unfolding j_def by (subst h, subst power_add, rule mult.commute)
  have "v div 2 ^ h * 2 ^ h = (v div 2 ^ h * 2 ^ Suc j) * 2 ^ 32"
    by (metis e mult.assoc)
  then have "v div 2 ^ h * 2 ^ h div 2 ^ 32 = v div 2 ^ h * 2 ^ Suc j"
    by (metis nonzero_mult_div_cancel_right power_not_zero zero_neq_numeral)
  then have "even (v div 2 ^ h * 2 ^ h div 2 ^ 32)" by simp
  then show ?thesis unfolding is_v4_mapped_div by (metis odd_numeral)
qed

lemma valid_addr_base: "valid_addr v b \<Longrightarrow> valid_addr (v div 2 ^ h * 2 ^ h) b"
proof -
  assume v: "valid_addr v b"
  have "v div 2 ^ h * 2 ^ h \<le> v" by (simp add: div_times_less_eq_dividend)
  then have "v < n \<Longrightarrow> v div 2 ^ h * 2 ^ h < n" for n by (rule le_less_trans)
  with v block_base_not_mapped[of v h] show ?thesis unfolding valid_addr_def by blast
qed

text \<open>The numeric fields of a built network.\<close>

lemma all_mask: "push_bit b 1 - 1 = (mask b :: nat)"
  by (simp add: mask_eq_exp_minus_1 push_bit_eq_mult)

lemma build_network_mask:
  assumes "v < 2 ^ b" and "p \<le> b"
  defines "m \<equiv> (if p = 0 then 0 else push_bit (b - p) (mask b) AND mask b) :: nat"
  shows "v AND m = v div 2 ^ (b - p) * 2 ^ (b - p)" and "mask b XOR m = mask (b - p)"
  using assms netmask_and[OF assms(1), of "b - p"] netmask_xor[of "b - p" b] by (auto simp: m_def)

lemma build_network_big:
  assumes "v < 2 ^ b" and "p \<le> b"
  shows "networkBig (build_network f b p v) = v div 2 ^ (b - p) * 2 ^ (b - p)"
    and "lastBig (build_network f b p v) = v div 2 ^ (b - p) * 2 ^ (b - p) + (2 ^ (b - p) - 1)"
    and "sizeBig (build_network f b p v) = 2 ^ (b - p)"
  using build_network_mask[OF assms]
  by (simp_all only: build_network_def Let_def all_mask network.select_convs aligned_or_mask) simp

lemma build_network_fields [simp]:
  "net_family (build_network f b p v) = f"
  "net_bits (build_network f b p v) = b"
  "net_prefix (build_network f b p v) = p"
  by (simp_all add: build_network_def Let_def)

lemma build_network_strings:
  "net_network (build_network f b p v) = bigToAddress (networkBig (build_network f b p v)) f"
  "net_cidr (build_network f b p v) = bigToAddress (networkBig (build_network f b p v)) f @ ''/'' @ dec p"
  by (simp_all add: build_network_def Let_def)

text \<open>A network depends on the address only through its base.\<close>

lemma build_network_base:
  assumes "v < 2 ^ b" and "p \<le> b"
  shows "build_network f b p (v div 2 ^ (b - p) * 2 ^ (b - p)) = build_network f b p v"
proof -
  let ?h = "b - p"
  let ?m = "(if p = 0 then 0 else push_bit (b - p) (mask b) AND mask b) :: nat"
  have le: "v div 2 ^ ?h * 2 ^ ?h \<le> v" by (simp add: div_times_less_eq_dividend)
  then have "v div 2 ^ ?h * 2 ^ ?h < 2 ^ b" using assms by linarith
  then have "(v div 2 ^ ?h * 2 ^ ?h) AND ?m = v div 2 ^ ?h * 2 ^ ?h div 2 ^ ?h * 2 ^ ?h"
    using build_network_mask(1)[of _ b p] assms(2) by blast
  also have "\<dots> = v AND ?m" using build_network_mask(1)[OF assms] by simp
  finally show ?thesis unfolding build_network_def Let_def all_mask by simp
qed

text \<open>What \<open>parseNetwork\<close> returns: a network built from a valid address.\<close>

definition net_ok :: "network \<Rightarrow> bool" where
  "net_ok n = (\<exists>v b p. valid_addr v b \<and> p \<le> b \<and> n = build_network (fam b) b p v)"

lemma parseIp_with_unscoped_valid:
  "parseIp_with unscoped s = Some q \<Longrightarrow> valid_addr (ip_value q) (ip_bits q)"
  by (rule parseIp_with_mapV4_valid) (simp_all add: unscoped_def)

lemma addressToBig_valid:
  "addressToBig s = Inr a \<Longrightarrow> valid_addr (a_value a) (a_bits a) \<and> a_family a = fam (a_bits a)"
  by (auto simp: addressToBig_def IPV4_BITS_def split: option.splits dest: parseIp_with_unscoped_valid)

lemma addressToBig_format:
  "valid_addr v b \<Longrightarrow>
   addressToBig (formatIp v b) = Inr \<lparr>a_value = v, a_bits = b, a_family = fam b\<rparr>"
  by (simp add: addressToBig_def parseIp_with_format IPV4_BITS_def)

lemma parseNetwork_ok: "parseNetwork c = Inr n \<Longrightarrow> net_ok n"
proof -
  assume "parseNetwork c = Inr n"
  then obtain a p s x y where a: "addressToBig s = Inr a"
    and p: "effective_prefix x (a_bits a) y = Inr p"
    and n: "n = build_network (a_family a) (a_bits a) p (a_value a)"
    by (auto simp: parseNetwork_def Let_def ebind_eq_Inr_iff
        split: option.split_asm if_split_asm sum.split_asm)
  have "p \<le> a_bits a" using p by (auto simp: effective_prefix_def Let_def split: if_split_asm)
  moreover have "valid_addr (a_value a) (a_bits a)" "a_family a = fam (a_bits a)"
    using addressToBig_valid[OF a] by simp_all
  ultimately show ?thesis
    unfolding net_ok_def n by (intro exI[of _ "a_value a"] exI[of _ "a_bits a"] exI[of _ p]) simp
qed

lemma addr_string_no_slash: "CHR ''/'' \<notin> set (formatIp v b)"
  using formatIp_chars[of v b] addr_char_not_special(2) by (auto simp: list_all_iff)

lemma dec_no_slash: "CHR ''/'' \<notin> set (dec n)"
  using dec_no_special by blast

lemma parseNetwork_print:
  assumes v: "valid_addr v b" and p: "p \<le> b"
  shows "parseNetwork (formatIp v b @ ''/'' @ dec p) = Inr (build_network (fam b) b p v)"
proof -
  let ?a = "formatIp v b"
  have ne: "?a \<noteq> []"
    using formatIp_v4_not_Nil[of v] formatIp_v6_colon[of v] valid_addr_bits[OF v] by auto
  have slash: "lastIndexOf ''/'' (?a @ ''/'' @ dec p) = Some (length ?a)"
    using lastIndexOf_char_append[OF dec_no_slash] by simp
  have len: "1 \<le> length ?a" "length ?a \<noteq> length (?a @ ''/'' @ dec p) - 1"
    using ne by (auto simp: Suc_le_eq)
  have nofold: "\<not> (fam b = 4 \<and> CHR '':'' \<in> set (?a @ ''/'' @ dec p))"
    using formatIp_v4_no_colon[of v] dec_no_special by auto
  have "effective_prefix (fam b = 4 \<and> CHR '':'' \<in> set (?a @ ''/'' @ dec p)) b p = Inr p"
    using nofold p by (simp only: effective_prefix_def Let_def) auto
  then show ?thesis
    using len by (simp only: parseNetwork_def slash option.case Let_def)
      (simp add: addressToBig_format[OF v] of_digits_to_digits ne)
qed

text \<open>For reading a literal network string: its address and prefix, printed, are the string.\<close>

lemma parseNetwork_literal:
  assumes "s = formatIp v b @ ''/'' @ dec p" and "valid_addr v b" and "p \<le> b"
  shows "parseNetwork s = Inr (build_network (fam b) b p v)"
  unfolding assms(1) by (rule parseNetwork_print[OF assms(2,3)])

text \<open>
  The facts the set-level reasoning uses: width, base, last address and size of a network, and
  that its strings print the base.
\<close>

lemma net_ok_facts:
  assumes "net_ok n"
  shows "net_bits n = 32 \<or> net_bits n = 128" and "net_family n = fam (net_bits n)"
    and "net_prefix n \<le> net_bits n"
    and "sizeBig n = 2 ^ (net_bits n - net_prefix n)"
    and "sizeBig n dvd networkBig n"
    and "lastBig n = networkBig n + sizeBig n - 1"
    and "valid_addr (networkBig n) (net_bits n)"
    and "n = build_network (net_family n) (net_bits n) (net_prefix n) (networkBig n)"
    and "net_network n = formatIp (networkBig n) (net_bits n)"
    and "net_cidr n = formatIp (networkBig n) (net_bits n) @ ''/'' @ dec (net_prefix n)"
proof -
  obtain v b p where v: "valid_addr v b" and p: "p \<le> b" and n: "n = build_network (fam b) b p v"
    using assms by (auto simp: net_ok_def)
  note big = build_network_big[OF valid_addr_bound[OF v] p, of "fam b", folded n]
  note bits = valid_addr_bits[OF v]
  have f: "net_family n = fam b" "net_bits n = b" "net_prefix n = p" by (simp_all add: n)
  show "net_bits n = 32 \<or> net_bits n = 128" "net_family n = fam (net_bits n)"
    "net_prefix n \<le> net_bits n" using bits p f by auto
  show "sizeBig n = 2 ^ (net_bits n - net_prefix n)" using big f by simp
  show "sizeBig n dvd networkBig n" using big by simp
  show "lastBig n = networkBig n + sizeBig n - 1" using big by simp
  show "valid_addr (networkBig n) (net_bits n)" using big(1) valid_addr_base[OF v] f by simp
  show "n = build_network (net_family n) (net_bits n) (net_prefix n) (networkBig n)"
    using build_network_base[OF valid_addr_bound[OF v] p, of "fam b"] big(1) f n by simp
  show "net_network n = formatIp (networkBig n) (net_bits n)"
    "net_cidr n = formatIp (networkBig n) (net_bits n) @ ''/'' @ dec (net_prefix n)"
    using build_network_strings[of "fam b" b p v] bigToAddress_fam[OF bits] f n by auto
qed

lemmas net_ok_parse = net_ok_facts[OF parseNetwork_ok]

lemma net_size_pos: "net_ok n \<Longrightarrow> 0 < sizeBig n"
  by (simp add: net_ok_facts(4))

definition net_addrs :: "network \<Rightarrow> nat set" where
  "net_addrs n = {networkBig n..lastBig n}"

lemma net_addrs_eq: "net_ok n \<Longrightarrow> net_addrs n = {networkBig n..<networkBig n + sizeBig n}"
  using net_size_pos[of n] by (auto simp: net_addrs_def net_ok_facts(6))

text \<open>Reading a network back from its canonical string.\<close>

lemma parseNetwork_cidr: "net_ok n \<Longrightarrow> parseNetwork (net_cidr n) = Inr n"
proof -
  assume n: "net_ok n"
  show ?thesis
    unfolding net_ok_facts(10)[OF n] parseNetwork_print[OF net_ok_facts(7)[OF n] net_ok_facts(3)[OF n]]
    by (metis net_ok_facts(2,8)[OF n])
qed

text \<open>The network with base \<open>k\<close> times the block size, printed and parsed.\<close>

lemma parseNetwork_block:
  assumes "valid_addr v b" and "p \<le> b" and "2 ^ (b - p) dvd v"
  shows "\<exists>n. parseNetwork (bigToAddress v (fam b) @ ''/'' @ dec p) = Inr n \<and> net_ok n
    \<and> net_family n = fam b \<and> net_bits n = b \<and> net_prefix n = p \<and> networkBig n = v
    \<and> net_cidr n = bigToAddress v (fam b) @ ''/'' @ dec p"
proof -
  let ?n = "build_network (fam b) b p v"
  have "parseNetwork (bigToAddress v (fam b) @ ''/'' @ dec p) = Inr ?n"
    using parseNetwork_print[OF assms(1,2)] bigToAddress_fam[OF valid_addr_bits[OF assms(1)]] by simp
  moreover have "networkBig ?n = v"
    using build_network_big(1)[OF valid_addr_bound[OF assms(1)] assms(2)] assms(3) by simp
  moreover have "net_ok ?n" using assms unfolding net_ok_def by blast
  ultimately show ?thesis by (intro exI[of _ ?n]) (simp add: build_network_strings)
qed

section \<open>Overlap and containment as sets\<close>

text \<open>Two aligned blocks whose sizes are powers of two are nested or disjoint.\<close>

lemma aligned_blocks_laminar:
  fixes a b s t :: nat
  assumes "s dvd a" "t dvd b" "s dvd t" "a < b + t" "b < a + s" "0 < s"
  shows "b \<le> a \<and> a + s \<le> b + t"
proof -
  obtain i j k where ijk: "a = s * i" "t = s * k" "b = s * k * j"
    using assms by (auto simp: dvd_def)
  have "i < k * j + k" using assms(4,6) ijk by (simp add: distrib_left[symmetric] mult.assoc)
  moreover have "k * j < i + 1"
  proof -
    have "s * (k * j) < s * (i + 1)" using assms(5) ijk by (simp add: mult.assoc)
    then show ?thesis by (simp only: mult_less_cancel1)
  qed
  ultimately have "k * j \<le> i" "i + 1 \<le> k * j + k" by simp_all
  then have "s * (k * j) \<le> s * i" "s * (i + 1) \<le> s * (k * j + k)" by (intro mult_left_mono; simp)+
  then show ?thesis using ijk by (simp add: algebra_simps)
qed

lemma net_nested_or_disjoint:
  assumes "net_ok m" "net_ok n" "net_bits m = net_bits n" "net_prefix n \<le> net_prefix m"
    and "net_addrs m \<inter> net_addrs n \<noteq> {}"
  shows "net_addrs m \<subseteq> net_addrs n"
proof -
  have "sizeBig m dvd sizeBig n"
    using assms(3,4) by (simp add: net_ok_facts(4)[OF assms(1)] net_ok_facts(4)[OF assms(2)] le_imp_power_dvd)
  moreover have "networkBig m < networkBig n + sizeBig n" "networkBig n < networkBig m + sizeBig m"
    using assms(5) by (auto simp: net_addrs_eq[OF assms(1)] net_addrs_eq[OF assms(2)])
  ultimately have "networkBig n \<le> networkBig m \<and> networkBig m + sizeBig m \<le> networkBig n + sizeBig n"
    using aligned_blocks_laminar net_ok_facts(5)[OF assms(1)] net_ok_facts(5)[OF assms(2)]
      net_size_pos[OF assms(1)] by blast
  then show ?thesis by (auto simp: net_addrs_eq[OF assms(1)] net_addrs_eq[OF assms(2)])
qed

lemma net_card: "net_ok n \<Longrightarrow> card (net_addrs n) = 2 ^ (net_bits n - net_prefix n)"
  by (simp add: net_addrs_eq net_ok_facts(4))

section \<open>Partitions\<close>

text \<open>A network whose addresses all read back in its own family.\<close>

definition net_plain :: "network \<Rightarrow> bool" where
  "net_plain n = (net_family n = 4 \<or> networkBig n > V4_MAPPED_LAST \<or> lastBig n < V4_MAPPED_PREFIX)"

lemma net_plain_valid:
  assumes "net_ok n" "net_plain n" "a \<in> net_addrs n"
  shows "valid_addr a (net_bits n)"
proof -
  have base: "valid_addr (networkBig n) (net_bits n)" by (rule net_ok_facts(7)[OF assms(1)])
  let ?s = "2 ^ (net_bits n - net_prefix n) :: nat"
  obtain k where k: "networkBig n = ?s * k"
    using net_ok_facts(4,5)[OF assms(1)] by (auto simp: dvd_def)
  have e: "(2 :: nat) ^ net_bits n = ?s * 2 ^ net_prefix n"
    using net_ok_facts(3)[OF assms(1)] by (simp add: power_add[symmetric])
  have "k < 2 ^ net_prefix n"
    using valid_addr_bound[OF base] unfolding k e by simp
  then have "?s * (k + 1) \<le> ?s * 2 ^ net_prefix n" by (intro mult_left_mono) simp_all
  then have "networkBig n + sizeBig n \<le> 2 ^ net_bits n"
    unfolding e net_ok_facts(4)[OF assms(1)] by (simp add: k)
  then have "a < 2 ^ net_bits n" using assms(3) by (auto simp: net_addrs_eq[OF assms(1)])
  moreover have "net_bits n = 128 \<Longrightarrow> \<not> is_v4_mapped a"
    using assms(2,3) net_ok_facts(2)[OF assms(1)]
    by (auto simp: net_plain_def is_v4_mapped_def net_addrs_def)
  ultimately show ?thesis using net_ok_facts(1)[OF assms(1)] by (auto simp: valid_addr_def)
qed

text \<open>
  \<open>partitions ns b A\<close>: the networks \<open>ns\<close> are \<open>b\<close>-bit networks, pairwise disjoint, and
  together exactly the addresses \<open>A\<close>.
\<close>

definition partitions :: "network list \<Rightarrow> nat \<Rightarrow> nat set \<Rightarrow> bool" where
  "partitions ns b A =
     ((\<forall>n \<in> set ns. net_ok n \<and> net_bits n = b) \<and> (\<Union>n \<in> set ns. net_addrs n) = A
      \<and> sorted_wrt (\<lambda>m n. net_addrs m \<inter> net_addrs n = {}) ns)"

lemma partitions_Nil: "partitions [] b {}"
  by (simp add: partitions_def)

lemma partitions_Cons:
  assumes "net_ok n" "net_bits n = b" "partitions ns b A" "net_addrs n \<inter> A = {}"
  shows "partitions (n # ns) b (net_addrs n \<union> A)"
  using assms by (auto simp: partitions_def)

section \<open>Carve\<close>

lemma subtract_loop_partition:
  assumes child: "net_ok child" "net_bits child = b" and parent: "net_bits parent = b" "net_family parent = fam b"
  shows "q \<le> net_prefix child \<Longrightarrow> 2 ^ (b - q) dvd c \<Longrightarrow>
    c \<le> networkBig child \<Longrightarrow> networkBig child + sizeBig child \<le> c + 2 ^ (b - q) \<Longrightarrow>
    (\<And>a. c \<le> a \<Longrightarrow> a < c + 2 ^ (b - q) \<Longrightarrow> valid_addr a b) \<Longrightarrow>
    \<exists>ns. emap parseNetwork (subtract_loop parent child c q) = Inr ns
      \<and> map net_cidr ns = subtract_loop parent child c q
      \<and> length ns = net_prefix child - q
      \<and> partitions ns b ({c..<c + 2 ^ (b - q)} - net_addrs child)"
proof (induction "net_prefix child - q" arbitrary: c q)
  case 0
  then have q: "q = net_prefix child" by simp
  then have "c = networkBig child"
    using 0 net_ok_facts(4)[OF child(1)] child(2) by simp
  then have e: "{c..<c + 2 ^ (b - q)} - net_addrs child = {}"
    using q net_ok_facts(4)[OF child(1)] child(2) by (simp add: net_addrs_eq[OF child(1)])
  have "subtract_loop parent child c q = []" using q by (simp add: subtract_loop.simps)
  then show ?case unfolding e using q by (simp add: partitions_Nil)
next
  case (Suc d)
  then have q: "q < net_prefix child" by simp
  have qb: "Suc q \<le> b" using q net_ok_facts(3)[OF child(1)] child(2) by simp
  define half :: nat where "half = 2 ^ (b - Suc q)"
  have two: "2 ^ (b - q) = half + half"
    using qb by (simp add: half_def Suc_diff_Suc[symmetric] flip: mult_2)
  have pos: "0 < half" by (simp add: half_def)
  have csz: "sizeBig child dvd half"
    using q child(2) by (simp add: half_def net_ok_facts(4)[OF child(1)] le_imp_power_dvd)
  define m where "m = c + half"
  have cdvd: "half dvd c" 
    using Suc.prems(2) unfolding two mult_2[symmetric] by (rule dvd_mult_right)
  then have mdvd: "half dvd m" by (simp add: m_def)
  have loop: "subtract_loop parent child c q =
      (if networkBig child \<ge> m
       then (bigToAddress c (fam b) @ ''/'' @ dec (Suc q)) # subtract_loop parent child m (Suc q)
       else (bigToAddress m (fam b) @ ''/'' @ dec (Suc q)) # subtract_loop parent child c (Suc q))"
    using q by (subst subtract_loop.simps) (simp add: Let_def m_def half_def parent push_bit_eq_mult)
  show ?case
  proof (cases "networkBig child \<ge> m")
    case True
    obtain n where n: "parseNetwork (bigToAddress c (fam b) @ ''/'' @ dec (Suc q)) = Inr n" "net_ok n"
      "net_bits n = b" "net_prefix n = Suc q" "networkBig n = c"
      "net_cidr n = bigToAddress c (fam b) @ ''/'' @ dec (Suc q)"
      using parseNetwork_block[of c b "Suc q"] Suc.prems(5)[of c] qb cdvd two pos
      by (auto simp: half_def)
    have addrs: "net_addrs n = {c..<m}"
      using n by (simp add: net_addrs_eq net_ok_facts(4) m_def half_def)
    have "\<exists>ns. emap parseNetwork (subtract_loop parent child m (Suc q)) = Inr ns
      \<and> map net_cidr ns = subtract_loop parent child m (Suc q)
      \<and> length ns = net_prefix child - Suc q
      \<and> partitions ns b ({m..<m + 2 ^ (b - Suc q)} - net_addrs child)"
      using Suc.prems two mdvd True q Suc.hyps(2)
      by (intro Suc.hyps(1)) (auto simp: m_def half_def)
    then obtain ns where ns: "emap parseNetwork (subtract_loop parent child m (Suc q)) = Inr ns"
      "map net_cidr ns = subtract_loop parent child m (Suc q)"
      "length ns = net_prefix child - Suc q"
      "partitions ns b ({m..<m + half} - net_addrs child)" by (auto simp: half_def)
    have "partitions (n # ns) b (net_addrs n \<union> ({m..<m + half} - net_addrs child))"
      using n ns addrs by (intro partitions_Cons) auto
    moreover have "net_addrs n \<union> ({m..<m + half} - net_addrs child) = {c..<c + 2 ^ (b - q)} - net_addrs child"
      using addrs True by (auto simp: two m_def net_addrs_eq[OF child(1)])
    ultimately show ?thesis
      using loop True n ns q by (intro exI[of _ "n # ns"]) simp
  next
    case False
    have below: "networkBig child + sizeBig child \<le> m"
    proof (rule ccontr)
      assume "\<not> ?thesis"
      then have "m \<le> networkBig child"
        using aligned_blocks_laminar[of "sizeBig child" "networkBig child" half m]
          net_ok_facts(5)[OF child(1)] mdvd csz net_size_pos[OF child(1)] False by auto
      with False show False by simp
    qed
    obtain n where n: "parseNetwork (bigToAddress m (fam b) @ ''/'' @ dec (Suc q)) = Inr n" "net_ok n"
      "net_bits n = b" "net_prefix n = Suc q" "networkBig n = m"
      "net_cidr n = bigToAddress m (fam b) @ ''/'' @ dec (Suc q)"
      using parseNetwork_block[of m b "Suc q"] Suc.prems(5)[of m] qb mdvd two pos
      by (auto simp: half_def m_def)
    have addrs: "net_addrs n = {m..<m + half}"
      using n by (simp add: net_addrs_eq net_ok_facts(4) half_def)
    have "\<exists>ns. emap parseNetwork (subtract_loop parent child c (Suc q)) = Inr ns
      \<and> map net_cidr ns = subtract_loop parent child c (Suc q)
      \<and> length ns = net_prefix child - Suc q
      \<and> partitions ns b ({c..<c + 2 ^ (b - Suc q)} - net_addrs child)"
      using Suc.prems two cdvd below q Suc.hyps(2)
      by (intro Suc.hyps(1)) (auto simp: m_def half_def)
    then obtain ns where ns: "emap parseNetwork (subtract_loop parent child c (Suc q)) = Inr ns"
      "map net_cidr ns = subtract_loop parent child c (Suc q)"
      "length ns = net_prefix child - Suc q"
      "partitions ns b ({c..<m} - net_addrs child)" by (auto simp: half_def m_def)
    have "partitions (n # ns) b (net_addrs n \<union> ({c..<m} - net_addrs child))"
      using n ns addrs by (intro partitions_Cons) auto
    moreover have "net_addrs n \<union> ({c..<m} - net_addrs child) = {c..<c + 2 ^ (b - q)} - net_addrs child"
      using addrs below by (auto simp: two m_def net_addrs_eq[OF child(1)])
    ultimately show ?thesis
      using loop False n ns q by (intro exI[of _ "n # ns"]) simp
  qed
qed


lemma net_block_bound: "net_ok n \<Longrightarrow> networkBig n + sizeBig n = lastBig n + 1"
  using net_size_pos[of n] net_ok_facts(6)[of n] by simp

lemma carve_parts:
  assumes "parseNetwork parentCidr = Inr parent" and "parseNetwork childCidr = Inr child"
    and "net_plain parent" and "isNetworkWithin childCidr parentCidr = Inr True"
  shows "\<exists>cidrs ns. subtractNetwork parentCidr childCidr = Inr cidrs
    \<and> emap parseNetwork cidrs = Inr ns \<and> map net_cidr ns = cidrs
    \<and> length cidrs = net_prefix child - net_prefix parent
    \<and> partitions ns (net_bits parent) (net_addrs parent - net_addrs child)"
proof -
  note p = parseNetwork_ok[OF assms(1)] and c = parseNetwork_ok[OF assms(2)]
  have w: "net_family child = net_family parent" "networkBig child \<ge> networkBig parent"
    "lastBig child \<le> lastBig parent" "net_prefix child > net_prefix parent"
    using assms(1,2,4) by (auto simp: isNetworkWithin_def split: if_split_asm)
  have bits: "net_bits child = net_bits parent"
    using w(1) net_ok_facts(1,2)[OF p] net_ok_facts(1,2)[OF c] by (auto split: if_split_asm)
  let ?s = "2 ^ (net_bits parent - net_prefix parent) :: nat"
  have block: "net_addrs parent = {networkBig parent..<networkBig parent + ?s}"
    using net_addrs_eq[OF p] net_ok_facts(4)[OF p] by simp
  have "\<exists>ns. emap parseNetwork (subtract_loop parent child (networkBig parent) (net_prefix parent)) = Inr ns
      \<and> map net_cidr ns = subtract_loop parent child (networkBig parent) (net_prefix parent)
      \<and> length ns = net_prefix child - net_prefix parent
      \<and> partitions ns (net_bits parent)
           ({networkBig parent..<networkBig parent + ?s} - net_addrs child)"
  proof (rule subtract_loop_partition[OF c bits refl net_ok_facts(2)[OF p]])
    show "net_prefix parent \<le> net_prefix child" using w(4) by simp
    show "?s dvd networkBig parent" using net_ok_facts(4,5)[OF p] by simp
    show "networkBig parent \<le> networkBig child" by (rule w(2))
    show "networkBig child + sizeBig child \<le> networkBig parent + ?s"
      using w(3) net_block_bound[OF p] net_block_bound[OF c] net_ok_facts(4)[OF p] by simp
    show "valid_addr a (net_bits parent)" if "networkBig parent \<le> a" "a < networkBig parent + ?s" for a
      using net_plain_valid[OF p assms(3), of a] that block by simp
  qed
  moreover have "subtractNetwork parentCidr childCidr
      = Inr (subtract_loop parent child (networkBig parent) (net_prefix parent))"
    using assms(1,2) w by (simp add: subtractNetwork_def)
  ultimately show ?thesis by (metis block length_map)
qed

text \<open>C5. Carving a child out of a network whose addresses all read back in its own family
  succeeds exactly when the child is strictly inside it; the result has one network per prefix
  bit between parent and child, every string of it is the canonical form of a network, and the
  networks are pairwise disjoint with union exactly the parent without the child.\<close>

theorem subtractNetwork_partitions:
  assumes "parseNetwork parentCidr = Inr parent" and "parseNetwork childCidr = Inr child"
    and "net_plain parent" and "isNetworkWithin childCidr parentCidr = Inr True"
  shows "\<exists>cidrs ns. subtractNetwork parentCidr childCidr = Inr cidrs
    \<and> emap parseNetwork cidrs = Inr ns \<and> map net_cidr ns = cidrs
    \<and> length cidrs = net_prefix child - net_prefix parent
    \<and> partitions ns (net_bits parent) (net_addrs parent - net_addrs child)"
  using assms by (rule carve_parts)

theorem subtractNetwork_partitions_witness:
  "\<exists>cidrs ns. subtractNetwork ''10.0.0.0/8'' ''10.64.0.0/10'' = Inr cidrs
    \<and> emap parseNetwork cidrs = Inr ns \<and> map net_cidr ns = cidrs
    \<and> length cidrs = 2
    \<and> partitions ns 32 (net_addrs (build_network 4 32 8 0x0a000000) - net_addrs (build_network 4 32 10 0x0a400000))"
proof -
  have p: "parseNetwork ''10.0.0.0/8'' = Inr (build_network (fam 32) 32 8 0x0a000000)"
    by (rule parseNetwork_literal) (code_simp, code_simp, simp)
  have c: "parseNetwork ''10.64.0.0/10'' = Inr (build_network (fam 32) 32 10 0x0a400000)"
    by (rule parseNetwork_literal) (code_simp, code_simp, simp)
  have w: "isNetworkWithin ''10.64.0.0/10'' ''10.0.0.0/8'' = Inr True"
    by (simp add: isNetworkWithin_def p c build_network_big)
  show ?thesis using subtractNetwork_partitions[OF p c _ w] by (simp add: net_plain_def)
qed

end
