(* ===== verification/CidrSets.thy ===== *)
theory CidrSets
  imports Cidr "HOL-Library.Multiset"
begin

text \<open>
  The network operations of \<open>server/src/utils/cidr.js\<close> as operations on address sets: overlap and
  containment decide the set relations, split tiles the parent, merge recognises exactly the
  lists of networks that partition one network, and the bounds check keeps a network clear of
  the IPv4-mapped block and on one side of every reserved range.
\<close>

section \<open>Decisions\<close>

lemma same_family_bits:
  assumes "net_ok m" "net_ok n"
  shows "net_family m = net_family n \<longleftrightarrow> net_bits m = net_bits n"
  using net_ok_facts(1,2)[OF assms(1)] net_ok_facts(1,2)[OF assms(2)] by (auto split: if_split_asm)

lemma net_addrs_nonempty: "net_ok n \<Longrightarrow> net_addrs n \<noteq> {}"
  using net_size_pos[of n] by (auto simp: net_addrs_eq)

lemma interval_overlap_iff:
  fixes a b c d :: nat
  assumes "a \<le> b" "c \<le> d"
  shows "{a..b} \<inter> {c..d} \<noteq> {} \<longleftrightarrow> a \<le> d \<and> c \<le> b"
proof
  assume "a \<le> d \<and> c \<le> b"
  with assms have "max a c \<in> {a..b} \<inter> {c..d}" by auto
  then show "{a..b} \<inter> {c..d} \<noteq> {}" by blast
qed auto

lemma net_base_le_last: "net_ok n \<Longrightarrow> networkBig n \<le> lastBig n"
  using net_addrs_nonempty by (fastforce simp: net_addrs_def)

lemma longer_prefix_iff:
  assumes m: "net_ok m" and n: "net_ok n"
    and f: "net_family m = net_family n" and s: "net_addrs m \<subseteq> net_addrs n"
  shows "net_prefix m > net_prefix n \<longleftrightarrow> net_addrs m \<noteq> net_addrs n"
proof -
  have b: "net_bits m = net_bits n" using same_family_bits[OF m n] f by blast
  have "card (net_addrs m) < card (net_addrs n) \<longleftrightarrow> net_addrs m \<noteq> net_addrs n"
    using s by (metis finite_atLeastAtMost less_irrefl net_addrs_def psubsetI psubset_card_mono)
  then show ?thesis using net_card[OF m] net_card[OF n] b net_ok_facts(3)[OF m] net_ok_facts(3)[OF n]
    by auto
qed

lemma network_relations:
  assumes "parseNetwork x = Inr m" and "parseNetwork y = Inr n"
  shows "networksOverlap x y = Inr (net_family m = net_family n \<and> net_addrs m \<inter> net_addrs n \<noteq> {})
    \<and> isNetworkWithin x y = Inr (net_family m = net_family n \<and> net_addrs m \<subset> net_addrs n)
    \<and> (net_family m = net_family n \<longrightarrow> net_addrs m \<subseteq> net_addrs n
         \<or> net_addrs n \<subseteq> net_addrs m \<or> net_addrs m \<inter> net_addrs n = {})"
proof -
  note m = parseNetwork_ok[OF assms(1)] and n = parseNetwork_ok[OF assms(2)]
  have sub: "networkBig m \<ge> networkBig n \<and> lastBig m \<le> lastBig n \<longleftrightarrow> net_addrs m \<subseteq> net_addrs n"
    using net_base_le_last[OF m] by (auto simp: net_addrs_def)
  have "networksOverlap x y = Inr (net_family m = net_family n \<and> net_addrs m \<inter> net_addrs n \<noteq> {})"
    using assms interval_overlap_iff[OF net_base_le_last[OF m] net_base_le_last[OF n]]
    by (auto simp: networksOverlap_def net_addrs_def)
  moreover have "net_family m = net_family n \<longrightarrow> net_addrs m \<subseteq> net_addrs n
      \<or> net_addrs n \<subseteq> net_addrs m \<or> net_addrs m \<inter> net_addrs n = {}"
    using net_nested_or_disjoint[OF m n] net_nested_or_disjoint[OF n m] same_family_bits[OF m n]
    by (metis inf_commute nat_le_linear)
  moreover have "isNetworkWithin x y = Inr (net_family m = net_family n \<and> net_addrs m \<subset> net_addrs n)"
    using assms sub longer_prefix_iff[OF m n] by (auto simp: isNetworkWithin_def)
  ultimately show ?thesis by blast
qed

text \<open>Two parsed networks: \<open>networksOverlap\<close> holds exactly when they are of one family and share
  an address, and \<open>isNetworkWithin\<close> exactly when they are of one family and the child's addresses
  are a strict subset of the parent's; networks of one family never overlap partially.\<close>

theorem network_relations_exact:
  assumes "parseNetwork x = Inr m" and "parseNetwork y = Inr n"
  shows "networksOverlap x y = Inr (net_family m = net_family n \<and> net_addrs m \<inter> net_addrs n \<noteq> {})
    \<and> isNetworkWithin x y = Inr (net_family m = net_family n \<and> net_addrs m \<subset> net_addrs n)
    \<and> (net_family m = net_family n \<longrightarrow> net_addrs m \<subseteq> net_addrs n
         \<or> net_addrs n \<subseteq> net_addrs m \<or> net_addrs m \<inter> net_addrs n = {})"
  using assms by (rule network_relations)

theorem network_relations_exact_witness:
  "networksOverlap ''10.1.0.0/16'' ''10.0.0.0/8'' = Inr True
    \<and> isNetworkWithin ''10.1.0.0/16'' ''10.0.0.0/8'' = Inr True"
proof -
  have x: "parseNetwork ''10.1.0.0/16'' = Inr (build_network (fam 32) 32 16 0x0a010000)"
    by (rule parseNetwork_literal) (code_simp, code_simp, simp)
  have y: "parseNetwork ''10.0.0.0/8'' = Inr (build_network (fam 32) 32 8 0x0a000000)"
    by (rule parseNetwork_literal) (code_simp, code_simp, simp)
  show ?thesis using network_relations_exact[OF x y]
    by (auto simp: net_addrs_def build_network_big)
qed

section \<open>Split\<close>

lemma partitions_snoc:
  assumes "partitions ns b A" "net_ok n" "net_bits n = b" "net_addrs n \<inter> A = {}"
  shows "partitions (ns @ [n]) b (A \<union> net_addrs n)"
  using assms by (auto simp: partitions_def sorted_wrt_append)

lemma tiling_partitions:
  assumes "\<And>i. i < k \<Longrightarrow> net_ok (g i) \<and> net_bits (g i) = b \<and> net_addrs (g i) = {B + i * s..<B + Suc i * s}"
  shows "partitions (map g [0..<k]) b {B..<B + k * s}"
  using assms
proof (induction k)
  case 0
  then show ?case by (simp add: partitions_Nil)
next
  case (Suc k)
  have "partitions (map g [0..<k] @ [g k]) b ({B..<B + k * s} \<union> net_addrs (g k))"
    using Suc.prems[of k] by (intro partitions_snoc Suc.IH) (use Suc.prems in auto)
  moreover have "{B..<B + k * s} \<union> net_addrs (g k) = {B..<B + Suc k * s}"
    using Suc.prems[of k] by auto
  ultimately show ?case by simp
qed

lemma block_index_dvd: "2 ^ h dvd B \<Longrightarrow> k \<le> h \<Longrightarrow> 2 ^ k dvd B + i * (2 ^ k :: nat)"
  by (meson dvd_add dvd_triv_right dvd_trans le_imp_power_dvd)

lemma split_parts:
  assumes "parseNetwork cidr = Inr parent" and "net_plain parent"
    and "net_prefix parent < p" and "p \<le> net_bits parent"
    and "2 ^ (p - net_prefix parent) \<le> maxCount"
  shows "\<exists>ns. splitNetwork cidr (int p) maxCount = Inr ns
    \<and> length ns = 2 ^ (p - net_prefix parent) \<and> (\<forall>n \<in> set ns. net_prefix n = p)
    \<and> sorted_wrt (<) (map networkBig ns)
    \<and> partitions ns (net_bits parent) (net_addrs parent)"
proof -
  note ok = parseNetwork_ok[OF assms(1)]
  let ?b = "net_bits parent" and ?B = "networkBig parent" and ?q = "net_prefix parent"
  let ?k = "2 ^ (p - ?q) :: nat" and ?s = "2 ^ (?b - p) :: nat"
  have ks: "?k * ?s = 2 ^ (?b - ?q)" using assms(3,4) by (simp add: power_add[symmetric])
  define addr where "addr i = bigToAddress (?B + i * ?s) (net_family parent) @ ''/'' @ dec p" for i
  have "\<exists>n. parseNetwork (addr i) = Inr n \<and> net_ok n \<and> net_bits n = ?b \<and> net_prefix n = p
      \<and> networkBig n = ?B + i * ?s" if i: "i < ?k" for i
  proof -
    have "i * ?s < Suc i * ?s" by simp
    also have "\<dots> \<le> ?k * ?s" using i by (intro mult_right_mono) auto
    finally have "?B + i * ?s \<in> net_addrs parent"
      unfolding ks by (simp add: net_addrs_eq[OF ok] net_ok_facts(4)[OF ok])
    then have v: "valid_addr (?B + i * ?s) ?b" by (rule net_plain_valid[OF ok assms(2)])
    have "?s dvd ?B + i * ?s"
      using net_ok_facts(4,5)[OF ok] assms(3,4) by (intro block_index_dvd[of "?b - ?q"]) auto
    from parseNetwork_block[OF v assms(4) this] show ?thesis
      unfolding addr_def net_ok_facts(2)[OF ok] by blast
  qed
  then obtain g where g: "\<And>i. i < ?k \<Longrightarrow> parseNetwork (addr i) = Inr (g i) \<and> net_ok (g i)
      \<and> net_bits (g i) = ?b \<and> net_prefix (g i) = p \<and> networkBig (g i) = ?B + i * ?s" by metis
  have split: "splitNetwork cidr (int p) maxCount = Inr (map g [0..<?k])"
    using assms g emap_all_Inr[of "[0..<?k]" "\<lambda>i. parseNetwork (addr i)" g]
    by (simp add: splitNetwork_def push_bit_eq_mult addr_def)
  have "partitions (map g [0..<?k]) ?b {?B..<?B + ?k * ?s}"
    using g by (intro tiling_partitions) (auto simp: net_addrs_eq net_ok_facts(4))
  moreover have "net_addrs parent = {?B..<?B + ?k * ?s}"
    using ks by (simp add: net_addrs_eq[OF ok] net_ok_facts(4)[OF ok])
  moreover have "sorted_wrt (<) (map networkBig (map g [0..<?k]))"
  proof -
    have e: "map networkBig (map g [0..<?k]) = map (\<lambda>i. ?B + i * ?s) [0..<?k]" using g by simp
    show ?thesis unfolding e by (simp add: sorted_wrt_map)
  qed
  ultimately show ?thesis using split g by (intro exI[of _ "map g [0..<?k]"]) auto
qed

text \<open>C21. Splitting a network whose addresses all read back in its own family: for a longer
  prefix of the family and a large enough limit the result has exactly
  \<open>2 ^ (newPrefix - prefix)\<close> networks, all of the new prefix, in address order, tiling the parent.\<close>

theorem splitNetwork_partitions:
  assumes "parseNetwork cidr = Inr parent" and "net_plain parent"
    and "net_prefix parent < p" and "p \<le> net_bits parent"
    and "2 ^ (p - net_prefix parent) \<le> maxCount"
  shows "\<exists>ns. splitNetwork cidr (int p) maxCount = Inr ns
    \<and> length ns = 2 ^ (p - net_prefix parent) \<and> (\<forall>n \<in> set ns. net_prefix n = p)
    \<and> sorted_wrt (<) (map networkBig ns)
    \<and> partitions ns (net_bits parent) (net_addrs parent)"
  using assms by (rule split_parts)

theorem splitNetwork_partitions_witness:
  "\<exists>ns. splitNetwork ''10.0.0.0/8'' 10 1024 = Inr ns
    \<and> length ns = 4 \<and> (\<forall>n \<in> set ns. net_prefix n = 10) \<and> sorted_wrt (<) (map networkBig ns)
    \<and> partitions ns 32 (net_addrs (build_network 4 32 8 0x0a000000))"
proof -
  have p: "parseNetwork ''10.0.0.0/8'' = Inr (build_network (fam 32) 32 8 0x0a000000)"
    by (rule parseNetwork_literal) (code_simp, code_simp, simp)
  show ?thesis using splitNetwork_partitions[OF p, of 10 1024] by (simp add: net_plain_def)
qed

section \<open>Merge\<close>

lemma sorted_wrt_symmetric_iff:
  assumes "\<And>x. x \<in> set xs \<Longrightarrow> \<not> R x x" and "\<And>x y. R x y \<Longrightarrow> R y x"
  shows "sorted_wrt R xs \<longleftrightarrow> distinct xs \<and> (\<forall>x \<in> set xs. \<forall>y \<in> set xs. x \<noteq> y \<longrightarrow> R x y)"
  using assms(1)
proof (induction xs)
  case (Cons a xs)
  have IH: "sorted_wrt R xs \<longleftrightarrow> distinct xs \<and> (\<forall>x \<in> set xs. \<forall>y \<in> set xs. x \<noteq> y \<longrightarrow> R x y)"
    using Cons by simp
  have "\<not> R a a" using Cons.prems by simp
  then show ?case unfolding sorted_wrt.simps IH using assms(2) by auto
qed simp

lemma disjoint_list_iff:
  assumes "\<And>n. n \<in> set ns \<Longrightarrow> net_addrs n \<noteq> {}"
  shows "sorted_wrt (\<lambda>m n. net_addrs m \<inter> net_addrs n = {}) ns \<longleftrightarrow>
    distinct ns \<and> (\<forall>m \<in> set ns. \<forall>n \<in> set ns. m \<noteq> n \<longrightarrow> net_addrs m \<inter> net_addrs n = {})"
  using assms by (intro sorted_wrt_symmetric_iff) (auto simp: Int_commute)

text \<open>The order of the networks does not matter.\<close>

lemma partitions_mset:
  assumes "mset ns = mset ms"
  shows "partitions ns b A \<longleftrightarrow> partitions ms b A"
proof -
  have s: "set ns = set ms" using assms by (metis set_mset_mset)
  have d: "distinct ns \<longleftrightarrow> distinct ms" using assms by (rule mset_eq_imp_distinct_iff)
  have "(\<forall>n \<in> set ns. net_ok n \<and> net_bits n = b) \<Longrightarrow>
      sorted_wrt (\<lambda>m n. net_addrs m \<inter> net_addrs n = {}) ns
      \<longleftrightarrow> sorted_wrt (\<lambda>m n. net_addrs m \<inter> net_addrs n = {}) ms"
    using disjoint_list_iff[of ns] disjoint_list_iff[of ms] net_addrs_nonempty s d by auto
  then show ?thesis unfolding partitions_def s by blast
qed

text \<open>No gap and no overlap between neighbours: the networks tile one interval.\<close>

lemma merge_gaps_tile:
  assumes "merge_gaps ns = None" "ns \<noteq> []" "\<forall>n \<in> set ns. net_ok n \<and> net_bits n = b"
  shows "partitions ns b {networkBig (hd ns)..<networkBig (hd ns) + sum_list (map sizeBig ns)}
    \<and> lastBig (last ns) + 1 = networkBig (hd ns) + sum_list (map sizeBig ns)"
  using assms
proof (induction ns rule: induct_list012)
  case (3 m n rest)
  let ?e = "networkBig n + sum_list (map sizeBig (n # rest))"
  have gap: "networkBig n = lastBig m + 1" "merge_gaps (n # rest) = None"
    using 3(3) by (auto split: if_split_asm)
  have end_m: "networkBig m + sizeBig m = networkBig n" using gap net_block_bound[of m] 3(5) by simp
  have IH: "partitions (n # rest) b {networkBig n..<?e}" "lastBig (last (n # rest)) + 1 = ?e"
    using 3(2) gap 3(5) by auto
  have "net_addrs m = {networkBig m..<networkBig n}" using 3(5) end_m by (simp add: net_addrs_eq)
  moreover from this have "partitions (m # n # rest) b (net_addrs m \<union> {networkBig n..<?e})"
    using 3(5) by (intro partitions_Cons IH) auto
  moreover have "{networkBig m..<networkBig n} \<union> {networkBig n..<?e} = {networkBig m..<?e}"
    using end_m by auto
  ultimately show ?case using IH(2) end_m by (simp add: add.assoc[symmetric])
next
  case (2 n)
  then have "net_ok n" "net_bits n = b" by auto
  then have "partitions [n] b (net_addrs n \<union> {})" by (intro partitions_Cons partitions_Nil) auto
  then show ?case using net_block_bound[of n] 2 by (simp add: net_addrs_eq)
qed simp

text \<open>Conversely, sorted networks that tile an interval have neither gap nor overlap.\<close>

lemma tile_merge_gaps:
  assumes "partitions ns b {B..<E}" "sorted (map networkBig ns)" "ns \<noteq> []"
  shows "merge_gaps ns = None \<and> networkBig (hd ns) = B \<and> B + sum_list (map sizeBig ns) = E"
  using assms
proof (induction ns arbitrary: B)
  case (Cons n rest)
  have ok: "net_ok n" "net_bits n = b" and un: "net_addrs n \<union> (\<Union>m \<in> set rest. net_addrs m) = {B..<E}"
    and dis: "\<And>m. m \<in> set rest \<Longrightarrow> net_addrs n \<inter> net_addrs m = {}"
    and okr: "\<And>m. m \<in> set rest \<Longrightarrow> net_ok m \<and> net_bits m = b"
    and lo: "\<And>m. m \<in> set rest \<Longrightarrow> networkBig n \<le> networkBig m"
    using Cons.prems by (auto simp: partitions_def)
  have base: "networkBig m \<in> net_addrs m" if "net_ok m" for m
    using net_base_le_last[OF that] by (simp add: net_addrs_def)
  have "networkBig n \<in> {B..<E}" using base[OF ok(1)] un by blast
  then have "B \<in> net_addrs n \<union> (\<Union>m \<in> set rest. net_addrs m)" using un by simp
  then have nB: "networkBig n = B"
    using \<open>networkBig n \<in> {B..<E}\<close> lo by (force simp: net_addrs_def)
  have an: "net_addrs n = {B..<B + sizeBig n}" by (simp add: net_addrs_eq[OF ok(1)] nB)
  have "(\<Union>m \<in> set rest. net_addrs m) = {B..<E} - net_addrs n" using un dis by blast
  also have "\<dots> = {B + sizeBig n..<E}" using an by auto
  finally have part: "partitions rest b {B + sizeBig n..<E}"
    using Cons.prems(1) by (auto simp: partitions_def)
  show ?case
  proof (cases rest)
    case Nil
    then have "{B..<B + sizeBig n} = {B..<E}" using un an by simp
    then have "B + sizeBig n = E"
      using net_size_pos[OF ok(1)] by (metis atLeastLessThan_eq_iff less_add_same_cancel1 atLeastLessThan_empty_iff)
    then show ?thesis using nB Nil by simp
  next
    case (Cons m rest')
    have IH: "merge_gaps rest = None" "networkBig (hd rest) = B + sizeBig n"
      "B + sizeBig n + sum_list (map sizeBig rest) = E"
      using Cons.IH[OF part] Cons.prems Cons by auto
    moreover have "lastBig n + 1 = B + sizeBig n" using net_block_bound[OF ok(1)] nB by simp
    ultimately show ?thesis using nB Cons by simp
  qed
qed simp

lemma net_last_bound: "net_ok n \<Longrightarrow> lastBig n < 2 ^ net_bits n"
proof -
  assume n: "net_ok n"
  obtain v b p where v: "valid_addr v b" and p: "p \<le> b" and e: "n = build_network (fam b) b p v"
    using n by (auto simp: net_ok_def)
  let ?h = "b - p"
  have "v div 2 ^ ?h < 2 ^ p"
    using valid_addr_bound[OF v] p by (simp add: less_mult_imp_div_less power_add[symmetric])
  then have "(v div 2 ^ ?h + 1) * 2 ^ ?h \<le> 2 ^ p * 2 ^ ?h" by (intro mult_right_mono) auto
  also have "\<dots> = 2 ^ b" using p by (simp add: power_add[symmetric])
  finally have "v div 2 ^ ?h * 2 ^ ?h + 2 ^ ?h \<le> 2 ^ b" by simp
  moreover have "0 < (2 :: nat) ^ ?h" by simp
  ultimately show ?thesis
    using build_network_big(2)[OF valid_addr_bound[OF v] p, of "fam b"] e by (simp only: build_network_fields) linarith
qed

lemma emap_length: "emap f xs = Inr ys \<Longrightarrow> length ys = length xs"
  by (simp add: emap_eq_Inr_iff)

lemma emap_parse_ok: "emap parseNetwork cidrs = Inr ns \<Longrightarrow> n \<in> set ns \<Longrightarrow> net_ok n"
  by (induction cidrs arbitrary: ns) (auto simp: ebind_eq_Inr_iff parseNetwork_ok)

lemma merge_sorted_iff:
  assumes ns: "ns \<noteq> []" "\<forall>n \<in> set ns. net_ok n \<and> net_bits n = b" and srt: "sorted (map networkBig ns)"
  shows "merge_sorted ns = Merged m \<longleftrightarrow>
    (\<exists>n. net_ok n \<and> net_bits n = b \<and> net_cidr n = m \<and> partitions ns b (net_addrs n))"
proof
  let ?t = "sum_list (map sizeBig ns)" and ?B = "networkBig (hd ns)"
  have hd: "net_ok (hd ns)" "net_bits (hd ns) = b" using ns by auto
  have lst: "net_ok (last ns)" "net_bits (last ns) = b" using ns by auto
  assume mrg: "merge_sorted ns = Merged m"
  then have gaps: "merge_gaps ns = None" and tst: "?t AND (?t - 1) = 0" and dv: "?B mod ?t = 0"
    by (auto simp: merge_sorted_def Let_def split: option.split_asm if_split_asm)
  note tile = merge_gaps_tile[OF gaps ns]
  have "0 < ?t" using ns net_size_pos by (cases ns) auto
  then obtain k where k: "?t = 2 ^ k" using power_of_two_test[OF _ tst] by blast
  have "lastBig (last ns) < 2 ^ b" using net_last_bound[OF lst(1)] lst(2) by simp
  then have "?t \<le> 2 ^ b" using tile by linarith
  then have kb: "k \<le> b" unfolding k by (simp only: power_increasing_iff one_less_numeral_iff num.distinct semiring_norm)
  have m: "m = bigToAddress ?B (fam b) @ ''/'' @ dec (b - k)"
    using mrg gaps tst dv net_ok_facts(9)[OF hd(1)] bigToAddress_fam[of b ?B] net_ok_facts(1)[OF hd(1)]
    by (auto simp: merge_sorted_def Let_def k length_binary_power hd split: if_split_asm)
  have "2 ^ (b - (b - k)) dvd ?B" using dv kb k by (simp add: dvd_eq_mod_eq_0)
  then obtain n where n: "net_ok n" "net_bits n = b" "net_prefix n = b - k" "networkBig n = ?B" "net_cidr n = m"
    using parseNetwork_block[of ?B b "b - k"] net_ok_facts(7)[OF hd(1)] hd(2) m by auto
  have "net_addrs n = {?B..<?B + ?t}" using n kb k by (simp add: net_addrs_eq net_ok_facts(4))
  then show "\<exists>n. net_ok n \<and> net_bits n = b \<and> net_cidr n = m \<and> partitions ns b (net_addrs n)"
    using n tile by auto
next
  assume "\<exists>n. net_ok n \<and> net_bits n = b \<and> net_cidr n = m \<and> partitions ns b (net_addrs n)"
  then obtain n where n: "net_ok n" "net_bits n = b" "net_cidr n = m" "partitions ns b (net_addrs n)" by blast
  let ?k = "b - net_prefix n"
  have size: "sizeBig n = 2 ^ ?k" using net_ok_facts(4)[OF n(1)] n(2) by simp
  have "partitions ns b {networkBig n..<networkBig n + sizeBig n}" using n by (simp add: net_addrs_eq)
  from tile_merge_gaps[OF this srt ns(1)]
  have t: "merge_gaps ns = None" "networkBig (hd ns) = networkBig n" "sum_list (map sizeBig ns) = 2 ^ ?k"
    using size by auto
  have "lastBig (last ns) + 1 = networkBig n + 2 ^ ?k" using merge_gaps_tile[OF t(1) ns] t by simp
  then have l: "lastBig (last ns) = networkBig n + 2 ^ ?k - 1" by linarith
  have hd: "net_ok (hd ns)" "net_bits (hd ns) = b" using ns by auto
  have "networkBig n mod 2 ^ ?k = 0" using net_ok_facts(5)[OF n(1)] size by (simp add: dvd_eq_mod_eq_0)
  moreover have "b - ?k = net_prefix n" using net_ok_facts(3)[OF n(1)] n(2) by simp
  moreover have "net_network (hd ns) = net_network n"
    using net_ok_facts(9)[OF hd(1)] net_ok_facts(9)[OF n(1)] hd(2) n(2) t(2) by simp
  ultimately have "merge_sorted ns = Merged (net_network n @ ''/'' @ dec (net_prefix n))"
    using t l power_of_two_and[of ?k] hd(2) by (simp add: merge_sorted_def Let_def length_binary_power)
  then show "merge_sorted ns = Merged m" using net_ok_facts(9,10)[OF n(1)] n(3) by simp
qed

lemma merge_exact:
  assumes "2 \<le> length cidrs" and "emap parseNetwork cidrs = Inr ns"
    and "\<forall>n \<in> set ns. net_bits n = b"
  shows "mergeNetworks cidrs = Inr (Merged m) \<longleftrightarrow>
    (\<exists>n. net_ok n \<and> net_bits n = b \<and> net_cidr n = m \<and> partitions ns b (net_addrs n))"
proof -
  have ok: "\<forall>n \<in> set ns. net_ok n" using emap_parse_ok[OF assms(2)] by simp
  have "length ns = length cidrs" using emap_length[OF assms(2)] .
  then have ne: "ns \<noteq> []" using assms(1) by auto
  have fam: "net_family n = fam b" if "n \<in> set ns" for n using that ok assms(3) net_ok_facts(2) by metis
  let ?s = "sort_key networkBig ns"
  have "mergeNetworks cidrs = Inr (merge_sorted ?s)"
    using assms(1,2) fam ne by (auto simp: mergeNetworks_def)
  moreover have "merge_sorted ?s = Merged m \<longleftrightarrow>
      (\<exists>n. net_ok n \<and> net_bits n = b \<and> net_cidr n = m \<and> partitions ?s b (net_addrs n))"
    using ne ok assms(3) by (intro merge_sorted_iff) (auto simp flip: set_empty)
  moreover have "partitions ?s b A \<longleftrightarrow> partitions ns b A" for A by (rule partitions_mset) simp
  ultimately show ?thesis by simp
qed

text \<open>C6. For two or more networks of one family, \<open>mergeNetworks\<close> answers with a merged network
  exactly when that network exists whose addresses the given networks partition, whatever the
  order they are given in.\<close>

theorem mergeNetworks_iff:
  assumes "2 \<le> length cidrs" and "emap parseNetwork cidrs = Inr ns"
    and "\<forall>n \<in> set ns. net_bits n = b"
  shows "mergeNetworks cidrs = Inr (Merged m) \<longleftrightarrow>
    (\<exists>n. net_ok n \<and> net_bits n = b \<and> net_cidr n = m \<and> partitions ns b (net_addrs n))"
  using assms by (rule merge_exact)

theorem mergeNetworks_iff_witness:
  "mergeNetworks [''10.128.0.0/9'', ''10.0.0.0/9''] = Inr (Merged ''10.0.0.0/8'') \<longleftrightarrow>
    (\<exists>n. net_ok n \<and> net_bits n = 32 \<and> net_cidr n = ''10.0.0.0/8'' \<and> partitions
       [build_network 4 32 9 0x0a800000, build_network 4 32 9 0x0a000000] 32 (net_addrs n))"
proof -
  have x: "parseNetwork ''10.128.0.0/9'' = Inr (build_network (fam 32) 32 9 0x0a800000)"
    by (rule parseNetwork_literal) (code_simp, code_simp, simp)
  have y: "parseNetwork ''10.0.0.0/9'' = Inr (build_network (fam 32) 32 9 0x0a000000)"
    by (rule parseNetwork_literal) (code_simp, code_simp, simp)
  show ?thesis by (rule mergeNetworks_iff) (simp_all add: x y)
qed

section \<open>Round trips\<close>

lemma net_cidr_literal:
  assumes "s = formatIp v b @ ''/'' @ dec p" and "valid_addr v b" and "p \<le> b" and "2 ^ (b - p) dvd v"
  shows "net_cidr (build_network (fam b) b p v) = s"
  using parseNetwork_literal[OF assms(1-3)] parseNetwork_block[OF assms(2-4)] assms(1)
    bigToAddress_fam[OF valid_addr_bits[OF assms(2)]] by auto

lemma emap_parse_cidrs: "\<forall>n \<in> set ns. net_ok n \<Longrightarrow> emap parseNetwork (map net_cidr ns) = Inr ns"
  by (induction ns) (auto simp: parseNetwork_cidr)

lemma merge_partition:
  assumes "partitions ns (net_bits n) (net_addrs n)" "net_ok n" "2 \<le> length ns"
  shows "mergeNetworks (map net_cidr ns) = Inr (Merged (net_cidr n))"
proof -
  have ok: "\<forall>n \<in> set ns. net_ok n" "\<forall>m \<in> set ns. net_bits m = net_bits n"
    using assms(1) by (auto simp: partitions_def)
  show ?thesis
    unfolding merge_exact[of "map net_cidr ns", simplified, OF assms(3) emap_parse_cidrs[OF ok(1)] ok(2)]
    using assms by blast
qed

text \<open>Undoing a split: the networks \<open>splitNetwork\<close> returns merge back, under
  \<open>mergeNetworks\<close>, to the canonical form of the network that was split.\<close>

theorem split_then_merge:
  assumes "parseNetwork cidr = Inr parent" and "net_plain parent"
    and "splitNetwork cidr p maxCount = Inr ns"
  shows "mergeNetworks (map net_cidr ns) = Inr (Merged (net_cidr parent))"
proof -
  note ok = parseNetwork_ok[OF assms(1)]
  define q where "q = nat p"
  have p: "p = int q" "net_prefix parent < q" "q \<le> net_bits parent" "2 ^ (q - net_prefix parent) \<le> maxCount"
    using assms(1,3) by (auto simp: splitNetwork_def Let_def q_def push_bit_eq_mult split: if_split_asm)
  obtain ms where ms: "splitNetwork cidr (int q) maxCount = Inr ms" "length ms = 2 ^ (q - net_prefix parent)"
    "partitions ms (net_bits parent) (net_addrs parent)"
    using split_parts[OF assms(1,2) p(2-4)] by blast
  have "2 ^ 1 \<le> (2 :: nat) ^ (q - net_prefix parent)" using p(2) by (intro power_increasing) auto
  then show ?thesis using merge_partition[OF ms(3) ok] ms assms(3) p(1) by simp
qed

theorem split_then_merge_witness:
  "\<exists>ns. splitNetwork ''10.0.0.0/8'' 10 1024 = Inr ns
    \<and> mergeNetworks (map net_cidr ns) = Inr (Merged ''10.0.0.0/8'')"
proof -
  have p: "parseNetwork ''10.0.0.0/8'' = Inr (build_network (fam 32) 32 8 0x0a000000)"
    by (rule parseNetwork_literal) (code_simp, code_simp, simp)
  have c: "net_cidr (build_network (fam 32) 32 8 0x0a000000) = ''10.0.0.0/8''"
    by (rule net_cidr_literal) (code_simp, code_simp, simp, simp)
  obtain ns where ns: "splitNetwork ''10.0.0.0/8'' 10 1024 = Inr ns"
    using split_parts[OF p, of 10 1024] by (auto simp: net_plain_def)
  show ?thesis using split_then_merge[OF p _ ns] ns c by (simp add: net_plain_def)
qed

text \<open>Undoing a carve: a child carved out of a network, together with the networks the carve
  leaves, merges back to the canonical form of that network.\<close>

theorem carve_then_merge:
  assumes "parseNetwork parentCidr = Inr parent" and "parseNetwork childCidr = Inr child"
    and "net_plain parent" and "subtractNetwork parentCidr childCidr = Inr rest"
  shows "mergeNetworks (net_cidr child # rest) = Inr (Merged (net_cidr parent))"
proof -
  note p = parseNetwork_ok[OF assms(1)] and c = parseNetwork_ok[OF assms(2)]
  have w: "isNetworkWithin childCidr parentCidr = Inr True"
    using assms by (auto simp: subtractNetwork_def isNetworkWithin_def split: if_split_asm)
  obtain ns where ns: "map net_cidr ns = rest" "length rest = net_prefix child - net_prefix parent"
    "partitions ns (net_bits parent) (net_addrs parent - net_addrs child)"
    using carve_parts[OF assms(1-3) w] assms(4) by auto
  have sub: "net_addrs child \<subset> net_addrs parent" "net_bits child = net_bits parent"
    using w network_relations[OF assms(2,1)] same_family_bits[OF c p] by auto
  have "net_prefix parent < net_prefix child"
    using w assms(1,2) by (auto simp: isNetworkWithin_def split: if_split_asm)
  then have "2 \<le> length (child # ns)" using ns(1,2) by auto
  moreover have "partitions (child # ns) (net_bits parent) (net_addrs child \<union> (net_addrs parent - net_addrs child))"
    using c sub(2) ns(3) by (intro partitions_Cons) auto
  moreover have "net_addrs child \<union> (net_addrs parent - net_addrs child) = net_addrs parent" using sub by blast
  ultimately show ?thesis using merge_partition[of "child # ns" parent] p ns(1) by simp
qed

theorem carve_then_merge_witness:
  "\<exists>rest. subtractNetwork ''10.0.0.0/8'' ''10.64.0.0/10'' = Inr rest
    \<and> mergeNetworks (''10.64.0.0/10'' # rest) = Inr (Merged ''10.0.0.0/8'')"
proof -
  have p: "parseNetwork ''10.0.0.0/8'' = Inr (build_network (fam 32) 32 8 0x0a000000)"
    by (rule parseNetwork_literal) (code_simp, code_simp, simp)
  have c: "parseNetwork ''10.64.0.0/10'' = Inr (build_network (fam 32) 32 10 0x0a400000)"
    by (rule parseNetwork_literal) (code_simp, code_simp, simp)
  have n: "net_cidr (build_network (fam 32) 32 8 0x0a000000) = ''10.0.0.0/8''"
    by (rule net_cidr_literal) (code_simp, code_simp, simp, simp)
  have n': "net_cidr (build_network (fam 32) 32 10 0x0a400000) = ''10.64.0.0/10''"
    by (rule net_cidr_literal) (code_simp, code_simp, simp, simp)
  obtain rest where r: "subtractNetwork ''10.0.0.0/8'' ''10.64.0.0/10'' = Inr rest"
    by (simp add: subtractNetwork_def p c build_network_big)
  show ?thesis using carve_then_merge[OF p c _ r] r n n' by (simp add: net_plain_def)
qed

section \<open>Reserved ranges\<close>

lemma reserved_v4:
  "parseNetwork ''10.0.0.0/8'' = Inr (build_network (fam 32) 32 8 0x0a000000)"
  "parseNetwork ''172.16.0.0/12'' = Inr (build_network (fam 32) 32 12 0xac100000)"
  "parseNetwork ''192.168.0.0/16'' = Inr (build_network (fam 32) 32 16 0xc0a80000)"
  "parseNetwork ''100.64.0.0/10'' = Inr (build_network (fam 32) 32 10 0x64400000)"
  "parseNetwork ''169.254.0.0/16'' = Inr (build_network (fam 32) 32 16 0xa9fe0000)"
  "parseNetwork ''127.0.0.0/8'' = Inr (build_network (fam 32) 32 8 0x7f000000)"
  "parseNetwork ''224.0.0.0/4'' = Inr (build_network (fam 32) 32 4 0xe0000000)"
  "parseNetwork ''240.0.0.0/4'' = Inr (build_network (fam 32) 32 4 0xf0000000)"
  by (rule parseNetwork_literal; code_simp)+

text \<open>Reading a literal IPv6 network: its groups, and the run the printed form compresses.\<close>

lemma parseNetwork_literal_v6:
  assumes "formatV6_groups v = gs" and "best_zero_run gs 0 (- 1) 0 = (int a, n)" and "2 \<le> n"
    and "s = join '':'' (take a gs) @ ''::'' @ join '':'' (drop (a + n) gs) @ ''/'' @ dec p"
    and "valid_addr v 128" and "p \<le> 128"
  shows "parseNetwork s = Inr (build_network 6 128 p v)"
proof -
  have "formatIp v 128 = join '':'' (take a gs) @ ''::'' @ join '':'' (drop (a + n) gs)"
    using assms(1-3) by (simp add: formatIp_def IPV4_BITS_def)
  then show ?thesis using parseNetwork_literal[of s v 128 p] assms(4-6) by simp
qed

lemmas v6_group_eval = formatV6_groups_def drop_bit_eq_div to_digits.simps digit_char_def
lemmas valid_addr_eval = valid_addr_def is_v4_mapped_def V4_MAPPED_PREFIX_def V4_MAPPED_LAST_def push_bit_eq_mult

lemma reserved_v6:
  "parseNetwork ''fc00::/7'' = Inr (build_network 6 128 7 0xfc000000000000000000000000000000)"
  "parseNetwork ''fe80::/10'' = Inr (build_network 6 128 10 0xfe800000000000000000000000000000)"
  "parseNetwork ''::1/128'' = Inr (build_network 6 128 128 1)"
  "parseNetwork ''ff00::/8'' = Inr (build_network 6 128 8 0xff000000000000000000000000000000)"
  "parseNetwork ''2001:db8::/32'' = Inr (build_network 6 128 32 0x20010db8000000000000000000000000)"
proof -
  show "parseNetwork ''fc00::/7'' = Inr (build_network 6 128 7 0xfc000000000000000000000000000000)"
    by (rule parseNetwork_literal_v6[of _ "[''fc00'', ''0'', ''0'', ''0'', ''0'', ''0'', ''0'', ''0'']" 1 7])
      (simp add: v6_group_eval valid_addr_eval | code_simp)+
  show "parseNetwork ''fe80::/10'' = Inr (build_network 6 128 10 0xfe800000000000000000000000000000)"
    by (rule parseNetwork_literal_v6[of _ "[''fe80'', ''0'', ''0'', ''0'', ''0'', ''0'', ''0'', ''0'']" 1 7])
      (simp add: v6_group_eval valid_addr_eval | code_simp)+
  show "parseNetwork ''::1/128'' = Inr (build_network 6 128 128 1)"
    by (rule parseNetwork_literal_v6[of _ "[''0'', ''0'', ''0'', ''0'', ''0'', ''0'', ''0'', ''1'']" 0 7])
      (simp add: v6_group_eval valid_addr_eval | code_simp)+
  show "parseNetwork ''ff00::/8'' = Inr (build_network 6 128 8 0xff000000000000000000000000000000)"
    by (rule parseNetwork_literal_v6[of _ "[''ff00'', ''0'', ''0'', ''0'', ''0'', ''0'', ''0'', ''0'']" 1 7])
      (simp add: v6_group_eval valid_addr_eval | code_simp)+
  show "parseNetwork ''2001:db8::/32'' = Inr (build_network 6 128 32 0x20010db8000000000000000000000000)"
    by (rule parseNetwork_literal_v6[of _ "[''2001'', ''db8'', ''0'', ''0'', ''0'', ''0'', ''0'', ''0'']" 2 6])
      (simp add: v6_group_eval valid_addr_eval | code_simp)+
qed

lemma bounds_loop_valid_iff:
  assumes n: "parseNetwork cidr = Inr n"
    and ok: "\<forall>r \<in> set rs. is_ok (parseNetwork (fst r))"
    and dis: "sorted_wrt (\<lambda>x y. \<forall>r r'. parseNetwork (fst x) = Inr r \<and> parseNetwork (fst y) = Inr r'
      \<and> net_family r = net_family r' \<longrightarrow> net_addrs r \<inter> net_addrs r' = {}) rs"
  shows "is_ok (bounds_loop cidr n rs) \<and> (bounds_loop cidr n rs = Inr BoundsValid \<longleftrightarrow>
    (\<forall>x \<in> set rs. \<forall>r. parseNetwork (fst x) = Inr r \<and> net_family r = net_family n \<longrightarrow>
       net_addrs n \<subseteq> net_addrs r \<or> net_addrs n \<inter> net_addrs r = {}))"
  using ok dis
proof (induction rs)
  case (Cons x rest)
  obtain c nm where x: "x = (c, nm)" by (cases x)
  obtain r where r: "parseNetwork c = Inr r" using Cons.prems(1) x by (cases "parseNetwork c") auto
  note ov = network_relations[OF n r]
  have sub: "networkBig n \<ge> networkBig r \<and> lastBig n \<le> lastBig r \<longleftrightarrow> net_addrs n \<subseteq> net_addrs r"
    using net_base_le_last[OF parseNetwork_ok[OF n]] by (auto simp: net_addrs_def)
  have ne: "net_addrs n \<noteq> {}" by (rule net_addrs_nonempty[OF parseNetwork_ok[OF n]])
  have IH: "is_ok (bounds_loop cidr n rest) \<and> (bounds_loop cidr n rest = Inr BoundsValid \<longleftrightarrow>
    (\<forall>x \<in> set rest. \<forall>r. parseNetwork (fst x) = Inr r \<and> net_family r = net_family n \<longrightarrow>
       net_addrs n \<subseteq> net_addrs r \<or> net_addrs n \<inter> net_addrs r = {}))"
    using Cons by auto
  have later: "net_addrs n \<inter> net_addrs r' = {}"
    if "net_addrs n \<subseteq> net_addrs r" "y \<in> set rest" "parseNetwork (fst y) = Inr r'"
      "net_family r = net_family n" "net_family r' = net_family n" for y r'
    using that Cons.prems(2) x r by fastforce
  consider "net_family r \<noteq> net_family n"
    | "net_family r = net_family n" "net_addrs n \<inter> net_addrs r = {}"
    | "net_family r = net_family n" "net_addrs n \<inter> net_addrs r \<noteq> {}" by blast
  then show ?case
  proof cases
    case 3
    then show ?thesis using x r ov sub later by auto
  qed (use x r ov IH in \<open>simp_all\<close>)
qed simp

lemmas reserved_parse = reserved_v4 reserved_v6

lemma reserved_ok: "\<forall>r \<in> set RESERVED_RANGES. is_ok (parseNetwork (fst r))"
  by (simp add: RESERVED_RANGES_def reserved_parse)

lemma reserved_disjoint:
  "sorted_wrt (\<lambda>x y. \<forall>r r'. parseNetwork (fst x) = Inr r \<and> parseNetwork (fst y) = Inr r'
      \<and> net_family r = net_family r' \<longrightarrow> net_addrs r \<inter> net_addrs r' = {}) RESERVED_RANGES"
  unfolding RESERVED_RANGES_def sorted_wrt.simps list.set ball_simps fst_conv reserved_parse
  by (simp add: net_addrs_def build_network_big)

definition mapped_block :: "nat set" where
  "mapped_block = {V4_MAPPED_PREFIX..V4_MAPPED_LAST}"

lemma overlaps_mapped_iff:
  assumes "net_ok n"
  shows "networkBig n \<le> V4_MAPPED_LAST \<and> V4_MAPPED_PREFIX \<le> lastBig n \<longleftrightarrow> net_addrs n \<inter> mapped_block \<noteq> {}"
proof -
  have "V4_MAPPED_PREFIX \<le> V4_MAPPED_LAST" by (simp add: V4_MAPPED_LAST_def)
  then show ?thesis
    using interval_overlap_iff[OF net_base_le_last[OF assms]] by (auto simp: net_addrs_def mapped_block_def)
qed

text \<open>C22. \<open>validateNetworkBounds\<close> answers for every network that parses, and accepts it exactly when
  it is clear of the IPv4-mapped block (IPv6) and, for every reserved range of its family, lies
  inside the range or apart from it; an accepted network is one that carve and split handle
  exactly.\<close>

theorem validateNetworkBounds_iff:
  assumes "parseNetwork cidr = Inr n"
  shows "is_ok (validateNetworkBounds cidr)
    \<and> (validateNetworkBounds cidr = Inr BoundsValid \<longleftrightarrow>
        (net_family n = 6 \<longrightarrow> net_addrs n \<inter> mapped_block = {})
        \<and> (\<forall>x \<in> set RESERVED_RANGES. \<forall>r. parseNetwork (fst x) = Inr r \<and> net_family r = net_family n
             \<longrightarrow> net_addrs n \<subseteq> net_addrs r \<or> net_addrs n \<inter> net_addrs r = {}))
    \<and> (validateNetworkBounds cidr = Inr BoundsValid \<longrightarrow> net_plain n)"
proof -
  note ok = parseNetwork_ok[OF assms]
  note loop = bounds_loop_valid_iff[OF assms reserved_ok reserved_disjoint]
  show ?thesis
  proof (cases "net_family n = 6 \<and> net_addrs n \<inter> mapped_block \<noteq> {}")
    case True
    then have "validateNetworkBounds cidr = Inr OverlapsMapped"
      unfolding validateNetworkBounds_def assms using overlaps_mapped_iff[OF ok] by simp
    then show ?thesis using True by simp
  next
    case False
    then have v: "validateNetworkBounds cidr = bounds_loop cidr n RESERVED_RANGES"
      unfolding validateNetworkBounds_def assms using overlaps_mapped_iff[OF ok] by auto
    have "net_plain n"
      using False net_ok_facts(2)[OF ok] overlaps_mapped_iff[OF ok]
      by (auto simp: net_plain_def not_le split: if_split_asm)
    then show ?thesis unfolding v using loop False by blast
  qed
qed

theorem validateNetworkBounds_iff_witness:
  "validateNetworkBounds ''10.0.0.0/8'' = Inr BoundsValid"
proof -
  let ?n = "build_network (fam 32) 32 8 0x0a000000"
  have "parseNetwork ''10.0.0.0/8'' = Inr ?n" by (simp add: reserved_v4)
  from validateNetworkBounds_iff[OF this]
  have "validateNetworkBounds ''10.0.0.0/8'' = Inr BoundsValid \<longleftrightarrow>
      (\<forall>x \<in> set RESERVED_RANGES. \<forall>r. parseNetwork (fst x) = Inr r \<and> net_family r = 4
        \<longrightarrow> net_addrs ?n \<subseteq> net_addrs r \<or> net_addrs ?n \<inter> net_addrs r = {})" by simp
  moreover have "\<dots>"
    unfolding RESERVED_RANGES_def list.set ball_simps fst_conv reserved_parse
    by (simp add: net_addrs_def build_network_big)
  ultimately show ?thesis by blast
qed

text \<open>The canonical form of a network: \<open>normalizeNetwork\<close> is idempotent, two strings have the same
  canonical form exactly when they denote the same network, and a parsed network has a prefix of
  its family, a base aligned to its size and a size of two to the host bits.\<close>

theorem normalizeNetwork_canonical:
  assumes "parseNetwork c = Inr n"
  shows "normalizeNetwork c = Inr (net_cidr n) \<and> normalizeNetwork (net_cidr n) = Inr (net_cidr n)
    \<and> (normalizeNetwork c' = normalizeNetwork c \<longleftrightarrow> parseNetwork c' = parseNetwork c)
    \<and> net_prefix n \<le> net_bits n \<and> sizeBig n = 2 ^ (net_bits n - net_prefix n)
    \<and> sizeBig n dvd networkBig n \<and> lastBig n < 2 ^ net_bits n"
proof -
  note ok = parseNetwork_ok[OF assms]
  have same: "parseNetwork c' = Inr n" if h: "normalizeNetwork c' = Inr (net_cidr n)"
  proof -
    obtain n' where n': "parseNetwork c' = Inr n'" "net_cidr n' = net_cidr n"
      using h by (auto simp: normalizeNetwork_def ebind_eq_Inr_iff)
    have "parseNetwork (net_cidr n) = Inr n'"
      using parseNetwork_cidr[OF parseNetwork_ok[OF n'(1)]] n'(2) by simp
    then show ?thesis using n'(1) parseNetwork_cidr[OF ok] by simp
  qed
  have "normalizeNetwork c = Inr (net_cidr n)" by (simp add: normalizeNetwork_def assms)
  moreover have "normalizeNetwork (net_cidr n) = Inr (net_cidr n)"
    by (simp add: normalizeNetwork_def parseNetwork_cidr[OF ok])
  moreover have "normalizeNetwork c' = Inr (net_cidr n)" if "parseNetwork c' = Inr n"
    using that by (simp add: normalizeNetwork_def)
  ultimately show ?thesis
    using same assms net_ok_facts(3,4,5)[OF ok] net_last_bound[OF ok] by auto
qed

theorem normalizeNetwork_canonical_witness:
  "normalizeNetwork ''2001:db8::/32'' = Inr (net_cidr (build_network 6 128 32 0x20010db8000000000000000000000000))"
  using normalizeNetwork_canonical[OF reserved_v6(5)] by blast

end
