(* ===== verification/CidrMatch.thy ===== *)
theory CidrMatch
  imports CidrSets
begin

text \<open>
  The GeoIP allowlist matcher, \<open>server/src/utils/cidr-match.js\<close>, and the address helpers of
  \<open>server/src/utils/ip.js\<close>. The matcher reads addresses with its own stricter options; it is the
  second instance of the address codec contract. Matching is membership in the address interval
  of the entry, and the stored spelling of an entry is canonical.
\<close>

section \<open>Strict parsing\<close>

definition STRICT :: ip_options where
  "STRICT = \<lparr>opt_zoneId = False, opt_mapV4 = False, opt_embeddedV4 = False\<rparr>"

definition ipToBigInt :: "string \<Rightarrow> (nat \<times> nat) option" where
  "ipToBigInt ip =
     (case parseIp_with STRICT ip of None \<Rightarrow> None | Some parsed \<Rightarrow> Some (ip_value parsed, ip_bits parsed))"

record cidr_entry =
  e_bits :: nat
  e_network :: nat
  e_mask :: nat
  e_prefix :: nat

definition entry_of :: "nat \<Rightarrow> nat \<Rightarrow> nat \<Rightarrow> cidr_entry" where
  "entry_of v bits plen =
     (let full = push_bit bits 1 - 1;
          netmask = full XOR (push_bit (bits - plen) 1 - 1)
      in \<lparr>e_bits = bits, e_network = v AND netmask, e_mask = netmask, e_prefix = plen\<rparr>)"

definition parseCidrEntry :: "string \<Rightarrow> cidr_entry option" where
  "parseCidrEntry entry =
     (let segs = split_chr (CHR ''/'') (trim entry) in
      if length segs > 2 then None
      else (case ipToBigInt (segs ! 0) of
              None \<Rightarrow> None
            | Some (v, bits) \<Rightarrow>
                if length segs = 2 then
                  (if \<not> (all_digits (segs ! 1) \<and> length (segs ! 1) \<le> 3) then None
                   else let plen = of_digits 10 (segs ! 1) in
                     if plen > bits then None else Some (entry_of v bits plen))
                else Some (entry_of v bits bits)))"

definition isValidIpOrCidr :: "string \<Rightarrow> bool" where
  "isValidIpOrCidr entry = (parseCidrEntry entry \<noteq> None)"

definition formatCidrEntry :: "cidr_entry \<Rightarrow> string" where
  "formatCidrEntry entry = formatIp (e_network entry) (e_bits entry) @ ''/'' @ dec (e_prefix entry)"

definition canonicalizeIpOrCidr :: "string \<Rightarrow> string option" where
  "canonicalizeIpOrCidr value =
     (case parseCidrEntry value of None \<Rightarrow> None | Some parsed \<Rightarrow> Some (formatCidrEntry parsed))"

definition ipMatchesEntry :: "string \<Rightarrow> cidr_entry \<Rightarrow> bool" where
  "ipMatchesEntry ip entry =
     (case ipToBigInt ip of
        None \<Rightarrow> False
      | Some (v, bits) \<Rightarrow> if bits \<noteq> e_bits entry then False else v AND e_mask entry = e_network entry)"

fun ipInAny :: "string \<Rightarrow> cidr_entry list \<Rightarrow> bool" where
  "ipInAny ip [] = False"
| "ipInAny ip (e # es) = (if ipMatchesEntry ip e then True else ipInAny ip es)"

section \<open>Addresses, MACs and domains\<close>

definition isIpInRange :: "string \<Rightarrow> string \<Rightarrow> string \<Rightarrow> cidr_error + bool" where
  "isIpInRange ip startIp endIp = addressInRange ip startIp endIp"

definition rangesOverlap :: "string \<Rightarrow> string \<Rightarrow> string \<Rightarrow> string \<Rightarrow> cidr_error + bool" where
  "rangesOverlap startA endA startB endB = addressRangesOverlap startA endA startB endB"

text \<open>The interface table is an argument: the (family, internal, address) triples, flattened.\<close>

record iface_addr =
  if_family :: string
  if_internal :: bool
  if_address :: string

definition getServerIpForSubnet :: "iface_addr list \<Rightarrow> string \<Rightarrow> string option" where
  "getServerIpForSubnet ifaces cidr =
     (case parseNetwork cidr of
        Inl _ \<Rightarrow> None
      | Inr parsed \<Rightarrow>
          let wanted = (if net_family parsed = 6 then ''IPv6'' else ''IPv4'') in
          map_option if_address
            (find (\<lambda>addr. if_family addr = wanted \<and> \<not> if_internal addr
                     \<and> parsedNetworkContains parsed (if_address addr)) ifaces))"

definition NON_GLOBAL_IPV4_RANGES :: "string list" where
  "NON_GLOBAL_IPV4_RANGES =
     [''0.0.0.0/8'', ''10.0.0.0/8'', ''100.64.0.0/10'', ''127.0.0.0/8'', ''169.254.0.0/16'',
      ''172.16.0.0/12'', ''192.0.0.0/24'', ''192.0.2.0/24'', ''192.168.0.0/16'', ''198.18.0.0/15'',
      ''198.51.100.0/24'', ''203.0.113.0/24'', ''224.0.0.0/4'', ''240.0.0.0/4'']"

definition NON_GLOBAL_IPV6_RANGES :: "string list" where
  "NON_GLOBAL_IPV6_RANGES =
     [''::/128'', ''::1/128'', ''::ffff:0:0/96'', ''fc00::/7'', ''fe80::/10'', ''ff00::/8'',
      ''2001:db8::/32'']"

text \<open>\<open>special.some(range => networksOverlap(cidr, range))\<close>: stops at the first hit, and an error of
  the test is the error of the whole.\<close>

fun some_e :: "('a \<Rightarrow> 'e + bool) \<Rightarrow> 'a list \<Rightarrow> 'e + bool" where
  "some_e f [] = Inr False"
| "some_e f (x # xs) = ebind (f x) (\<lambda>b. if b then Inr True else some_e f xs)"

definition isGloballyRoutableCidr :: "string \<Rightarrow> cidr_error + bool" where
  "isGloballyRoutableCidr cidr =
     ebind (parseNetwork cidr) (\<lambda>parsed.
       let special = (if net_family parsed = 6 then NON_GLOBAL_IPV6_RANGES else NON_GLOBAL_IPV4_RANGES) in
       ebind (some_e (\<lambda>range. networksOverlap cidr range) special) (\<lambda>hit. Inr (\<not> hit)))"

text \<open>\<open>/^([0-9a-fA-F]{2}:){5}[0-9a-fA-F]{2}$/\<close>\<close>

definition MAC_RE :: "string \<Rightarrow> bool" where
  "MAC_RE mac = (let parts = split_chr (CHR '':'') mac in
     length parts = 6 \<and> list_all (\<lambda>p. length p = 2 \<and> list_all is_hex_digit p) parts)"

definition isValidMac :: "string \<Rightarrow> bool" where
  "isValidMac mac = MAC_RE mac"

definition isClientMac :: "string \<Rightarrow> bool" where
  "isClientMac mac =
     (if \<not> isValidMac mac then False
      else
        let octets = map (of_digits 16) (split_chr (CHR '':'') (toLowerCase mac)) in
        if list_all (\<lambda>o'. o' = 0) octets then False
        else if list_all (\<lambda>o'. o' = 0xff) octets then False
        else if (octets ! 0) AND 1 \<noteq> 0 then False
        else True)"

text \<open>\<open>/^[a-zA-Z0-9]([a-zA-Z0-9-]*[a-zA-Z0-9])?$/\<close>\<close>

definition DOMAIN_LABEL_RE :: "string \<Rightarrow> bool" where
  "DOMAIN_LABEL_RE l = (l \<noteq> [] \<and> is_alnum (hd l) \<and> is_alnum (last l)
     \<and> list_all (\<lambda>c. is_alnum c \<or> c = CHR ''-'') l)"

definition IPV4_LITERAL_RE :: "string \<Rightarrow> bool" where
  "IPV4_LITERAL_RE name = (let parts = split_chr (CHR ''.'') name in
     length parts = 4 \<and> list_all V4_OCTET_RE parts)"

definition isValidDomain :: "string \<Rightarrow> bool" where
  "isValidDomain name =
     (if length name = 0 \<or> length name > 253 then False
      else if IPV4_LITERAL_RE name then False
      else list_all (\<lambda>l. length l > 0 \<and> length l \<le> 63 \<and> DOMAIN_LABEL_RE l) (split_chr (CHR ''.'') name))"

datatype display_error = MustNotBeEmpty | TooLong | AngleBracket | ControlCharacter

definition control_char :: "char \<Rightarrow> bool" where
  "control_char c = (code c \<le> 0x08 \<or> 0x0b \<le> code c \<and> code c \<le> 0x1f \<or> code c = 0x7f)"

definition validateDisplayString :: "string option \<Rightarrow> nat \<Rightarrow> bool \<Rightarrow> display_error option" where
  "validateDisplayString value maxLength allowEmpty =
     (case value of
        None \<Rightarrow> if allowEmpty then None else Some MustNotBeEmpty
      | Some s \<Rightarrow>
          if s = [] then (if allowEmpty then None else Some MustNotBeEmpty)
          else if length s > maxLength then Some TooLong
          else if \<exists>c \<in> set s. c = CHR ''<'' \<or> c = CHR ''>'' then Some AngleBracket
          else if \<exists>c \<in> set s. control_char c then Some ControlCharacter
          else None)"

section \<open>The strict codec\<close>

definition strict_addr :: "nat \<Rightarrow> nat \<Rightarrow> bool" where
  "strict_addr v b = ((b = 32 \<or> b = 128) \<and> v < 2 ^ b)"

lemma ipToBigInt_format:
  assumes "strict_addr v b"
  shows "ipToBigInt (formatIp v b) = Some (v, b)"
proof -
  note plain = printed_address_plain[OF formatIp_chars]
  consider "b = 32" "v < 2 ^ 32" | "b = 128" "v < 2 ^ 128"
    using assms by (auto simp: strict_addr_def)
  then show ?thesis
  proof cases
    case 1
    then have "parseIp_with STRICT (formatIp v b) = Some \<lparr>ip_value = v, ip_bits = b, ip_zoneId = None\<rparr>"
      by (intro parseIp_with_format) (simp add: valid_addr_def)
    then show ?thesis by (simp add: ipToBigInt_def)
  next
    case 2
    have ne: "formatIp v 128 \<noteq> []" using formatIp_v6_colon[of v] by auto
    then show ?thesis
      unfolding 2(1) ipToBigInt_def parseIp_with_def Let_def plain IPV6_BITS_def
      by (simp add: formatIp_v6_colon parseV6_format[OF 2(2)] STRICT_def)
  qed
qed

lemma ipToBigInt_valid: "ipToBigInt s = Some (v, b) \<Longrightarrow> strict_addr v b"
proof -
  assume "ipToBigInt s = Some (v, b)"
  then have "(\<exists>w e. parseV6 w e = Some v \<and> b = 128) \<or> (\<exists>w. parseV4 w = Some v \<and> b = 32)"
    unfolding ipToBigInt_def parseIp_with_def Let_def IPV4_BITS_def IPV6_BITS_def
    by (simp add: STRICT_def split: if_split_asm option.split_asm) (metis parsed_ip.select_convs(1,2))+
  then show ?thesis using parseV6_bound parseV4_bound unfolding strict_addr_def by metis
qed

interpretation strict_codec: address_codec ipToBigInt formatIp strict_addr
  using ipToBigInt_valid ipToBigInt_format by unfold_locales

section \<open>Entries\<close>

lemma block_member_iff:
  "v div 2 ^ h * 2 ^ h = k * 2 ^ h \<longleftrightarrow> k * 2 ^ h \<le> v \<and> v < k * 2 ^ h + (2 ^ h :: nat)"
proof -
  have "v div 2 ^ h * 2 ^ h = k * 2 ^ h \<longleftrightarrow> v div 2 ^ h = k" by simp
  also have "\<dots> \<longleftrightarrow> k \<le> v div 2 ^ h \<and> v div 2 ^ h < Suc k" by auto
  also have "\<dots> \<longleftrightarrow> k * 2 ^ h \<le> v \<and> v < Suc k * 2 ^ h"
    by (simp only: less_eq_div_iff_mult_less_eq div_less_iff_less_mult zero_less_power zero_less_numeral)
  finally show ?thesis by (simp add: add.commute)
qed

lemma entry_mask:
  assumes "v < 2 ^ b" "p \<le> b"
  shows "v AND e_mask (entry_of w b p) = v div 2 ^ (b - p) * 2 ^ (b - p)"
proof -
  have "mask b XOR mask (b - p) = (push_bit (b - p) (mask b) AND mask b :: nat)"
    by (rule bit_eqI) (use assms in \<open>auto simp: bit_simps\<close>)
  then have "e_mask (entry_of w b p) = push_bit (b - p) (mask b) AND mask b"
    by (simp only: entry_of_def Let_def all_mask cidr_entry.select_convs)
  then show ?thesis using netmask_and[OF assms(1), of "b - p"] by simp
qed

lemma entry_fields [simp]: "e_bits (entry_of v b p) = b" "e_prefix (entry_of v b p) = p"
  by (simp_all add: entry_of_def Let_def)

lemma entry_network: "v < 2 ^ b \<Longrightarrow> p \<le> b \<Longrightarrow> e_network (entry_of v b p) = v div 2 ^ (b - p) * 2 ^ (b - p)"
  using entry_mask[of v b p v] by (simp add: entry_of_def Let_def)

lemma parseCidrEntry_entry:
  "parseCidrEntry s = Some e \<Longrightarrow> \<exists>v b p. strict_addr v b \<and> p \<le> b \<and> e = entry_of v b p"
  by (auto simp: parseCidrEntry_def Let_def not_less dest!: ipToBigInt_valid
      split: if_split_asm option.split_asm prod.split_asm)

lemma strict_addr_base: "strict_addr v b \<Longrightarrow> strict_addr (v div 2 ^ h * 2 ^ h) b"
  by (auto simp: strict_addr_def intro: le_less_trans[OF div_times_less_eq_dividend])

lemma entry_of_base:
  assumes "v < 2 ^ b" "p \<le> b"
  shows "entry_of (e_network (entry_of v b p)) b p = entry_of v b p"
proof -
  have "e_network (entry_of v b p) < 2 ^ b"
    unfolding entry_network[OF assms] by (rule le_less_trans[OF div_times_less_eq_dividend assms(1)])
  then have "e_network (entry_of (e_network (entry_of v b p)) b p) = e_network (entry_of v b p)"
    using assms by (simp add: entry_network)
  then show ?thesis by (simp add: entry_of_def Let_def)
qed

lemma trim_entry: "trim (formatIp v b @ ''/'' @ dec p) = formatIp v b @ ''/'' @ dec p"
proof (rule trim_id, unfold list_all_append, intro conjI)
  show "list_all (\<lambda>c. \<not> is_space c) (formatIp v b)"
    using formatIp_chars[of v b] addr_char_not_special by (auto simp: list_all_iff)
  show "list_all (\<lambda>c. \<not> is_space c) (dec p)" using dec_no_special by (auto simp: list_all_iff)
  show "list_all (\<lambda>c. \<not> is_space c) ''/''" by (simp add: is_space_def)
qed

lemma dec_length_3: "p \<le> 128 \<Longrightarrow> length (dec p) \<le> 3"
  by (simp add: to_digits.simps)

lemma parse_format_entry:
  assumes "strict_addr v b" "p \<le> b"
  shows "parseCidrEntry (formatCidrEntry (entry_of v b p)) = Some (entry_of v b p)"
proof -
  let ?n = "e_network (entry_of v b p)"
  have v: "v < 2 ^ b" and b: "b = 32 \<or> b = 128" using assms(1) by (auto simp: strict_addr_def)
  have n: "strict_addr ?n b" unfolding entry_network[OF v assms(2)] by (rule strict_addr_base[OF assms(1)])
  have segs: "split_chr (CHR ''/'') (formatIp ?n b @ ''/'' @ dec p) = [formatIp ?n b, dec p]"
    using split_chr_append_sep[OF addr_string_no_slash] split_chr_no_sep[OF dec_no_slash] by simp
  have "length (dec p) \<le> 3" using assms(2) b by (intro dec_length_3) auto
  then show ?thesis
    unfolding parseCidrEntry_def formatCidrEntry_def entry_fields trim_entry segs
    using assms(2) by (simp add: ipToBigInt_format[OF n] of_digits_to_digits entry_of_base[OF v assms(2)])
qed

text \<open>The stored spelling of an allowlist entry is one per network: it parses to the entry it
  was printed from, and two entries have the same spelling exactly when they are the same
  network of the same family and prefix.\<close>

theorem canonicalizeIpOrCidr_canonical:
  assumes "parseCidrEntry s = Some e"
  shows "canonicalizeIpOrCidr s = Some (formatCidrEntry e)
    \<and> canonicalizeIpOrCidr (formatCidrEntry e) = Some (formatCidrEntry e)
    \<and> (canonicalizeIpOrCidr t = canonicalizeIpOrCidr s \<longleftrightarrow> parseCidrEntry t = Some e)"
proof -
  have rt: "parseCidrEntry (formatCidrEntry d) = Some d" if "parseCidrEntry u = Some d" for u d
    using that parse_format_entry by (metis parseCidrEntry_entry)
  have "parseCidrEntry t = Some e" if "canonicalizeIpOrCidr t = Some (formatCidrEntry e)"
    using that rt assms by (auto simp: canonicalizeIpOrCidr_def split: option.split_asm) (metis option.inject)
  then show ?thesis using assms rt[OF assms] by (auto simp: canonicalizeIpOrCidr_def)
qed

theorem canonicalizeIpOrCidr_canonical_witness:
  "canonicalizeIpOrCidr ''10.5.5.5/8'' = Some ''10.0.0.0/8''
   \<and> canonicalizeIpOrCidr ''10.0.0.0/8'' = Some ''10.0.0.0/8''"
proof -
  have c: "canonicalizeIpOrCidr ''10.5.5.5/8'' = Some ''10.0.0.0/8''" by code_simp
  then obtain e where e: "parseCidrEntry ''10.5.5.5/8'' = Some e" "formatCidrEntry e = ''10.0.0.0/8''"
    by (auto simp: canonicalizeIpOrCidr_def split: option.split_asm)
  show ?thesis using canonicalizeIpOrCidr_canonical[OF e(1)] e(2) by simp
qed

text \<open>An address matches an allowlist entry exactly when it is of the entry's family and lies in
  the interval of the entry's network, and it matches a list exactly when it matches an entry of
  it; an address that does not parse matches nothing.\<close>

theorem ipInAny_exact:
  assumes "\<forall>e \<in> set entries. \<exists>s. parseCidrEntry s = Some e"
  shows "ipInAny ip entries \<longleftrightarrow>
    (\<exists>v b. ipToBigInt ip = Some (v, b) \<and> (\<exists>e \<in> set entries. e_bits e = b
       \<and> e_network e \<le> v \<and> v < e_network e + 2 ^ (b - e_prefix e)))"
proof -
  have one: "ipMatchesEntry ip e \<longleftrightarrow> (\<exists>v b. ipToBigInt ip = Some (v, b) \<and> e_bits e = b
       \<and> e_network e \<le> v \<and> v < e_network e + 2 ^ (b - e_prefix e))"
    if h: "parseCidrEntry s = Some e" for s e
  proof -
    obtain w b p where w: "strict_addr w b" and p: "p \<le> b" and e: "e = entry_of w b p"
      using parseCidrEntry_entry[OF h] by blast
    show ?thesis
    proof (cases "ipToBigInt ip")
      case (Some vb)
      obtain v c where vb: "vb = (v, c)" by (cases vb)
      have v: "v < 2 ^ c" using ipToBigInt_valid Some vb by (auto simp: strict_addr_def)
      have wb: "w < 2 ^ b" using w by (simp add: strict_addr_def)
      show ?thesis
      proof (cases "c = b")
        case True
        have "v AND e_mask e = e_network e \<longleftrightarrow> e_network e \<le> v \<and> v < e_network e + 2 ^ (b - p)"
          unfolding e entry_network[OF wb p] entry_mask[OF v[unfolded True] p] by (rule block_member_iff)
        then show ?thesis by (simp add: ipMatchesEntry_def Some vb True e)
      qed (simp add: ipMatchesEntry_def Some vb e)
    qed (simp add: ipMatchesEntry_def)
  qed
  show ?thesis using assms
  proof (induction entries)
    case (Cons e es)
    then obtain s where s: "parseCidrEntry s = Some e" by auto
    show ?case using Cons by (simp add: one[OF s]) blast
  qed simp
qed

theorem ipInAny_exact_witness:
  "\<exists>e. parseCidrEntry ''10.5.5.5/8'' = Some e \<and> e_network e = 0x0a000000 \<and> (ipInAny ''10.200.0.1'' [e] \<longleftrightarrow>
    (\<exists>v b. ipToBigInt ''10.200.0.1'' = Some (v, b) \<and> (\<exists>d \<in> set [e]. e_bits d = b
       \<and> e_network d \<le> v \<and> v < e_network d + 2 ^ (b - e_prefix d))))"
proof -
  have "map_option e_network (parseCidrEntry ''10.5.5.5/8'') = Some 0x0a000000" by code_simp
  then obtain e where e: "parseCidrEntry ''10.5.5.5/8'' = Some e" "e_network e = 0x0a000000" by blast
  then have "\<forall>d \<in> set [e]. \<exists>s. parseCidrEntry s = Some d" by auto
  from ipInAny_exact[OF this, of "''10.200.0.1''"] e show ?thesis by blast
qed

section \<open>Domains and addresses\<close>

lemma is_alnum_char: "is_alnum c \<Longrightarrow> \<not> is_space c \<and> c \<noteq> CHR '':'' \<and> c \<noteq> CHR ''%''"
  by (auto simp: is_alnum_def is_alpha_def is_digit_def is_space_def)

lemma isValidDomain_chars:
  assumes "isValidDomain name" "c \<in> set name"
  shows "is_alnum c \<or> c = CHR ''-'' \<or> c = CHR ''.''"
proof -
  have "c \<in> set (join ''.'' (split_chr (CHR ''.'') name))" using assms(2) by (simp add: join_split)
  then have "c = CHR ''.'' \<or> (\<exists>l \<in> set (split_chr (CHR ''.'') name). c \<in> set l)"
    using set_join[of "''.''" "split_chr (CHR ''.'') name"] by auto
  then show ?thesis
    using assms(1) by (auto simp: isValidDomain_def DOMAIN_LABEL_RE_def list_all_iff split: if_split_asm)
qed

lemma parseV4_octets_shape: "parseV4_octets a os = Some v \<Longrightarrow> list_all V4_OCTET_RE os"
  by (induction a os rule: parseV4_octets.induct) (auto simp: Let_def split: if_split_asm)

text \<open>A name that passes \<open>isValidDomain\<close> is never an address of either family, so no address
  reaches a configuration writer as a domain; it has labels of 1 to 63 characters and at most 253
  in all.\<close>

theorem isValidDomain_not_address:
  assumes "isValidDomain name"
  shows "parseIp name = None \<and> length name \<le> 253
    \<and> (\<forall>l \<in> set (split_chr (CHR ''.'') name). 0 < length l \<and> length l \<le> 63)"
proof -
  note ch = isValidDomain_chars[OF assms]
  have plain: "\<not> is_space c \<and> c \<noteq> CHR '':'' \<and> c \<noteq> CHR ''%''" if "c \<in> set name" for c
    using ch[OF that] is_alnum_char[of c] by (auto simp: is_space_def)
  have t: "trim name = name" by (rule trim_id) (use plain in \<open>auto simp: list_all_iff\<close>)
  have nc: "CHR '':'' \<notin> set name" "indexOf ''%'' name = None"
    using plain by (auto simp: indexOf_char_None_iff)
  have "parseV4 name = None"
    using assms parseV4_octets_shape[of 0 "split_chr (CHR ''.'') name"]
    by (cases "parseV4_octets 0 (split_chr (CHR ''.'') name)")
      (auto simp: parseV4_def isValidDomain_def IPV4_LITERAL_RE_def Let_def split: if_split_asm)
  then have "parseIp name = None"
    by (simp add: parseIp_def parseIp_with_def t nc)
  then show ?thesis using assms by (auto simp: isValidDomain_def list_all_iff split: if_split_asm)
qed

theorem isValidDomain_not_address_witness:
  "isValidDomain ''nas.home'' \<and> parseIp ''nas.home'' = None"
proof -
  have v: "isValidDomain ''nas.home''" by code_simp
  then show ?thesis using isValidDomain_not_address[OF v] by blast
qed

section \<open>Global routability\<close>

lemma special_v4:
  "parseNetwork ''0.0.0.0/8'' = Inr (build_network (fam 32) 32 8 0)"
  "parseNetwork ''192.0.0.0/24'' = Inr (build_network (fam 32) 32 24 0xc0000000)"
  "parseNetwork ''192.0.2.0/24'' = Inr (build_network (fam 32) 32 24 0xc0000200)"
  "parseNetwork ''198.18.0.0/15'' = Inr (build_network (fam 32) 32 15 0xc6120000)"
  "parseNetwork ''198.51.100.0/24'' = Inr (build_network (fam 32) 32 24 0xc6336400)"
  "parseNetwork ''203.0.113.0/24'' = Inr (build_network (fam 32) 32 24 0xcb007100)"
  by (rule parseNetwork_literal; code_simp)+

lemma special_v6:
  "parseNetwork ''::/128'' = Inr (build_network 6 128 128 0)"
  "parseNetwork ''64:ff9b::/96'' = Inr (build_network 6 128 96 0x0064ff9b000000000000000000000000)"
  "parseNetwork ''2001::/32'' = Inr (build_network 6 128 32 0x20010000000000000000000000000000)"
  "parseNetwork ''2002::/16'' = Inr (build_network 6 128 16 0x20020000000000000000000000000000)"
  "parseNetwork ''::fffe:0:0/95'' = Inr (build_network 6 128 95 0xfffe00000000)"
proof -
  show "parseNetwork ''::/128'' = Inr (build_network 6 128 128 0)"
    by (rule parseNetwork_literal_v6[of _ "[''0'', ''0'', ''0'', ''0'', ''0'', ''0'', ''0'', ''0'']" 0 8])
      (simp add: v6_group_eval valid_addr_eval | code_simp)+
  show "parseNetwork ''64:ff9b::/96'' = Inr (build_network 6 128 96 0x0064ff9b000000000000000000000000)"
    by (rule parseNetwork_literal_v6[of _ "[''64'', ''ff9b'', ''0'', ''0'', ''0'', ''0'', ''0'', ''0'']" 2 6])
      (simp add: v6_group_eval valid_addr_eval | code_simp)+
  show "parseNetwork ''2001::/32'' = Inr (build_network 6 128 32 0x20010000000000000000000000000000)"
    by (rule parseNetwork_literal_v6[of _ "[''2001'', ''0'', ''0'', ''0'', ''0'', ''0'', ''0'', ''0'']" 1 7])
      (simp add: v6_group_eval valid_addr_eval | code_simp)+
  show "parseNetwork ''2002::/16'' = Inr (build_network 6 128 16 0x20020000000000000000000000000000)"
    by (rule parseNetwork_literal_v6[of _ "[''2002'', ''0'', ''0'', ''0'', ''0'', ''0'', ''0'', ''0'']" 1 7])
      (simp add: v6_group_eval valid_addr_eval | code_simp)+
  show "parseNetwork ''::fffe:0:0/95'' = Inr (build_network 6 128 95 0xfffe00000000)"
    by (rule parseNetwork_literal_v6[of _ "[''0'', ''0'', ''0'', ''0'', ''0'', ''fffe'', ''0'', ''0'']" 0 5])
      (simp add: v6_group_eval valid_addr_eval | code_simp)+
qed

lemma mapped_range_folds: "parseNetwork ''::ffff:0:0/96'' = Inr (build_network 4 32 0 0)"
proof -
  have "addressToBig ''::ffff:0:0'' = Inr \<lparr>a_value = 0, a_bits = 32, a_family = 4\<rparr>" by code_simp
  moreover have "lastIndexOf ''/'' ''::ffff:0:0/96'' = Some 10" by code_simp
  moreover have "all_digits ''96''" "of_digits 10 ''96'' = 96" by code_simp+
  ultimately show ?thesis
    by (simp add: parseNetwork_def effective_prefix_def numeral_eq_Suc)
qed

lemma some_e_all: "(\<And>x. x \<in> set xs \<Longrightarrow> f x = Inr (g x)) \<Longrightarrow> some_e f xs = Inr (\<exists>x \<in> set xs. g x)"
  by (induction xs) auto

definition range_net :: "string \<Rightarrow> network" where
  "range_net rng = (case parseNetwork rng of Inr n \<Rightarrow> n | Inl _ \<Rightarrow> build_network 4 32 32 0)"

lemma special_ok:
  "rng \<in> set NON_GLOBAL_IPV4_RANGES \<Longrightarrow> parseNetwork rng = Inr (range_net rng) \<and> net_family (range_net rng) = 4"
  "rng \<in> set NON_GLOBAL_IPV6_RANGES \<Longrightarrow> parseNetwork rng = Inr (range_net rng)
    \<and> (net_family (range_net rng) = 6 \<longleftrightarrow> rng \<noteq> ''::ffff:0:0/96'')"
  unfolding range_net_def NON_GLOBAL_IPV4_RANGES_def NON_GLOBAL_IPV6_RANGES_def
  by (auto simp: reserved_v4 reserved_v6 special_v4 special_v6 mapped_range_folds)

text \<open>\<open>isGloballyRoutableCidr\<close> on an IPv4 network: true exactly when it shares no address with
  any of the fourteen special blocks. On an IPv6 network: true exactly when it shares none with
  the special blocks other than the IPv4-mapped one, whose entry \<open>::ffff:0:0/96\<close> is read as an
  IPv4 network and so excludes nothing: a network containing that whole block still counts as
  globally routable.\<close>

theorem isGloballyRoutableCidr_exact:
  assumes "parseNetwork cidr = Inr n"
  shows "(net_family n = 4 \<longrightarrow> isGloballyRoutableCidr cidr
            = Inr (\<forall>rng \<in> set NON_GLOBAL_IPV4_RANGES. net_addrs n \<inter> net_addrs (range_net rng) = {}))
    \<and> (net_family n = 6 \<longrightarrow> isGloballyRoutableCidr cidr
            = Inr (\<forall>rng \<in> set NON_GLOBAL_IPV6_RANGES. rng = ''::ffff:0:0/96''
                     \<or> net_addrs n \<inter> net_addrs (range_net rng) = {}))"
proof (intro conjI impI)
  assume f: "net_family n = 4"
  have "networksOverlap cidr rng = Inr (net_addrs n \<inter> net_addrs (range_net rng) \<noteq> {})"
    if "rng \<in> set NON_GLOBAL_IPV4_RANGES" for rng
    using network_relations[OF assms conjunct1[OF special_ok(1)[OF that]]] special_ok(1)[OF that] f by simp
  from some_e_all[of NON_GLOBAL_IPV4_RANGES "networksOverlap cidr", OF this] show "isGloballyRoutableCidr cidr
      = Inr (\<forall>rng \<in> set NON_GLOBAL_IPV4_RANGES. net_addrs n \<inter> net_addrs (range_net rng) = {})"
    using f assms by (simp add: isGloballyRoutableCidr_def)
next
  assume f: "net_family n = 6"
  have "networksOverlap cidr rng = Inr (rng \<noteq> ''::ffff:0:0/96'' \<and> net_addrs n \<inter> net_addrs (range_net rng) \<noteq> {})"
    if "rng \<in> set NON_GLOBAL_IPV6_RANGES" for rng
    using network_relations[OF assms conjunct1[OF special_ok(2)[OF that]]] special_ok(2)[OF that] f by auto
  from some_e_all[of NON_GLOBAL_IPV6_RANGES "networksOverlap cidr", OF this] show "isGloballyRoutableCidr cidr
      = Inr (\<forall>rng \<in> set NON_GLOBAL_IPV6_RANGES. rng = ''::ffff:0:0/96''
               \<or> net_addrs n \<inter> net_addrs (range_net rng) = {})"
    using f assms by (simp add: isGloballyRoutableCidr_def)
qed

theorem isGloballyRoutableCidr_exact_witness:
  "isGloballyRoutableCidr ''::fffe:0:0/95'' = Inr True
   \<and> mapped_block \<subseteq> net_addrs (build_network 6 128 95 0xfffe00000000)"
proof
  have "isGloballyRoutableCidr ''::fffe:0:0/95''
      = Inr (\<forall>rng \<in> set NON_GLOBAL_IPV6_RANGES. rng = ''::ffff:0:0/96''
          \<or> net_addrs (build_network 6 128 95 0xfffe00000000) \<inter> net_addrs (range_net rng) = {})"
    using isGloballyRoutableCidr_exact[OF special_v6(5)] by simp
  also have "\<dots> = Inr True"
    by (simp add: NON_GLOBAL_IPV6_RANGES_def range_net_def reserved_v6 special_v6 net_addrs_def build_network_big)
  finally show "isGloballyRoutableCidr ''::fffe:0:0/95'' = Inr True" .
  show "mapped_block \<subseteq> net_addrs (build_network 6 128 95 0xfffe00000000)"
    by (simp add: mapped_block_def net_addrs_def build_network_big V4_MAPPED_PREFIX_def V4_MAPPED_LAST_def push_bit_eq_mult)
qed

end
