(* ===== verification/UrlGuard.thy ===== *)
theory UrlGuard
  imports CidrMatch
begin

text \<open>
  The SSRF guard of outbound fetches, \<open>server/src/utils/url-guard.js\<close>. Node's \<open>net.isIP\<close>, the URL
  parser and the resolver are parameters. The theorems show that an address the guard lets
  through is outside every blocked block of its family, the embedded IPv4 address of a mapped
  IPv6 address included, unless it carries a zone: such an address is checked against no block.
\<close>

definition BLOCKED_IPV4_RANGES :: "string list" where
  "BLOCKED_IPV4_RANGES =
     [''0.0.0.0/8'', ''10.0.0.0/8'', ''100.64.0.0/10'', ''127.0.0.0/8'', ''169.254.0.0/16'',
      ''172.16.0.0/12'', ''192.0.0.0/24'', ''192.0.2.0/24'', ''192.168.0.0/16'', ''198.18.0.0/15'',
      ''198.51.100.0/24'', ''203.0.113.0/24'', ''224.0.0.0/4'', ''240.0.0.0/4'']"

definition isBlockedIpv4 :: "(string \<Rightarrow> nat) \<Rightarrow> string \<Rightarrow> cidr_error + bool" where
  "isBlockedIpv4 isIP ip =
     (if isIP ip \<noteq> 4 then Inr False
      else some_e (\<lambda>rng. networkContains rng ip) BLOCKED_IPV4_RANGES)"

definition BLOCKED_IPV6_RANGES :: "string list" where
  "BLOCKED_IPV6_RANGES =
     [''::/128'', ''::1/128'', ''::ffff:0:0/96'', ''64:ff9b::/96'', ''2001::/32'', ''2001:db8::/32'',
      ''2002::/16'', ''fc00::/7'', ''fe80::/10'', ''ff00::/8'']"

definition isBlockedIpv6 :: "(string \<Rightarrow> nat) \<Rightarrow> string \<Rightarrow> cidr_error + bool" where
  "isBlockedIpv6 isIP ip =
     (case parseIp_with \<lparr>opt_zoneId = False, opt_mapV4 = False, opt_embeddedV4 = True\<rparr> ip of
        None \<Rightarrow> Inr False
      | Some parsed \<Rightarrow>
          if ip_bits parsed \<noteq> 128 then Inr False
          else (case parseIp_with \<lparr>opt_zoneId = False, opt_mapV4 = True, opt_embeddedV4 = True\<rparr> ip of
                  Some mapped \<Rightarrow>
                    if ip_bits mapped = 32 then isBlockedIpv4 isIP (formatIp (ip_value mapped) 32)
                    else some_e (\<lambda>rng. networkContains rng (formatIp (ip_value parsed) 128)) BLOCKED_IPV6_RANGES
                | None \<Rightarrow>
                    some_e (\<lambda>rng. networkContains rng (formatIp (ip_value parsed) 128)) BLOCKED_IPV6_RANGES))"

definition isBlockedAddress :: "(string \<Rightarrow> nat) \<Rightarrow> string \<Rightarrow> cidr_error + bool" where
  "isBlockedAddress isIP ip =
     ebind (isBlockedIpv4 isIP ip) (\<lambda>b. if b then Inr True else isBlockedIpv6 isIP ip)"

section \<open>Outbound URLs\<close>

record url =
  u_protocol :: string
  u_hostname :: string
  u_text :: string

datatype url_refusal =
    UrlEmpty | UrlInvalid | UrlProtocol | UrlNoHostname | Ipv6SwitchedOff | DoesNotResolve
  | BlockedIpv6Range string | BlockedRange string string

datatype url_check = Refused url_refusal | Allowed string string string

text \<open>\<open>hostname.replace(/^\[(.*)\]$/, '$1')\<close>\<close>

definition strip_brackets :: "string \<Rightarrow> string" where
  "strip_brackets h =
     (if length h \<ge> 2 \<and> hd h = CHR ''['' \<and> last h = CHR '']'' then butlast (tl h) else h)"

text \<open>The loop over the IPv4 ranges, which names the range it refuses by.\<close>

fun blocked_by :: "string \<Rightarrow> string list \<Rightarrow> cidr_error + string option" where
  "blocked_by ip [] = Inr None"
| "blocked_by ip (rng # rest) =
     ebind (networkContains rng ip) (\<lambda>b. if b then Inr (Some rng) else blocked_by ip rest)"

text \<open>The choice of the address: a literal, or the first IPv4 answer, or the first IPv6 one.\<close>

definition chosen_ip ::
  "(string \<Rightarrow> nat) \<Rightarrow> (string \<Rightarrow> nat \<Rightarrow> (string \<times> nat) list option) \<Rightarrow> bool \<Rightarrow> string \<Rightarrow> url_refusal + string" where
  "chosen_ip isIP lookup ipv6 host =
     (if isIP host = 4 then Inr host
      else if isIP host = 6 then (if \<not> ipv6 then Inl Ipv6SwitchedOff else Inr host)
      else (case lookup host (if ipv6 then 0 else 4) of
              None \<Rightarrow> Inl DoesNotResolve
            | Some answers \<Rightarrow>
                (case find (\<lambda>a. snd a = 4) answers of
                   Some a \<Rightarrow> Inr (fst a)
                 | None \<Rightarrow> (case find (\<lambda>a. snd a = 6) answers of
                              Some a \<Rightarrow> Inr (fst a)
                            | None \<Rightarrow> Inl DoesNotResolve))))"

definition validateOutboundUrl ::
  "(string \<Rightarrow> nat) \<Rightarrow> (string \<Rightarrow> url option) \<Rightarrow> (string \<Rightarrow> nat \<Rightarrow> (string \<times> nat) list option) \<Rightarrow> bool
    \<Rightarrow> string \<Rightarrow> cidr_error + url_check" where
  "validateOutboundUrl isIP parseUrl lookup ipv6 rawUrl =
     (if rawUrl = [] then Inr (Refused UrlEmpty)
      else (case parseUrl rawUrl of
        None \<Rightarrow> Inr (Refused UrlInvalid)
      | Some parsed \<Rightarrow>
          if u_protocol parsed \<noteq> ''http:'' \<and> u_protocol parsed \<noteq> ''https:'' then Inr (Refused UrlProtocol)
          else if u_hostname parsed = [] then Inr (Refused UrlNoHostname)
          else (case chosen_ip isIP lookup ipv6 (strip_brackets (u_hostname parsed)) of
                  Inl reason \<Rightarrow> Inr (Refused reason)
                | Inr ip \<Rightarrow>
                    if isIP ip = 6 then
                      ebind (isBlockedIpv6 isIP ip) (\<lambda>b.
                        if b then Inr (Refused (BlockedIpv6Range ip))
                        else Inr (Allowed (u_text parsed) (u_hostname parsed) ip))
                    else
                      ebind (blocked_by ip BLOCKED_IPV4_RANGES) (\<lambda>r.
                        case r of Some rng \<Rightarrow> Inr (Refused (BlockedRange ip rng))
                        | None \<Rightarrow> Inr (Allowed (u_text parsed) (u_hostname parsed) ip)))))"

section \<open>Blocked addresses\<close>

lemma blocked_v4_parse:
  "rng \<in> set BLOCKED_IPV4_RANGES \<Longrightarrow> parseNetwork rng = Inr (range_net rng) \<and> net_family (range_net rng) = 4"
  using special_ok(1) by (simp only: BLOCKED_IPV4_RANGES_def NON_GLOBAL_IPV4_RANGES_def)

lemma blocked_v6_parse:
  "rng \<in> set BLOCKED_IPV6_RANGES \<Longrightarrow> parseNetwork rng = Inr (range_net rng)
    \<and> (net_family (range_net rng) = 6 \<longleftrightarrow> rng \<noteq> ''::ffff:0:0/96'')"
  unfolding range_net_def BLOCKED_IPV6_RANGES_def
  by (auto simp: reserved_v6 special_v6 mapped_range_folds)

lemma networkContains_range:
  assumes "parseNetwork c = Inr n" "addressToBig ip = Inr a"
  shows "networkContains c ip = Inr (a_family a = net_family n \<and> a_value a \<in> net_addrs n)"
  using assms by (auto simp: networkContains_def net_addrs_def)

lemma some_contains_v4:
  assumes "addressToBig ip = Inr a" "a_family a = 4"
  shows "some_e (\<lambda>rng. networkContains rng ip) BLOCKED_IPV4_RANGES
    = Inr (\<exists>rng \<in> set BLOCKED_IPV4_RANGES. a_value a \<in> net_addrs (range_net rng))"
  using networkContains_range[OF conjunct1[OF blocked_v4_parse] assms(1)] blocked_v4_parse assms(2)
  by (intro some_e_all) simp

lemma some_contains_v6:
  assumes "addressToBig ip = Inr a" "a_family a = 6"
  shows "some_e (\<lambda>rng. networkContains rng ip) BLOCKED_IPV6_RANGES
    = Inr (\<exists>rng \<in> set BLOCKED_IPV6_RANGES. rng \<noteq> ''::ffff:0:0/96'' \<and> a_value a \<in> net_addrs (range_net rng))"
  using networkContains_range[OF conjunct1[OF blocked_v6_parse] assms(1)] blocked_v6_parse assms(2)
  by (intro some_e_all) auto

lemma blocked_by_some_e:
  "blocked_by ip rs = Inr None \<longleftrightarrow> some_e (\<lambda>rng. networkContains rng ip) rs = Inr False"
proof (induction rs)
  case (Cons r rs)
  then show ?case by (cases "networkContains r ip") auto
qed simp

abbreviation unmapped :: ip_options where
  "unmapped \<equiv> \<lparr>opt_zoneId = False, opt_mapV4 = False, opt_embeddedV4 = True\<rparr>"

text \<open>Reading with and without the fold of mapped addresses.\<close>

lemma unscoped_of_unmapped:
  assumes "parseIp_with unmapped s = Some p"
  shows "parseIp_with unscoped s = Some (if ip_bits p = 128 \<and> ip_value p AND V4_MAPPED_MASK = V4_MAPPED_PREFIX
      then \<lparr>ip_value = ip_value p AND 0xffffffff, ip_bits = 32, ip_zoneId = ip_zoneId p\<rparr> else p)"
  using assms unfolding parseIp_with_def Let_def unscoped_def IPV4_BITS_def IPV6_BITS_def
  by (simp only: ip_options.select_convs simp_thms split: if_split_asm option.split_asm)
    (auto split: option.split)

text \<open>What the guard relies on of \<open>net.isIP\<close>: 4 for what reads as IPv4 (every printed IPv4 address
  included), 6 only for a text with a colon, which reads as an address unless it has a zone.\<close>

definition scoped :: "string \<Rightarrow> bool" where
  "scoped s \<longleftrightarrow> indexOf ''%'' (trim s) \<noteq> None"

definition isIP_ok :: "(string \<Rightarrow> nat) \<Rightarrow> bool" where
  "isIP_ok isIP = ((\<forall>s. isIP s = 4 \<longrightarrow> (\<exists>p. parseIp_with unmapped s = Some p \<and> ip_bits p = 32))
     \<and> (\<forall>s. isIP s = 6 \<longrightarrow> CHR '':'' \<in> set (trim s) \<and> (parseIp_with unmapped s \<noteq> None \<or> scoped s))
     \<and> (\<forall>v < 2 ^ 32. isIP (formatIp v 32) = 4))"

definition in_blocked :: "address \<Rightarrow> bool" where
  "in_blocked a =
     (if a_family a = 4 then \<exists>rng \<in> set BLOCKED_IPV4_RANGES. a_value a \<in> net_addrs (range_net rng)
      else \<exists>rng \<in> set BLOCKED_IPV6_RANGES. rng \<noteq> ''::ffff:0:0/96'' \<and> a_value a \<in> net_addrs (range_net rng))"

lemma isIP4_family:
  assumes "isIP_ok isIP" "isIP ip = 4"
  shows "\<exists>a. addressToBig ip = Inr a \<and> a_family a = 4"
proof -
  obtain p where p: "parseIp_with unmapped ip = Some p" "ip_bits p = 32" using assms by (auto simp: isIP_ok_def)
  have "parseIp_with unscoped ip = Some p" using unscoped_of_unmapped[OF p(1)] p(2) by simp
  then show ?thesis using p(2) by (simp add: addressToBig_def IPV4_BITS_def)
qed

lemma isBlockedIpv4_iff:
  assumes "isIP ip = 4" "addressToBig ip = Inr a" "a_family a = 4"
  shows "isBlockedIpv4 isIP ip = Inr (in_blocked a)"
  using some_contains_v4[OF assms(2,3)] assms(1,3) by (simp add: isBlockedIpv4_def in_blocked_def)

lemma colon_bits:
  "parseIp_with unmapped s = Some p \<Longrightarrow> CHR '':'' \<in> set (trim s) \<Longrightarrow> ip_bits p = 128 \<and> ip_value p < 2 ^ 128"
  unfolding parseIp_with_def Let_def IPV4_BITS_def IPV6_BITS_def
  by (simp split: if_split_asm option.split_asm) (use parseV6_bound in force)+

lemma unmapped_of_unscoped:
  "parseIp_with unscoped s = Some q \<Longrightarrow> parseIp_with unmapped s \<noteq> None"
  unfolding parseIp_with_def Let_def unscoped_def by (auto split: if_split_asm option.split_asm)

lemma isBlockedIpv6_iff:
  assumes ok: "isIP_ok isIP" and six: "isIP ip = 6" and a: "addressToBig ip = Inr a"
  shows "isBlockedIpv6 isIP ip = Inr (in_blocked a)"
proof -
  have col: "CHR '':'' \<in> set (trim ip)" using ok six by (simp add: isIP_ok_def)
  obtain q where q: "parseIp_with unscoped ip = Some q" "a_value a = ip_value q"
    "a_family a = (if ip_bits q = 32 then 4 else 6)" "a_bits a = ip_bits q"
    using a by (auto simp: addressToBig_def IPV4_BITS_def split: option.split_asm)
  obtain p where p: "parseIp_with unmapped ip = Some p" using unmapped_of_unscoped[OF q(1)] by blast
  have b: "ip_bits p = 128" using colon_bits[OF p col] by simp
  have va: "valid_addr (a_value a) (a_bits a)" using addressToBig_valid[OF a] by simp
  have open_def: "isBlockedIpv6 isIP ip = (if ip_bits q = 32 then isBlockedIpv4 isIP (formatIp (ip_value q) 32)
      else some_e (\<lambda>rng. networkContains rng (formatIp (ip_value p) 128)) BLOCKED_IPV6_RANGES)"
    using p b q(1) by (simp add: isBlockedIpv6_def unscoped_def)
  show ?thesis
  proof (cases "ip_bits q = 32")
    case True
    have v: "valid_addr (ip_value q) 32" using va q True by simp
    have four: "isIP (formatIp (ip_value q) 32) = 4"
      using ok valid_addr_bound[OF v] by (simp add: isIP_ok_def)
    have "isBlockedIpv4 isIP (formatIp (ip_value q) 32) = Inr (in_blocked \<lparr>a_value = ip_value q, a_bits = 32, a_family = 4\<rparr>)"
      using isBlockedIpv4_iff[of isIP, OF four] addressToBig_format[OF v] by simp
    then show ?thesis using open_def True q by (simp add: in_blocked_def)
  next
    case False
    then have "q = p" using unscoped_of_unmapped[OF p] q(1) by (auto split: if_split_asm)
    then have v: "valid_addr (ip_value p) 128" using va q b by simp
    show ?thesis
      using open_def False some_contains_v6[OF addressToBig_format[OF v]] q \<open>q = p\<close>
      by (simp add: in_blocked_def)
  qed
qed

text \<open>With a \<open>net.isIP\<close> as documented, \<open>isBlockedAddress\<close> decides membership in the blocked blocks
  for every literal address: an IPv4 address, or an IPv6 address that maps one, is checked against
  the IPv4 blocks, any other IPv6 address against the IPv6 blocks.\<close>

theorem isBlockedAddress_exact:
  assumes "isIP_ok isIP" and "isIP ip = 4 \<or> isIP ip = 6" and "addressToBig ip = Inr a"
  shows "isBlockedAddress isIP ip = Inr (in_blocked a)"
proof (cases "isIP ip = 4")
  case True
  have f: "a_family a = 4" using isIP4_family[OF assms(1) True] assms(3) by simp
  have "isBlockedIpv6 isIP ip = Inr False"
    using assms(1) True by (auto simp: isIP_ok_def isBlockedIpv6_def)
  then show ?thesis using isBlockedIpv4_iff[of isIP, OF True assms(3) f] by (simp add: isBlockedAddress_def)
next
  case False
  then show ?thesis using assms isBlockedIpv6_iff by (simp add: isBlockedAddress_def isBlockedIpv4_def)
qed

definition sample_isIP :: "string \<Rightarrow> nat" where
  "sample_isIP s = (case parseIp_with unmapped s of None \<Rightarrow> 0 | Some p \<Rightarrow> if ip_bits p = 32 then 4 else 6)"

lemma v4_no_colon: "parseIp_with unmapped s = Some p \<Longrightarrow> ip_bits p \<noteq> 32 \<Longrightarrow> CHR '':'' \<in> set (trim s)"
  unfolding parseIp_with_def Let_def IPV4_BITS_def by (auto split: if_split_asm option.split_asm)

lemma sample_isIP_ok: "isIP_ok sample_isIP"
  unfolding isIP_ok_def sample_isIP_def
  using parseIp_with_format[where b = 32 and options = unmapped] v4_no_colon
  by (auto simp: valid_addr_def split: option.split_asm if_split_asm)

theorem isBlockedAddress_exact_witness:
  "isBlockedAddress sample_isIP ''10.0.0.1'' = Inr (in_blocked \<lparr>a_value = 0x0a000001, a_bits = 32, a_family = 4\<rparr>)"
proof (rule isBlockedAddress_exact[OF sample_isIP_ok])
  have "formatIp 0x0a000001 32 = ''10.0.0.1''" by code_simp
  then show "addressToBig ''10.0.0.1'' = Inr \<lparr>a_value = 0x0a000001, a_bits = 32, a_family = 4\<rparr>"
    using addressToBig_format[of "0x0a000001" 32] by (simp add: valid_addr_def)
  show "sample_isIP ''10.0.0.1'' = 4 \<or> sample_isIP ''10.0.0.1'' = 6" by code_simp
qed

section \<open>The guard\<close>

lemma chosen_ip_literal:
  assumes answers: "\<And>h f as x. lookup h f = Some as \<Longrightarrow> x \<in> set as \<Longrightarrow> isIP (fst x) = snd x \<and> (f = 4 \<longrightarrow> snd x = 4)"
    and c: "chosen_ip isIP lookup ipv6 host = Inr ip"
  shows "isIP ip = 4 \<or> ipv6 \<and> isIP ip = 6"
proof (cases "isIP host = 4 \<or> isIP host = 6")
  case True
  then show ?thesis using c by (auto simp: chosen_ip_def split: if_split_asm)
next
  case False
  let ?f = "if ipv6 then 0 else 4"
  obtain as where as: "lookup host ?f = Some as"
    using c False unfolding chosen_ip_def by (cases "lookup host ?f") simp_all
  have "(case find (\<lambda>a. snd a = 4) as of Some a \<Rightarrow> Inr (fst a)
      | None \<Rightarrow> (case find (\<lambda>a. snd a = 6) as of Some a \<Rightarrow> Inr (fst a) | None \<Rightarrow> Inl DoesNotResolve)) = Inr ip"
    using c False unfolding chosen_ip_def as by simp
  then have "\<exists>x \<in> set as. fst x = ip \<and> (snd x = 4 \<or> snd x = 6)"
    by (auto split: option.split_asm dest: find_SomeD)
  then obtain x where x: "x \<in> set as" "fst x = ip" "snd x = 4 \<or> snd x = 6" by blast
  show ?thesis using answers[OF as x(1)] x by (cases ipv6) auto
qed

lemma scoped_unread: "scoped s \<Longrightarrow> \<not> opt_zoneId options \<Longrightarrow> parseIp_with options s = None"
  by (simp add: scoped_def parseIp_with_def Let_def)

lemma isIP6_read:
  assumes "isIP_ok isIP" "isIP ip = 6" "\<not> scoped ip"
  shows "\<exists>a. addressToBig ip = Inr a"
proof -
  obtain p where "parseIp_with unmapped ip = Some p" using assms by (auto simp: isIP_ok_def)
  from unscoped_of_unmapped [OF this] show ?thesis by (auto simp: addressToBig_def)
qed

text \<open>C23. What an outbound URL the guard allows connects to: with a documented \<open>net.isIP\<close> and a resolver
  that labels its answers with their family, the address of every allowed URL is one that reads as an address
  outside all blocked blocks, or an IPv6 address with a zone (\<open>fe80::1%eth0\<close>); the scheme is http or https, and
  without IPv6 support the address is an IPv4 one. An address with a zone is never found blocked, whatever
  block it is in: the parser called without zones does not read it.\<close>

theorem validateOutboundUrl_safe:
  assumes ok: "isIP_ok isIP"
    and answers: "\<And>h f as x. lookup h f = Some as \<Longrightarrow> x \<in> set as \<Longrightarrow> isIP (fst x) = snd x \<and> (f = 4 \<longrightarrow> snd x = 4)"
    and allowed: "validateOutboundUrl isIP parseUrl lookup ipv6 rawUrl = Inr (Allowed u h ip)"
  shows "(isIP ip = 4 \<or> ipv6 \<and> isIP ip = 6)
    \<and> ((\<exists>a. addressToBig ip = Inr a \<and> \<not> in_blocked a) \<or> isIP ip = 6 \<and> scoped ip)
    \<and> (\<exists>parsed. parseUrl rawUrl = Some parsed \<and> u_protocol parsed \<in> {''http:'', ''https:''})
    \<and> (\<forall>s. scoped s \<longrightarrow> isBlockedIpv6 isIP s = Inr False)"
proof -
  obtain parsed where p: "parseUrl rawUrl = Some parsed"
    using allowed by (cases "parseUrl rawUrl") (simp_all add: validateOutboundUrl_def split: if_split_asm)
  have proto: "u_protocol parsed = ''http:'' \<or> u_protocol parsed = ''https:''"
    using allowed p by (simp add: validateOutboundUrl_def split: if_split_asm)
  obtain ip' where c': "chosen_ip isIP lookup ipv6 (strip_brackets (u_hostname parsed)) = Inr ip'"
    using allowed p by (cases "chosen_ip isIP lookup ipv6 (strip_brackets (u_hostname parsed))")
      (simp_all add: validateOutboundUrl_def split: if_split_asm)
  have "ip' = ip \<and> (if isIP ip' = 6 then isBlockedIpv6 isIP ip' = Inr False
      else blocked_by ip' BLOCKED_IPV4_RANGES = Inr None)"
    using allowed unfolding validateOutboundUrl_def p option.case c' sum.case
    by (simp add: ebind_eq_Inr_iff split: if_split_asm option.split_asm) (auto split: if_split_asm option.split_asm)
  then have c: "chosen_ip isIP lookup ipv6 (strip_brackets (u_hostname parsed)) = Inr ip"
    and six: "isIP ip = 6 \<longrightarrow> isBlockedIpv6 isIP ip = Inr False"
    and four: "isIP ip \<noteq> 6 \<longrightarrow> blocked_by ip BLOCKED_IPV4_RANGES = Inr None"
    using c' by (auto split: if_split_asm)
  have lit: "isIP ip = 4 \<or> ipv6 \<and> isIP ip = 6" by (rule chosen_ip_literal[OF answers c])
  have "\<not> in_blocked a" if a: "addressToBig ip = Inr a" for a
  proof (cases "isIP ip = 6")
    case True
    then show ?thesis using six isBlockedIpv6_iff[OF ok True a] by simp
  next
    case False
    then have "isIP ip = 4" using lit by simp
    then have f: "a_family a = 4" using isIP4_family[OF ok] a by fastforce
    then show ?thesis
      using four False some_contains_v4[OF a f] by (simp add: blocked_by_some_e in_blocked_def)
  qed
  moreover have "(\<exists>a. addressToBig ip = Inr a) \<or> isIP ip = 6 \<and> scoped ip"
    using lit isIP4_family [OF ok] isIP6_read [OF ok] by blast
  ultimately have "(\<exists>a. addressToBig ip = Inr a \<and> \<not> in_blocked a) \<or> isIP ip = 6 \<and> scoped ip" by blast
  moreover have "isBlockedIpv6 isIP s = Inr False" if "scoped s" for s
    using scoped_unread [OF that, of unmapped] by (simp add: isBlockedIpv6_def)
  ultimately show ?thesis using lit p proto by blast
qed

theorem validateOutboundUrl_safe_witness:
  "validateOutboundUrl sample_isIP (\<lambda>_. Some \<lparr>u_protocol = ''http:'', u_hostname = ''8.8.8.8'', u_text = ''http://8.8.8.8/''\<rparr>)
     (\<lambda>_ _. None) False ''http://8.8.8.8'' = Inr (Allowed ''http://8.8.8.8/'' ''8.8.8.8'' ''8.8.8.8'')
   \<and> \<not> in_blocked \<lparr>a_value = 0x08080808, a_bits = 32, a_family = 4\<rparr>"
proof -
  have f: "formatIp 0x08080808 32 = ''8.8.8.8''" by code_simp
  have a: "addressToBig ''8.8.8.8'' = Inr \<lparr>a_value = 0x08080808, a_bits = 32, a_family = 4\<rparr>"
    using addressToBig_format[of "0x08080808" 32] f by (simp add: valid_addr_def)
  have four: "sample_isIP ''8.8.8.8'' = 4" by code_simp
  have "some_e (\<lambda>rng. networkContains rng ''8.8.8.8'') BLOCKED_IPV4_RANGES = Inr False"
    unfolding BLOCKED_IPV4_RANGES_def
    by (simp add: networkContains_def a reserved_v4 special_v4 build_network_big)
  then have b: "blocked_by ''8.8.8.8'' BLOCKED_IPV4_RANGES = Inr None" by (simp only: blocked_by_some_e)
  have v: "validateOutboundUrl sample_isIP (\<lambda>_. Some \<lparr>u_protocol = ''http:'', u_hostname = ''8.8.8.8'', u_text = ''http://8.8.8.8/''\<rparr>)
     (\<lambda>_ _. None) False ''http://8.8.8.8'' = Inr (Allowed ''http://8.8.8.8/'' ''8.8.8.8'' ''8.8.8.8'')"
    using four b by (simp add: validateOutboundUrl_def chosen_ip_def strip_brackets_def)
  show ?thesis using validateOutboundUrl_safe[OF sample_isIP_ok _ v] a v four by simp
qed

end
