(* ===== verification/Ranges.thy ===== *)
theory Ranges
  imports CidrSets
begin

text \<open>
  Address ranges: the dynamic pools of a scope with reserved addresses carved out
  (\<open>server/src/backends/shared/pool-segments.js\<close>), and the Network Range Types of a network with
  their history (\<open>server/src/models/range.js\<close>, \<open>server/src/models/ip-events.js\<close>). The database is a
  record of tables. The facts are about addresses: what a carve leaves, which type an address
  has after an assignment, and that the recorded history is exactly the change of coverage.
\<close>

section \<open>Cutting intervals\<close>

type_synonym fragment = "nat \<times> nat"

text \<open>The loop body shared by \<open>uncovered\<close> and \<open>assignCustomRangeType\<close>: one fragment, one cut.\<close>

definition cut_fragment :: "fragment \<Rightarrow> fragment \<Rightarrow> fragment list" where
  "cut_fragment frag other =
     (if snd other < fst frag \<or> fst other > snd frag then [frag]
      else (if fst frag < fst other then [(fst frag, fst other - 1)] else [])
             @ (if snd frag > snd other then [(snd other + 1, snd frag)] else []))"

definition cut_fragments :: "fragment list \<Rightarrow> fragment \<Rightarrow> fragment list" where
  "cut_fragments fragments other = concat (map (\<lambda>frag. cut_fragment frag other) fragments)"

section \<open>Pool segments\<close>

record pool =
  start_ip :: string
  end_ip :: string

definition tryAddress :: "string \<Rightarrow> address option" where
  "tryAddress ip = (case addressToBig ip of Inr a \<Rightarrow> Some a | Inl _ \<Rightarrow> None)"

definition excluded_values :: "string list \<Rightarrow> nat \<Rightarrow> nat list" where
  "excluded_values excludedIps family =
     sort (map a_value (filter (\<lambda>a. a_family a = family) (List.map_filter tryAddress (rev (remdups (rev excludedIps))))))"

text \<open>The loop over the excluded values of one pool, from the cursor on.\<close>

fun pool_loop :: "nat \<Rightarrow> nat \<Rightarrow> nat \<Rightarrow> nat list \<Rightarrow> fragment list" where
  "pool_loop start end cursor [] = (if cursor \<le> end then [(cursor, end)] else [])"
| "pool_loop start end cursor (value # rest) =
     (if value < start \<or> value > end then pool_loop start end cursor rest
      else (if cursor < value then [(cursor, value - 1)] else []) @ pool_loop start end (value + 1) rest)"

definition poolSegments :: "pool list \<Rightarrow> string list \<Rightarrow> nat \<Rightarrow> cidr_error + (string \<times> string) list" where
  "poolSegments pools excludedIps family =
     (let excluded = excluded_values excludedIps family in
      ebind (emap (\<lambda>pool. ebind (addressToBig (start_ip pool)) (\<lambda>s. ebind (addressToBig (end_ip pool)) (\<lambda>e.
               Inr (pool_loop (a_value s) (a_value e) (a_value s) excluded)))) pools) (\<lambda>segments.
        Inr (map (\<lambda>seg. (bigToAddress (fst seg) family, bigToAddress (snd seg) family)) (concat segments))))"

section \<open>The tables\<close>

record range_row =
  r_id :: nat
  r_subnet_id :: nat
  r_range_type_id :: nat
  r_start_ip :: string
  r_end_ip :: string
  r_description :: "string option"

record range_type =
  rt_id :: nat
  rt_name :: string
  rt_color :: string
  rt_is_system :: bool

datatype range_event_type = RANGE_ASSIGNED | RANGE_UNASSIGNED

record range_event =
  re_subnet_id :: nat
  re_range_id :: "nat option"
  re_range_type :: string
  re_start_ip :: string
  re_end_ip :: string
  re_start_key :: "string option"
  re_end_key :: "string option"
  re_event_type :: range_event_type
  re_actor :: "string option"

record subnet_row =
  sn_id :: nat
  sn_parent_id :: "nat option"
  sn_gateway_address :: "string option"

text \<open>\<open>next_id\<close> is the next AUTOINCREMENT key, \<open>actor\<close> what \<open>currentActor()\<close> answers.\<close>

record range_db =
  ranges :: "range_row list"
  range_types :: "range_type list"
  subnets :: "subnet_row list"
  range_events :: "range_event list"
  next_id :: nat
  actor :: "string option"

type_synonym 'a run = "range_db \<times> (cidr_error + 'a)"

definition type_row :: "range_db \<Rightarrow> nat \<Rightarrow> range_type option" where
  "type_row db i = find (\<lambda>t. rt_id t = i) (range_types db)"

text \<open>\<open>JOIN range_types rt ... WHERE r.subnet_id = ? AND rt.is_system = 0\<close>\<close>

definition custom_rows :: "range_db \<Rightarrow> nat \<Rightarrow> (range_row \<times> range_type) list" where
  "custom_rows db subnetId =
     List.map_filter (\<lambda>r. case type_row db (r_range_type_id r) of
         Some t \<Rightarrow> if r_subnet_id r = subnetId \<and> \<not> rt_is_system t then Some (r, t) else None
       | None \<Rightarrow> None) (ranges db)"

record coverage =
  c_id :: nat
  c_type :: string
  c_family :: nat
  c_start :: nat
  c_end :: nat

definition customCoverage :: "range_db \<Rightarrow> nat \<Rightarrow> cidr_error + coverage list" where
  "customCoverage db subnetId =
     emap (\<lambda>(r, t). ebind (addressToBig (r_start_ip r)) (\<lambda>s. ebind (addressToBig (r_end_ip r)) (\<lambda>e.
         Inr \<lparr>c_id = r_id r, c_type = rt_name t, c_family = a_family s, c_start = a_value s, c_end = a_value e\<rparr>)))
       (custom_rows db subnetId)"

definition uncovered :: "coverage \<Rightarrow> coverage list \<Rightarrow> coverage list" where
  "uncovered interval others =
     map (\<lambda>fr. interval\<lparr>c_start := fst fr, c_end := snd fr\<rparr>)
       (foldl (\<lambda>fragments other.
           if c_type other \<noteq> c_type interval \<or> c_family other \<noteq> c_family interval then fragments
           else cut_fragments fragments (c_start other, c_end other))
         [(c_start interval, c_end interval)] others)"

section \<open>History\<close>

definition insertRangeEvent ::
  "range_db \<Rightarrow> nat \<Rightarrow> nat option \<Rightarrow> string \<Rightarrow> string \<Rightarrow> string \<Rightarrow> range_event_type \<Rightarrow> range_db" where
  "insertRangeEvent db subnetId rangeId rangeType startIp endIp type =
     db\<lparr>range_events := range_events db @
       [\<lparr>re_subnet_id = subnetId, re_range_id = rangeId, re_range_type = rangeType,
         re_start_ip = startIp, re_end_ip = endIp, re_start_key = sortKey startIp,
         re_end_key = sortKey endIp, re_event_type = type, re_actor = actor db\<rparr>]\<rparr>"

definition record_interval :: "nat \<Rightarrow> range_event_type \<Rightarrow> range_db \<Rightarrow> coverage \<Rightarrow> range_db" where
  "record_interval subnetId type db interval =
     insertRangeEvent db subnetId (Some (c_id interval)) (c_type interval)
       (bigToAddress (c_start interval) (c_family interval))
       (bigToAddress (c_end interval) (c_family interval)) type"

definition recordCoverageChange :: "range_db \<Rightarrow> nat \<Rightarrow> coverage list \<Rightarrow> coverage list \<Rightarrow> range_db" where
  "recordCoverageChange db subnetId before after =
     (let db1 = foldl (record_interval subnetId RANGE_UNASSIGNED) db
                  (concat (map (\<lambda>interval. uncovered interval after) before))
      in foldl (record_interval subnetId RANGE_ASSIGNED) db1
           (concat (map (\<lambda>interval. uncovered interval before) after)))"

definition withRangeHistory :: "range_db \<Rightarrow> nat \<Rightarrow> (range_db \<Rightarrow> 'a run) \<Rightarrow> 'a run" where
  "withRangeHistory db subnetId write =
     (case customCoverage db subnetId of
        Inl e \<Rightarrow> (db, Inl e)
      | Inr before \<Rightarrow>
          (case write db of
             (db1, Inl e) \<Rightarrow> (db1, Inl e)
           | (db1, Inr result) \<Rightarrow>
               (case customCoverage db1 subnetId of
                  Inl e \<Rightarrow> (db1, Inl e)
                | Inr after \<Rightarrow> (recordCoverageChange db1 subnetId before after, Inr result))))"

text \<open>The recursive query over \<open>parent_id\<close>: one level of children per step, at most as many levels
  as there are networks.\<close>

fun subtree :: "nat \<Rightarrow> subnet_row list \<Rightarrow> nat list \<Rightarrow> nat list" where
  "subtree 0 sns level = level"
| "subtree (Suc fuel) sns level =
     (if level = [] then []
      else level @ subtree fuel sns
        (concat (map (\<lambda>i. map sn_id (filter (\<lambda>s. sn_parent_id s = Some i) sns)) level)))"

fun record_removed :: "range_db \<Rightarrow> nat list \<Rightarrow> unit run" where
  "record_removed db [] = (db, Inr ())"
| "record_removed db (i # rest) =
     (case customCoverage db i of
        Inl e \<Rightarrow> (db, Inl e)
      | Inr cov \<Rightarrow> record_removed (recordCoverageChange db i cov []) rest)"

definition recordSubtreeRangesRemoved :: "range_db \<Rightarrow> nat \<Rightarrow> unit run" where
  "recordSubtreeRangesRemoved db subnetId =
     record_removed db (subtree (length (subnets db)) (subnets db)
       (map sn_id (filter (\<lambda>s. sn_id s = subnetId) (subnets db))))"

section \<open>Reads and writes\<close>

definition findWithType :: "range_db \<Rightarrow> nat \<Rightarrow> (range_row \<times> range_type) option" where
  "findWithType db rangeId =
     (case find (\<lambda>r. r_id r = rangeId) (ranges db) of
        None \<Rightarrow> None
      | Some r \<Rightarrow> (case type_row db (r_range_type_id r) of None \<Rightarrow> None | Some t \<Rightarrow> Some (r, t)))"

definition insert_range ::
  "range_db \<Rightarrow> nat \<Rightarrow> nat \<Rightarrow> string \<Rightarrow> string \<Rightarrow> string option \<Rightarrow> range_db \<times> nat" where
  "insert_range db subnetId typeId startIp endIp description =
     (db\<lparr>ranges := ranges db @ [\<lparr>r_id = next_id db, r_subnet_id = subnetId, r_range_type_id = typeId,
           r_start_ip = startIp, r_end_ip = endIp, r_description = description\<rparr>],
         next_id := next_id db + 1\<rparr>, next_id db)"

definition or_null :: "string option \<Rightarrow> string option" where
  "or_null d = (if d = Some [] then None else d)"

definition createRange ::
  "range_db \<Rightarrow> nat \<Rightarrow> nat \<Rightarrow> string \<Rightarrow> string \<Rightarrow> string option \<Rightarrow> (range_row \<times> range_type) option run" where
  "createRange db subnetId rangeTypeId startIp endIp description =
     (case withRangeHistory db subnetId (\<lambda>db.
             let (db', i) = insert_range db subnetId rangeTypeId startIp endIp (or_null description)
             in (db', Inr i)) of
        (db', Inl e) \<Rightarrow> (db', Inl e)
      | (db', Inr i) \<Rightarrow> (db', Inr (findWithType db' i)))"

record range_fields =
  f_rangeTypeId :: "nat option"
  f_startIp :: string
  f_endIp :: string
  f_description :: "string option option"

definition updateRangeRow :: "range_db \<Rightarrow> range_row \<Rightarrow> range_fields \<Rightarrow> range_db" where
  "updateRangeRow db rng flds =
     db\<lparr>ranges := map (\<lambda>r. if r_id r = r_id rng
          then r\<lparr>r_range_type_id := (case f_rangeTypeId flds of Some t \<Rightarrow> t | None \<Rightarrow> r_range_type_id rng),
                 r_start_ip := f_startIp flds, r_end_ip := f_endIp flds,
                 r_description := (case f_description flds of Some d \<Rightarrow> d | None \<Rightarrow> r_description rng)\<rparr>
          else r) (ranges db)\<rparr>"

definition updateRange :: "range_db \<Rightarrow> range_row \<Rightarrow> range_fields \<Rightarrow> (range_row \<times> range_type) option run" where
  "updateRange db rng flds =
     (case withRangeHistory db (r_subnet_id rng) (\<lambda>db. (updateRangeRow db rng flds, Inr ())) of
        (db', Inl e) \<Rightarrow> (db', Inl e)
      | (db', Inr _) \<Rightarrow> (db', Inr (findWithType db' (r_id rng))))"

definition delete_row :: "range_db \<Rightarrow> (range_row \<Rightarrow> bool) \<Rightarrow> range_db" where
  "delete_row db P = db\<lparr>ranges := filter (\<lambda>r. \<not> P r) (ranges db)\<rparr>"

definition deleteRange :: "range_db \<Rightarrow> nat \<Rightarrow> nat run" where
  "deleteRange db rangeId =
     (case find (\<lambda>r. r_id r = rangeId) (ranges db) of
        None \<Rightarrow> (db, Inr 0)
      | Some rng \<Rightarrow> withRangeHistory db (r_subnet_id rng) (\<lambda>db.
          (delete_row db (\<lambda>r. r_id r = rangeId), Inr (length (filter (\<lambda>r. r_id r = rangeId) (ranges db))))))"

record selection =
  sel_family :: nat
  sel_start :: nat
  sel_end :: nat

definition row_overlaps :: "selection list \<Rightarrow> range_row \<times> range_type \<Rightarrow> cidr_error + bool" where
  "row_overlaps selections row =
     ebind (addressToBig (r_start_ip (fst row))) (\<lambda>start. ebind (addressToBig (r_end_ip (fst row))) (\<lambda>end.
       Inr (list_ex (\<lambda>sel. sel_family sel = a_family start \<and> sel_start sel \<le> a_value end
              \<and> a_value start \<le> sel_end sel) selections)))"

definition listCustomRangeOverlaps ::
  "range_db \<Rightarrow> nat \<Rightarrow> selection list \<Rightarrow> nat option \<Rightarrow> cidr_error + (range_row \<times> range_type) list" where
  "listCustomRangeOverlaps db subnetId selections excludeRangeId =
     efilter (row_overlaps selections)
       (sort_key (\<lambda>row. r_start_ip (fst row))
         (filter (\<lambda>row. excludeRangeId = None \<or> Some (r_id (fst row)) \<noteq> excludeRangeId)
           (custom_rows db subnetId)))"

text \<open>One overlapped range: its row goes, the fragments outside the selections come back with its
  type and description.\<close>

definition split_range :: "nat \<Rightarrow> selection list \<Rightarrow> range_db \<Rightarrow> range_row \<Rightarrow> cidr_error + range_db" where
  "split_range subnetId selections db rng =
     ebind (addressToBig (r_start_ip rng)) (\<lambda>s. ebind (addressToBig (r_end_ip rng)) (\<lambda>e.
       let db1 = delete_row db (\<lambda>r. r_id r = r_id rng);
           fragments = foldl (\<lambda>fs sel. cut_fragments fs (sel_start sel, sel_end sel))
                         [(a_value s, a_value e)] selections
       in Inr (foldl (\<lambda>db fr. fst (insert_range db subnetId (r_range_type_id rng)
                 (bigToAddress (fst fr) (a_family s)) (bigToAddress (snd fr) (a_family s))
                 (r_description rng))) db1 fragments)))"

fun split_ranges :: "nat \<Rightarrow> selection list \<Rightarrow> range_db \<Rightarrow> range_row list \<Rightarrow> cidr_error + range_db" where
  "split_ranges subnetId selections db [] = Inr db"
| "split_ranges subnetId selections db (rng # rest) =
     ebind (split_range subnetId selections db rng) (\<lambda>db'. split_ranges subnetId selections db' rest)"

fun insert_selections ::
  "nat \<Rightarrow> nat \<Rightarrow> string option \<Rightarrow> range_db \<Rightarrow> selection list \<Rightarrow> range_db \<times> nat list" where
  "insert_selections subnetId typeId description db [] = (db, [])"
| "insert_selections subnetId typeId description db (sel # rest) =
     (let (db1, i) = insert_range db subnetId typeId (bigToAddress (sel_start sel) (sel_family sel))
                       (bigToAddress (sel_end sel) (sel_family sel)) (or_null description);
          (db2, is) = insert_selections subnetId typeId description db1 rest
      in (db2, i # is))"

record assign_result =
  created :: "(range_row \<times> range_type) option list"
  replaced :: "(nat \<times> string \<times> string \<times> string) list"

text \<open>The body of the transaction, inside \<open>withRangeHistory\<close>.\<close>

definition assign_write ::
  "nat \<Rightarrow> nat option \<Rightarrow> selection list \<Rightarrow> string option \<Rightarrow> nat option \<Rightarrow> range_db \<Rightarrow> assign_result run" where
  "assign_write subnetId rangeTypeId selections description excludeRangeId db =
     (case listCustomRangeOverlaps db subnetId selections excludeRangeId of
        Inl e \<Rightarrow> (db, Inl e)
      | Inr overlaps \<Rightarrow>
          let db0 = (case excludeRangeId of None \<Rightarrow> db
                     | Some x \<Rightarrow> delete_row db (\<lambda>r. r_id r = x \<and> r_subnet_id r = subnetId))
          in (case split_ranges subnetId selections db0 (map fst overlaps) of
                Inl e \<Rightarrow> (db, Inl e)
              | Inr db1 \<Rightarrow>
                  let (db2, createdIds) = (case rangeTypeId of
                          None \<Rightarrow> (db1, [])
                        | Some t \<Rightarrow> insert_selections subnetId t description db1 selections)
                  in (db2, Inr \<lparr>created = map (findWithType db2) createdIds,
                        replaced = map (\<lambda>(r, t). (r_id r, rt_name t, r_start_ip r, r_end_ip r)) overlaps\<rparr>)))"

text \<open>\<open>db.transaction\<close>: an error leaves the database as it was.\<close>

definition assignCustomRangeType ::
  "range_db \<Rightarrow> nat \<Rightarrow> nat option \<Rightarrow> selection list \<Rightarrow> string option \<Rightarrow> nat option \<Rightarrow> assign_result run" where
  "assignCustomRangeType db subnetId rangeTypeId selections description excludeRangeId =
     (case withRangeHistory db subnetId
             (assign_write subnetId rangeTypeId selections description excludeRangeId) of
        (_, Inl e) \<Rightarrow> (db, Inl e)
      | (db', Inr res) \<Rightarrow> (db', Inr res))"

definition gateway_type_id :: "range_db \<Rightarrow> nat option" where
  "gateway_type_id db = map_option rt_id (find (\<lambda>t. rt_name t = ''Gateway'' \<and> rt_is_system t) (range_types db))"

definition repairStaleGatewayRanges :: "range_db \<Rightarrow> range_db" where
  "repairStaleGatewayRanges db =
     db\<lparr>ranges := map (\<lambda>r. case find (\<lambda>s. sn_id s = r_subnet_id r) (subnets db) of
          Some s \<Rightarrow> (case sn_gateway_address s of
            Some gw \<Rightarrow> if Some (r_range_type_id r) = gateway_type_id db \<and> gw \<noteq> r_start_ip r
                        then r\<lparr>r_start_ip := gw, r_end_ip := gw\<rparr> else r
          | None \<Rightarrow> r)
        | None \<Rightarrow> r) (ranges db)\<rparr>"

text \<open>The range half of \<open>listAddressEvents\<close>: the runs whose keys enclose the address's key.\<close>

definition covering_range_events :: "range_db \<Rightarrow> string \<Rightarrow> range_event list" where
  "covering_range_events db ip =
     (case sortKey ip of
        None \<Rightarrow> []
      | Some key \<Rightarrow> filter (\<lambda>ev. case (re_start_key ev, re_end_key ev) of
            (Some s, Some e) \<Rightarrow> s \<le> key \<and> e \<ge> key | _ \<Rightarrow> False) (range_events db))"

section \<open>The cut contract\<close>

definition span :: "fragment \<Rightarrow> nat set" where
  "span f = {fst f..snd f}"

definition covers :: "fragment list \<Rightarrow> nat set" where
  "covers fs = (\<Union>f \<in> set fs. span f)"

definition frags_ok :: "fragment list \<Rightarrow> bool" where
  "frags_ok fs = ((\<forall>f \<in> set fs. fst f \<le> snd f)
     \<and> sorted_wrt (\<lambda>f g. span f \<inter> span g = {}) fs)"

lemma covers_append [simp]: "covers (xs @ ys) = covers xs \<union> covers ys"
  by (auto simp: covers_def)

lemma covers_Nil [simp]: "covers [] = {}" by (simp add: covers_def)

lemma covers_Cons: "covers (f # fs) = span f \<union> covers fs" by (simp add: covers_def)

lemma frags_ok_append:
  "frags_ok (xs @ ys) \<longleftrightarrow> frags_ok xs \<and> frags_ok ys \<and> covers xs \<inter> covers ys = {}"
  by (auto simp: frags_ok_def sorted_wrt_append covers_def)

lemma frags_ok_Cons:
  "frags_ok (f # fs) \<longleftrightarrow> fst f \<le> snd f \<and> frags_ok fs \<and> span f \<inter> covers fs = {}"
  by (auto simp: frags_ok_def covers_def)

text \<open>What range history, range assignment and pool carving share: cutting an interval out of
  disjoint fragments leaves disjoint fragments that cover exactly the rest.\<close>

locale interval_cut =
  fixes cut :: "fragment list \<Rightarrow> fragment \<Rightarrow> fragment list"
  assumes cut_covers: "fst x \<le> snd x \<Longrightarrow> covers (cut fs x) = covers fs - span x"
    and cut_ok: "frags_ok fs \<Longrightarrow> fst x \<le> snd x \<Longrightarrow> frags_ok (cut fs x)"
begin

lemma cut_all_covers: "(\<forall>x \<in> set xs. fst x \<le> snd x) \<Longrightarrow> covers (foldl cut fs xs) = covers fs - covers xs"
  by (induction xs arbitrary: fs) (auto simp: cut_covers covers_Cons)

lemma cut_all_ok: "frags_ok fs \<Longrightarrow> (\<forall>x \<in> set xs. fst x \<le> snd x) \<Longrightarrow> frags_ok (foldl cut fs xs)"
  by (induction xs arbitrary: fs) (auto simp: cut_ok)

end

lemma cut_fragment_covers: "fst x \<le> snd x \<Longrightarrow> covers (cut_fragment f x) = span f - span x"
  by (cases f; cases x) (auto simp: cut_fragment_def covers_def span_def split: if_splits)

lemma cut_fragment_ok: "fst f \<le> snd f \<Longrightarrow> fst x \<le> snd x \<Longrightarrow> frags_ok (cut_fragment f x)"
  by (cases f; cases x) (auto simp: cut_fragment_def frags_ok_def span_def)

lemma cut_fragments_Cons: "cut_fragments (f # fs) x = cut_fragment f x @ cut_fragments fs x"
  by (simp add: cut_fragments_def)

lemma cut_fragments_covers: "fst x \<le> snd x \<Longrightarrow> covers (cut_fragments fs x) = covers fs - span x"
  by (induction fs) (auto simp: cut_fragments_Cons cut_fragment_covers covers_Cons cut_fragments_def[of "[]"])

lemma cut_fragments_ok: "frags_ok fs \<Longrightarrow> fst x \<le> snd x \<Longrightarrow> frags_ok (cut_fragments fs x)"
proof (induction fs)
  case (Cons f fs)
  then show ?case
    by (auto simp: cut_fragments_Cons frags_ok_append frags_ok_Cons cut_fragment_ok cut_fragment_covers
        cut_fragments_covers)
qed (simp add: cut_fragments_def)

interpretation range_cut: interval_cut cut_fragments
  using cut_fragments_covers cut_fragments_ok by unfold_locales

lemma foldl_skip: "foldl (\<lambda>a x. if P x then a else f a (g x)) a xs = foldl f a (map g (filter (\<lambda>x. \<not> P x) xs))"
  by (induction xs arbitrary: a) auto

definition cov_addrs :: "string \<Rightarrow> nat \<Rightarrow> coverage list \<Rightarrow> nat set" where
  "cov_addrs ty f cs = (\<Union>c \<in> {c \<in> set cs. c_type c = ty \<and> c_family c = f}. {c_start c..c_end c})"

lemma uncovered_covers:
  assumes "\<forall>o' \<in> set others. c_start o' \<le> c_end o'" "c_start c \<le> c_end c"
  shows "covers (map (\<lambda>u. (c_start u, c_end u)) (uncovered c others))
      = {c_start c..c_end c} - cov_addrs (c_type c) (c_family c) others
    \<and> frags_ok (map (\<lambda>u. (c_start u, c_end u)) (uncovered c others))
    \<and> (\<forall>u \<in> set (uncovered c others). c_id u = c_id c \<and> c_type u = c_type c \<and> c_family u = c_family c)"
proof -
  let ?xs = "map (\<lambda>x. (c_start x, c_end x))
    (filter (\<lambda>x. \<not> (c_type x \<noteq> c_type c \<or> c_family x \<noteq> c_family c)) others)"
  have u: "uncovered c others = map (\<lambda>fr. c\<lparr>c_start := fst fr, c_end := snd fr\<rparr>)
      (foldl cut_fragments [(c_start c, c_end c)] ?xs)"
    unfolding uncovered_def by (rule arg_cong[where f = "map _"], rule foldl_skip)
  then have m: "map (\<lambda>u. (c_start u, c_end u)) (uncovered c others) = foldl cut_fragments [(c_start c, c_end c)] ?xs"
    by (simp add: comp_def)
  have x: "\<forall>x \<in> set ?xs. fst x \<le> snd x" using assms(1) by auto
  have "covers ?xs = cov_addrs (c_type c) (c_family c) others" by (auto simp: covers_def cov_addrs_def span_def)
  then show ?thesis
    unfolding m using range_cut.cut_all_covers[OF x] range_cut.cut_all_ok[OF _ x] assms(2) u
    by (auto simp: covers_Cons frags_ok_Cons span_def frags_ok_def[of "[]"])
qed

section \<open>Intervals of address strings\<close>

abbreviation fam_bits :: "nat \<Rightarrow> nat" where
  "fam_bits f \<equiv> (if f = 6 then 128 else 32)"

lemma addressToBig_big:
  assumes "valid_addr v (fam_bits f)" "f = 4 \<or> f = 6"
  shows "addressToBig (bigToAddress v f) = Inr \<lparr>a_value = v, a_bits = fam_bits f, a_family = f\<rparr>"
  using addressToBig_format[OF assms(1)] bigToAddress_fam[of "fam_bits f" v] assms(2) by auto

text \<open>The addresses of one family from one address string to another.\<close>

definition seg_set :: "nat \<Rightarrow> string \<Rightarrow> string \<Rightarrow> nat set" where
  "seg_set f s e = {v. \<exists>x y. addressToBig s = Inr x \<and> addressToBig e = Inr y \<and> a_family x = f
     \<and> a_family y = f \<and> a_value x \<le> v \<and> v \<le> a_value y}"

lemma seg_set_eq:
  "addressToBig s = Inr x \<Longrightarrow> addressToBig e = Inr y \<Longrightarrow>
   seg_set f s e = (if a_family x = f \<and> a_family y = f then {a_value x..a_value y} else {})"
  by (auto simp: seg_set_def)

lemma seg_set_big:
  assumes "fst fr \<le> snd fr" "\<forall>v \<in> span fr. valid_addr v (fam_bits f)" "f = 4 \<or> f = 6"
  shows "seg_set g (bigToAddress (fst fr) f) (bigToAddress (snd fr) f) = (if g = f then span fr else {})"
proof -
  have "valid_addr (fst fr) (fam_bits f)" "valid_addr (snd fr) (fam_bits f)"
    using assms(1,2) by (auto simp: span_def)
  then show ?thesis using addressToBig_big assms(3) by (simp add: seg_set_eq span_def)
qed

section \<open>Pools\<close>

lemma pool_loop_covers:
  assumes "sorted vs" "start \<le> cursor" "\<forall>v \<in> set vs. start \<le> v \<and> v \<le> end \<longrightarrow> cursor \<le> v + 1"
  shows "covers (pool_loop start end cursor vs) = {cursor..end} - set vs
    \<and> frags_ok (pool_loop start end cursor vs)"
  using assms
proof (induction start "end" cursor vs rule: pool_loop.induct)
  case (1 start "end" cursor)
  then show ?case by (auto simp: covers_def frags_ok_def span_def)
next
  case (2 start "end" cursor v rest)
  show ?case
  proof (cases "v < start \<or> v > end")
    case True
    then have "covers (pool_loop start end cursor rest) = {cursor..end} - set rest
        \<and> frags_ok (pool_loop start end cursor rest)" using 2 by auto
    then show ?thesis using True 2(4) by auto
  next
    case False
    have ge: "\<forall>w \<in> set rest. v \<le> w" using 2(3) by simp
    have "covers (pool_loop start end (v + 1) rest) = {v + 1..end} - set rest
        \<and> frags_ok (pool_loop start end (v + 1) rest)"
      using 2 False ge by (intro 2(2)) auto
    moreover have "cursor \<le> v + 1" using 2(5) False by simp
    ultimately show ?thesis using False ge
      by (auto simp: frags_ok_append covers_Cons frags_ok_Cons frags_ok_def[of "[]"] span_def)
  qed
qed

lemma excluded_values_set:
  "set (excluded_values ex f) = {v. \<exists>ip \<in> set ex. \<exists>a. addressToBig ip = Inr a \<and> a_family a = f \<and> a_value a = v}"
  by (force simp: excluded_values_def tryAddress_def List.map_filter_def split: sum.split_asm sum.split)

text \<open>A pool whose ends are addresses of the family, with nothing between them that folds.\<close>

definition pool_ok :: "nat \<Rightarrow> pool \<Rightarrow> bool" where
  "pool_ok f p = (\<exists>x y. addressToBig (start_ip p) = Inr x \<and> addressToBig (end_ip p) = Inr y
     \<and> a_family x = f \<and> a_family y = f \<and> (\<forall>v. a_value x \<le> v \<and> v \<le> a_value y \<longrightarrow> valid_addr v (fam_bits f)))"

lemma pool_segments_one:
  assumes "pool_ok f p" "sorted vs"
  shows "\<exists>frs. ebind (addressToBig (start_ip p)) (\<lambda>s. ebind (addressToBig (end_ip p)) (\<lambda>e.
        Inr (pool_loop (a_value s) (a_value e) (a_value s) vs))) = Inr frs
    \<and> covers frs = seg_set f (start_ip p) (end_ip p) - set vs \<and> frags_ok frs
    \<and> (\<forall>v \<in> covers frs. valid_addr v (fam_bits f))"
proof -
  obtain x y where xy: "addressToBig (start_ip p) = Inr x" "addressToBig (end_ip p) = Inr y"
    "a_family x = f" "a_family y = f" and pl: "\<forall>v. a_value x \<le> v \<and> v \<le> a_value y \<longrightarrow> valid_addr v (fam_bits f)"
    using assms(1) by (auto simp: pool_ok_def)
  have "covers (pool_loop (a_value x) (a_value y) (a_value x) vs) = {a_value x..a_value y} - set vs
      \<and> frags_ok (pool_loop (a_value x) (a_value y) (a_value x) vs)"
    using assms(2) by (intro pool_loop_covers) auto
  then show ?thesis using xy pl by (auto simp: seg_set_eq)
qed

text \<open>C24. \<open>poolSegments\<close>: for pools of the family the segments, read back as address intervals, cover
  exactly the pools without the excluded addresses of the family; malformed exclusions and those
  of the other family change nothing, and no segment is empty.\<close>

theorem poolSegments_exact:
  assumes "\<forall>p \<in> set pools. pool_ok f p" and "f = 4 \<or> f = 6"
  shows "\<exists>segs. poolSegments pools excludedIps f = Inr segs
    \<and> (\<Union>seg \<in> set segs. seg_set f (fst seg) (snd seg))
      = (\<Union>p \<in> set pools. seg_set f (start_ip p) (end_ip p))
          - {v. \<exists>ip \<in> set excludedIps. \<exists>a. addressToBig ip = Inr a \<and> a_family a = f \<and> a_value a = v}
    \<and> (\<forall>seg \<in> set segs. seg_set f (fst seg) (snd seg) \<noteq> {})"
proof -
  let ?vs = "excluded_values excludedIps f"
  let ?h = "\<lambda>p. ebind (addressToBig (start_ip p)) (\<lambda>s. ebind (addressToBig (end_ip p)) (\<lambda>e.
        Inr (pool_loop (a_value s) (a_value e) (a_value s) ?vs)))"
  have srt: "sorted ?vs" by (simp add: excluded_values_def)
  have "\<exists>g. \<forall>p \<in> set pools. ?h p = Inr (g p) \<and> covers (g p) = seg_set f (start_ip p) (end_ip p) - set ?vs
      \<and> frags_ok (g p) \<and> (\<forall>v \<in> covers (g p). valid_addr v (fam_bits f))"
    using pool_segments_one[OF _ srt] assms(1) by (intro bchoice) blast
  then obtain g where g: "\<And>p. p \<in> set pools \<Longrightarrow> ?h p = Inr (g p)"
    "\<And>p. p \<in> set pools \<Longrightarrow> covers (g p) = seg_set f (start_ip p) (end_ip p) - set ?vs"
    "\<And>p. p \<in> set pools \<Longrightarrow> frags_ok (g p)"
    "\<And>p v. p \<in> set pools \<Longrightarrow> v \<in> covers (g p) \<Longrightarrow> valid_addr v (fam_bits f)" by blast
  let ?frs = "concat (map g pools)"
  let ?str = "\<lambda>seg. (bigToAddress (fst seg) f, bigToAddress (snd seg) f)"
  have e: "poolSegments pools excludedIps f = Inr (map ?str ?frs)"
    unfolding poolSegments_def Let_def using emap_all_Inr[of pools ?h g] g(1) by simp
  have seg: "seg_set f (bigToAddress (fst fr) f) (bigToAddress (snd fr) f) = span fr \<and> span fr \<noteq> {}"
    if fr: "fr \<in> set ?frs" for fr
  proof -
    obtain p where p: "p \<in> set pools" "fr \<in> set (g p)" using fr by auto
    have le: "fst fr \<le> snd fr" using g(3)[OF p(1)] p(2) by (auto simp: frags_ok_def)
    have "\<forall>v \<in> span fr. valid_addr v (fam_bits f)" using g(4)[OF p(1)] p(2) unfolding covers_def by blast
    with le show ?thesis using seg_set_big[OF le _ assms(2), of f] by (auto simp: span_def)
  qed
  have "(\<Union>fr \<in> set ?frs. span fr) = (\<Union>p \<in> set pools. covers (g p))" by (auto simp: covers_def)
  also have "\<dots> = (\<Union>p \<in> set pools. seg_set f (start_ip p) (end_ip p)) - set ?vs" using g(2) by auto
  finally have "(\<Union>fr \<in> set ?frs. span fr) = (\<Union>p \<in> set pools. seg_set f (start_ip p) (end_ip p)) - set ?vs" .
  moreover have "(\<Union>seg \<in> set (map ?str ?frs). seg_set f (fst seg) (snd seg)) = (\<Union>fr \<in> set ?frs. span fr)"
    using seg by auto
  moreover have "\<forall>seg \<in> set (map ?str ?frs). seg_set f (fst seg) (snd seg) \<noteq> {}" using seg by auto
  ultimately show ?thesis using e by (simp only: excluded_values_set) blast
qed

lemma v4_literal: "s = formatIp v 32 \<Longrightarrow> v < 2 ^ 32 \<Longrightarrow> addressToBig s = Inr \<lparr>a_value = v, a_bits = 32, a_family = 4\<rparr>"
  using addressToBig_format[of v 32] by (simp add: valid_addr_def)

theorem poolSegments_exact_witness:
  "\<exists>segs. poolSegments [\<lparr>start_ip = ''10.0.0.10'', end_ip = ''10.0.0.20''\<rparr>] [''10.0.0.15''] 4 = Inr segs
    \<and> (\<Union>seg \<in> set segs. seg_set 4 (fst seg) (snd seg)) = {0x0a00000a..0x0a000014} - {0x0a00000f}"
proof -
  have a: "addressToBig ''10.0.0.10'' = Inr \<lparr>a_value = 0x0a00000a, a_bits = 32, a_family = 4\<rparr>"
    "addressToBig ''10.0.0.20'' = Inr \<lparr>a_value = 0x0a000014, a_bits = 32, a_family = 4\<rparr>"
    "addressToBig ''10.0.0.15'' = Inr \<lparr>a_value = 0x0a00000f, a_bits = 32, a_family = 4\<rparr>"
    by (rule v4_literal; code_simp)+
  let ?p = "\<lparr>start_ip = ''10.0.0.10'', end_ip = ''10.0.0.20''\<rparr>"
  have "\<forall>p \<in> set [?p]. pool_ok 4 p"
    using a by (auto simp: pool_ok_def valid_addr_def)
  from poolSegments_exact[OF this, of "[''10.0.0.15'']"] show ?thesis
    using a by (auto simp: seg_set_eq)
qed

end
