(* ===== verification/RangeHistory.thy ===== *)
theory RangeHistory
  imports Ranges
begin

text \<open>
  Assigning a Network Range Type and its history (\<open>server/src/models/range.js\<close>): custom ranges of a
  network stay disjoint, an assignment changes the type of exactly the selected addresses, and
  the history rows written by a change are exactly the addresses each type lost and gained.
\<close>

section \<open>Custom ranges as address sets\<close>

definition is_custom :: "range_db \<Rightarrow> nat \<Rightarrow> bool" where
  "is_custom db i = (case type_row db i of Some t \<Rightarrow> \<not> rt_is_system t | None \<Rightarrow> False)"

definition custom_set :: "range_db \<Rightarrow> nat \<Rightarrow> range_row set" where
  "custom_set db sn = {r \<in> set (ranges db). r_subnet_id r = sn \<and> is_custom db (r_range_type_id r)}"

lemma custom_rows_rows:
  "map fst (custom_rows db sn) = filter (\<lambda>r. r_subnet_id r = sn \<and> is_custom db (r_range_type_id r)) (ranges db)"
proof -
  have "map fst (List.map_filter (\<lambda>r. case type_row db (r_range_type_id r) of
         Some t \<Rightarrow> if r_subnet_id r = sn \<and> \<not> rt_is_system t then Some (r, t) else None
       | None \<Rightarrow> None) rs) = filter (\<lambda>r. r_subnet_id r = sn \<and> is_custom db (r_range_type_id r)) rs" for rs
    by (induction rs) (auto simp: List.map_filter_simps is_custom_def split: option.split)
  then show ?thesis by (simp add: custom_rows_def)
qed

lemma set_custom_rows: "fst ` set (custom_rows db sn) = custom_set db sn"
  unfolding list.set_map[symmetric] custom_rows_rows by (auto simp: custom_set_def)

definition row_addrs :: "range_row \<Rightarrow> nat \<Rightarrow> nat set" where
  "row_addrs r f = seg_set f (r_start_ip r) (r_end_ip r)"

definition row_ok :: "range_row \<Rightarrow> bool" where
  "row_ok r = (\<exists>x y. addressToBig (r_start_ip r) = Inr x \<and> addressToBig (r_end_ip r) = Inr y
     \<and> a_family x = a_family y \<and> a_value x \<le> a_value y
     \<and> (\<forall>v. a_value x \<le> v \<and> v \<le> a_value y \<longrightarrow> valid_addr v (fam_bits (a_family x))))"

text \<open>The addresses of a family that have a custom type in a network.\<close>

definition typed :: "range_db \<Rightarrow> nat \<Rightarrow> nat \<Rightarrow> nat \<Rightarrow> nat set" where
  "typed db sn ty f = (\<Union>r \<in> {r \<in> custom_set db sn. r_range_type_id r = ty}. row_addrs r f)"

definition keys_ok :: "range_db \<Rightarrow> bool" where
  "keys_ok db = (distinct (map r_id (ranges db)) \<and> (\<forall>r \<in> set (ranges db). r_id r < next_id db))"

definition custom_ok :: "range_db \<Rightarrow> nat \<Rightarrow> bool" where
  "custom_ok db sn = ((\<forall>r \<in> custom_set db sn. row_ok r)
     \<and> (\<forall>r \<in> custom_set db sn. \<forall>s \<in> custom_set db sn. r \<noteq> s \<longrightarrow> (\<forall>f. row_addrs r f \<inter> row_addrs s f = {})))"

lemma row_ok_family:
  assumes "row_ok r"
  shows "\<exists>x y. addressToBig (r_start_ip r) = Inr x \<and> addressToBig (r_end_ip r) = Inr y
    \<and> (a_family x = 4 \<or> a_family x = 6) \<and> a_value x \<le> a_value y
    \<and> (\<forall>g. row_addrs r g = (if g = a_family x then {a_value x..a_value y} else {}))
    \<and> (\<forall>v \<in> {a_value x..a_value y}. valid_addr v (fam_bits (a_family x)))"
proof -
  obtain x y where xy: "addressToBig (r_start_ip r) = Inr x" "addressToBig (r_end_ip r) = Inr y"
    "a_family x = a_family y" "a_value x \<le> a_value y"
    "\<forall>v. a_value x \<le> v \<and> v \<le> a_value y \<longrightarrow> valid_addr v (fam_bits (a_family x))"
    using assms by (auto simp: row_ok_def)
  moreover have "a_family x = 4 \<or> a_family x = 6" using addressToBig_valid[OF xy(1)] by auto
  ultimately show ?thesis
    by (intro exI[of _ x] exI[of _ y]) (auto simp: row_addrs_def seg_set_eq)
qed

lemma insert_range_simps:
  "set (ranges (fst (insert_range db sn ty s e d))) = insert \<lparr>r_id = next_id db, r_subnet_id = sn,
     r_range_type_id = ty, r_start_ip = s, r_end_ip = e, r_description = d\<rparr> (set (ranges db))"
  "range_types (fst (insert_range db sn ty s e d)) = range_types db"
  "next_id (fst (insert_range db sn ty s e d)) = next_id db + 1"
  "range_events (fst (insert_range db sn ty s e d)) = range_events db"
  by (simp_all add: insert_range_def)

lemma is_custom_cong: "range_types db' = range_types db \<Longrightarrow> is_custom db' i = is_custom db i"
  by (simp add: is_custom_def type_row_def)

text \<open>Inserting an interval that no custom row touches.\<close>

lemma insert_interval:
  fixes db :: range_db and d :: "string option"
  assumes ok: "custom_ok db sn" "keys_ok db" and ty: "is_custom db ty"
    and fr: "fst fr \<le> snd fr" "\<forall>v \<in> span fr. valid_addr v (fam_bits f)" "f = 4 \<or> f = 6"
    and free: "\<forall>r \<in> custom_set db sn. row_addrs r f \<inter> span fr = {}"
  defines "db' \<equiv> fst (insert_range db sn ty (bigToAddress (fst fr) f) (bigToAddress (snd fr) f) d)"
  shows "custom_ok db' sn \<and> keys_ok db' \<and> range_types db' = range_types db
    \<and> (\<exists>r. custom_set db' sn = insert r (custom_set db sn) \<and> (\<forall>g. row_addrs r g = (if g = f then span fr else {})))
    \<and> (\<forall>t g. typed db' sn t g = typed db sn t g \<union> (if t = ty \<and> g = f then span fr else {}))"
proof -
  let ?r = "\<lparr>r_id = next_id db, r_subnet_id = sn, r_range_type_id = ty,
    r_start_ip = bigToAddress (fst fr) f, r_end_ip = bigToAddress (snd fr) f, r_description = d\<rparr>"
  note simps = insert_range_simps[of db sn ty "bigToAddress (fst fr) f" "bigToAddress (snd fr) f" d, folded db'_def]
  have cust: "is_custom db' i = is_custom db i" for i by (rule is_custom_cong[OF simps(2)])
  have set: "custom_set db' sn = insert ?r (custom_set db sn)"
    using ty by (auto simp: custom_set_def simps(1) cust)
  have addrs: "row_addrs ?r g = (if g = f then span fr else {})" for g
    using seg_set_big[OF fr] by (simp add: row_addrs_def)
  have "valid_addr (fst fr) (fam_bits f)" "valid_addr (snd fr) (fam_bits f)" using fr by (auto simp: span_def)
  then have rok: "row_ok ?r"
    using addressToBig_big fr unfolding row_ok_def by (auto simp: span_def)
  have disj: "row_addrs ?r g \<inter> row_addrs s g = {}" if "s \<in> custom_set db sn" for s g
    using free that by (auto simp: addrs)
  have "custom_ok db' sn"
    using ok(1) rok disj unfolding custom_ok_def set by (metis Int_commute insert_iff)
  moreover have "keys_ok db'"
    using ok(2) by (auto simp: keys_ok_def db'_def insert_range_def less_Suc_eq)
  moreover have "typed db' sn t g = typed db sn t g \<union> (if t = ty \<and> g = f then span fr else {})" for t g
    unfolding typed_def set using addrs by auto
  ultimately show ?thesis using set addrs simps(2) by blast
qed

lemma insert_intervals:
  fixes db :: range_db and d :: "string option"
  assumes "custom_ok db sn" "keys_ok db" "is_custom db ty" "f = 4 \<or> f = 6"
    and "frags_ok fs" "\<forall>v \<in> covers fs. valid_addr v (fam_bits f)"
    and "\<forall>r \<in> custom_set db sn. row_addrs r f \<inter> covers fs = {}"
  defines "ins \<equiv> \<lambda>db fr. fst (insert_range db sn ty (bigToAddress (fst fr) f) (bigToAddress (snd fr) f) d)"
  shows "custom_ok (foldl ins db fs) sn \<and> keys_ok (foldl ins db fs) \<and> range_types (foldl ins db fs) = range_types db
    \<and> custom_set db sn \<subseteq> custom_set (foldl ins db fs) sn
    \<and> (\<forall>t g. typed (foldl ins db fs) sn t g = typed db sn t g \<union> (if t = ty \<and> g = f then covers fs else {}))"
  using assms(1-7)
proof (induction fs arbitrary: db)
  case Nil
  then show ?case by auto
next
  case (Cons fr fs)
  have le: "fst fr \<le> snd fr" and fs: "frags_ok fs" "span fr \<inter> covers fs = {}"
    using Cons.prems(5) by (auto simp: frags_ok_Cons)
  have va: "\<forall>v \<in> span fr. valid_addr v (fam_bits f)" "\<forall>v \<in> covers fs. valid_addr v (fam_bits f)"
    using Cons.prems(6) by (simp_all add: covers_Cons)
  have free: "\<forall>r \<in> custom_set db sn. row_addrs r f \<inter> span fr = {}"
    using Cons.prems(7) by (auto simp: covers_Cons)
  have e: "fst (insert_range db sn ty (bigToAddress (fst fr) f) (bigToAddress (snd fr) f) d) = ins db fr"
    by (simp add: ins_def)
  note one = insert_interval[OF Cons.prems(1-3) le va(1) Cons.prems(4) free, of d, unfolded e]
  have cust: "is_custom (ins db fr) ty" using Cons.prems(3) is_custom_cong one by blast
  have free': "\<forall>r \<in> custom_set (ins db fr) sn. row_addrs r f \<inter> covers fs = {}"
  proof -
    have "\<forall>r \<in> custom_set db sn. row_addrs r f \<inter> covers fs = {}"
      using Cons.prems(7) by (simp add: covers_Cons Int_Un_distrib)
    moreover obtain ra where "custom_set (ins db fr) sn = insert ra (custom_set db sn)"
      "\<forall>g. row_addrs ra g = (if g = f then span fr else {})" using one by blast
    ultimately show ?thesis using fs(2) by simp
  qed
  have "custom_ok (foldl ins (ins db fr) fs) sn \<and> keys_ok (foldl ins (ins db fr) fs)
    \<and> range_types (foldl ins (ins db fr) fs) = range_types (ins db fr)
    \<and> custom_set (ins db fr) sn \<subseteq> custom_set (foldl ins (ins db fr) fs) sn
    \<and> (\<forall>t g. typed (foldl ins (ins db fr) fs) sn t g = typed (ins db fr) sn t g \<union> (if t = ty \<and> g = f then covers fs else {}))"
    using one cust fs va free' Cons.prems(4) by (intro Cons.IH) auto
  then show ?case using one by (auto simp: covers_Cons)
qed

section \<open>Splitting one range\<close>

definition sel_frag :: "selection \<Rightarrow> fragment" where
  "sel_frag sel = (sel_start sel, sel_end sel)"

lemma delete_row_custom:
  assumes "custom_ok db sn" "keys_ok db"
  shows "custom_ok (delete_row db P) sn \<and> keys_ok (delete_row db P)
    \<and> custom_set (delete_row db P) sn = {r \<in> custom_set db sn. \<not> P r}"
proof -
  have set: "custom_set (delete_row db P) sn = {r \<in> custom_set db sn. \<not> P r}"
    by (auto simp: custom_set_def delete_row_def is_custom_def type_row_def)
  have "keys_ok (delete_row db P)" using assms(2) by (simp add: keys_ok_def delete_row_def distinct_map_filter)
  then show ?thesis using assms(1) set by (auto simp: custom_ok_def)
qed

text \<open>Splitting a custom range around the selections takes exactly the selected part of it off
  every type and leaves the other ranges alone.\<close>

lemma split_range_step:
  assumes ok: "custom_ok db sn" "keys_ok db" and rng: "rng \<in> custom_set db sn"
    and sels: "\<forall>sel \<in> set sels. sel_start sel \<le> sel_end sel"
  shows "\<exists>db'. split_range sn sels db rng = Inr db' \<and> custom_ok db' sn \<and> keys_ok db'
    \<and> range_types db' = range_types db \<and> custom_set db sn - {rng} \<subseteq> custom_set db' sn
    \<and> (\<forall>t g. typed db' sn t g = typed db sn t g - (row_addrs rng g \<inter> covers (map sel_frag sels)))"
proof -
  let ?S = "covers (map sel_frag sels)" and ?ty = "r_range_type_id rng"
  have "row_ok rng" using ok(1) rng by (simp add: custom_ok_def)
  then obtain x y where xy: "addressToBig (r_start_ip rng) = Inr x" "addressToBig (r_end_ip rng) = Inr y"
    "a_family x = 4 \<or> a_family x = 6" "a_value x \<le> a_value y"
    and ra: "\<forall>g. row_addrs rng g = (if g = a_family x then {a_value x..a_value y} else {})"
    and va: "\<forall>v \<in> {a_value x..a_value y}. valid_addr v (fam_bits (a_family x))"
    using row_ok_family by blast
  define db1 where "db1 = delete_row db (\<lambda>r. r_id r = r_id rng)"
  define fs where "fs = foldl cut_fragments [(a_value x, a_value y)] (map sel_frag sels)"
  have inS: "\<forall>z \<in> set (map sel_frag sels). fst z \<le> snd z" using sels by (auto simp: sel_frag_def)
  have cov: "covers fs = {a_value x..a_value y} - ?S"
    using range_cut.cut_all_covers[OF inS] by (simp add: fs_def covers_Cons span_def)
  have fok: "frags_ok fs"
    unfolding fs_def by (rule range_cut.cut_all_ok[OF _ inS]) (simp add: frags_ok_def xy(4))
  have id: "r_id r = r_id rng \<longleftrightarrow> r = rng" if "r \<in> custom_set db sn" for r
    using ok(2) rng that by (auto simp: keys_ok_def custom_set_def distinct_map inj_on_def)
  have db1: "custom_ok db1 sn" "keys_ok db1" "custom_set db1 sn = custom_set db sn - {rng}"
    using delete_row_custom[OF ok] id unfolding db1_def by auto
  have types: "range_types db1 = range_types db" by (simp add: db1_def delete_row_def)
  have cust: "is_custom db1 ?ty" using rng is_custom_cong[OF types] by (simp add: custom_set_def)
  have "\<forall>r \<in> custom_set db1 sn. row_addrs r (a_family x) \<inter> row_addrs rng (a_family x) = {}"
    using ok(1) rng db1(3) by (auto simp: custom_ok_def)
  then have free: "\<forall>r \<in> custom_set db1 sn. row_addrs r (a_family x) \<inter> covers fs = {}"
    using ra cov by auto
  define db2 where "db2 = foldl (\<lambda>db fr. fst (insert_range db sn ?ty (bigToAddress (fst fr) (a_family x))
      (bigToAddress (snd fr) (a_family x)) (r_description rng))) db1 fs"
  have va': "\<forall>v \<in> covers fs. valid_addr v (fam_bits (a_family x))" using va cov by blast
  note ins = insert_intervals[OF db1(1,2) cust xy(3) fok va' free, of "r_description rng", folded db2_def]
  have "split_range sn sels db rng = Inr db2"
    using xy(1,2) by (simp add: split_range_def db1_def db2_def fs_def foldl_map sel_frag_def)
  moreover have "typed db2 sn t g = typed db sn t g - (row_addrs rng g \<inter> ?S)" for t g
  proof -
    have dj: "v \<notin> row_addrs rng h" if "r \<in> custom_set db sn" "r \<noteq> rng" "v \<in> row_addrs r h" for r v h
      using ok(1) rng that unfolding custom_ok_def by blast
    have "typed db1 sn t g = typed db sn t g - row_addrs rng g"
      unfolding typed_def db1(3) using dj by blast
    moreover have "typed db2 sn t g = typed db1 sn t g \<union> (if t = ?ty \<and> g = a_family x then covers fs else {})"
      using ins by blast
    moreover have "t = ?ty \<Longrightarrow> row_addrs rng g \<subseteq> typed db sn t g"
      using rng by (auto simp: typed_def)
    moreover have "t \<noteq> ?ty \<Longrightarrow> row_addrs rng g \<inter> typed db sn t g = {}"
      unfolding typed_def using dj by blast
    ultimately show ?thesis using cov ra by (cases "g = a_family x"; cases "t = ?ty") auto
  qed
  ultimately show ?thesis using ins types db1(3) by (intro exI[of _ db2]) simp
qed

lemma split_ranges_all:
  assumes "custom_ok db sn" "keys_ok db" "set rngs \<subseteq> custom_set db sn" "distinct rngs"
    and "\<forall>sel \<in> set sels. sel_start sel \<le> sel_end sel"
  shows "\<exists>db'. split_ranges sn sels db rngs = Inr db' \<and> custom_ok db' sn \<and> keys_ok db'
    \<and> range_types db' = range_types db
    \<and> (\<forall>t g. typed db' sn t g = typed db sn t g - ((\<Union>r \<in> set rngs. row_addrs r g) \<inter> covers (map sel_frag sels)))"
  using assms(1-4)
proof (induction rngs arbitrary: db)
  case (Cons r rngs)
  obtain db1 where db1: "split_range sn sels db r = Inr db1" "custom_ok db1 sn" "keys_ok db1"
    "range_types db1 = range_types db" "custom_set db sn - {r} \<subseteq> custom_set db1 sn"
    "\<forall>t g. typed db1 sn t g = typed db sn t g - (row_addrs r g \<inter> covers (map sel_frag sels))"
    using split_range_step[OF Cons.prems(1,2) _ assms(5), of r] Cons.prems(3) by auto
  have "set rngs \<subseteq> custom_set db1 sn" using Cons.prems(3,4) db1(5) by auto
  then obtain db2 where db2: "split_ranges sn sels db1 rngs = Inr db2" "custom_ok db2 sn" "keys_ok db2"
    "range_types db2 = range_types db1"
    "\<forall>t g. typed db2 sn t g = typed db1 sn t g - ((\<Union>r \<in> set rngs. row_addrs r g) \<inter> covers (map sel_frag sels))"
    using Cons.IH[OF db1(2,3)] Cons.prems(4) by auto
  have "typed db2 sn t g = typed db sn t g - ((\<Union>r \<in> set (r # rngs). row_addrs r g) \<inter> covers (map sel_frag sels))" for t g
    using db1(6) db2(5) by auto
  then show ?case using db1 db2 by simp
qed simp

section \<open>The overlapped ranges\<close>

definition overlap_test :: "selection list \<Rightarrow> range_row \<Rightarrow> bool" where
  "overlap_test sels r = (\<exists>sel \<in> set sels. row_addrs r (sel_family sel) \<inter> {sel_start sel..sel_end sel} \<noteq> {})"

lemma row_overlaps_eq:
  assumes "row_ok r" "\<forall>sel \<in> set sels. sel_start sel \<le> sel_end sel"
  shows "row_overlaps sels (r, t) = Inr (overlap_test sels r)"
proof -
  obtain x y where xy: "addressToBig (r_start_ip r) = Inr x" "addressToBig (r_end_ip r) = Inr y" "a_value x \<le> a_value y"
    and ra: "\<forall>g. row_addrs r g = (if g = a_family x then {a_value x..a_value y} else {})"
    using row_ok_family[OF assms(1)] by blast
  have "sel_family sel = a_family x \<and> sel_start sel \<le> a_value y \<and> a_value x \<le> sel_end sel
      \<longleftrightarrow> row_addrs r (sel_family sel) \<inter> {sel_start sel..sel_end sel} \<noteq> {}" if "sel \<in> set sels" for sel
    using interval_overlap_iff[OF xy(3), of "sel_start sel" "sel_end sel"] assms(2) that ra by auto
  then have "list_ex (\<lambda>sel. sel_family sel = a_family x \<and> sel_start sel \<le> a_value y \<and> a_value x \<le> sel_end sel) sels
      = overlap_test sels r" by (auto simp: list_ex_iff overlap_test_def)
  then show ?thesis using xy by (simp add: row_overlaps_def)
qed

definition drop_excluded :: "nat \<Rightarrow> nat option \<Rightarrow> range_db \<Rightarrow> range_db" where
  "drop_excluded sn ex db = (case ex of None \<Rightarrow> db
     | Some x \<Rightarrow> delete_row db (\<lambda>r. r_id r = x \<and> r_subnet_id r = sn))"

lemma drop_excluded_ok:
  assumes "custom_ok db sn" "keys_ok db"
  shows "custom_ok (drop_excluded sn ex db) sn \<and> keys_ok (drop_excluded sn ex db)
    \<and> range_types (drop_excluded sn ex db) = range_types db
    \<and> range_events (drop_excluded sn ex db) = range_events db
    \<and> custom_set (drop_excluded sn ex db) sn = {r \<in> custom_set db sn. ex = None \<or> Some (r_id r) \<noteq> ex}"
proof (cases ex)
  case None
  then show ?thesis using assms by (simp add: drop_excluded_def)
next
  case (Some x)
  let ?P = "\<lambda>r. r_id r = x \<and> r_subnet_id r = sn"
  have "{r \<in> custom_set db sn. \<not> ?P r} = {r \<in> custom_set db sn. r_id r \<noteq> x}" by (auto simp: custom_set_def)
  moreover have "range_types (delete_row db ?P) = range_types db" "range_events (delete_row db ?P) = range_events db"
    by (simp_all add: delete_row_def)
  ultimately show ?thesis using delete_row_custom[OF assms, of ?P] Some by (simp add: drop_excluded_def)
qed

lemma overlaps_list:
  assumes ok: "custom_ok db sn" "keys_ok db" and sels: "\<forall>sel \<in> set sels. sel_start sel \<le> sel_end sel"
  shows "\<exists>ovs. listCustomRangeOverlaps db sn sels ex = Inr ovs \<and> distinct (map fst ovs)
    \<and> set (map fst ovs) = {r \<in> custom_set (drop_excluded sn ex db) sn. overlap_test sels r}"
proof -
  let ?L = "sort_key (\<lambda>row. r_start_ip (fst row))
         (filter (\<lambda>row. ex = None \<or> Some (r_id (fst row)) \<noteq> ex) (custom_rows db sn))"
  have "row_overlaps sels row = Inr (overlap_test sels (fst row))" if "row \<in> set ?L" for row
  proof -
    have "fst row \<in> custom_set db sn" using that set_custom_rows[of db sn] by auto
    then show ?thesis using row_overlaps_eq[OF _ sels, of "fst row" "snd row"] ok(1) by (simp add: custom_ok_def)
  qed
  then have e: "listCustomRangeOverlaps db sn sels ex = Inr (filter (\<lambda>row. overlap_test sels (fst row)) ?L)"
    unfolding listCustomRangeOverlaps_def by (intro efilter_all)
  have "distinct (map fst (custom_rows db sn))"
    using ok(2) by (simp add: custom_rows_rows keys_ok_def distinct_map)
  then have "distinct (map fst (filter (\<lambda>row. ex = None \<or> Some (r_id (fst row)) \<noteq> ex) (custom_rows db sn)))"
    by (rule distinct_map_filter)
  moreover have "mset (map fst ?L) = mset (map fst (filter (\<lambda>row. ex = None \<or> Some (r_id (fst row)) \<noteq> ex) (custom_rows db sn)))"
    by simp
  ultimately have "distinct (map fst ?L)" by (metis mset_eq_imp_distinct_iff)
  then have d: "distinct (map fst (filter (\<lambda>row. overlap_test sels (fst row)) ?L))" by (rule distinct_map_filter)
  have "set (map fst (filter (\<lambda>row. overlap_test sels (fst row)) ?L))
      = {r \<in> fst ` set (custom_rows db sn). (ex = None \<or> Some (r_id r) \<noteq> ex) \<and> overlap_test sels r}" by auto
  then show ?thesis using e d drop_excluded_ok[OF ok, of ex] set_custom_rows[of db sn] by auto
qed

section \<open>Assignment\<close>

lemma insert_selections_fold:
  "fst (insert_selections sn ty desc db sels)
   = foldl (\<lambda>db sel. fst (insert_range db sn ty (bigToAddress (sel_start sel) (sel_family sel))
             (bigToAddress (sel_end sel) (sel_family sel)) (or_null desc))) db sels"
  by (induction sels arbitrary: db) (simp_all add: Let_def case_prod_beta)

text \<open>Selections of one family that name disjoint intervals of readable addresses.\<close>

definition selections_ok :: "nat \<Rightarrow> selection list \<Rightarrow> bool" where
  "selections_ok f sels = ((f = 4 \<or> f = 6) \<and> (\<forall>sel \<in> set sels. sel_family sel = f)
     \<and> frags_ok (map sel_frag sels) \<and> (\<forall>v \<in> covers (map sel_frag sels). valid_addr v (fam_bits f)))"

lemma insert_selections_typed:
  assumes ok: "custom_ok db sn" "keys_ok db" "is_custom db ty" and sels: "selections_ok f sels"
    and free: "\<forall>r \<in> custom_set db sn. row_addrs r f \<inter> covers (map sel_frag sels) = {}"
  shows "custom_ok (fst (insert_selections sn ty desc db sels)) sn
    \<and> keys_ok (fst (insert_selections sn ty desc db sels))
    \<and> (\<forall>t g. typed (fst (insert_selections sn ty desc db sels)) sn t g
         = typed db sn t g \<union> (if t = ty \<and> g = f then covers (map sel_frag sels) else {}))"
proof -
  have "fst (insert_selections sn ty desc db sels) = foldl (\<lambda>db fr. fst (insert_range db sn ty
      (bigToAddress (fst fr) f) (bigToAddress (snd fr) f) (or_null desc))) db (map sel_frag sels)"
    unfolding insert_selections_fold foldl_map
    using sels by (intro foldl_cong) (auto simp: selections_ok_def sel_frag_def)
  then show ?thesis
    using insert_intervals[OF ok, of f "map sel_frag sels" "or_null desc"] sels free
    by (simp add: selections_ok_def)
qed

lemma selections_le: "selections_ok f sels \<Longrightarrow> \<forall>sel \<in> set sels. sel_start sel \<le> sel_end sel"
  by (auto simp: selections_ok_def frags_ok_def sel_frag_def)

definition assigned :: "range_db \<Rightarrow> nat \<Rightarrow> nat option \<Rightarrow> nat \<Rightarrow> nat set \<Rightarrow> nat \<Rightarrow> nat \<Rightarrow> nat set" where
  "assigned db sn newType f S t g =
     (if g \<noteq> f then typed db sn t g
      else if newType = Some t then typed db sn t g \<union> S else typed db sn t g - S)"

text \<open>The rows that are split are the ones the selections touch, so splitting takes the selected
  addresses off every type.\<close>

lemma overlaps_cover:
  assumes "selections_ok f sels" "r \<in> custom_set db sn" "row_ok r"
  shows "overlap_test sels r \<longleftrightarrow> row_addrs r f \<inter> covers (map sel_frag sels) \<noteq> {}"
  using assms(1) by (auto simp: overlap_test_def selections_ok_def covers_def span_def sel_frag_def)

lemma split_typed:
  assumes ok: "custom_ok db sn" and sels: "selections_ok f sels"
    and rngs: "set rngs = {r \<in> custom_set db sn. overlap_test sels r}"
  shows "typed db sn t g - ((\<Union>r \<in> set rngs. row_addrs r g) \<inter> covers (map sel_frag sels))
    = assigned db sn None f (covers (map sel_frag sels)) t g"
proof -
  have rok: "row_ok r" if "r \<in> custom_set db sn" for r using ok that by (simp add: custom_ok_def)
  have "g = f" if "r \<in> set rngs" "v \<in> row_addrs r g" for r v
  proof -
    have r: "r \<in> custom_set db sn" "overlap_test sels r" using that rngs by auto
    then have "row_addrs r f \<noteq> {}" using overlaps_cover[OF sels r(1) rok[OF r(1)]] by blast
    then show ?thesis using row_ok_family[OF rok[OF r(1)]] that(2) by (metis empty_iff)
  qed
  moreover have "v \<in> (\<Union>r \<in> set rngs. row_addrs r f)"
    if "v \<in> typed db sn t f" "v \<in> covers (map sel_frag sels)" for v
    using that overlaps_cover[OF sels _ rok] unfolding rngs typed_def by blast
  ultimately show ?thesis unfolding assigned_def by auto
qed

lemma assign_write_effect:
  assumes ok: "custom_ok db sn" "keys_ok db" and sels: "selections_ok f sels"
    and ty: "newType = None \<or> (\<exists>t. newType = Some t \<and> is_custom db t)"
  shows "\<exists>db' res. assign_write sn newType sels desc ex db = (db', Inr res) \<and> custom_ok db' sn \<and> keys_ok db'
    \<and> (\<forall>t g. typed db' sn t g = assigned (drop_excluded sn ex db) sn newType f (covers (map sel_frag sels)) t g)"
proof -
  let ?db0 = "drop_excluded sn ex db" and ?S = "covers (map sel_frag sels)"
  note le = selections_le[OF sels]
  obtain ovs where ovs: "listCustomRangeOverlaps db sn sels ex = Inr ovs" "distinct (map fst ovs)"
    "set (map fst ovs) = {r \<in> custom_set ?db0 sn. overlap_test sels r}"
    using overlaps_list[OF ok le] by blast
  note db0 = drop_excluded_ok[OF ok, of ex]
  have "set (map fst ovs) \<subseteq> custom_set ?db0 sn" unfolding ovs(3) by blast
  then obtain db1 where db1: "split_ranges sn sels ?db0 (map fst ovs) = Inr db1" "custom_ok db1 sn" "keys_ok db1"
    "range_types db1 = range_types ?db0" and t1: "\<forall>t g. typed db1 sn t g = assigned ?db0 sn None f ?S t g"
    using split_ranges_all[of ?db0 sn "map fst ovs" sels] split_typed[OF _ sels ovs(3)] db0 ovs(2) le by auto
  have w: "assign_write sn newType sels desc ex db =
      (let (db2, createdIds) = (case newType of None \<Rightarrow> (db1, [])
          | Some t \<Rightarrow> insert_selections sn t desc db1 sels)
       in (db2, Inr \<lparr>created = map (findWithType db2) createdIds,
            replaced = map (\<lambda>(r, t). (r_id r, rt_name t, r_start_ip r, r_end_ip r)) ovs\<rparr>))"
    unfolding assign_write_def ovs(1) sum.case drop_excluded_def[symmetric] Let_def db1(1) ..
  show ?thesis
  proof (cases newType)
    case None
    then show ?thesis using w db1 t1 by simp
  next
    case (Some t)
    have "is_custom db1 t" using ty Some db1(4) db0 is_custom_cong[of db1 db] by auto
    moreover have "\<forall>r \<in> custom_set db1 sn. row_addrs r f \<inter> ?S = {}"
    proof
      fix r assume "r \<in> custom_set db1 sn"
      then have "row_addrs r f \<subseteq> typed db1 sn (r_range_type_id r) f" by (auto simp: typed_def)
      then show "row_addrs r f \<inter> ?S = {}" using t1 by (auto simp: assigned_def)
    qed
    ultimately have "custom_ok (fst (insert_selections sn t desc db1 sels)) sn
        \<and> keys_ok (fst (insert_selections sn t desc db1 sels))
        \<and> (\<forall>t' g. typed (fst (insert_selections sn t desc db1 sels)) sn t' g
             = typed db1 sn t' g \<union> (if t' = t \<and> g = f then ?S else {}))"
      using insert_selections_typed[OF db1(2,3) _ sels] by blast
    then show ?thesis using w Some t1
      by (cases "insert_selections sn t desc db1 sels") (auto simp: assigned_def)
  qed
qed

section \<open>Coverage and history\<close>

definition cov_of :: "range_row \<times> range_type \<Rightarrow> coverage" where
  "cov_of row = (case (addressToBig (r_start_ip (fst row)), addressToBig (r_end_ip (fst row))) of
     (Inr x, Inr y) \<Rightarrow> \<lparr>c_id = r_id (fst row), c_type = rt_name (snd row), c_family = a_family x,
        c_start = a_value x, c_end = a_value y\<rparr>
   | _ \<Rightarrow> \<lparr>c_id = 0, c_type = [], c_family = 0, c_start = 0, c_end = 0\<rparr>)"

text \<open>The addresses of a family that have a type of the given name.\<close>

definition named :: "range_db \<Rightarrow> nat \<Rightarrow> string \<Rightarrow> nat \<Rightarrow> nat set" where
  "named db sn name f = (\<Union>row \<in> {row \<in> set (custom_rows db sn). rt_name (snd row) = name}. row_addrs (fst row) f)"

definition cov_ok :: "coverage \<Rightarrow> bool" where
  "cov_ok c = ((c_family c = 4 \<or> c_family c = 6) \<and> c_start c \<le> c_end c
     \<and> (\<forall>v \<in> {c_start c..c_end c}. valid_addr v (fam_bits (c_family c))))"

lemma cov_of_row:
  assumes "row_ok (fst row)"
  shows "cov_ok (cov_of row)" and "c_type (cov_of row) = rt_name (snd row)"
    and "row_addrs (fst row) g = (if g = c_family (cov_of row) then {c_start (cov_of row)..c_end (cov_of row)} else {})"
    and "ebind (addressToBig (r_start_ip (fst row))) (\<lambda>s. ebind (addressToBig (r_end_ip (fst row))) (\<lambda>e.
         Inr \<lparr>c_id = r_id (fst row), c_type = rt_name (snd row), c_family = a_family s, c_start = a_value s,
              c_end = a_value e\<rparr>)) = Inr (cov_of row)"
proof -
  obtain x y where xy: "addressToBig (r_start_ip (fst row)) = Inr x" "addressToBig (r_end_ip (fst row)) = Inr y"
    "a_family x = 4 \<or> a_family x = 6" "a_value x \<le> a_value y"
    "\<forall>g. row_addrs (fst row) g = (if g = a_family x then {a_value x..a_value y} else {})"
    "\<forall>v \<in> {a_value x..a_value y}. valid_addr v (fam_bits (a_family x))"
    using row_ok_family[OF assms] by blast
  have c: "cov_of row = \<lparr>c_id = r_id (fst row), c_type = rt_name (snd row), c_family = a_family x,
      c_start = a_value x, c_end = a_value y\<rparr>" by (simp add: cov_of_def xy(1,2))
  show "cov_ok (cov_of row)" using xy(3,4,6) unfolding cov_ok_def c by simp
  show "c_type (cov_of row) = rt_name (snd row)" by (simp add: c)
  show "row_addrs (fst row) g = (if g = c_family (cov_of row) then {c_start (cov_of row)..c_end (cov_of row)} else {})"
    using xy(5) by (simp add: c)
  show "ebind (addressToBig (r_start_ip (fst row))) (\<lambda>s. ebind (addressToBig (r_end_ip (fst row))) (\<lambda>e.
         Inr \<lparr>c_id = r_id (fst row), c_type = rt_name (snd row), c_family = a_family s, c_start = a_value s,
              c_end = a_value e\<rparr>)) = Inr (cov_of row)" by (simp add: xy(1,2) c)
qed

definition rows_ok :: "range_db \<Rightarrow> nat \<Rightarrow> bool" where
  "rows_ok db sn = (\<forall>r \<in> custom_set db sn. row_ok r)"

lemma customCoverage_ok:
  assumes "rows_ok db sn"
  shows "customCoverage db sn = Inr (map cov_of (custom_rows db sn))
    \<and> (\<forall>c \<in> set (map cov_of (custom_rows db sn)). cov_ok c)
    \<and> (\<forall>name f. cov_addrs name f (map cov_of (custom_rows db sn)) = named db sn name f)"
proof -
  have ok: "row_ok (fst row)" if "row \<in> set (custom_rows db sn)" for row
    using assms that set_custom_rows[of db sn] by (auto simp: rows_ok_def)
  have "customCoverage db sn = Inr (map cov_of (custom_rows db sn))"
    unfolding customCoverage_def case_prod_beta using cov_of_row(4)[OF ok] by (intro emap_all_Inr)
  moreover have "cov_addrs name f (map cov_of (custom_rows db sn)) = named db sn name f" for name f
  proof -
    have "cov_addrs name f (map cov_of (custom_rows db sn))
        = (\<Union>row \<in> {row \<in> set (custom_rows db sn). rt_name (snd row) = name \<and> c_family (cov_of row) = f}.
             {c_start (cov_of row)..c_end (cov_of row)})"
      using cov_of_row(2)[OF ok] by (auto simp: cov_addrs_def)
    also have "\<dots> = named db sn name f"
      using cov_of_row(3)[OF ok] by (auto simp: named_def split: if_split_asm)
    finally show ?thesis .
  qed
  ultimately show ?thesis using cov_of_row(1)[OF ok] by auto
qed

text \<open>The addresses the events of one kind and type name say.\<close>

definition event_addrs :: "range_event list \<Rightarrow> range_event_type \<Rightarrow> string \<Rightarrow> nat \<Rightarrow> nat set" where
  "event_addrs evs kind name f =
     (\<Union>ev \<in> {ev \<in> set evs. re_event_type ev = kind \<and> re_range_type ev = name}. seg_set f (re_start_ip ev) (re_end_ip ev))"

definition event_of :: "nat \<Rightarrow> string option \<Rightarrow> range_event_type \<Rightarrow> coverage \<Rightarrow> range_event" where
  "event_of sn who kind c =
     (let s = bigToAddress (c_start c) (c_family c); e = bigToAddress (c_end c) (c_family c)
      in \<lparr>re_subnet_id = sn, re_range_id = Some (c_id c), re_range_type = c_type c, re_start_ip = s, re_end_ip = e,
          re_start_key = sortKey s, re_end_key = sortKey e, re_event_type = kind, re_actor = who\<rparr>)"

lemma record_intervals:
  "foldl (record_interval sn kind) db cs = db\<lparr>range_events := range_events db @ map (event_of sn (actor db) kind) cs\<rparr>"
  by (induction cs arbitrary: db) (simp_all add: record_interval_def insertRangeEvent_def event_of_def Let_def)

lemma event_addrs_of:
  assumes "\<forall>c \<in> set cs. cov_ok c"
  shows "event_addrs (map (event_of sn who kind) cs) kind' name f
    = (if kind' = kind then cov_addrs name f cs else {})"
proof -
  have "seg_set f (bigToAddress (c_start c) (c_family c)) (bigToAddress (c_end c) (c_family c))
      = (if f = c_family c then {c_start c..c_end c} else {})" if "c \<in> set cs" for c
  proof -
    have "cov_ok c" using assms that by blast
    then show ?thesis
      using seg_set_big[of "(c_start c, c_end c)" "c_family c" f] by (simp add: cov_ok_def span_def)
  qed
  then show ?thesis
    by (auto simp: event_addrs_def cov_addrs_def event_of_def Let_def split: if_split_asm)
qed

lemma uncovered_all:
  assumes "\<forall>c \<in> set xs. cov_ok c" "\<forall>c \<in> set ys. cov_ok c"
  defines "us \<equiv> concat (map (\<lambda>c. uncovered c ys) xs)"
  shows "(\<forall>u \<in> set us. cov_ok u) \<and> cov_addrs name f us = cov_addrs name f xs - cov_addrs name f ys"
proof -
  have ys: "\<forall>y \<in> set ys. c_start y \<le> c_end y" using assms(2) by (auto simp: cov_ok_def)
  have one: "(\<Union>u \<in> set (uncovered c ys). {c_start u..c_end u}) = {c_start c..c_end c} - cov_addrs (c_type c) (c_family c) ys
      \<and> (\<forall>u \<in> set (uncovered c ys). c_start u \<le> c_end u \<and> c_type u = c_type c \<and> c_family u = c_family c)"
    if "c \<in> set xs" for c
  proof -
    have "c_start c \<le> c_end c" using assms(1) that by (simp add: cov_ok_def)
    from uncovered_covers[OF ys this] show ?thesis by (simp add: covers_def frags_ok_def span_def)
  qed
  have "cov_ok u" if u: "u \<in> set us" for u
  proof -
    obtain c where c: "c \<in> set xs" "u \<in> set (uncovered c ys)" using u by (auto simp: us_def)
    have "{c_start u..c_end u} \<subseteq> {c_start c..c_end c}" using one[OF c(1)] c(2) by blast
    moreover have "c_start u \<le> c_end u" "c_family u = c_family c" using one[OF c(1)] c(2) by auto
    moreover have "cov_ok c" using assms(1) c(1) by blast
    ultimately show ?thesis unfolding cov_ok_def by auto
  qed
  moreover have "cov_addrs name f us = (\<Union>c \<in> {c \<in> set xs. c_type c = name \<and> c_family c = f}.
      (\<Union>u \<in> set (uncovered c ys). {c_start u..c_end u}))"
  proof -
    have t: "c_type u = c_type c \<and> c_family u = c_family c" if "c \<in> set xs" "u \<in> set (uncovered c ys)" for c u
      using one[OF that(1)] that(2) by blast
    have "{u \<in> set us. c_type u = name \<and> c_family u = f}
        = (\<Union>c \<in> {c \<in> set xs. c_type c = name \<and> c_family c = f}. set (uncovered c ys))"
      unfolding us_def by (auto simp: t)
    then show ?thesis by (simp add: cov_addrs_def)
  qed
  moreover have "\<dots> = cov_addrs name f xs - cov_addrs name f ys"
    using one by (auto simp: cov_addrs_def)
  ultimately show ?thesis by simp
qed

lemma record_change_events:
  assumes b: "\<forall>c \<in> set before. cov_ok c" and a: "\<forall>c \<in> set after. cov_ok c"
  shows "\<exists>evs. recordCoverageChange db sn before after = db\<lparr>range_events := range_events db @ evs\<rparr>
    \<and> (\<forall>name f. event_addrs evs RANGE_UNASSIGNED name f = cov_addrs name f before - cov_addrs name f after
         \<and> event_addrs evs RANGE_ASSIGNED name f = cov_addrs name f after - cov_addrs name f before)"
proof -
  let ?lost = "map (event_of sn (actor db) RANGE_UNASSIGNED) (concat (map (\<lambda>c. uncovered c after) before))"
  let ?gain = "map (event_of sn (actor db) RANGE_ASSIGNED) (concat (map (\<lambda>c. uncovered c before) after))"
  have "recordCoverageChange db sn before after = db\<lparr>range_events := range_events db @ (?lost @ ?gain)\<rparr>"
    by (simp add: recordCoverageChange_def Let_def record_intervals)
  moreover have "event_addrs (xs @ ys) k name f = event_addrs xs k name f \<union> event_addrs ys k name f" for xs ys k name f
    by (auto simp: event_addrs_def)
  moreover note event_addrs_of[OF conjunct1[OF uncovered_all[OF b a]]]
    event_addrs_of[OF conjunct1[OF uncovered_all[OF a b]]] uncovered_all[OF b a] uncovered_all[OF a b]
  ultimately show ?thesis by (intro exI[of _ "?lost @ ?gain"]) simp
qed

text \<open>C8. Range history is exact: when a write succeeds on readable ranges, the events
  \<open>withRangeHistory\<close> appends say, for every type name and family, exactly the addresses that type
  lost and exactly the addresses it gained.\<close>

theorem withRangeHistory_exact:
  assumes "rows_ok db sn" and "write db = (db1, Inr res)" and "rows_ok db1 sn"
  shows "\<exists>evs. withRangeHistory db sn write = (db1\<lparr>range_events := range_events db1 @ evs\<rparr>, Inr res)
    \<and> (\<forall>name f. event_addrs evs RANGE_UNASSIGNED name f = named db sn name f - named db1 sn name f
         \<and> event_addrs evs RANGE_ASSIGNED name f = named db1 sn name f - named db sn name f)"
proof -
  note b = customCoverage_ok[OF assms(1)] and a = customCoverage_ok[OF assms(3)]
  let ?b = "map cov_of (custom_rows db sn)" and ?a = "map cov_of (custom_rows db1 sn)"
  obtain evs where evs: "recordCoverageChange db1 sn ?b ?a = db1\<lparr>range_events := range_events db1 @ evs\<rparr>"
    "\<forall>name f. event_addrs evs RANGE_UNASSIGNED name f = cov_addrs name f ?b - cov_addrs name f ?a
         \<and> event_addrs evs RANGE_ASSIGNED name f = cov_addrs name f ?a - cov_addrs name f ?b"
    using record_change_events[of ?b ?a db1 sn] a b by blast
  then show ?thesis using a b assms(2) by (intro exI[of _ evs]) (simp add: withRangeHistory_def)
qed

text \<open>C25. Assigning a custom type: for disjoint selections of one family, in a network whose custom
  ranges are readable and disjoint, \<open>assignCustomRangeType\<close> succeeds, keeps the custom ranges
  readable, disjoint and uniquely keyed, and gives every selected address the new type (or none)
  while every other address keeps the type it had; an excluded range loses its addresses first.\<close>

theorem assignCustomRangeType_types:
  assumes "custom_ok db sn" and "keys_ok db" and "selections_ok f sels"
    and "newType = None \<or> (\<exists>t. newType = Some t \<and> is_custom db t)"
  shows "\<exists>db' res. assignCustomRangeType db sn newType sels desc ex = (db', Inr res)
    \<and> custom_ok db' sn \<and> keys_ok db'
    \<and> (\<forall>t g. typed db' sn t g = assigned (drop_excluded sn ex db) sn newType f (covers (map sel_frag sels)) t g)"
proof -
  obtain db1 res where w: "assign_write sn newType sels desc ex db = (db1, Inr res)"
    and ok: "custom_ok db1 sn" "keys_ok db1"
    and ty: "\<forall>t g. typed db1 sn t g = assigned (drop_excluded sn ex db) sn newType f (covers (map sel_frag sels)) t g"
    using assign_write_effect[OF assms] by blast
  have r: "rows_ok db sn" "rows_ok db1 sn" using assms(1) ok(1) by (simp_all add: custom_ok_def rows_ok_def)
  note b = customCoverage_ok[OF r(1)] and a = customCoverage_ok[OF r(2)]
  obtain evs where "recordCoverageChange db1 sn (map cov_of (custom_rows db sn)) (map cov_of (custom_rows db1 sn))
      = db1\<lparr>range_events := range_events db1 @ evs\<rparr>"
    using record_change_events[of "map cov_of (custom_rows db sn)" "map cov_of (custom_rows db1 sn)" db1 sn] a b by blast
  then have "assignCustomRangeType db sn newType sels desc ex = (db1\<lparr>range_events := range_events db1 @ evs\<rparr>, Inr res)"
    using a b w by (simp add: assignCustomRangeType_def withRangeHistory_def)
  moreover have "custom_set (db1\<lparr>range_events := range_events db1 @ evs\<rparr>) sn = custom_set db1 sn"
    by (simp add: custom_set_def is_custom_def type_row_def)
  moreover have "keys_ok (db1\<lparr>range_events := range_events db1 @ evs\<rparr>)" using ok(2) by (simp add: keys_ok_def)
  ultimately show ?thesis using ok(1) ty by (auto simp: custom_ok_def typed_def)
qed

section \<open>A sample table\<close>

definition sample_row :: range_row where
  "sample_row = \<lparr>r_id = 1, r_subnet_id = 7, r_range_type_id = 1, r_start_ip = ''10.0.0.10'',
     r_end_ip = ''10.0.0.20'', r_description = None\<rparr>"

definition sample_ranges :: range_db where
  "sample_ranges = \<lparr>ranges = [sample_row],
     range_types = [\<lparr>rt_id = 1, rt_name = ''Servers'', rt_color = ''#fff'', rt_is_system = False\<rparr>,
                    \<lparr>rt_id = 2, rt_name = ''Printers'', rt_color = ''#000'', rt_is_system = False\<rparr>],
     subnets = [], range_events = [], next_id = 2, actor = None\<rparr>"

lemma sample_addrs:
  "addressToBig ''10.0.0.10'' = Inr \<lparr>a_value = 0x0a00000a, a_bits = 32, a_family = 4\<rparr>"
  "addressToBig ''10.0.0.20'' = Inr \<lparr>a_value = 0x0a000014, a_bits = 32, a_family = 4\<rparr>"
  by (rule v4_literal; code_simp)+

lemma sample_custom:
  "is_custom sample_ranges 1" "is_custom sample_ranges 2" "custom_set sample_ranges 7 = {sample_row}"
  by (auto simp: is_custom_def type_row_def sample_ranges_def custom_set_def sample_row_def)

lemma sample_row_ok: "row_ok sample_row" "row_addrs sample_row 4 = {0x0a00000a..0x0a000014}"
  using sample_addrs by (auto simp: row_ok_def sample_row_def valid_addr_def row_addrs_def seg_set_eq)

lemma sample_ok: "custom_ok sample_ranges 7" "keys_ok sample_ranges" "rows_ok sample_ranges 7"
  by (simp_all add: custom_ok_def rows_ok_def sample_custom sample_row_ok keys_ok_def)
    (simp add: sample_ranges_def sample_row_def)

theorem assignCustomRangeType_types_witness:
  "\<exists>db' res. assignCustomRangeType sample_ranges 7 (Some 2)
       [\<lparr>sel_family = 4, sel_start = 0x0a00000f, sel_end = 0x0a000010\<rparr>] None None = (db', Inr res)
    \<and> custom_ok db' 7 \<and> typed db' 7 2 4 = {0x0a00000f..0x0a000010}
    \<and> typed db' 7 1 4 = {0x0a00000a..0x0a000014} - {0x0a00000f..0x0a000010}"
proof -
  let ?sels = "[\<lparr>sel_family = 4, sel_start = 0x0a00000f, sel_end = 0x0a000010\<rparr>]"
  have cov: "covers (map sel_frag ?sels) = {0x0a00000f..0x0a000010}" by (simp add: covers_def span_def sel_frag_def)
  have sels: "selections_ok 4 ?sels"
    unfolding selections_ok_def cov by (auto simp: frags_ok_def sel_frag_def valid_addr_def)
  have ty: "Some 2 = (None :: nat option) \<or> (\<exists>t. Some 2 = Some t \<and> is_custom sample_ranges t)"
    using sample_custom(2) by blast
  have "r_range_type_id sample_row = 1" by (simp add: sample_row_def)
  then have "typed sample_ranges 7 1 4 = {0x0a00000a..0x0a000014}" "typed sample_ranges 7 2 4 = {}"
    by (simp_all add: typed_def sample_custom(3) sample_row_ok(2))
  then show ?thesis
    using assignCustomRangeType_types[OF sample_ok(1,2) sels ty, of None None]
    unfolding cov by (auto simp: assigned_def drop_excluded_def)
qed

theorem withRangeHistory_exact_witness:
  "\<exists>evs. withRangeHistory sample_ranges 7 (\<lambda>db. (delete_row db (\<lambda>r. True), Inr ()))
      = (sample_ranges\<lparr>ranges := [], range_events := evs\<rparr>, Inr ())
    \<and> event_addrs evs RANGE_UNASSIGNED ''Servers'' 4 = {0x0a00000a..0x0a000014}"
proof -
  let ?w = "\<lambda>db. (delete_row db (\<lambda>r. True), Inr ())"
  have w: "?w sample_ranges = (sample_ranges\<lparr>ranges := []\<rparr>, Inr ())" by (simp add: delete_row_def)
  have r: "rows_ok (sample_ranges\<lparr>ranges := []\<rparr>) 7" by (simp add: rows_ok_def custom_set_def)
  have rows: "custom_rows sample_ranges 7
      = [(sample_row, \<lparr>rt_id = 1, rt_name = ''Servers'', rt_color = ''#fff'', rt_is_system = False\<rparr>)]"
    by (simp add: custom_rows_def sample_ranges_def type_row_def List.map_filter_simps sample_row_def)
  have "named sample_ranges 7 ''Servers'' 4 = {0x0a00000a..0x0a000014}"
    by (simp add: named_def rows sample_row_ok(2))
  moreover have "named (sample_ranges\<lparr>ranges := []\<rparr>) 7 ''Servers'' 4 = {}"
    by (simp add: named_def custom_rows_def List.map_filter_simps)
  moreover have "range_events (sample_ranges\<lparr>ranges := []\<rparr>) = []" by (simp add: sample_ranges_def)
  ultimately show ?thesis using withRangeHistory_exact[of sample_ranges 7 ?w, OF sample_ok(3) w r] by auto
qed

end
