(* ===== verification/DnsNames.thy ===== *)
theory DnsNames
  imports CidrSets
begin

text \<open>
  DNS record names under the zone-file rule (\<open>server/src/utils/dns-names.js\<close>) and reverse zones
  (\<open>server/src/utils/reverse-zones.js\<close>): the stored form of a record name is served as the same
  name, and the PTR name of every address of a network falls under one of the reverse zones
  generated for it.
\<close>

section \<open>Record names\<close>

text \<open>\<open>s.replace(/\.$/, '')\<close>\<close>

definition strip_dot :: "string \<Rightarrow> string" where
  "strip_dot s = (if s \<noteq> [] \<and> last s = CHR ''.'' then butlast s else s)"

definition normalizeDnsName :: "string \<Rightarrow> string" where
  "normalizeDnsName name = toLowerCase (strip_dot (trim name))"

definition normalizeRecordNameForZone :: "string \<Rightarrow> string \<Rightarrow> string" where
  "normalizeRecordNameForZone name zoneName =
     (let raw = toLowerCase (trim name);
          absolute = endsWith raw ''.'';
          normalized = strip_dot raw;
          zone = normalizeDnsName zoneName
      in if normalized = ''@'' \<or> normalized = zone then ''@''
         else if endsWith normalized (''.'' @ zone)
           then take (length normalized - (length zone + 1)) normalized
         else if absolute then normalized @ ''.'' else normalized)"

definition fqdnForRecordName :: "string \<Rightarrow> string \<Rightarrow> string" where
  "fqdnForRecordName recordName zoneName =
     (let raw = toLowerCase (trim recordName);
          normalized = strip_dot raw;
          zone = normalizeDnsName zoneName
      in if normalized = ''@'' \<or> normalized = zone then zoneName
         else if endsWith normalized (''.'' @ zone) then normalized
         else if endsWith raw ''.'' then normalized
         else normalized @ ''.'' @ zoneName)"

section \<open>Reverse zones\<close>

definition nibbles_of :: "nat \<Rightarrow> string list" where
  "nibbles_of v = map (\<lambda>c. [c]) (padStart 32 (CHR ''0'') (hex v))"

definition octets_of :: "network \<Rightarrow> nat list" where
  "octets_of parsed = map (of_digits 10) (split_chr (CHR ''.'') (net_network parsed))"

definition generateReverseNames :: "string \<Rightarrow> cidr_error + string list" where
  "generateReverseNames cidr =
     ebind (parseNetwork cidr) (\<lambda>parsed. Inr (
       if net_family parsed = 6 then
         (let zoneNibbles = min 31 (max 1 (net_prefix parsed div 4))
          in [join ''.'' (rev (take zoneNibbles (nibbles_of (networkBig parsed)))) @ ''.ip6.arpa''])
       else
         (let os = octets_of parsed in
          if net_prefix parsed \<ge> 24 then
            [dec (os ! 2) @ ''.'' @ dec (os ! 1) @ ''.'' @ dec (os ! 0) @ ''.in-addr.arpa'']
          else if net_prefix parsed \<ge> 17 then
            map (\<lambda>i. dec (os ! 2 + i) @ ''.'' @ dec (os ! 1) @ ''.'' @ dec (os ! 0) @ ''.in-addr.arpa'')
              [0..<push_bit (24 - net_prefix parsed) 1]
          else if net_prefix parsed \<ge> 16 then [dec (os ! 1) @ ''.'' @ dec (os ! 0) @ ''.in-addr.arpa'']
          else if net_prefix parsed \<ge> 8 then [dec (os ! 0) @ ''.in-addr.arpa'']
          else [dec (os ! 2) @ ''.'' @ dec (os ! 1) @ ''.'' @ dec (os ! 0) @ ''.in-addr.arpa''])))"

definition generateReverseName :: "string \<Rightarrow> cidr_error + string" where
  "generateReverseName cidr = ebind (generateReverseNames cidr) (\<lambda>names. Inr (names ! 0))"

text \<open>The labels of \<open>/^((?:label\.){1,n})suffix$/\<close>, when the name has that shape.\<close>

definition arpa_labels :: "(string \<Rightarrow> bool) \<Rightarrow> nat \<Rightarrow> string \<Rightarrow> string \<Rightarrow> string list option" where
  "arpa_labels p n suff name =
     (if \<not> endsWith name (''.'' @ suff) then None
      else let labels = split_chr (CHR ''.'') (take (length name - (length suff + 1)) name)
           in if length labels \<le> n \<and> list_all p labels then Some labels else None)"

fun chunks4 :: "string \<Rightarrow> string list" where
  "chunks4 (a # b # c # d # rest) = [a, b, c, d] # chunks4 rest"
| "chunks4 _ = []"

definition reverseZoneNetwork :: "string \<Rightarrow> (cidr_error + string) option" where
  "reverseZoneNetwork zoneName =
     (let name = strip_dot (toLowerCase zoneName) in
      case arpa_labels V4_OCTET_RE 3 ''in-addr.arpa'' name of
        Some labels \<Rightarrow>
          let octets = rev labels in
          if list_ex (\<lambda>o'. of_digits 10 o' > 255) octets then None
          else Some (Inr (join ''.'' (octets @ replicate (4 - length octets) ''0'')
                       @ ''/'' @ dec (length octets * 8)))
      | None \<Rightarrow>
          (case arpa_labels (\<lambda>l. length l = 1 \<and> list_all is_lower_hex l) 32 ''ip6.arpa'' name of
             Some labels \<Rightarrow>
               let nibbles = rev labels;
                   hx = join [] (nibbles @ replicate (32 - length nibbles) ''0'');
                   hextets = join '':'' (chunks4 hx);
                   plen = dec (length nibbles * 4)
               in Some (ebind (parseNetwork (hextets @ ''/'' @ plen)) (\<lambda>n. Inr (net_network n @ ''/'' @ plen)))
           | None \<Rightarrow> None))"

definition reverseNameOf :: "string \<Rightarrow> string option" where
  "reverseNameOf address =
     (case parseNetwork (address @ ''/'' @ (if CHR '':'' \<in> set address then ''128'' else ''32'')) of
        Inl _ \<Rightarrow> None
      | Inr parsed \<Rightarrow>
          if net_family parsed = 6 then Some (join ''.'' (rev (nibbles_of (networkBig parsed))) @ ''.ip6.arpa'')
          else Some (join ''.'' (rev (split_chr (CHR ''.'') (net_network parsed))) @ ''.in-addr.arpa''))"

section \<open>PTR names\<close>

lemma groups_of_snoc: "groups_of b (Suc n) v = groups_of b n (v div b) @ [v mod b]"
proof -
  have u: "[0..<Suc n] = 0 # map Suc [0..<n]" by (simp add: upt_conv_Cons map_Suc_upt)
  show ?thesis unfolding groups_of_def u by (simp add: rev_map comp_def div_mult2_eq)
qed

lemma padded_digits:
  "v < 16 ^ Suc n \<Longrightarrow> padStart (Suc n) (CHR ''0'') (hex v) = map digit_char (groups_of 16 (Suc n) v)"
proof (induction n arbitrary: v)
  case 0
  then show ?case by (simp add: to_digits.simps groups_of_def padStart_def)
next
  case (Suc n)
  show ?case
  proof (cases "v < 16")
    case True
    then have d: "hex v = [digit_char v]" by (simp add: to_digits.simps)
    have z: "groups_of 16 k 0 = replicate k 0" for k by (simp add: groups_of_def map_replicate_const)
    have zero: "digit_char 0 = CHR ''0''" by code_simp
    show ?thesis using True
      by (subst groups_of_snoc) (simp add: d z padStart_def zero)
  next
    case False
    have h: "hex v = hex (v div 16) @ [digit_char (v mod 16)]" using False by (subst to_digits.simps) simp
    have "v div 16 < 16 ^ Suc n" using Suc.prems by simp
    from Suc.IH[OF this] show ?thesis unfolding h
      by (subst groups_of_snoc) (simp add: padStart_def)
  qed
qed

lemma nibbles_of_groups: "v < 2 ^ 128 \<Longrightarrow> nibbles_of v = map (\<lambda>g. [digit_char g]) (groups_of 16 32 v)"
  using padded_digits[of v 31] by (simp add: nibbles_of_def comp_def)

text \<open>The leading groups depend only on the leading part of the value.\<close>

lemma take_groups_of:
  assumes "k \<le> n" "v div b ^ (n - k) = w div b ^ (n - k)"
  shows "take k (groups_of b n v) = take k (groups_of b n w)"
proof (rule nth_equalityI)
  fix i assume "i < length (take k (groups_of b n v))"
  then have i: "i < k" using assms(1) by simp
  then have e: "n - Suc i = (n - k) + (k - Suc i)" using assms(1) by simp
  have "v div b ^ (n - Suc i) = w div b ^ (n - Suc i)"
    unfolding e power_add div_mult2_eq assms(2) ..
  then show "take k (groups_of b n v) ! i = take k (groups_of b n w) ! i"
    using i assms(1) by (simp add: groups_of_def rev_nth)
qed simp

lemma join_rev_split:
  assumes "k < length xs" "0 < k"
  shows "join ''.'' (rev xs) = join ''.'' (rev (drop k xs)) @ ''.'' @ join ''.'' (rev (take k xs))"
proof -
  have "rev xs = rev (drop k xs) @ rev (take k xs)" by (metis append_take_drop_id rev_append)
  moreover have "rev (drop k xs) \<noteq> []" "rev (take k xs) \<noteq> []" using assms by auto
  ultimately show ?thesis by (simp add: join_append)
qed

lemma same_block:
  assumes "net_ok n" "a \<in> net_addrs n" "h \<ge> net_bits n - net_prefix n"
  shows "a div 2 ^ h = networkBig n div 2 ^ h"
proof -
  let ?g = "net_bits n - net_prefix n"
  obtain k where k: "networkBig n = 2 ^ ?g * k" using net_ok_facts(4,5)[OF assms(1)] by (auto simp: dvd_def)
  have "k * 2 ^ ?g \<le> a" "a < (k + 1) * 2 ^ ?g"
    using assms(2) by (auto simp: net_addrs_eq[OF assms(1)] net_ok_facts(4)[OF assms(1)] k mult.commute)
  then have "a div 2 ^ ?g = k" using div_nat_eqI[of "2 ^ ?g" k a] by (simp add: mult.commute)
  moreover have "networkBig n div 2 ^ ?g = k" using k by simp
  moreover have "(2 :: nat) ^ h = 2 ^ ?g * 2 ^ (h - ?g)" using assms(3) by (simp add: power_add[symmetric])
  ultimately show ?thesis by (simp add: div_mult2_eq)
qed

lemma ptr_v6:
  assumes v: "valid_addr a 128"
  shows "reverseNameOf (formatIp a 128) = Some (join ''.'' (rev (nibbles_of a)) @ ''.ip6.arpa'')"
proof -
  have d: "dec 128 = ''128''" by code_simp
  have p: "parseNetwork (formatIp a 128 @ ''/'' @ ''128'') = Inr (build_network 6 128 128 a)"
    using parseNetwork_print[OF v, of 128] unfolding d by simp
  have "networkBig (build_network 6 128 128 a) = a"
    using build_network_big(1)[OF valid_addr_bound[OF v], of 128] by simp
  then show ?thesis using p formatIp_v6_colon[of a] by (simp add: reverseNameOf_def)
qed

lemma ptr_v4:
  assumes "a < 2 ^ 32"
  shows "reverseNameOf (formatIp a 32) = Some (join ''.'' (map dec (rev (groups_of 256 4 a))) @ ''.in-addr.arpa'')"
proof -
  have v: "valid_addr a 32" using assms by (simp add: valid_addr_def)
  have d: "dec 32 = ''32''" by code_simp
  have p: "parseNetwork (formatIp a 32 @ ''/'' @ ''32'') = Inr (build_network 4 32 32 a)"
    using parseNetwork_print[OF v, of 32] unfolding d by simp
  have b: "networkBig (build_network 4 32 32 a) = a"
    using build_network_big(1)[OF valid_addr_bound[OF v], of 32] by simp
  have "net_network (build_network 4 32 32 a) = formatIp a 32"
    unfolding build_network_strings b using bigToAddress_fam[of 32 a] by simp
  moreover have "split_chr (CHR ''.'') (formatIp a 32) = map dec (groups_of 256 4 a)"
    unfolding formatIp_v4 by (rule split_join) (use dec_no_special in \<open>force simp: groups_of_def\<close>)+
  ultimately show ?thesis using p formatIp_v4_no_colon[of a] by (simp add: reverseNameOf_def rev_map)
qed

lemma octets_of_net:
  assumes "net_ok n" "net_family n = 4"
  shows "octets_of n = groups_of 256 4 (networkBig n)"
proof -
  have b: "net_bits n = 32" using net_ok_facts(1,2)[OF assms(1)] assms(2) by (auto split: if_split_asm)
  have "split_chr (CHR ''.'') (formatIp (networkBig n) 32) = map dec (groups_of 256 4 (networkBig n))"
    unfolding formatIp_v4 by (rule split_join) (use dec_no_special in \<open>force simp: groups_of_def\<close>)+
  then show ?thesis
    using net_ok_facts(9)[OF assms(1)] b by (simp add: octets_of_def comp_def of_digits_to_digits)
qed

lemma groups_256_4: "groups_of 256 4 v = [v div 2 ^ 24 mod 256, v div 2 ^ 16 mod 256, v div 2 ^ 8 mod 256, v mod 256]"
proof -
  have "rev [0..<4] = [3, 2, 1, 0 :: nat]" by (rule rev_upt_4_8)
  then show ?thesis by (simp add: groups_of_def)
qed

text \<open>The third octet within a block of \<open>2 ^ k\<close> aligned /24 networks.\<close>

lemma third_octet:
  fixes a B :: nat
  assumes "k \<le> 7" "2 ^ (8 + k) dvd B" "B \<le> a" "a < B + 2 ^ (8 + k)"
  shows "\<exists>i < 2 ^ k. a div 2 ^ 8 mod 256 = B div 2 ^ 8 mod 256 + i \<and> a div 2 ^ 16 = B div 2 ^ 16"
proof -
  obtain m where m: "B = 2 ^ (8 + k) * m" using assms(2) by (auto simp: dvd_def)
  define d where "d = a - B"
  have a: "a = B + d" and d: "d < 2 ^ 8 * 2 ^ k" using assms(3,4) by (auto simp: d_def power_add)
  define i where "i = d div 2 ^ 8"
  have i: "i < 2 ^ k" unfolding i_def using d by (intro less_mult_imp_div_less) (simp add: mult.commute)
  have b8: "B div 2 ^ 8 = 2 ^ k * m" by (simp add: m power_add)
  have a8: "a div 2 ^ 8 = 2 ^ k * m + i"
  proof -
    have "a = d + 2 ^ 8 * (2 ^ k * m)" by (simp add: a m power_add)
    then have "a div 2 ^ 8 = 2 ^ k * m + d div 2 ^ 8" by (simp only: div_mult_self2[of "2 ^ 8"] zero_neq_numeral power_not_zero not_False_eq_True)
    then show ?thesis unfolding i_def .
  qed
  have e: "(256 :: nat) = 2 ^ k * 2 ^ (8 - k)" using assms(1) by (simp add: power_add[symmetric])
  have q: "(2 ^ k * m + i) div 2 ^ k = m" using i by simp
  have md: "(2 ^ k * m + i) mod 256 = 2 ^ k * m mod 256 + i"
  proof -
    have "(2 ^ k * m + i) mod (2 ^ k * 2 ^ (8 - k)) = 2 ^ k * (m mod 2 ^ (8 - k)) + i"
      unfolding mod_mult2_eq q using i by simp
    also have "2 ^ k * (m mod 2 ^ (8 - k)) = 2 ^ k * m mod (2 ^ k * 2 ^ (8 - k))" by (rule mult_mod_right)
    finally show ?thesis unfolding e .
  qed
  have dv: "(2 ^ k * m + i) div 256 = 2 ^ k * m div 256"
    unfolding e div_mult2_eq q by simp
  have "a div 2 ^ 16 = B div 2 ^ 16"
  proof -
    have p16: "(2 :: nat) ^ 16 = 2 ^ 8 * 256" by simp
    show ?thesis unfolding p16 div_mult2_eq a8 b8 dv ..
  qed
  then show ?thesis using i md unfolding a8 b8 by blast
qed

lemma v6_ptr_in_zone:
  assumes n: "net_ok n" "net_bits n = 128" and a: "a \<in> net_addrs n" "valid_addr a 128" and p: "4 \<le> net_prefix n"
  defines "z \<equiv> min 31 (max 1 (net_prefix n div 4))"
  shows "\<exists>ptr. reverseNameOf (formatIp a 128) = Some ptr
    \<and> endsWith ptr (''.'' @ join ''.'' (rev (take z (nibbles_of (networkBig n)))) @ ''.ip6.arpa'')"
proof -
  have z: "1 \<le> z" "z \<le> 31" "4 * z \<le> net_prefix n" using p by (auto simp: z_def)
  have bound: "a < 2 ^ 128" "networkBig n < 2 ^ 128"
    using valid_addr_bound[OF a(2)] valid_addr_bound[OF net_ok_facts(7)[OF n(1)]] n(2) by simp_all
  have "128 - net_prefix n \<le> 4 * (32 - z)" using z by simp
  then have "a div 2 ^ (4 * (32 - z)) = networkBig n div 2 ^ (4 * (32 - z))"
    using same_block[OF n(1) a(1)] n(2) by simp
  then have "take z (groups_of 16 32 a) = take z (groups_of 16 32 (networkBig n))"
    using z by (intro take_groups_of) (simp_all add: power_mult)
  then have same: "take z (nibbles_of a) = take z (nibbles_of (networkBig n))"
    using bound by (simp add: nibbles_of_groups take_map)
  have len: "length (nibbles_of a) = 32" using bound by (simp add: nibbles_of_groups)
  have "join ''.'' (rev (nibbles_of a)) = join ''.'' (rev (drop z (nibbles_of a))) @ ''.''
      @ join ''.'' (rev (take z (nibbles_of (networkBig n))))"
    using join_rev_split[of z "nibbles_of a"] z len same by simp
  then show ?thesis using ptr_v6[OF a(2)] by (simp add: endsWith_def suffix_def)
qed

abbreviation arpa4 :: "nat list \<Rightarrow> string" where
  "arpa4 os \<equiv> join ''.'' (map dec os) @ ''.in-addr.arpa''"

lemma v4_zone_names:
  assumes "parseNetwork cidr = Inr n" "net_family n = 4"
  defines "g \<equiv> groups_of 256 4 (networkBig n)"
  shows "generateReverseNames cidr = Inr (
    if net_prefix n \<ge> 24 then [arpa4 [g ! 2, g ! 1, g ! 0]]
    else if net_prefix n \<ge> 17 then map (\<lambda>i. arpa4 [g ! 2 + i, g ! 1, g ! 0]) [0..<2 ^ (24 - net_prefix n)]
    else if net_prefix n \<ge> 16 then [arpa4 [g ! 1, g ! 0]]
    else if net_prefix n \<ge> 8 then [arpa4 [g ! 0]]
    else [arpa4 [g ! 2, g ! 1, g ! 0]])"
  using octets_of_net[OF parseNetwork_ok[OF assms(1)] assms(2)] assms(1,2)
  by (simp add: generateReverseNames_def Let_def g_def push_bit_eq_mult)

lemma v4_ptr_in_zone:
  assumes cidr: "parseNetwork cidr = Inr n" "net_family n = 4" and a: "a \<in> net_addrs n" and p: "8 \<le> net_prefix n"
  shows "\<exists>zones zone ptr. generateReverseNames cidr = Inr zones \<and> zone \<in> set zones
    \<and> reverseNameOf (formatIp a 32) = Some ptr \<and> endsWith ptr (''.'' @ zone)"
proof -
  note ok = parseNetwork_ok[OF cidr(1)]
  have b: "net_bits n = 32" using net_ok_facts(1,2)[OF ok] cidr(2) by (auto split: if_split_asm)
  let ?B = "networkBig n" and ?p = "net_prefix n"
  have pn: "net_plain n" using cidr(2) by (simp add: net_plain_def)
  have "valid_addr a 32" using net_plain_valid[OF ok pn a] b by simp
  note ptr = ptr_v4[OF valid_addr_bound[OF this], unfolded groups_256_4]
  note zones = v4_zone_names[OF cidr, unfolded groups_256_4]
  have blk: "a div 2 ^ h = ?B div 2 ^ h" if "32 - ?p \<le> h" for h using same_block[OF ok a] that b by simp
  consider "?p \<ge> 24" | "17 \<le> ?p" "?p < 24" | "?p = 16" | "8 \<le> ?p" "?p < 16" using p by linarith
  then show ?thesis
  proof cases
    case 1
    then have "a div 2 ^ 8 = ?B div 2 ^ 8" "a div 2 ^ 16 = ?B div 2 ^ 16" "a div 2 ^ 24 = ?B div 2 ^ 24"
      by (intro blk; simp)+
    then show ?thesis using zones ptr 1 by (simp add: endsWith_def suffix_def)
  next
    case 2
    let ?k = "24 - ?p"
    have sz: "sizeBig n = 2 ^ (8 + ?k)" using net_ok_facts(4)[OF ok] b 2 by simp
    have blk24: "a div 2 ^ 24 = ?B div 2 ^ 24" using 2 by (intro blk) simp
    have k7: "?k \<le> 7" using 2 by simp
    have "2 ^ (8 + ?k) dvd ?B" "?B \<le> a" "a < ?B + 2 ^ (8 + ?k)"
      using a net_ok_facts(5)[OF ok] unfolding net_addrs_eq[OF ok] sz by auto
    then obtain i where i: "i < 2 ^ ?k" "a div 2 ^ 8 mod 256 = ?B div 2 ^ 8 mod 256 + i" "a div 2 ^ 16 = ?B div 2 ^ 16"
      using third_octet[OF k7, of ?B a] by blast
    have "arpa4 [?B div 2 ^ 8 mod 256 + i, ?B div 2 ^ 16 mod 256, ?B div 2 ^ 24 mod 256]
        \<in> set (map (\<lambda>i. arpa4 [?B div 2 ^ 8 mod 256 + i, ?B div 2 ^ 16 mod 256, ?B div 2 ^ 24 mod 256]) [0..<2 ^ ?k])"
      using i(1) by auto
    moreover have "generateReverseNames cidr
        = Inr (map (\<lambda>i. arpa4 [?B div 2 ^ 8 mod 256 + i, ?B div 2 ^ 16 mod 256, ?B div 2 ^ 24 mod 256]) [0..<2 ^ ?k])"
      using zones 2 by simp
    moreover have "reverseNameOf (formatIp a 32) = Some (dec (a mod 256) @ ''.''
        @ arpa4 [?B div 2 ^ 8 mod 256 + i, ?B div 2 ^ 16 mod 256, ?B div 2 ^ 24 mod 256])"
      using ptr i blk24 by simp
    ultimately show ?thesis by (metis endsWith_def suffixI append.assoc)
  next
    case 3
    then have "a div 2 ^ 16 = ?B div 2 ^ 16" "a div 2 ^ 24 = ?B div 2 ^ 24" by (intro blk; simp)+
    then show ?thesis using zones ptr 3 by (simp add: endsWith_def suffix_def)
  next
    case 4
    then have "a div 2 ^ 24 = ?B div 2 ^ 24" by (intro blk; simp)
    then show ?thesis using zones ptr 4 by (simp add: endsWith_def suffix_def)
  qed
qed

text \<open>Reverse zones: for an IPv4 network of at least 8 and an IPv6 network of at least 4 prefix
  bits, the PTR owner name of every address of the network lies under one of the reverse zones
  generated for the network.\<close>

theorem ptr_under_reverse_zone:
  assumes "parseNetwork cidr = Inr n" and "net_plain n" and "a \<in> net_addrs n"
    and "(if net_family n = 4 then 8 else 4) \<le> net_prefix n"
  shows "\<exists>zones zone ptr. generateReverseNames cidr = Inr zones \<and> zone \<in> set zones
    \<and> reverseNameOf (bigToAddress a (net_family n)) = Some ptr \<and> endsWith ptr (''.'' @ zone)"
proof -
  note ok = parseNetwork_ok[OF assms(1)]
  have v: "valid_addr a (net_bits n)" by (rule net_plain_valid[OF ok assms(2,3)])
  have f: "bigToAddress a (net_family n) = formatIp a (net_bits n)"
    unfolding net_ok_facts(2)[OF ok] by (rule bigToAddress_fam[OF net_ok_facts(1)[OF ok]])
  show ?thesis
  proof (cases "net_family n = 4")
    case True
    then have "net_bits n = 32" using net_ok_facts(1,2)[OF ok] by (auto split: if_split_asm)
    then show ?thesis using v4_ptr_in_zone[OF assms(1) True assms(3)] assms(4) True f by simp
  next
    case False
    then have b: "net_bits n = 128" "net_family n = 6" using net_ok_facts(1,2)[OF ok] by (auto split: if_split_asm)
    obtain ptr where "reverseNameOf (formatIp a 128) = Some ptr" "endsWith ptr (''.'' @ join ''.''
        (rev (take (min 31 (max 1 (net_prefix n div 4))) (nibbles_of (networkBig n)))) @ ''.ip6.arpa'')"
      using v6_ptr_in_zone[OF ok b(1) assms(3)] v assms(4) False b by auto
    then show ?thesis using assms(1) b f by (simp add: generateReverseNames_def Let_def)
  qed
qed

theorem ptr_under_reverse_zone_witness:
  "\<exists>zones zone ptr. generateReverseNames ''172.16.0.0/12'' = Inr zones \<and> zone \<in> set zones
    \<and> reverseNameOf (bigToAddress 0xac1f0102 4) = Some ptr \<and> endsWith ptr (''.'' @ zone)"
  using ptr_under_reverse_zone[OF reserved_v4(2), of "0xac1f0102"]
  by (simp add: net_plain_def net_addrs_def build_network_big)

section \<open>Stored names\<close>

lemma trim_ends: "trim s = [] \<or> (\<not> is_space (hd (trim s)) \<and> \<not> is_space (last (trim s)))"
proof -
  define t where "t = dropWhile is_space s"
  define u where "u = dropWhile is_space (rev t)"
  have tr: "trim s = rev u" by (simp add: trim_def t_def u_def)
  show ?thesis
  proof (cases "u = []")
    case False
    have "\<not> is_space (hd u)" using False hd_dropWhile unfolding u_def by blast
    then have l: "\<not> is_space (last (rev u))" using False by (simp add: last_rev)
    obtain v where v: "rev t = v @ u" using suffix_dropWhile unfolding u_def by (auto simp: suffix_def)
    then have "t = rev u @ rev v" by (metis rev_append rev_rev_ident)
    then have "hd (rev u) = hd t" using False by simp
    moreover have "t \<noteq> []" using False by (auto simp: u_def)
    then have "\<not> is_space (hd t)" using hd_dropWhile unfolding t_def by blast
    ultimately show ?thesis using l tr by simp
  qed (simp add: tr)
qed

lemma is_space_lower: "is_space (lower_char c) = is_space c"
  unfolding is_space_def of_char_lower_char Let_def by auto

lemma raw_fixed:
  "toLowerCase (trim (toLowerCase (trim s))) = toLowerCase (trim s)"
proof -
  let ?r = "toLowerCase (trim s)"
  have "trim ?r = ?r"
  proof (rule trim_no_space_ends)
    show "?r = [] \<or> \<not> is_space (hd ?r) \<and> \<not> is_space (last ?r)"
      using trim_ends[of s] by (auto simp: toLowerCase_def hd_map last_map is_space_lower)
  qed
  then show ?thesis by simp
qed

definition inner_name :: "string \<Rightarrow> string \<Rightarrow> bool" where
  "inner_name zone x = (x \<noteq> [] \<and> last x \<noteq> CHR ''.'' \<and> \<not> is_space (last x) \<and> \<not> is_space (hd x)
     \<and> x \<noteq> ''@'' \<and> x \<noteq> zone \<and> \<not> endsWith x (''.'' @ zone))"

lemma lower_inner: "toLowerCase (x @ y) = x @ y \<Longrightarrow> toLowerCase x = x"
  by (simp add: toLowerCase_def)

lemma lower_strip_dot: "toLowerCase r = r \<Longrightarrow> toLowerCase (strip_dot r) = strip_dot r"
  by (cases r rule: rev_cases) (auto simp: strip_dot_def toLowerCase_def)

lemma strip_dot_absolute: "endsWith r ''.'' \<Longrightarrow> strip_dot r @ ''.'' = r"
  by (cases r rule: rev_cases) (auto simp: strip_dot_def endsWith_def suffix_def)

lemma strip_dot_relative: "\<not> endsWith r ''.'' \<Longrightarrow> strip_dot r = r"
  by (cases r rule: rev_cases) (auto simp: strip_dot_def endsWith_def suffix_def)

text \<open>C26. The stored form of a record name keeps what is served: for a zone in stored form, the
  canonical name is served as the same name as the one given, and canonicalizing it again changes
  nothing, unless the part before the zone is itself the apex sign, the zone, a name under the
  zone, or no name (empty, ending in a dot, or with outer blanks).\<close>

theorem stored_record_name_served:
  assumes zone: "normalizeDnsName zone = zone"
    and inner: "\<And>x. strip_dot (toLowerCase (trim name)) = x @ ''.'' @ zone \<Longrightarrow> inner_name zone x"
  shows "fqdnForRecordName (normalizeRecordNameForZone name zone) zone = fqdnForRecordName name zone
    \<and> normalizeRecordNameForZone (normalizeRecordNameForZone name zone) zone = normalizeRecordNameForZone name zone"
proof -
  let ?r = "toLowerCase (trim name)" and ?s = "normalizeRecordNameForZone name zone"
  let ?n = "strip_dot ?r"
  have low: "toLowerCase ?n = ?n" by (rule lower_strip_dot) simp
  consider "?n = ''@'' \<or> ?n = zone"
    | x where "?n \<noteq> ''@''" "?n \<noteq> zone" "?n = x @ ''.'' @ zone"
    | "?n \<noteq> ''@''" "?n \<noteq> zone" "\<not> endsWith ?n (''.'' @ zone)" unfolding endsWith_def suffix_def by blast
  then show ?thesis
  proof cases
    case 1
    then have "?s = ''@''" "fqdnForRecordName name zone = zone"
      by (auto simp: normalizeRecordNameForZone_def fqdnForRecordName_def zone Let_def)
    moreover have "toLowerCase (trim ''@'') = ''@''" "strip_dot ''@'' = ''@''" by code_simp+
    ultimately show ?thesis by (simp add: normalizeRecordNameForZone_def fqdnForRecordName_def)
  next
    case (2 x)
    have ix: "inner_name zone x" by (rule inner[OF 2(3)])
    have sx: "?s = x" and fx: "fqdnForRecordName name zone = ?n"
      using 2 by (auto simp: normalizeRecordNameForZone_def fqdnForRecordName_def zone Let_def endsWith_def suffix_def)
    have "trim x = x" using ix by (intro trim_no_space_ends) (simp add: inner_name_def)
    moreover have "toLowerCase x = x" using low unfolding 2(3) by (rule lower_inner)
    moreover have "\<not> endsWith x ''.''" using ix by (cases x rule: rev_cases) (auto simp: inner_name_def endsWith_def suffix_def)
    ultimately show ?thesis
      using ix 2(3) unfolding sx fx
      by (simp add: normalizeRecordNameForZone_def fqdnForRecordName_def zone strip_dot_relative inner_name_def)
  next
    case 3
    have "?s = ?r"
      using 3 strip_dot_absolute[of ?r] strip_dot_relative[of ?r]
      by (simp add: normalizeRecordNameForZone_def zone Let_def)
    then show ?thesis
      by (simp add: normalizeRecordNameForZone_def fqdnForRecordName_def raw_fixed)
  qed
qed

theorem stored_record_name_served_witness:
  "fqdnForRecordName (normalizeRecordNameForZone ''NAS.home.lan.'' ''home.lan'') ''home.lan'' = ''nas.home.lan''
   \<and> fqdnForRecordName (normalizeRecordNameForZone ''a.lan.lan'' ''lan'') ''lan'' = ''a.lan''"
proof -
  have z: "normalizeDnsName ''home.lan'' = ''home.lan''" by code_simp
  have n: "strip_dot (toLowerCase (trim ''NAS.home.lan.'')) = ''nas.home.lan''" by code_simp
  have i: "inner_name ''home.lan'' ''nas''" by code_simp
  have x: "x = ''nas''" if "''nas.home.lan'' = x @ ''.'' @ ''home.lan''" for x
  proof -
    have "''nas'' @ ''.home.lan'' = x @ ''.home.lan''" using that by simp
    then show ?thesis by (metis append_same_eq)
  qed
  have "inner_name ''home.lan'' x"
    if "strip_dot (toLowerCase (trim ''NAS.home.lan.'')) = x @ ''.'' @ ''home.lan''" for x
    using that x[of x] i unfolding n by blast
  note rt = stored_record_name_served[OF z this]
  moreover have "fqdnForRecordName ''NAS.home.lan.'' ''home.lan'' = ''nas.home.lan''" by code_simp
  moreover have "fqdnForRecordName (normalizeRecordNameForZone ''a.lan.lan'' ''lan'') ''lan'' = ''a.lan''" by code_simp
  ultimately show ?thesis by simp
qed

end
