(* ===== verification/Lifecycle.thy ===== *)
theory Lifecycle
  imports Prelude
begin

text \<open>
  The vocabulary of the address lifecycle (\<open>server/src/models/ip-lifecycle.js\<close>): allocation states,
  the sources that may change them, the table of allowed transitions, and the choice of the one
  canonical hostname of an address. The frozen string tables of the source are datatypes; the
  strings they stand for are \<open>alloc_text\<close> and \<open>source_text\<close>. The facts say who may take an address
  from whom.
\<close>

section \<open>Vocabulary\<close>

datatype alloc_state = UNASSIGNED | RESERVED | STATIC_DNS | DYNAMIC_DHCP | STATIC_DHCP
  | SLAAC | SYSTEM | GATEWAY | QUARANTINED

datatype display_status = AVAILABLE | DHCP_SCOPE | IN_USE

text \<open>\<open>BY_SLAAC\<close> is \<open>LIFECYCLE_SOURCE.SLAAC\<close>, whose name the allocation state has already.\<close>

datatype lifecycle_source = ADMIN_RESERVATION | DNS | DHCP_RESERVATION | DHCP_LEASE
  | BY_SLAAC | TOPOLOGY | RECONCILIATION

definition all_states :: "alloc_state list" where
  "all_states = [UNASSIGNED, RESERVED, STATIC_DNS, DYNAMIC_DHCP, STATIC_DHCP, SLAAC, SYSTEM, GATEWAY, QUARANTINED]"

definition all_sources :: "lifecycle_source list" where
  "all_sources = [ADMIN_RESERVATION, DNS, DHCP_RESERVATION, DHCP_LEASE, BY_SLAAC, TOPOLOGY, RECONCILIATION]"

fun alloc_text :: "alloc_state \<Rightarrow> string" where
  "alloc_text UNASSIGNED = ''unassigned''"
| "alloc_text RESERVED = ''reserved''"
| "alloc_text STATIC_DNS = ''static_dns''"
| "alloc_text DYNAMIC_DHCP = ''dynamic_dhcp''"
| "alloc_text STATIC_DHCP = ''static_dhcp''"
| "alloc_text SLAAC = ''slaac''"
| "alloc_text SYSTEM = ''system''"
| "alloc_text GATEWAY = ''gateway''"
| "alloc_text QUARANTINED = ''quarantined''"

fun display_text :: "display_status \<Rightarrow> string" where
  "display_text AVAILABLE = ''available''"
| "display_text DHCP_SCOPE = ''DHCP Scope''"
| "display_text IN_USE = ''in use''"

fun source_text :: "lifecycle_source \<Rightarrow> string" where
  "source_text ADMIN_RESERVATION = ''admin_reservation''"
| "source_text DNS = ''dns''"
| "source_text DHCP_RESERVATION = ''dhcp_reservation''"
| "source_text DHCP_LEASE = ''dhcp_lease''"
| "source_text BY_SLAAC = ''slaac''"
| "source_text TOPOLOGY = ''topology''"
| "source_text RECONCILIATION = ''reconciliation''"

section \<open>Transitions\<close>

definition ALLOCATION_TRANSITIONS :: "lifecycle_source \<Rightarrow> alloc_state \<Rightarrow> alloc_state list option" where
  "ALLOCATION_TRANSITIONS source from =
     (case source of
        ADMIN_RESERVATION \<Rightarrow> map_of [(UNASSIGNED, [RESERVED]), (RESERVED, [RESERVED, UNASSIGNED])] from
      | DNS \<Rightarrow> map_of [(UNASSIGNED, [STATIC_DNS, RESERVED]), (RESERVED, [STATIC_DNS, RESERVED, UNASSIGNED]),
                 (STATIC_DNS, [STATIC_DNS, UNASSIGNED, RESERVED])] from
      | DHCP_RESERVATION \<Rightarrow> map_of [(UNASSIGNED, [STATIC_DHCP]), (RESERVED, [STATIC_DHCP]),
                 (STATIC_DHCP, [STATIC_DHCP, UNASSIGNED])] from
      | DHCP_LEASE \<Rightarrow> map_of [(UNASSIGNED, [DYNAMIC_DHCP]), (DYNAMIC_DHCP, [DYNAMIC_DHCP, UNASSIGNED])] from
      | BY_SLAAC \<Rightarrow> map_of [(UNASSIGNED, [SLAAC]), (SLAAC, [SLAAC, UNASSIGNED])] from
      | TOPOLOGY \<Rightarrow> map_of [(UNASSIGNED, [SYSTEM, GATEWAY]), (SYSTEM, [SYSTEM, UNASSIGNED]),
                 (GATEWAY, [GATEWAY, UNASSIGNED])] from
      | RECONCILIATION \<Rightarrow> map_of (map (\<lambda>s. (s, all_states)) all_states) from)"

definition canTransitionAllocation :: "alloc_state \<Rightarrow> alloc_state \<Rightarrow> lifecycle_source \<Rightarrow> bool" where
  "canTransitionAllocation from to source =
     (case ALLOCATION_TRANSITIONS source from of Some tos \<Rightarrow> to \<in> set tos | None \<Rightarrow> False)"

definition macIsAuthoritative :: "alloc_state \<Rightarrow> bool" where
  "macIsAuthoritative s = (s \<in> {STATIC_DHCP, DYNAMIC_DHCP})"

definition displayStatusFor :: "alloc_state \<Rightarrow> bool \<Rightarrow> display_status" where
  "displayStatusFor s inDynamicPool =
     (if s \<noteq> UNASSIGNED then IN_USE else if inDynamicPool then DHCP_SCOPE else AVAILABLE)"

section \<open>The canonical hostname\<close>

record hostnames =
  dnsHostname :: "string option"
  reservationHostname :: "string option"
  leaseHostname :: "string option"

text \<open>A string or null as a condition: null and the empty string are false.\<close>

definition truthy :: "string option \<Rightarrow> bool" where
  "truthy v = (case v of None \<Rightarrow> False | Some s \<Rightarrow> s \<noteq> [])"

type_synonym canonical = "string option \<times> lifecycle_source option"

definition named_by :: "string option \<Rightarrow> lifecycle_source \<Rightarrow> canonical" where
  "named_by name source = (if truthy name then (name, Some source) else (None, None))"

text \<open>The state is missing where the address has no row.\<close>

definition canonicalHostnameForAllocation :: "alloc_state option \<Rightarrow> hostnames \<Rightarrow> canonical" where
  "canonicalHostnameForAllocation state h =
     (if state \<in> {Some STATIC_DNS, Some GATEWAY} then named_by (dnsHostname h) DNS
      else if state = Some SYSTEM then (None, None)
      else if state = Some STATIC_DHCP then named_by (reservationHostname h) DHCP_RESERVATION
      else if state = Some DYNAMIC_DHCP then named_by (leaseHostname h) DHCP_LEASE
      else if truthy (dnsHostname h) then (dnsHostname h, Some DNS)
      else if truthy (reservationHostname h) then (reservationHostname h, Some DHCP_RESERVATION)
      else if truthy (leaseHostname h) then (leaseHostname h, Some DHCP_LEASE)
      else (None, None))"

section \<open>Ownership\<close>

lemma truthy_simps [simp]: "\<not> truthy None" "truthy (Some s) = (s \<noteq> [])"
  by (auto simp: truthy_def)

lemma in_all_states [simp]: "s \<in> set all_states"
  by (cases s) (simp_all add: all_states_def)

lemma in_all_sources [simp]: "s \<in> set all_sources"
  by (cases s) (simp_all add: all_sources_def)

text \<open>The sources that own a state: the ones that may write it again.\<close>

fun owners :: "alloc_state \<Rightarrow> lifecycle_source set" where
  "owners UNASSIGNED = {}"
| "owners RESERVED = {ADMIN_RESERVATION, DNS}"
| "owners STATIC_DNS = {DNS}"
| "owners DYNAMIC_DHCP = {DHCP_LEASE}"
| "owners STATIC_DHCP = {DHCP_RESERVATION}"
| "owners SLAAC = {BY_SLAAC}"
| "owners SYSTEM = {TOPOLOGY}"
| "owners GATEWAY = {TOPOLOGY}"
| "owners QUARANTINED = {}"

lemma alloc_text_inj: "alloc_text a = alloc_text b \<longleftrightarrow> a = b"
  by (cases a; cases b; simp)

lemma source_text_inj: "source_text a = source_text b \<longleftrightarrow> a = b"
  by (cases a; cases b; simp)

lemma transition_table:
  "canTransitionAllocation from to source \<longleftrightarrow>
     source = RECONCILIATION
     \<or> (from = UNASSIGNED \<and> source \<in> owners to)
     \<or> (source \<in> owners from \<and> (to = from \<or> to = UNASSIGNED))
     \<or> (from = RESERVED \<and> to = STATIC_DNS \<and> source = DNS)
     \<or> (from = RESERVED \<and> to = STATIC_DHCP \<and> source = DHCP_RESERVATION)
     \<or> (from = STATIC_DNS \<and> to = RESERVED \<and> source = DNS)"
  by (cases source; cases "from"; cases to; simp add: canTransitionAllocation_def ALLOCATION_TRANSITIONS_def all_states_def)

lemma transition_release:
  "source \<in> owners from \<Longrightarrow> canTransitionAllocation from UNASSIGNED source"
  by (auto simp: transition_table)

lemma transition_claim:
  "source \<in> owners to \<Longrightarrow> canTransitionAllocation UNASSIGNED to source"
  by (auto simp: transition_table)

section \<open>Properties of the vocabulary\<close>

text \<open>An allocation is never taken over directly. Whatever a source other than reconciliation may
  do to an allocated address, it keeps the state or releases the address (and then it owns the
  state), or the step has \<open>RESERVED\<close> on one side and ends in a state the source owns. Every state
  a source owns it may take from an unassigned address and give back, and nothing but
  reconciliation quarantines an address or lifts the quarantine.\<close>

theorem allocation_ownership:
  assumes "source \<noteq> RECONCILIATION"
  shows "(from \<noteq> UNASSIGNED \<and> canTransitionAllocation from to source \<longrightarrow>
           source \<in> owners from \<and> to \<in> {from, UNASSIGNED}
           \<or> (from = RESERVED \<or> to = RESERVED) \<and> source \<in> owners to)
    \<and> (source \<in> owners s \<longleftrightarrow> canTransitionAllocation UNASSIGNED s source \<and> canTransitionAllocation s UNASSIGNED source
           \<and> canTransitionAllocation s s source)
    \<and> \<not> canTransitionAllocation QUARANTINED to source \<and> \<not> canTransitionAllocation from QUARANTINED source"
proof (intro conjI impI)
  show "source \<in> owners from \<and> to \<in> {from, UNASSIGNED} \<or> (from = RESERVED \<or> to = RESERVED) \<and> source \<in> owners to"
    if "from \<noteq> UNASSIGNED \<and> canTransitionAllocation from to source"
    using assms that by (auto simp: transition_table)
  show "source \<in> owners s \<longleftrightarrow> canTransitionAllocation UNASSIGNED s source \<and> canTransitionAllocation s UNASSIGNED source
           \<and> canTransitionAllocation s s source"
    using assms by (cases s; cases source; simp add: transition_table)
  show "\<not> canTransitionAllocation QUARANTINED to source" "\<not> canTransitionAllocation from QUARANTINED source"
    using assms by (cases "from"; cases to; cases source; simp add: transition_table)+
qed

theorem allocation_ownership_witness:
  "canTransitionAllocation RESERVED STATIC_DNS DNS \<and> \<not> canTransitionAllocation QUARANTINED STATIC_DNS DNS
   \<and> (DNS \<in> owners RESERVED \<and> STATIC_DNS \<in> {RESERVED, UNASSIGNED}
      \<or> (RESERVED = RESERVED \<or> STATIC_DNS = RESERVED) \<and> DNS \<in> owners STATIC_DNS)"
  using allocation_ownership [of DNS RESERVED STATIC_DNS] by (simp add: transition_table)

text \<open>The sources whose name an address may carry, in the order they are tried.\<close>

definition name_sources :: "alloc_state option \<Rightarrow> lifecycle_source list" where
  "name_sources state =
     (case state of
        Some STATIC_DNS \<Rightarrow> [DNS] | Some GATEWAY \<Rightarrow> [DNS] | Some SYSTEM \<Rightarrow> []
      | Some STATIC_DHCP \<Rightarrow> [DHCP_RESERVATION] | Some DYNAMIC_DHCP \<Rightarrow> [DHCP_LEASE]
      | _ \<Rightarrow> [DNS, DHCP_RESERVATION, DHCP_LEASE])"

fun name_of :: "hostnames \<Rightarrow> lifecycle_source \<Rightarrow> string option" where
  "name_of h DNS = dnsHostname h"
| "name_of h DHCP_RESERVATION = reservationHostname h"
| "name_of h DHCP_LEASE = leaseHostname h"
| "name_of h _ = None"

lemma canonical_first_named:
  "canonicalHostnameForAllocation state h =
     (case find (\<lambda>s. truthy (name_of h s)) (name_sources state) of
        Some s \<Rightarrow> (name_of h s, Some s) | None \<Rightarrow> (None, None))"
proof (cases state)
  case None
  then show ?thesis by (simp add: canonicalHostnameForAllocation_def name_sources_def)
next
  case (Some s)
  then show ?thesis
    by (cases s) (simp_all add: canonicalHostnameForAllocation_def name_sources_def named_by_def)
qed

text \<open>The canonical hostname is the first non-empty name among the sources the allocation state
  admits, in the order DNS, reservation, lease, and there is none otherwise. So an address DHCP
  owns never shows a DNS name, one DNS owns never shows a DHCP name, a protected system address
  has no name, and the answered name is never empty.\<close>

theorem canonicalHostname_spec:
  "canonicalHostnameForAllocation state h =
     (case find (\<lambda>s. truthy (name_of h s)) (name_sources state) of
        Some s \<Rightarrow> (name_of h s, Some s) | None \<Rightarrow> (None, None))
   \<and> fst (canonicalHostnameForAllocation state h) \<noteq> Some []
   \<and> (fst (canonicalHostnameForAllocation state h) = None \<longleftrightarrow> (\<forall>s \<in> set (name_sources state). \<not> truthy (name_of h s)))
   \<and> set_option (snd (canonicalHostnameForAllocation state h)) \<subseteq> set (name_sources state)"
  by (auto simp: canonical_first_named find_Some_iff find_None_iff split: option.splits)

theorem canonicalHostname_spec_witness:
  "canonicalHostnameForAllocation (Some STATIC_DHCP)
     \<lparr>dnsHostname = Some ''a.lan'', reservationHostname = Some ''printer'', leaseHostname = None\<rparr>
   = (Some ''printer'', Some DHCP_RESERVATION)"
  using canonicalHostname_spec [of "Some STATIC_DHCP"
     "\<lparr>dnsHostname = Some ''a.lan'', reservationHostname = Some ''printer'', leaseHostname = None\<rparr>"]
  by (simp add: name_sources_def)

end
