(* ===== verification/Store.thy ===== *)
theory Store
  imports CidrMatch DnsNames Lifecycle "HOL-Library.Product_Lexorder"
begin

text \<open>
  The database the lifecycle code works on: the tables it reads and writes as records of rows, the
  four statement shapes it uses on them (select, update, delete, insert), and the address history
  of \<open>server/src/models/ip-events.js\<close>. A row keeps the columns the modelled code reads or writes.

  A timestamp is a number of seconds: the code compares timestamps only through \<open>datetime()\<close>, whose
  text has that resolution. \<open>clock\<close> is what \<open>datetime('now')\<close> answers and \<open>actor\<close> what
  \<open>currentActor()\<close> answers; neither changes inside an operation. Columns that are 0 or 1 are
  Booleans. A statement with no ORDER BY reads rows in table order. Foreign keys are not
  modelled: no operation here deletes a row another table refers to, but for addresses, whose
  history has no reference to them.
\<close>

section \<open>Rows\<close>

type_synonym instant = nat

record ip_row =
  ip_id :: nat
  ip_subnet_id :: nat
  ip_address :: string
  ip_interface_id :: "string option"
  ip_address_family :: nat
  ip_address_sort_key :: "string option"
  ip_hostname :: "string option"
  ip_mac_address :: "string option"
  ip_description :: "string option"
  ip_is_online :: bool
  ip_last_seen_at :: "instant option"
  ip_last_seen_mac :: "string option"
  ip_first_seen_at :: "instant option"
  ip_offline_since_at :: "instant option"
  ip_last_scanned_at :: "instant option"
  ip_scan_enabled :: "bool option"
  ip_is_rogue :: bool
  ip_rogue_reason :: "string option"
  ip_detection_source :: "string option"
  ip_allocation_state :: alloc_state
  ip_allocation_source_type :: "lifecycle_source option"
  ip_allocation_source_id :: "nat option"
  ip_preferred_until :: "instant option"
  ip_valid_until :: "instant option"
  ip_dhcp_version :: "nat option"
  ip_dhcp_duid :: "string option"
  ip_dhcp_iaid :: "string option"
  ip_reservation_note :: "string option"
  ip_updated_at :: instant

datatype event_type = HOSTNAME_CHANGED | MAC_CHANGED | ONLINE | OFFLINE | ALLOCATION_CHANGED
  | ROGUE_DETECTED | ROGUE_CLEARED | RETIRED | SCAN_ENABLED_CHANGED | DNS_ADDED | DNS_REMOVED
  | LEASE_OBTAINED | LEASE_EXPIRED | DNS_HOLD_TAKEN | DNS_HOLD_RELEASED
  | DHCP_RESERVATION_CREATED | DHCP_RESERVATION_REMOVED | IP_RESERVATION_CREATED | IP_RESERVATION_RELEASED

record ip_event =
  ev_id :: nat
  ev_ip_address_id :: "nat option"
  ev_subnet_id :: "nat option"
  ev_ip_address :: string
  ev_interface_id :: "string option"
  ev_type :: event_type
  ev_old_value :: "string option"
  ev_new_value :: "string option"
  ev_source :: "string option"
  ev_actor :: "string option"
  ev_created_at :: instant

record subnet_row =
  sub_id :: nat
  sub_cidr :: string
  sub_parent_id :: "nat option"
  sub_prefix_length :: nat
  sub_address_family :: nat
  sub_status :: string
  sub_gateway_address :: "string option"
  sub_domain_name :: "string option"
  sub_scan_enabled :: "bool option"
  sub_scan_interval :: "string option"
  sub_total_addresses :: "nat option"

datatype zone_type = FORWARD | REVERSE

record zone_row =
  zone_id :: nat
  zone_name :: string
  zone_type :: zone_type
  zone_enabled :: bool
  zone_soa_serial :: nat
  zone_updated_at :: instant

record record_row =
  rec_id :: nat
  rec_zone_id :: nat
  rec_name :: string
  rec_type :: string
  rec_value :: string
  rec_priority :: "nat option"
  rec_weight :: "nat option"
  rec_port :: "nat option"
  rec_ttl :: "nat option"
  rec_source :: "string option"
  rec_enabled :: bool
  rec_updated_at :: instant

record reservation_row =
  rsv_id :: nat
  rsv_subnet_id :: nat
  rsv_ip_address :: string
  rsv_mac_address :: "string option"
  rsv_duid :: "string option"
  rsv_hostname :: "string option"
  rsv_enabled :: bool

text \<open>\<open>expires_at\<close> is the text \<open>infinite\<close>, a timestamp, or text \<open>datetime()\<close> reads as NULL.\<close>

datatype expiry = INFINITE | EXPIRES instant | UNREADABLE

record lease_row =
  lease_id :: nat
  lease_subnet_id :: "nat option"
  lease_ip_address :: string
  lease_mac_address :: "string option"
  lease_hostname :: "string option"
  lease_client_id :: "string option"
  lease_expires_at :: expiry
  lease_dhcp_version :: nat
  lease_duid :: "string option"
  lease_iaid :: "string option"

record scope_row =
  scope_id :: nat
  scope_subnet_id :: nat
  scope_enabled :: bool
  scope_address_family :: nat
  scope_v6_mode :: "string option"
  scope_lease_time :: "string option"
  scope_domain_name :: "string option"

record scope_pool_row =
  sp_scope_id :: nat
  sp_start_ip :: string
  sp_end_ip :: string

record db =
  ip_addresses :: "ip_row list"
  ip_events :: "ip_event list"
  subnets :: "subnet_row list"
  dns_zones :: "zone_row list"
  dns_records :: "record_row list"
  dhcp_reservations :: "reservation_row list"
  dhcp_leases :: "lease_row list"
  dhcp_scopes :: "scope_row list"
  dhcp_scope_pools :: "scope_pool_row list"
  settings :: "(string \<times> string) list"
  next_ip_id :: nat
  next_event_id :: nat
  next_record_id :: nat
  clock :: instant
  actor :: "string option"

section \<open>Errors and sequencing\<close>

datatype lc_error =
    Error string
  | IpLifecycleConflictError string "alloc_state option" "alloc_state option"
  | AddressError cidr_error
  | SqliteError string

text \<open>What an operation leaves: the database as far as it was written, and a value or what was
  thrown. \<open>andThen\<close> is one statement after another.\<close>

type_synonym 'a outcome = "db \<times> (lc_error + 'a)"

definition andThen :: "'a outcome \<Rightarrow> (db \<Rightarrow> 'a \<Rightarrow> 'b outcome) \<Rightarrow> 'b outcome" where
  "andThen r f = (case snd r of Inl e \<Rightarrow> (fst r, Inl e) | Inr x \<Rightarrow> f (fst r) x)"

definition throws :: "db \<Rightarrow> cidr_error + 'a \<Rightarrow> 'a outcome" where
  "throws db r = (db, case r of Inl e \<Rightarrow> Inl (AddressError e) | Inr x \<Rightarrow> Inr x)"

fun foldOut :: "(db \<Rightarrow> 'a \<Rightarrow> unit outcome) \<Rightarrow> db \<Rightarrow> 'a list \<Rightarrow> unit outcome" where
  "foldOut f db [] = (db, Inr ())"
| "foldOut f db (x # xs) = andThen (f db x) (\<lambda>db' _. foldOut f db' xs)"

section \<open>Statements\<close>

definition update_ips :: "(ip_row \<Rightarrow> bool) \<Rightarrow> (ip_row \<Rightarrow> ip_row) \<Rightarrow> db \<Rightarrow> db" where
  "update_ips P f db = db\<lparr>ip_addresses := map (\<lambda>r. if P r then f r else r) (ip_addresses db)\<rparr>"

definition delete_ips :: "(ip_row \<Rightarrow> bool) \<Rightarrow> db \<Rightarrow> db" where
  "delete_ips P db = db\<lparr>ip_addresses := filter (\<lambda>r. \<not> P r) (ip_addresses db)\<rparr>"

text \<open>INSERT: the row gets the next key, and \<open>lastInsertRowid\<close> is that key.\<close>

definition insert_ip :: "ip_row \<Rightarrow> db \<Rightarrow> db \<times> nat" where
  "insert_ip r db =
     (db\<lparr>ip_addresses := ip_addresses db @ [r\<lparr>ip_id := next_ip_id db\<rparr>], next_ip_id := Suc (next_ip_id db)\<rparr>, next_ip_id db)"

definition find_ip :: "db \<Rightarrow> nat \<Rightarrow> ip_row option" where
  "find_ip db i = find (\<lambda>r. ip_id r = i) (ip_addresses db)"

text \<open>\<open>WHERE subnet_id = ? AND ip_address = ?\<close>\<close>

definition find_at :: "db \<Rightarrow> nat \<Rightarrow> string \<Rightarrow> ip_row option" where
  "find_at db subnetId ip = find (\<lambda>r. ip_subnet_id r = subnetId \<and> ip_address r = ip) (ip_addresses db)"

text \<open>\<open>COALESCE(x, '')\<close>\<close>

definition coalesce :: "string option \<Rightarrow> string" where
  "coalesce v = (case v of None \<Rightarrow> [] | Some s \<Rightarrow> s)"

definition find_identity :: "db \<Rightarrow> nat \<Rightarrow> string \<Rightarrow> string option \<Rightarrow> ip_row option" where
  "find_identity db subnetId ip interfaceId =
     find (\<lambda>r. ip_subnet_id r = subnetId \<and> ip_address r = ip \<and> coalesce (ip_interface_id r) = coalesce interfaceId)
       (ip_addresses db)"

definition find_subnet :: "db \<Rightarrow> nat \<Rightarrow> subnet_row option" where
  "find_subnet db i = find (\<lambda>s. sub_id s = i) (subnets db)"

definition find_zone :: "db \<Rightarrow> nat \<Rightarrow> zone_row option" where
  "find_zone db i = find (\<lambda>z. zone_id z = i) (dns_zones db)"

definition getSetting :: "db \<Rightarrow> string \<Rightarrow> string option" where
  "getSetting db key = map_of (settings db) key"

text \<open>\<open>x || null\<close> on text and on a number.\<close>

definition or_null :: "string option \<Rightarrow> string option" where
  "or_null v = (if truthy v then v else None)"

definition or_null_num :: "nat option \<Rightarrow> nat option" where
  "or_null_num v = (if v = Some 0 then None else v)"

section \<open>Address history\<close>

record event_args =
  old_value :: "string option"
  new_value :: "string option"
  event_source :: "string option"

definition no_args :: event_args where
  "no_args = \<lparr>old_value = None, new_value = None, event_source = None\<rparr>"

definition from_source :: "string \<Rightarrow> event_args" where
  "from_source s = \<lparr>old_value = None, new_value = None, event_source = Some s\<rparr>"

definition insertEvent :: "nat option \<Rightarrow> nat option \<Rightarrow> string \<Rightarrow> string option \<Rightarrow> event_type \<Rightarrow> event_args \<Rightarrow> db \<Rightarrow> db" where
  "insertEvent ipAddressId subnetId ip interfaceId type args db =
     db\<lparr>ip_events := ip_events db @
          [\<lparr>ev_id = next_event_id db, ev_ip_address_id = ipAddressId, ev_subnet_id = subnetId,
            ev_ip_address = ip, ev_interface_id = interfaceId, ev_type = type,
            ev_old_value = old_value args, ev_new_value = new_value args,
            ev_source = event_source args, ev_actor = actor db, ev_created_at = clock db\<rparr>],
        next_event_id := Suc (next_event_id db)\<rparr>"

definition moveEventsToSubnet :: "db \<Rightarrow> nat \<Rightarrow> nat \<Rightarrow> db" where
  "moveEventsToSubnet db ipAddressId subnetId =
     db\<lparr>ip_events := map (\<lambda>e. if ev_ip_address_id e = Some ipAddressId then e\<lparr>ev_subnet_id := Some subnetId\<rparr> else e)
          (ip_events db)\<rparr>"

text \<open>The address half of \<open>listAddressEvents\<close>: newest first.\<close>

definition address_events :: "db \<Rightarrow> string \<Rightarrow> string option \<Rightarrow> nat \<Rightarrow> ip_event list" where
  "address_events db ip interfaceId limit =
     take limit (rev (sort_key (\<lambda>e. (ev_created_at e, ev_id e))
       (filter (\<lambda>e. ev_ip_address e = ip \<and> coalesce (ev_interface_id e) = coalesce interfaceId) (ip_events db))))"

text \<open>\<open>parseInt(text, 10) || 7\<close>: the leading digits after blanks, an optional sign before them.\<close>

definition parse_int :: "string \<Rightarrow> int option" where
  "parse_int s =
     (let t = dropWhile is_space s;
          neg = (t \<noteq> [] \<and> hd t = CHR ''-'');
          u = (if t \<noteq> [] \<and> (hd t = CHR ''-'' \<or> hd t = CHR ''+'') then tl t else t);
          ds = takeWhile is_digit u
      in if ds = [] then None else Some (if neg then - int (of_digits 10 ds) else int (of_digits 10 ds)))"

definition retention_days :: "db \<Rightarrow> int" where
  "retention_days db =
     (case getSetting db ''ip_history_retention_days'' of
        None \<Rightarrow> 7
      | Some v \<Rightarrow> (case parse_int v of None \<Rightarrow> 7 | Some n \<Rightarrow> if n = 0 then 7 else n))"

text \<open>\<open>datetime('now', '-n days')\<close>; a negative setting makes a modifier SQLite reads as NULL, and
  nothing is older than NULL.\<close>

definition older_than :: "db \<Rightarrow> int \<Rightarrow> instant \<Rightarrow> bool" where
  "older_than db days t = (days \<ge> 0 \<and> int t < int (clock db) - days * 86400)"

definition pruneEvents :: "db \<Rightarrow> db \<times> nat" where
  "pruneEvents db =
     (let kept = filter (\<lambda>e. \<not> older_than db (retention_days db) (ev_created_at e)) (ip_events db)
      in (db\<lparr>ip_events := kept\<rparr>, length (ip_events db) - length kept))"

section \<open>Laws of the statements\<close>

lemma andThen_simps [simp]:
  "andThen (db, Inr x) f = f db x"
  "andThen (db, Inl e) f = (db, Inl e)"
  by (simp_all add: andThen_def)

lemma andThen_Inr: "andThen r f = (db', Inr y) \<longleftrightarrow> (\<exists>db x. r = (db, Inr x) \<and> f db x = (db', Inr y))"
  by (cases r; cases "snd r") (auto simp: andThen_def)

lemma andThen_cases:
  assumes "andThen r f = res"
  obtains (error) e where "r = (fst r, Inl e)" "res = (fst r, Inl e)"
        | (ok) x where "r = (fst r, Inr x)" "res = f (fst r) x"
  using assms by (cases r; cases "snd r") (auto simp: andThen_def)

lemma throws_simps [simp]: "throws db (Inr x) = (db, Inr x)" "throws db (Inl e) = (db, Inl (AddressError e))"
  by (simp_all add: throws_def)

lemma fst_throws [simp]: "fst (throws db r) = db"
  by (simp add: throws_def)

lemma coalesce_simps [simp]: "coalesce None = []" "coalesce (Some s) = s"
  by (simp_all add: coalesce_def)

end
