(* ===== verification/ScanCoverage.thy ===== *)
theory ScanCoverage
  imports Store
begin

text \<open>
  Which addresses the active scanner probes (\<open>server/src/utils/scan-coverage.js\<close>, the selection in
  \<open>server/src/utils/scan-scheduler.js\<close> and the switch of \<open>server/src/utils/ipv6-support.js\<close>), and lease
  times and lease activity (\<open>server/src/utils/lease-time.js\<close>, \<open>server/src/utils/lease-sql.js\<close>). The
  predicates the source writes as SQL text are written out here as the conditions SQLite evaluates.
\<close>

section \<open>Scan intervals\<close>

definition INTERVAL_MS :: "(string \<times> nat option) list" where
  "INTERVAL_MS =
     [([], None), (''off'', None), (''5m'', Some (5 * 60 * 1000)), (''15m'', Some (15 * 60 * 1000)),
      (''30m'', Some (30 * 60 * 1000)), (''1h'', Some (60 * 60 * 1000)), (''4h'', Some (4 * 60 * 60 * 1000))]"

definition SCANNING_INTERVAL_KEYS :: "string list" where
  "SCANNING_INTERVAL_KEYS = map fst (filter (\<lambda>kv. snd kv \<noteq> None) INTERVAL_MS)"

definition intervalToMs :: "string option \<Rightarrow> nat option" where
  "intervalToMs value =
     (case value of
        None \<Rightarrow> None
      | Some v \<Rightarrow>
          let raw = trim v in
          case map_of INTERVAL_MS raw of
            Some ms \<Rightarrow> ms
          | None \<Rightarrow>
              if all_digits raw
              then (let minutes = of_digits 10 raw in if minutes > 0 then Some (minutes * 60 * 1000) else None)
              else None)"

text \<open>SQLite's \<open>TRIM\<close> removes spaces only.\<close>

definition sql_trim :: "string \<Rightarrow> string" where
  "sql_trim s = rev (dropWhile (\<lambda>c. c = CHR '' '') (rev (dropWhile (\<lambda>c. c = CHR '' '') s)))"

text \<open>The interval arm of \<open>scannerCoveredSql\<close>.\<close>

definition interval_covered :: "string \<Rightarrow> bool" where
  "interval_covered v =
     (sql_trim v \<in> set SCANNING_INTERVAL_KEYS
      \<or> sql_trim v \<noteq> [] \<and> list_all is_digit (sql_trim v) \<and> of_digits 10 (sql_trim v) > 0)"

section \<open>Inherited switches\<close>

definition scanEnabledSql :: "db \<Rightarrow> subnet_row \<Rightarrow> bool" where
  "scanEnabledSql db s =
     (case sub_scan_enabled s of
        Some b \<Rightarrow> b
      | None \<Rightarrow> (case getSetting db ''default_scan_enabled'' of
                   None \<Rightarrow> True
                 | Some v \<Rightarrow> if v \<in> {''1'', ''true''} then True else v \<notin> {''0'', ''false''}))"

datatype js_value = JBool bool | JNum int | JText string | JNull

definition scanBoolean :: "js_value \<Rightarrow> bool option" where
  "scanBoolean value =
     (if value \<in> {JBool True, JNum 1, JText ''1'', JText ''true''} then Some True
      else if value \<in> {JBool False, JNum 0, JText ''0'', JText ''false''} then Some False
      else None)"

definition resolveScanningEnabled :: "js_value \<Rightarrow> js_value \<Rightarrow> js_value \<Rightarrow> bool" where
  "resolveScanningEnabled ipOverride subnetOverride globalDefault =
     (case scanBoolean ipOverride of
        Some b \<Rightarrow> b
      | None \<Rightarrow> (case scanBoolean subnetOverride of
                   Some b \<Rightarrow> b
                 | None \<Rightarrow> (case scanBoolean globalDefault of Some b \<Rightarrow> b | None \<Rightarrow> True)))"

definition effectiveIntervalSql :: "db \<Rightarrow> subnet_row \<Rightarrow> string option" where
  "effectiveIntervalSql db s =
     (case sub_scan_interval s of Some v \<Rightarrow> Some v | None \<Rightarrow> getSetting db ''default_scan_interval'')"

definition MAX_SCAN_SIZE :: nat where "MAX_SCAN_SIZE = 4096"

definition scanSizeSql :: "subnet_row \<Rightarrow> bool" where
  "scanSizeSql s =
     (sub_address_family s = 6
      \<or> (case sub_total_addresses s of None \<Rightarrow> False | Some n \<Rightarrow> n \<le> MAX_SCAN_SIZE))"

definition ipv6Enabled :: "db \<Rightarrow> bool" where
  "ipv6Enabled db = (getSetting db ''ipv6_enabled'' = Some ''true'')"

definition isAutomaticScanAllowed :: "subnet_row \<Rightarrow> bool \<Rightarrow> cidr_error + bool" where
  "isAutomaticScanAllowed s ipv6 =
     (if sub_address_family s = 6 \<and> \<not> ipv6 then Inr False
      else if sub_scan_enabled s = Some True then Inr True
      else ebind (isGloballyRoutableCidr (sub_cidr s)) (\<lambda>g. Inr (\<not> g)))"

definition ipv6ProbedSql :: "subnet_row \<Rightarrow> ip_row \<Rightarrow> bool" where
  "ipv6ProbedSql s ip = (sub_address_family s \<noteq> 6 \<or> ip_allocation_state ip \<noteq> SYSTEM)"

definition scannerCoveredSql :: "db \<Rightarrow> subnet_row \<Rightarrow> ip_row \<Rightarrow> bool" where
  "scannerCoveredSql db s ip =
     (sub_status s = ''allocated'' \<and> scanSizeSql s \<and> scanEnabledSql db s
      \<and> (case effectiveIntervalSql db s of None \<Rightarrow> False | Some v \<Rightarrow> interval_covered v)
      \<and> ip_scan_enabled ip \<noteq> Some False
      \<and> ipv6ProbedSql s ip)"

text \<open>The networks \<open>checkScheduledScans\<close> keeps, up to when their last scan ran.\<close>

definition scheduled :: "db \<Rightarrow> subnet_row \<Rightarrow> cidr_error + bool" where
  "scheduled db s =
     (if \<not> (sub_status s = ''allocated'' \<and> scanSizeSql s \<and> scanEnabledSql db s) then Inr False
      else ebind (isAutomaticScanAllowed s (ipv6Enabled db)) (\<lambda>allowed.
        Inr (allowed \<and> (case intervalToMs (effectiveIntervalSql db s) of None \<Rightarrow> False | Some ms \<Rightarrow> ms \<noteq> 0))))"

text \<open>The filter of \<open>bulkMarkStale\<close>: the sweep may age the address.\<close>

definition sweepable :: "db \<Rightarrow> subnet_row \<Rightarrow> ip_row \<Rightarrow> cidr_error + bool" where
  "sweepable db s ip =
     (if \<not> scannerCoveredSql db s ip then Inr True
      else ebind (isAutomaticScanAllowed s (ipv6Enabled db)) (\<lambda>allowed. Inr (\<not> allowed)))"

section \<open>Lease times and lease activity\<close>

datatype duration = Forever | Seconds nat | NotANumber

definition UNIT_SECONDS :: "(string \<times> nat) list" where
  "UNIT_SECONDS = [([], 1), (''s'', 1), (''m'', 60), (''h'', 3600), (''d'', 86400), (''w'', 604800)]"

definition isValidLeaseTime :: "string \<Rightarrow> bool" where
  "isValidLeaseTime text =
     (let ds = takeWhile is_digit text; rest = dropWhile is_digit text
      in ds \<noteq> [] \<and> rest \<in> {[], ''s'', ''m'', ''h'', ''d''})"

definition leaseSeconds :: "string option \<Rightarrow> duration" where
  "leaseSeconds text =
     (let raw = toLowerCase (trim (coalesce text)) in
      if raw = ''infinite'' then Forever
      else let ds = takeWhile is_digit raw; rest = dropWhile is_digit raw
        in if ds = [] then NotANumber
           else case map_of UNIT_SECONDS rest of
                  None \<Rightarrow> NotANumber
                | Some k \<Rightarrow> Seconds (of_digits 10 ds * k))"

definition leaseDurationMs :: "string option \<Rightarrow> duration" where
  "leaseDurationMs text = (case leaseSeconds text of Seconds n \<Rightarrow> Seconds (n * 1000) | d \<Rightarrow> d)"

text \<open>\<open>expires_at = 'infinite' OR datetime(expires_at) > datetime('now')\<close>\<close>

definition activeLeaseSql :: "db \<Rightarrow> lease_row \<Rightarrow> bool" where
  "activeLeaseSql db l =
     (case lease_expires_at l of INFINITE \<Rightarrow> True | EXPIRES t \<Rightarrow> t > clock db | UNREADABLE \<Rightarrow> False)"

text \<open>The JavaScript twin; \<open>expiryMs\<close> is \<open>leaseExpiryMs\<close>, None its \<open>NaN\<close>.\<close>

definition isLeaseActive :: "expiry \<Rightarrow> instant \<Rightarrow> bool" where
  "isLeaseActive e now = (case e of INFINITE \<Rightarrow> True | EXPIRES t \<Rightarrow> t \<ge> now | UNREADABLE \<Rightarrow> False)"

text \<open>SQLite's \<open>lower()\<close> folds ASCII letters only. \<open>lower(a) = lower(b)\<close> is unknown, so not true, when a
  side is NULL.\<close>

definition sql_lower :: "string \<Rightarrow> string" where
  "sql_lower s = map (\<lambda>c. if 65 \<le> code c \<and> code c \<le> (90 :: nat) then char_of (code c + 32 :: nat) else c) s"

definition same_lower :: "string option \<Rightarrow> string option \<Rightarrow> bool" where
  "same_lower a b = (case (a, b) of (Some x, Some y) \<Rightarrow> sql_lower x = sql_lower y | _ \<Rightarrow> False)"

definition reservedLeaseFirstSql :: "db \<Rightarrow> lease_row \<Rightarrow> bool" where
  "reservedLeaseFirstSql db l =
     (lease_expires_at l = INFINITE
      \<or> list_ex (\<lambda>rsv. rsv_enabled rsv \<and> Some (rsv_subnet_id rsv) = lease_subnet_id l
            \<and> rsv_ip_address rsv = lease_ip_address l
            \<and> (same_lower (rsv_mac_address rsv) (lease_mac_address l) \<or> same_lower (rsv_duid rsv) (lease_duid l)))
          (dhcp_reservations db))"

text \<open>\<open>datetime(expires_at)\<close> in an ORDER BY: NULL sorts below every timestamp.\<close>

definition expiry_order :: "expiry \<Rightarrow> nat" where
  "expiry_order e = (case e of EXPIRES t \<Rightarrow> Suc t | _ \<Rightarrow> 0)"

text \<open>\<open>ORDER BY reservedLeaseFirst DESC, datetime(expires_at) DESC, id DESC LIMIT 1\<close>\<close>

definition lease_rank :: "db \<Rightarrow> lease_row \<Rightarrow> bool \<times> nat \<times> nat" where
  "lease_rank db l = (reservedLeaseFirstSql db l, expiry_order (lease_expires_at l), lease_id l)"

definition best_lease :: "db \<Rightarrow> lease_row list \<Rightarrow> lease_row option" where
  "best_lease db ls = (case rev (sort_key (lease_rank db) ls) of [] \<Rightarrow> None | l # _ \<Rightarrow> Some l)"

section \<open>The two readings of an interval\<close>

lemma space_is_space: "is_space CHR '' ''"
  by (simp add: is_space_def)

lemma sql_trim_decomp:
  obtains as bs where "s = as @ sql_trim s @ bs" "\<forall>c \<in> set as. c = CHR '' ''" "\<forall>c \<in> set bs. c = CHR '' ''"
proof
  let ?P = "\<lambda>c. c = CHR '' ''"
  let ?t = "dropWhile ?P s"
  have "?t = sql_trim s @ rev (takeWhile ?P (rev ?t))"
    unfolding sql_trim_def by (metis rev_append rev_rev_ident takeWhile_dropWhile_id)
  then show "s = takeWhile ?P s @ sql_trim s @ rev (takeWhile ?P (rev ?t))"
    by (metis takeWhile_dropWhile_id)
qed (auto dest: set_takeWhileD)

lemma trim_padded:
  assumes "\<forall>c \<in> set as. is_space c" "\<forall>c \<in> set bs. is_space c"
  shows "trim (as @ m @ bs) = trim m"
proof -
  have *: "dropWhile is_space (as @ m @ bs) = dropWhile is_space (m @ bs)"
    using assms(1) by (simp add: dropWhile_append2)
  show ?thesis
  proof (cases "\<forall>c \<in> set m. is_space c")
    case True
    then have 1: "dropWhile is_space (m @ bs) = []" and 2: "dropWhile is_space m = []"
      using assms(2) by (auto simp: dropWhile_eq_Nil_conv)
    show ?thesis unfolding trim_def * 1 2 ..
  next
    case False
    then have "dropWhile is_space (m @ bs) = dropWhile is_space m @ bs"
      by (auto simp: dropWhile_append1)
    moreover have "dropWhile is_space (rev bs @ ys) = dropWhile is_space ys" for ys
      using assms(2) by (intro dropWhile_append2) auto
    ultimately show ?thesis by (simp add: trim_def *)
  qed
qed

lemma trim_sql_trim: "trim (sql_trim s) = trim s"
proof -
  obtain as bs where d: "s = as @ sql_trim s @ bs" "\<forall>c \<in> set as. c = CHR '' ''" "\<forall>c \<in> set bs. c = CHR '' ''"
    by (rule sql_trim_decomp)
  have "trim (as @ sql_trim s @ bs) = trim (sql_trim s)"
    by (intro trim_padded ballI) (metis d(2,3) space_is_space)+
  then show ?thesis unfolding d(1) [symmetric] by (rule sym)
qed

lemma digit_not_space: "is_digit c \<Longrightarrow> \<not> is_space c"
  by (auto simp: is_digit_def is_space_def)

lemma trim_digits: "list_all is_digit s \<Longrightarrow> trim s = s"
  by (rule trim_id) (auto simp: list_all_iff digit_not_space)

lemma trim_keys: "s \<in> set SCANNING_INTERVAL_KEYS \<Longrightarrow> trim s = s"
proof -
  have "list_all (\<lambda>s. trim s = s) SCANNING_INTERVAL_KEYS" by code_simp
  then show "s \<in> set SCANNING_INTERVAL_KEYS \<Longrightarrow> trim s = s" by (auto simp: list_all_iff)
qed

lemma interval_keys:
  "s \<in> set SCANNING_INTERVAL_KEYS \<longleftrightarrow> (\<exists>ms. map_of INTERVAL_MS s = Some (Some ms))"
  by (auto simp: SCANNING_INTERVAL_KEYS_def INTERVAL_MS_def)

lemma interval_ms_pos: "map_of INTERVAL_MS s = Some (Some ms) \<Longrightarrow> ms \<noteq> 0"
  by (auto simp: INTERVAL_MS_def split: if_splits)

lemma interval_null: "map_of INTERVAL_MS s = Some None \<longleftrightarrow> s = [] \<or> s = ''off''"
  by (auto simp: INTERVAL_MS_def)

lemma interval_digits: "all_digits s \<Longrightarrow> map_of INTERVAL_MS s = None"
proof (rule ccontr)
  assume d: "all_digits s" and "map_of INTERVAL_MS s \<noteq> None"
  then have "s \<in> set (map fst INTERVAL_MS)"
    by (metis domIff dom_map_of_conv_image_fst list.set_map)
  moreover have "list_all (\<lambda>k. \<not> all_digits k) (map fst INTERVAL_MS)" by code_simp
  ultimately show False using d by (auto simp: list_all_iff)
qed

lemma intervalToMs_iff:
  "intervalToMs (Some v) \<noteq> None \<longleftrightarrow>
     trim v \<in> set SCANNING_INTERVAL_KEYS \<or> all_digits (trim v) \<and> of_digits 10 (trim v) > 0"
proof (cases "map_of INTERVAL_MS (trim v)")
  case None
  then have "trim v \<notin> set SCANNING_INTERVAL_KEYS" by (simp add: interval_keys)
  with None show ?thesis by (simp add: intervalToMs_def Let_def)
next
  case (Some ms)
  then have "\<not> all_digits (trim v)" using interval_digits [of "trim v"] by auto
  with Some show ?thesis by (cases ms) (simp_all add: intervalToMs_def Let_def interval_keys)
qed

lemma intervalToMs_pos:
  assumes "intervalToMs v = Some ms" shows "ms \<noteq> 0"
proof (cases v)
  case (Some w)
  with assms show ?thesis
    using interval_ms_pos [of "trim w"]
    by (auto simp: intervalToMs_def Let_def split: option.splits if_splits)
qed (use assms in \<open>simp add: intervalToMs_def\<close>)

lemma interval_covered_iff:
  "interval_covered v \<longleftrightarrow> intervalToMs (Some v) \<noteq> None \<and> sql_trim v = trim v"
proof
  assume c: "interval_covered v"
  then have "trim (sql_trim v) = sql_trim v"
    unfolding interval_covered_def using trim_keys trim_digits by blast
  then have eq: "sql_trim v = trim v" by (simp add: trim_sql_trim)
  with c show "intervalToMs (Some v) \<noteq> None \<and> sql_trim v = trim v"
    unfolding intervalToMs_iff interval_covered_def all_digits_def by auto
next
  assume "intervalToMs (Some v) \<noteq> None \<and> sql_trim v = trim v"
  then show "interval_covered v"
    unfolding intervalToMs_iff interval_covered_def all_digits_def by auto
qed

section \<open>Scanner and sweep\<close>

lemma some_e_total: "(\<And>x. x \<in> set xs \<Longrightarrow> \<exists>b. f x = Inr b) \<Longrightarrow> \<exists>b. some_e f xs = Inr b"
proof -
  assume "\<And>x. x \<in> set xs \<Longrightarrow> \<exists>b. f x = Inr b"
  then obtain g where "\<And>x. x \<in> set xs \<Longrightarrow> f x = Inr (g x)" by metis
  from some_e_all [of xs f g, OF this] show ?thesis by blast
qed

lemma isGloballyRoutableCidr_total:
  assumes "parseNetwork cidr = Inr n"
  shows "\<exists>g. isGloballyRoutableCidr cidr = Inr g"
proof -
  let ?special = "if net_family n = 6 then NON_GLOBAL_IPV6_RANGES else NON_GLOBAL_IPV4_RANGES"
  have "\<exists>b. networksOverlap cidr rng = Inr b" if "rng \<in> set ?special" for rng
  proof -
    have "parseNetwork rng = Inr (range_net rng)"
      using that special_ok [of rng] by (auto split: if_splits)
    from network_relations [OF assms this] show ?thesis by blast
  qed
  from some_e_total [of ?special "networksOverlap cidr", OF this]
  show ?thesis using assms by (auto simp: isGloballyRoutableCidr_def)
qed

lemma isAutomaticScanAllowed_total:
  "parseNetwork (sub_cidr s) = Inr net \<Longrightarrow> \<exists>b. isAutomaticScanAllowed s ipv6 = Inr b"
  using isGloballyRoutableCidr_total by (fastforce simp: isAutomaticScanAllowed_def)

text \<open>C27. Between the scanner and the staleness sweep no address is left alone. For every network
  whose CIDR can be read and every address row of it, the scheduler probes the network or the sweep
  may age the row. They both act on a row (which would make a host flap between scans) exactly when
  the row is one the scan skips, because of its own override or because it is the protected address
  of an IPv6 network, or when the stored interval is padded with white space other than spaces,
  which JavaScript trims and SQLite does not.\<close>

theorem scanner_and_sweep_cover:
  assumes "parseNetwork (sub_cidr s) = Inr net"
  shows "\<exists>sch swp. scheduled db s = Inr sch \<and> sweepable db s ip = Inr swp \<and> (sch \<or> swp)
     \<and> (sch \<and> swp \<longleftrightarrow> sch \<and> (ip_scan_enabled ip = Some False
          \<or> sub_address_family s = 6 \<and> ip_allocation_state ip = SYSTEM
          \<or> (\<exists>v. effectiveIntervalSql db s = Some v \<and> sql_trim v \<noteq> trim v)))"
proof -
  obtain allowed where a: "isAutomaticScanAllowed s (ipv6Enabled db) = Inr allowed"
    using isAutomaticScanAllowed_total [OF assms] by blast
  show ?thesis
  proof (cases "effectiveIntervalSql db s")
    case None
    then show ?thesis
      by (intro exI [of _ False] exI [of _ True])
         (simp add: scheduled_def sweepable_def a scannerCoveredSql_def intervalToMs_def)
  next
    case (Some v)
    then show ?thesis
      using intervalToMs_pos [of "Some v"]
      by (cases "intervalToMs (Some v)"; cases "sub_status s = ''allocated'' \<and> scanSizeSql s \<and> scanEnabledSql db s")
         (auto simp: scheduled_def sweepable_def a scannerCoveredSql_def interval_covered_iff ipv6ProbedSql_def)
  qed
qed

definition sample_subnet :: subnet_row where
  "sample_subnet =
     \<lparr>sub_id = 1, sub_cidr = ''10.0.0.0/8'', sub_parent_id = None, sub_prefix_length = 8, sub_address_family = 4,
      sub_status = ''allocated'', sub_gateway_address = None, sub_domain_name = None, sub_scan_enabled = Some True,
      sub_scan_interval = Some (CHR 0x09 # ''5m''), sub_total_addresses = Some 256\<rparr>"

definition empty_db :: db where
  "empty_db =
     \<lparr>ip_addresses = [], ip_events = [], subnets = [], dns_zones = [], dns_records = [], dhcp_reservations = [],
      dhcp_leases = [], dhcp_scopes = [], dhcp_scope_pools = [], settings = [], next_ip_id = 1, next_event_id = 1,
      next_record_id = 1, clock = 0, actor = None\<rparr>"

text \<open>The padded interval: scheduled, yet the sweep still ages the row.\<close>

theorem scanner_and_sweep_cover_witness:
  "\<forall>ip. scheduled empty_db sample_subnet = Inr True \<and> sweepable empty_db sample_subnet ip = Inr True"
proof
  fix ip
  let ?s = sample_subnet
  have p: "parseNetwork (sub_cidr ?s) = Inr (build_network 4 32 8 0x0a000000)"
    by (simp add: sample_subnet_def reserved_v4)
  have t: "trim (CHR 0x09 # ''5m'') = ''5m''" "sql_trim (CHR 0x09 # ''5m'') = CHR 0x09 # ''5m''" by code_simp+
  have sch: "scheduled empty_db ?s = Inr True"
    by (simp add: scheduled_def sample_subnet_def scanSizeSql_def MAX_SCAN_SIZE_def scanEnabledSql_def
        isAutomaticScanAllowed_def effectiveIntervalSql_def intervalToMs_def t INTERVAL_MS_def)
  from scanner_and_sweep_cover [OF p, of empty_db ip] sch
  show "scheduled empty_db ?s = Inr True \<and> sweepable empty_db ?s ip = Inr True"
    by (auto simp: sample_subnet_def effectiveIntervalSql_def t)
qed

end
