(* ===== verification/IpAddress.thy ===== *)
theory IpAddress
  imports ScanCoverage
begin

text \<open>
  The address model (\<open>server/src/models/ip-address.js\<close>), the only code that writes \<open>ip_addresses\<close>. One
  definition per exported function, over the database of theory Store. A partial object of fields
  is a record of options: None is \<open>undefined\<close> (leave the column alone), \<open>Some None\<close> is \<open>null\<close>.
\<close>

section \<open>Identity\<close>

record identity =
  id_ip :: string
  id_family :: nat
  id_sort_key :: "string option"
  id_interface :: "string option"

text \<open>\<open>/^[a-zA-Z0-9._:-]{1,64}$/\<close>\<close>

definition INTERFACE_RE :: "string \<Rightarrow> bool" where
  "INTERFACE_RE s = (1 \<le> length s \<and> length s \<le> 64 \<and> list_all (\<lambda>c. is_alnum c \<or> c \<in> set ''._:-'') s)"

definition isV6LinkLocal :: "parsed_ip \<Rightarrow> bool" where
  "isV6LinkLocal parsed =
     (ip_bits parsed = 128 \<and> ip_value parsed \<ge> 0xfe800000000000000000000000000000
      \<and> ip_value parsed \<le> 0xfebfffffffffffffffffffffffffffff)"

text \<open>\<open>s?.trim() || null\<close>\<close>

definition trim_or_null :: "string option \<Rightarrow> string option" where
  "trim_or_null v = or_null (map_option trim v)"

definition canonicalIdentity :: "string \<Rightarrow> string option \<Rightarrow> lc_error + identity" where
  "canonicalIdentity ip interfaceId =
     (case parseIp ip of
        None \<Rightarrow> Inl (Error (''Invalid IP address: '' @ ip))
      | Some parsed \<Rightarrow>
          let explicitInterface = trim_or_null interfaceId;
              parsedInterface = trim_or_null (ip_zoneId parsed);
              effectiveInterface = (if explicitInterface \<noteq> None then explicitInterface else parsedInterface)
          in if parsedInterface \<noteq> None \<and> explicitInterface \<noteq> None \<and> parsedInterface \<noteq> explicitInterface
             then Inl (Error ''IPv6 zone identifier does not match interface context'')
             else if (case effectiveInterface of None \<Rightarrow> False | Some s \<Rightarrow> \<not> INTERFACE_RE s)
             then Inl (Error ''Invalid interface context'')
             else if isV6LinkLocal parsed \<and> effectiveInterface = None
             then Inl (Error ''IPv6 link-local addresses require interface context'')
             else if \<not> isV6LinkLocal parsed \<and> effectiveInterface \<noteq> None
             then Inl (Error ''Interface context is only valid for IPv6 link-local addresses'')
             else let canonical = coalesce (canonicalizeIp ip)
                  in Inr \<lparr>id_ip = canonical, id_family = (if ip_bits parsed = 32 then 4 else 6),
                          id_sort_key = sortKey canonical, id_interface = effectiveInterface\<rparr>)"

section \<open>Events\<close>

definition emit :: "nat \<Rightarrow> nat \<Rightarrow> string \<Rightarrow> event_type \<Rightarrow> event_args \<Rightarrow> db \<Rightarrow> db" where
  "emit ipAddressId subnetId ip eventType args db =
     (let row = find_ip db ipAddressId in
      insertEvent (Some ipAddressId) (Some subnetId)
        (case row of Some r \<Rightarrow> ip_address r | None \<Rightarrow> ip)
        (case row of Some r \<Rightarrow> ip_interface_id r | None \<Rightarrow> None) eventType args db)"

definition recordEvent :: "db \<Rightarrow> nat \<Rightarrow> string \<Rightarrow> event_type \<Rightarrow> event_args \<Rightarrow> unit outcome" where
  "recordEvent db subnetId ip eventType args =
     (case canonicalIdentity ip None of
        Inl e \<Rightarrow> (db, Inl e)
      | Inr identity \<Rightarrow>
          let row = find_identity db subnetId (id_ip identity) (id_interface identity) in
          (insertEvent (map_option ip_id row) (Some subnetId) (id_ip identity) (id_interface identity) eventType args db,
           Inr ()))"

definition getEvents :: "db \<Rightarrow> string \<Rightarrow> nat \<Rightarrow> lc_error + ip_event list" where
  "getEvents db ip limit =
     ebind (canonicalIdentity ip None) (\<lambda>identity. Inr (address_events db (id_ip identity) (id_interface identity) limit))"

text \<open>A named allocation change \<open>{ type, old, new, source }\<close>.\<close>

record named_event =
  ne_type :: event_type
  ne_old :: "string option option"
  ne_new :: "string option option"
  ne_source :: "string option"

type_synonym pending_event = "event_type \<times> string option \<times> string option \<times> string option"

definition allocationEvent :: "named_event option \<Rightarrow> alloc_state \<Rightarrow> alloc_state \<Rightarrow> pending_event" where
  "allocationEvent named oldState newState =
     (case named of
        None \<Rightarrow> (ALLOCATION_CHANGED, Some (alloc_text oldState), Some (alloc_text newState), None)
      | Some n \<Rightarrow> (ne_type n,
                  (case ne_old n of Some v \<Rightarrow> v | None \<Rightarrow> Some (alloc_text oldState)),
                  (case ne_new n of Some v \<Rightarrow> v | None \<Rightarrow> Some (alloc_text newState)),
                  ne_source n))"

section \<open>The core upsert\<close>

record ip_fields =
  f_interface_id :: "string option"
  f_hostname :: "string option option"
  f_mac_address :: "string option option"
  f_is_online :: "bool option"
  f_last_seen_mac :: "string option option"
  f_is_rogue :: "bool option"
  f_rogue_reason :: "string option option"
  f_last_scanned_at :: "instant option option"
  f_detection_source :: "string option option"
  f_allocation_state :: "alloc_state option"
  f_allocation_source_type :: "lifecycle_source option option"
  f_allocation_source_id :: "nat option option"
  f_preferred_until :: "instant option option"
  f_valid_until :: "instant option option"
  f_dhcp_version :: "nat option option"
  f_dhcp_duid :: "string option option"
  f_dhcp_iaid :: "string option option"
  f_reservation_note :: "string option option"
  f_scan_enabled :: "bool option option"
  f_allocation_event :: "named_event option"

definition no_fields :: ip_fields where
  "no_fields = \<lparr>f_interface_id = None, f_hostname = None, f_mac_address = None, f_is_online = None,
     f_last_seen_mac = None, f_is_rogue = None, f_rogue_reason = None, f_last_scanned_at = None,
     f_detection_source = None, f_allocation_state = None, f_allocation_source_type = None,
     f_allocation_source_id = None, f_preferred_until = None, f_valid_until = None, f_dhcp_version = None,
     f_dhcp_duid = None, f_dhcp_iaid = None, f_reservation_note = None, f_scan_enabled = None,
     f_allocation_event = None\<rparr>"

definition given :: "'a option \<Rightarrow> 'a \<Rightarrow> 'a" where
  "given new old = (case new of None \<Rightarrow> old | Some v \<Rightarrow> v)"

definition changed :: "'a option \<Rightarrow> 'a \<Rightarrow> bool" where
  "changed new old = (case new of None \<Rightarrow> False | Some v \<Rightarrow> v \<noteq> old)"

text \<open>\<open>COALESCE(column, datetime('now'))\<close>\<close>

definition since :: "instant option \<Rightarrow> instant \<Rightarrow> instant option" where
  "since old now = (case old of None \<Rightarrow> Some now | Some t \<Rightarrow> Some t)"

text \<open>Whether any column is in the UPDATE.\<close>

definition upsert_touches :: "ip_fields \<Rightarrow> ip_row \<Rightarrow> bool" where
  "upsert_touches f r =
     (changed (f_hostname f) (ip_hostname r) \<or> changed (f_mac_address f) (ip_mac_address r)
      \<or> f_is_online f \<noteq> None \<or> f_last_seen_mac f \<noteq> None \<or> f_is_rogue f \<noteq> None \<or> f_rogue_reason f \<noteq> None
      \<or> f_last_scanned_at f \<noteq> None \<or> f_detection_source f \<noteq> None
      \<or> changed (f_allocation_state f) (ip_allocation_state r)
      \<or> changed (f_allocation_source_type f) (ip_allocation_source_type r)
      \<or> changed (f_allocation_source_id f) (ip_allocation_source_id r)
      \<or> changed (f_preferred_until f) (ip_preferred_until r) \<or> changed (f_valid_until f) (ip_valid_until r)
      \<or> changed (f_dhcp_version f) (ip_dhcp_version r) \<or> changed (f_dhcp_duid f) (ip_dhcp_duid r)
      \<or> changed (f_dhcp_iaid f) (ip_dhcp_iaid r) \<or> changed (f_reservation_note f) (ip_reservation_note r)
      \<or> changed (f_scan_enabled f) (ip_scan_enabled r))"

definition set_liveness :: "bool option \<Rightarrow> instant \<Rightarrow> ip_row \<Rightarrow> ip_row" where
  "set_liveness online now r =
     (case online of
        None \<Rightarrow> r
      | Some True \<Rightarrow> r\<lparr>ip_is_online := True, ip_last_seen_at := Some now,
                        ip_first_seen_at := since (ip_first_seen_at r) now, ip_offline_since_at := None\<rparr>
      | Some False \<Rightarrow> r\<lparr>ip_is_online := False, ip_offline_since_at := since (ip_offline_since_at r) now\<rparr>)"

definition set_columns :: "ip_fields \<Rightarrow> ip_row \<Rightarrow> ip_row" where
  "set_columns f r =
     r\<lparr>ip_hostname := given (f_hostname f) (ip_hostname r),
       ip_mac_address := given (f_mac_address f) (ip_mac_address r),
       ip_last_seen_mac := given (f_last_seen_mac f) (ip_last_seen_mac r),
       ip_is_rogue := given (f_is_rogue f) (ip_is_rogue r),
       ip_rogue_reason := given (f_rogue_reason f) (ip_rogue_reason r),
       ip_last_scanned_at := given (f_last_scanned_at f) (ip_last_scanned_at r),
       ip_detection_source := given (f_detection_source f) (ip_detection_source r),
       ip_allocation_state := given (f_allocation_state f) (ip_allocation_state r),
       ip_allocation_source_type := given (f_allocation_source_type f) (ip_allocation_source_type r),
       ip_allocation_source_id := given (f_allocation_source_id f) (ip_allocation_source_id r),
       ip_preferred_until := given (f_preferred_until f) (ip_preferred_until r),
       ip_valid_until := given (f_valid_until f) (ip_valid_until r),
       ip_dhcp_version := given (f_dhcp_version f) (ip_dhcp_version r),
       ip_dhcp_duid := given (f_dhcp_duid f) (ip_dhcp_duid r),
       ip_dhcp_iaid := given (f_dhcp_iaid f) (ip_dhcp_iaid r),
       ip_reservation_note := given (f_reservation_note f) (ip_reservation_note r),
       ip_scan_enabled := given (f_scan_enabled f) (ip_scan_enabled r)\<rparr>"

definition upsert_row :: "ip_fields \<Rightarrow> instant \<Rightarrow> ip_row \<Rightarrow> ip_row" where
  "upsert_row f now r = (set_columns f (set_liveness (f_is_online f) now r))\<lparr>ip_updated_at := now\<rparr>"

definition upsert_events :: "ip_fields \<Rightarrow> ip_row \<Rightarrow> pending_event list" where
  "upsert_events f r =
     (case f_hostname f of Some h \<Rightarrow> if h \<noteq> ip_hostname r then [(HOSTNAME_CHANGED, ip_hostname r, h, None)] else []
        | None \<Rightarrow> [])
     @ (case f_mac_address f of Some m \<Rightarrow> if m \<noteq> ip_mac_address r then [(MAC_CHANGED, ip_mac_address r, m, None)] else []
        | None \<Rightarrow> [])
     @ (case f_is_online f of Some b \<Rightarrow> if b \<noteq> ip_is_online r then [(if b then ONLINE else OFFLINE, None, None, None)] else []
        | None \<Rightarrow> [])
     @ (case f_allocation_state f of
          Some s \<Rightarrow> if s \<noteq> ip_allocation_state r
                    then [allocationEvent (f_allocation_event f) (ip_allocation_state r) s] else []
        | None \<Rightarrow> [])"

text \<open>\<open>source: e.source ?? detection_source\<close>\<close>

definition emit_pending :: "nat \<Rightarrow> nat \<Rightarrow> string \<Rightarrow> string option \<Rightarrow> pending_event \<Rightarrow> db \<Rightarrow> db" where
  "emit_pending i subnetId ip detection e db =
     (case e of (type, old, new, source) \<Rightarrow>
        emit i subnetId ip type
          \<lparr>old_value = old, new_value = new, event_source = (if source \<noteq> None then source else detection)\<rparr> db)"

definition insert_row :: "nat \<Rightarrow> identity \<Rightarrow> ip_fields \<Rightarrow> instant \<Rightarrow> ip_row" where
  "insert_row subnetId identity f now =
     (let online = given (f_is_online f) False;
          mac = given (f_mac_address f) None;
          seen = given (f_last_seen_mac f) None;
          hasActivity = online \<or> truthy mac \<or> truthy seen
      in \<lparr>ip_id = 0, ip_subnet_id = subnetId, ip_address = id_ip identity, ip_interface_id = id_interface identity,
          ip_address_family = id_family identity, ip_address_sort_key = id_sort_key identity,
          ip_hostname = or_null (given (f_hostname f) None), ip_mac_address = or_null mac, ip_description = None,
          ip_is_online = online, ip_last_seen_at = (if online then Some now else None), ip_last_seen_mac = or_null seen,
          ip_first_seen_at = (if hasActivity then Some now else None), ip_offline_since_at = None,
          ip_last_scanned_at = given (f_last_scanned_at f) None, ip_scan_enabled = given (f_scan_enabled f) None,
          ip_is_rogue = given (f_is_rogue f) False, ip_rogue_reason = or_null (given (f_rogue_reason f) None),
          ip_detection_source = or_null (given (f_detection_source f) None),
          ip_allocation_state = given (f_allocation_state f) UNASSIGNED,
          ip_allocation_source_type = given (f_allocation_source_type f) None,
          ip_allocation_source_id = or_null_num (given (f_allocation_source_id f) None),
          ip_preferred_until = given (f_preferred_until f) None, ip_valid_until = given (f_valid_until f) None,
          ip_dhcp_version = or_null_num (given (f_dhcp_version f) None),
          ip_dhcp_duid = or_null (given (f_dhcp_duid f) None), ip_dhcp_iaid = given (f_dhcp_iaid f) None,
          ip_reservation_note = or_null (given (f_reservation_note f) None), ip_updated_at = now\<rparr>)"

text \<open>\<open>e.source || allocation_source_type || detection_source\<close>\<close>

definition insert_event_source :: "string option \<Rightarrow> ip_fields \<Rightarrow> string option" where
  "insert_event_source source f =
     (if truthy source then source
      else case given (f_allocation_source_type f) None of
             Some t \<Rightarrow> Some (source_text t)
           | None \<Rightarrow> given (f_detection_source f) None)"

definition upsert_existing :: "db \<Rightarrow> nat \<Rightarrow> string \<Rightarrow> ip_fields \<Rightarrow> ip_row \<Rightarrow> db" where
  "upsert_existing db subnetId ip f existing =
     (if upsert_touches f existing
      then fold (emit_pending (ip_id existing) subnetId ip (given (f_detection_source f) None)) (upsert_events f existing)
             (update_ips (\<lambda>r. ip_id r = ip_id existing) (upsert_row f (clock db)) db)
      else db)"

definition upsert_new :: "db \<Rightarrow> nat \<Rightarrow> identity \<Rightarrow> ip_fields \<Rightarrow> db \<times> nat" where
  "upsert_new db subnetId identity f =
     (case insert_ip (insert_row subnetId identity f (clock db)) db of (db1, i) \<Rightarrow>
        (case f_allocation_state f of
           None \<Rightarrow> (db1, i)
         | Some s \<Rightarrow>
             if s = UNASSIGNED then (db1, i)
             else case allocationEvent (f_allocation_event f) UNASSIGNED s of (type, old, new, source) \<Rightarrow>
               (emit i subnetId (id_ip identity) type
                  \<lparr>old_value = old, new_value = new, event_source = insert_event_source source f\<rparr> db1, i)))"

definition upsert :: "db \<Rightarrow> nat \<Rightarrow> string \<Rightarrow> ip_fields \<Rightarrow> nat outcome" where
  "upsert db subnetId ip f =
     (case canonicalIdentity ip (f_interface_id f) of
        Inl e \<Rightarrow> (db, Inl e)
      | Inr identity \<Rightarrow>
          (case find_identity db subnetId (id_ip identity) (id_interface identity) of
             Some existing \<Rightarrow> (upsert_existing db subnetId (id_ip identity) f existing, Inr (ip_id existing))
           | None \<Rightarrow> (case upsert_new db subnetId identity f of (db1, i) \<Rightarrow> (db1, Inr i))))"

section \<open>Liveness\<close>

definition seen_online :: "string option \<Rightarrow> string option \<Rightarrow> instant \<Rightarrow> ip_row \<Rightarrow> ip_row" where
  "seen_online mac source now r =
     r\<lparr>ip_is_online := True, ip_last_seen_at := Some now, ip_first_seen_at := since (ip_first_seen_at r) now,
       ip_offline_since_at := None, ip_updated_at := now,
       ip_last_seen_mac := (if truthy mac then mac else ip_last_seen_mac r),
       ip_detection_source := (if truthy source then source else ip_detection_source r)\<rparr>"

definition markOnline :: "db \<Rightarrow> nat \<Rightarrow> string \<Rightarrow> string option \<Rightarrow> string option \<Rightarrow> db \<times> nat" where
  "markOnline db subnetId ip mac source =
     (case find_at db subnetId ip of
        None \<Rightarrow> (db, 0)
      | Some existing \<Rightarrow>
          let db1 = update_ips (\<lambda>r. ip_id r = ip_id existing) (seen_online mac source (clock db)) db
          in (if \<not> ip_is_online existing
              then emit (ip_id existing) subnetId ip ONLINE (no_args\<lparr>event_source := source\<rparr>) db1 else db1, 1))"

definition addressClaim :: "ip_row option \<Rightarrow> bool" where
  "addressClaim row = (case row of None \<Rightarrow> False | Some r \<Rightarrow> ip_allocation_state r \<noteq> UNASSIGNED)"

definition isAdminDeclared :: "ip_row option \<Rightarrow> bool" where
  "isAdminDeclared row =
     (case row of None \<Rightarrow> False
      | Some r \<Rightarrow> ip_allocation_state r \<in> {RESERVED, STATIC_DNS, STATIC_DHCP, SYSTEM, GATEWAY})"

definition PASSIVE_ROGUE_REASON :: string where
  "PASSIVE_ROGUE_REASON = ''passive DNS query from unassigned address''"

definition recordPassiveActivity ::
  "db \<Rightarrow> nat \<Rightarrow> string \<Rightarrow> string option \<Rightarrow> string \<Rightarrow> bool \<Rightarrow> string \<Rightarrow> nat outcome" where
  "recordPassiveActivity db subnetId ip mac source createRogue rogueReason =
     (let existing = find_at db subnetId ip; claimed = addressClaim existing in
      if existing \<noteq> None then (case markOnline db subnetId ip mac (Some source) of (db1, n) \<Rightarrow> (db1, Inr n))
      else if \<not> createRogue \<and> \<not> claimed then (db, Inr 0)
      else let isRogue = createRogue \<and> \<not> claimed in
        andThen (upsert db subnetId ip
            (no_fields\<lparr>f_is_online := Some True, f_last_seen_mac := Some (or_null mac), f_is_rogue := Some isRogue,
               f_rogue_reason := Some (if isRogue then Some rogueReason else None), f_detection_source := Some (Some source),
               f_allocation_state := Some UNASSIGNED, f_allocation_source_type := Some None\<rparr>))
          (\<lambda>db1 newId.
             let db2 = emit newId subnetId ip ONLINE (from_source source) db1 in
             (if isRogue then emit newId subnetId ip ROGUE_DETECTED
                  \<lparr>old_value = None, new_value = Some rogueReason, event_source = Some source\<rparr> db2 else db2, Inr 1)))"

definition gone_offline :: "instant \<Rightarrow> ip_row \<Rightarrow> ip_row" where
  "gone_offline now r =
     r\<lparr>ip_is_online := False, ip_is_rogue := False, ip_offline_since_at := since (ip_offline_since_at r) now,
       ip_updated_at := now\<rparr>"

definition markOffline :: "db \<Rightarrow> nat \<Rightarrow> string \<Rightarrow> db \<times> nat" where
  "markOffline db subnetId ip =
     (case find_at db subnetId ip of
        None \<Rightarrow> (db, 0)
      | Some existing \<Rightarrow>
          let db1 = (if ip_is_online existing then emit (ip_id existing) subnetId ip OFFLINE no_args db else db);
              db2 = (if ip_is_rogue existing then emit (ip_id existing) subnetId ip ROGUE_CLEARED (from_source ''offline'') db1
                     else db1)
          in (update_ips (\<lambda>r. ip_id r = ip_id existing) (gone_offline (clock db)) db2, 1))"

text \<open>\<open>last_seen_at < datetime('now', '-n minutes')\<close>\<close>

definition seen_before :: "ip_row \<Rightarrow> instant \<Rightarrow> nat \<Rightarrow> bool" where
  "seen_before r now minutes =
     (case ip_last_seen_at r of None \<Rightarrow> False | Some t \<Rightarrow> int t < int now - int minutes * 60)"

definition stale_ips :: "db \<Rightarrow> nat \<Rightarrow> cidr_error + ip_row list" where
  "stale_ips db staleMinutes =
     efilter (\<lambda>r. case find_subnet db (ip_subnet_id r) of Some s \<Rightarrow> sweepable db s r | None \<Rightarrow> Inr False)
       (filter (\<lambda>r. find_subnet db (ip_subnet_id r) \<noteq> None \<and> ip_is_online r \<and> seen_before r (clock db) staleMinutes)
          (ip_addresses db))"

definition emit_stale :: "ip_row \<Rightarrow> db \<Rightarrow> db" where
  "emit_stale r db =
     (let db1 = emit (ip_id r) (ip_subnet_id r) (ip_address r) OFFLINE (from_source ''stale'') db in
      if ip_is_rogue r then emit (ip_id r) (ip_subnet_id r) (ip_address r) ROGUE_CLEARED (from_source ''stale'') db1 else db1)"

definition bulkMarkStale :: "db \<Rightarrow> nat \<Rightarrow> nat outcome" where
  "bulkMarkStale db staleMinutes =
     (case stale_ips db staleMinutes of
        Inl e \<Rightarrow> (db, Inl (AddressError e))
      | Inr staleIps \<Rightarrow>
          (fold (\<lambda>r. update_ips (\<lambda>q. ip_id q = ip_id r) (gone_offline (clock db))) staleIps (fold emit_stale staleIps db),
           Inr (length staleIps)))"

section \<open>Retirement\<close>

definition HOLDS_LEASE_RECORD_SQL :: "db \<Rightarrow> ip_row \<Rightarrow> bool" where
  "HOLDS_LEASE_RECORD_SQL db r =
     list_ex (\<lambda>lr. rec_source lr = Some ''dhcp'' \<and> rec_type lr \<in> {''A'', ''AAAA''} \<and> rec_value lr = ip_address r)
       (dns_records db)"

definition LEARNED_SOURCES :: "string list" where
  "LEARNED_SOURCES = [''dhcp_lease'', ''slaac'', ''scanner'', ''passive'', ''neighbor_discovery'']"

definition learned_by :: "ip_row \<Rightarrow> bool" where
  "learned_by r = (case ip_detection_source r of None \<Rightarrow> False | Some s \<Rightarrow> s \<in> set LEARNED_SOURCES)"

definition enabled_reservation :: "db \<Rightarrow> nat \<Rightarrow> string \<Rightarrow> bool" where
  "enabled_reservation db subnetId ip =
     list_ex (\<lambda>dr. rsv_subnet_id dr = subnetId \<and> rsv_ip_address dr = ip \<and> rsv_enabled dr) (dhcp_reservations db)"

text \<open>\<open>COALESCE(r.source, 'manual') = 'manual'\<close>\<close>

definition manual_source :: "record_row \<Rightarrow> bool" where
  "manual_source r = (rec_source r = None \<or> rec_source r = Some ''manual'')"

text \<open>An enabled manual A or AAAA record in an enabled forward zone, joined with its zone.\<close>

definition served_manual :: "db \<Rightarrow> record_row \<Rightarrow> bool" where
  "served_manual db r =
     (rec_type r \<in> {''A'', ''AAAA''} \<and> rec_enabled r \<and> manual_source r
      \<and> (case find_zone db (rec_zone_id r) of
           Some z \<Rightarrow> zone_enabled z \<and> zone_type z = FORWARD | None \<Rightarrow> False))"

definition retirement_candidate :: "db \<Rightarrow> instant \<Rightarrow> instant \<Rightarrow> ip_row \<Rightarrow> bool" where
  "retirement_candidate db cutoff now r =
     (\<not> ip_is_online r
      \<and> (case ip_offline_since_at r of None \<Rightarrow> False | Some t \<Rightarrow> t \<le> cutoff)
      \<and> (ip_allocation_state r = DYNAMIC_DHCP
         \<or> ip_allocation_state r = SLAAC \<and> (case ip_valid_until r of None \<Rightarrow> False | Some t \<Rightarrow> t \<le> now)
         \<or> ip_allocation_state r = UNASSIGNED
           \<and> \<not> enabled_reservation db (ip_subnet_id r) (ip_address r)
           \<and> \<not> list_ex (\<lambda>rec. served_manual db rec \<and> rec_value rec = ip_address r) (dns_records db)
           \<and> (ip_is_rogue r \<or> learned_by r \<or> HOLDS_LEASE_RECORD_SQL db r)))"

definition findRetirementCandidates :: "db \<Rightarrow> instant \<Rightarrow> instant \<Rightarrow> nat \<Rightarrow> ip_row list" where
  "findRetirementCandidates db cutoff now limit =
     take limit (sort_key (\<lambda>r. (case ip_offline_since_at r of None \<Rightarrow> 0 | Some t \<Rightarrow> t, ip_id r))
       (filter (retirement_candidate db cutoff now) (ip_addresses db)))"

definition missing_window :: "db \<Rightarrow> ip_row \<Rightarrow> bool" where
  "missing_window db r =
     (\<not> ip_is_online r \<and> ip_offline_since_at r = None
      \<and> (ip_allocation_state r \<in> {DYNAMIC_DHCP, SLAAC} \<or> ip_is_rogue r \<or> learned_by r \<or> HOLDS_LEASE_RECORD_SQL db r))"

definition startMissingRetirementWindows :: "db \<Rightarrow> instant \<Rightarrow> db \<times> nat" where
  "startMissingRetirementWindows db now =
     (update_ips (missing_window db) (\<lambda>r. r\<lparr>ip_offline_since_at := Some now, ip_updated_at := clock db\<rparr>) db,
      length (filter (missing_window db) (ip_addresses db)))"

definition retired_row :: "instant \<Rightarrow> ip_row \<Rightarrow> ip_row" where
  "retired_row now r =
     r\<lparr>ip_hostname := None, ip_mac_address := None, ip_last_seen_mac := None, ip_last_seen_at := None,
       ip_first_seen_at := None, ip_last_scanned_at := None, ip_offline_since_at := None, ip_detection_source := None,
       ip_is_rogue := False, ip_rogue_reason := None, ip_allocation_state := UNASSIGNED,
       ip_allocation_source_type := None, ip_allocation_source_id := None, ip_preferred_until := None,
       ip_valid_until := None, ip_dhcp_version := None, ip_dhcp_duid := None, ip_dhcp_iaid := None, ip_updated_at := now\<rparr>"

definition has_learned :: "ip_row \<Rightarrow> bool" where
  "has_learned r =
     (ip_allocation_state r \<noteq> UNASSIGNED \<or> ip_is_rogue r \<or> truthy (ip_hostname r) \<or> truthy (ip_mac_address r)
      \<or> truthy (ip_last_seen_mac r) \<or> ip_last_seen_at r \<noteq> None)"

definition retireLearnedMetadata :: "db \<Rightarrow> ip_row \<Rightarrow> db" where
  "retireLearnedMetadata db row =
     (let db1 = (if ip_is_rogue row
                 then emit (ip_id row) (ip_subnet_id row) (ip_address row) ROGUE_CLEARED (from_source ''retirement'') db else db);
          db2 = update_ips (\<lambda>r. ip_id r = ip_id row) (retired_row (clock db)) db1
      in if has_learned row
         then emit (ip_id row) (ip_subnet_id row) (ip_address row) RETIRED
                \<lparr>old_value = Some (alloc_text (ip_allocation_state row)), new_value = Some ''unassigned'',
                 event_source = Some ''retirement''\<rparr> db2
         else db2)"

section \<open>Rogue state\<close>

definition at_address :: "nat \<Rightarrow> string \<Rightarrow> ip_row \<Rightarrow> bool" where
  "at_address subnetId ip r = (ip_subnet_id r = subnetId \<and> ip_address r = ip)"

definition setRogue :: "db \<Rightarrow> nat \<Rightarrow> string \<Rightarrow> string \<Rightarrow> db" where
  "setRogue db subnetId ip reason =
     (let db1 = update_ips (at_address subnetId ip)
                  (\<lambda>r. r\<lparr>ip_is_rogue := True, ip_rogue_reason := Some reason, ip_updated_at := clock db\<rparr>) db
      in case find_at db subnetId ip of
           None \<Rightarrow> db1
         | Some existing \<Rightarrow> emit (ip_id existing) subnetId ip ROGUE_DETECTED
             \<lparr>old_value = None, new_value = Some reason, event_source = Some ''scanner''\<rparr> db1)"

definition rogue_off :: "instant \<Rightarrow> ip_row \<Rightarrow> ip_row" where
  "rogue_off now r = r\<lparr>ip_is_rogue := False, ip_rogue_reason := None, ip_updated_at := now\<rparr>"

definition clearRogue :: "db \<Rightarrow> nat \<Rightarrow> string \<Rightarrow> db" where
  "clearRogue db subnetId ip =
     (case find_at db subnetId ip of
        None \<Rightarrow> db
      | Some existing \<Rightarrow>
          if \<not> ip_is_rogue existing then db
          else emit (ip_id existing) subnetId ip ROGUE_CLEARED no_args (update_ips (at_address subnetId ip) (rogue_off (clock db)) db))"

definition clearRogueAfterScan :: "db \<Rightarrow> nat \<Rightarrow> string list \<Rightarrow> string list \<Rightarrow> db \<times> nat" where
  "clearRogueAfterScan db subnetId probedIps exceptIps =
     (let rows = filter (\<lambda>r. ip_subnet_id r = subnetId \<and> ip_is_rogue r
                   \<and> ip_address r \<in> set probedIps \<and> ip_address r \<notin> set exceptIps) (ip_addresses db)
      in (fold (\<lambda>row d. update_ips (\<lambda>r. ip_id r = ip_id row) (rogue_off (clock db))
                   (emit (ip_id row) subnetId (ip_address row) ROGUE_CLEARED (from_source ''scan'') d)) rows db,
          length rows))"

section \<open>Deleting and moving rows\<close>

text \<open>\<open>lower(column) = ?\<close>\<close>

definition lower_is :: "string option \<Rightarrow> string \<Rightarrow> bool" where
  "lower_is v s = (case v of None \<Rightarrow> False | Some m \<Rightarrow> sql_lower m = s)"

definition superseded :: "db \<Rightarrow> nat \<Rightarrow> string \<Rightarrow> string \<Rightarrow> ip_row \<Rightarrow> bool" where
  "superseded db subnetId ip normalizedMac r =
     ((lower_is (ip_mac_address r) normalizedMac \<or> lower_is (ip_last_seen_mac r) normalizedMac)
      \<and> \<not> (ip_subnet_id r = subnetId \<and> ip_address r = ip)
      \<and> ip_allocation_state r = DYNAMIC_DHCP
      \<and> \<not> enabled_reservation db (ip_subnet_id r) (ip_address r)
      \<and> \<not> list_ex (\<lambda>l. lease_subnet_id l = Some (ip_subnet_id r) \<and> lease_ip_address l = ip_address r \<and> activeLeaseSql db l)
            (dhcp_leases db))"

definition removeOtherRowsForMac :: "db \<Rightarrow> nat \<Rightarrow> string \<Rightarrow> string option \<Rightarrow> db" where
  "removeOtherRowsForMac db subnetId ip mac =
     (if \<not> truthy mac then db else delete_ips (superseded db subnetId ip (toLowerCase (coalesce mac))) db)"

definition deleteByIds :: "db \<Rightarrow> nat list \<Rightarrow> db \<times> nat" where
  "deleteByIds db ids =
     (delete_ips (\<lambda>r. ip_id r \<in> set ids) db, length (filter (\<lambda>r. ip_id r \<in> set ids) (ip_addresses db)))"

definition deleteById :: "db \<Rightarrow> nat option \<Rightarrow> db \<times> nat" where
  "deleteById db i = (case i of None \<Rightarrow> (db, 0) | Some j \<Rightarrow> deleteByIds db [j])"

definition deleteBySubnet :: "db \<Rightarrow> nat \<Rightarrow> db" where
  "deleteBySubnet db subnetId = delete_ips (\<lambda>r. ip_subnet_id r = subnetId) db"

definition deleteByIpAddress :: "db \<Rightarrow> string \<Rightarrow> db" where
  "deleteByIpAddress db ip = delete_ips (\<lambda>r. ip_address r = ip) db"

text \<open>The unique index over \<open>(subnet_id, ip_address, COALESCE(interface_id, ''))\<close> refuses an UPDATE that
  would give two rows one identity.\<close>

definition identity_of :: "ip_row \<Rightarrow> nat \<times> string \<times> string" where
  "identity_of r = (ip_subnet_id r, ip_address r, coalesce (ip_interface_id r))"

definition moveToSubnet :: "db \<Rightarrow> nat \<Rightarrow> string \<Rightarrow> nat \<Rightarrow> unit outcome" where
  "moveToSubnet db i ip targetSubnetId =
     (let db1 = (case find_at db targetSubnetId ip of
                   None \<Rightarrow> db
                 | Some dup \<Rightarrow> if ip_id dup \<noteq> i then fst (deleteById db (Some (ip_id dup))) else db);
          db2 = update_ips (\<lambda>r. ip_id r = i) (\<lambda>r. r\<lparr>ip_subnet_id := targetSubnetId, ip_updated_at := clock db\<rparr>) db1
      in if \<not> distinct (map identity_of (ip_addresses db2))
         then (db1, Inl (SqliteError ''UNIQUE constraint failed: index idx_ip_addresses_identity''))
         else (moveEventsToSubnet db2 i targetSubnetId, Inr ()))"

section \<open>Creating rows\<close>

definition ensureAddress :: "db \<Rightarrow> nat \<Rightarrow> string \<Rightarrow> ip_fields \<Rightarrow> (nat \<times> nat) outcome" where
  "ensureAddress db subnetId ip f =
     (case canonicalIdentity ip None of
        Inl e \<Rightarrow> (db, Inl e)
      | Inr identity \<Rightarrow>
          (case find_at db subnetId (id_ip identity) of
             Some existing \<Rightarrow> (db, Inr (0, ip_id existing))
           | None \<Rightarrow> andThen (upsert db subnetId (id_ip identity) f) (\<lambda>db1 i. (db1, Inr (1, i)))))"

fun ensureAddresses :: "db \<Rightarrow> nat \<Rightarrow> (string \<times> ip_fields) list \<Rightarrow> nat outcome" where
  "ensureAddresses db subnetId [] = (db, Inr 0)"
| "ensureAddresses db subnetId (entry # entries) =
     andThen (ensureAddress db subnetId (fst entry) (snd entry)) (\<lambda>db1 r.
       andThen (ensureAddresses db1 subnetId entries) (\<lambda>db2 n. (db2, Inr (fst r + n))))"

section \<open>Scan results\<close>

record scan_result =
  responded :: bool
  scan_mac :: "string option"
  isConflict :: bool
  conflictReason :: "string option"

definition seen_since_scan :: "ip_row \<Rightarrow> bool" where
  "seen_since_scan r =
     (case (ip_last_seen_at r, ip_last_scanned_at r) of (Some seen, Some scanned) \<Rightarrow> seen > scanned | _ \<Rightarrow> False)"

definition storedMac :: "ip_row \<Rightarrow> string" where
  "storedMac r = (if truthy (ip_mac_address r) then toLowerCase (coalesce (ip_mac_address r)) else [])"

definition macReplaced :: "string option \<Rightarrow> ip_row \<Rightarrow> bool" where
  "macReplaced mac r =
     (truthy mac \<and> storedMac r \<noteq> [] \<and> storedMac r \<noteq> toLowerCase (coalesce mac)
      \<and> \<not> macIsAuthoritative (ip_allocation_state r))"

definition scan_online :: "scan_result \<Rightarrow> ip_row \<Rightarrow> bool" where
  "scan_online s r = (responded s \<or> ip_is_online r \<and> seen_since_scan r)"

text \<open>The UPDATE of a probed row. A column that is set twice takes its last assignment.\<close>

definition scanned_row :: "scan_result \<Rightarrow> bool \<Rightarrow> string option \<Rightarrow> instant \<Rightarrow> ip_row \<Rightarrow> ip_row" where
  "scanned_row s conflict reason now r =
     (let online = scan_online s r;
          r1 = r\<lparr>ip_is_online := online, ip_last_scanned_at := Some now, ip_updated_at := now,
                 ip_detection_source :=
                   (if responded s then Some (case ip_detection_source r of Some d \<Rightarrow> d | None \<Rightarrow> ''scanner'')
                    else ip_detection_source r)\<rparr>;
          r2 = (if responded s
                then r1\<lparr>ip_last_seen_at := Some now, ip_first_seen_at := since (ip_first_seen_at r) now,
                        ip_offline_since_at := None\<rparr>
                else if \<not> online then r1\<lparr>ip_offline_since_at := since (ip_offline_since_at r) now\<rparr>
                else r1);
          r3 = (if truthy (scan_mac s)
                then r2\<lparr>ip_last_seen_mac := scan_mac s,
                        ip_mac_address := (if storedMac r = [] \<or> macReplaced (scan_mac s) r then scan_mac s
                                           else ip_mac_address r)\<rparr>
                else r2)
      in if responded s
         then (let r4 = r3\<lparr>ip_is_rogue := conflict, ip_rogue_reason := (if conflict then reason else None)\<rparr> in
               if conflict \<and> ip_detection_source r = Some ''dhcp_lease''
               then r4\<lparr>ip_hostname := None, ip_detection_source := Some ''scanner''\<rparr> else r4)
         else r3\<lparr>ip_is_rogue := False, ip_rogue_reason := None\<rparr>)"

definition scan_events :: "scan_result \<Rightarrow> bool \<Rightarrow> string option \<Rightarrow> nat \<Rightarrow> string \<Rightarrow> ip_row \<Rightarrow> db \<Rightarrow> db" where
  "scan_events s conflict reason subnetId ip r db =
     (let i = ip_id r;
          db1 = (if responded s \<and> \<not> ip_is_online r then emit i subnetId ip ONLINE (from_source ''scanner'') db
                 else if \<not> scan_online s r \<and> ip_is_online r then emit i subnetId ip OFFLINE (from_source ''scanner'') db
                 else db);
          db2 = (if macReplaced (scan_mac s) r
                 then emit i subnetId ip MAC_CHANGED
                        \<lparr>old_value = ip_mac_address r, new_value = scan_mac s, event_source = Some ''scanner''\<rparr> db1
                 else db1)
      in if conflict \<and> \<not> ip_is_rogue r
         then emit i subnetId ip ROGUE_DETECTED \<lparr>old_value = None, new_value = reason, event_source = Some ''scanner''\<rparr> db2
         else if \<not> conflict \<and> ip_is_rogue r
         then emit i subnetId ip ROGUE_CLEARED (from_source ''scanner'') db2
         else db2)"

definition updateFromScan :: "db \<Rightarrow> nat \<Rightarrow> string \<Rightarrow> scan_result \<Rightarrow> unit outcome" where
  "updateFromScan db subnetId ip s =
     (let existing = find_at db subnetId ip;
          overruled = (isConflict s \<and> addressClaim existing);
          effectiveConflict = (isConflict s \<and> \<not> overruled);
          effectiveReason = (if overruled then None else conflictReason s)
      in case existing of
           Some r \<Rightarrow>
             (scan_events s effectiveConflict effectiveReason subnetId ip r
                (update_ips (\<lambda>q. ip_id q = ip_id r) (scanned_row s effectiveConflict effectiveReason (clock db)) db), Inr ())
         | None \<Rightarrow>
             if responded s
             then andThen (upsert db subnetId ip
                    (no_fields\<lparr>f_is_online := Some True, f_last_seen_mac := Some (or_null (scan_mac s)),
                       f_mac_address := Some (or_null (scan_mac s)), f_is_rogue := Some effectiveConflict,
                       f_rogue_reason := Some (if effectiveConflict then effectiveReason else None),
                       f_last_scanned_at := Some (Some (clock db)), f_detection_source := Some (Some ''scanner'')\<rparr>))
                  (\<lambda>db1 newId.
                     let db2 = emit newId subnetId ip ONLINE (from_source ''scanner'') db1 in
                     (if effectiveConflict
                      then emit newId subnetId ip ROGUE_DETECTED
                             \<lparr>old_value = None, new_value = effectiveReason, event_source = Some ''scanner''\<rparr> db2
                      else db2, Inr ()))
             else (db, Inr ()))"

definition scan_label :: "bool option \<Rightarrow> string" where
  "scan_label v = (case v of Some True \<Rightarrow> ''enabled'' | Some False \<Rightarrow> ''disabled'' | None \<Rightarrow> ''inherit'')"

definition set_scan :: "bool option \<Rightarrow> instant \<Rightarrow> ip_row \<Rightarrow> ip_row" where
  "set_scan v now r = r\<lparr>ip_scan_enabled := v, ip_updated_at := now\<rparr>"

definition setScanEnabled :: "db \<Rightarrow> nat \<Rightarrow> string \<Rightarrow> bool option \<Rightarrow> unit outcome" where
  "setScanEnabled db subnetId ip scanEnabled =
     (case find_at db subnetId ip of
        Some existing \<Rightarrow>
          let db1 = update_ips (\<lambda>r. ip_id r = ip_id existing) (set_scan scanEnabled (clock db)) db;
              oldLabel = scan_label (ip_scan_enabled existing); newLabel = scan_label scanEnabled
          in (if oldLabel \<noteq> newLabel
              then emit (ip_id existing) subnetId ip SCAN_ENABLED_CHANGED
                     \<lparr>old_value = Some oldLabel, new_value = Some newLabel, event_source = Some ''manual''\<rparr> db1
              else db1, Inr ())
      | None \<Rightarrow>
          andThen (upsert db subnetId ip no_fields) (\<lambda>db1 newId.
            (emit newId subnetId ip SCAN_ENABLED_CHANGED
               \<lparr>old_value = None, new_value = Some (scan_label scanEnabled), event_source = Some ''manual''\<rparr>
               (update_ips (\<lambda>r. ip_id r = newId) (set_scan scanEnabled (clock db)) db1), Inr ())))"

definition emitEvent :: "db \<Rightarrow> nat \<Rightarrow> string \<Rightarrow> event_type \<Rightarrow> event_args \<Rightarrow> db" where
  "emitEvent db subnetId ip eventType args =
     (case find_at db subnetId ip of None \<Rightarrow> db | Some existing \<Rightarrow> emit (ip_id existing) subnetId ip eventType args db)"

definition findBySubnetAndIp :: "db \<Rightarrow> nat \<Rightarrow> string \<Rightarrow> lc_error + ip_row option" where
  "findBySubnetAndIp db subnetId ip =
     ebind (canonicalIdentity ip None) (\<lambda>identity. Inr (find_identity db subnetId (id_ip identity) (id_interface identity)))"

end
