(* ===== verification/AddressStore.thy ===== *)
theory AddressStore
  imports IpAddress
begin

text \<open>
  What the operations of the address model keep: unique keys, one row per canonical identity, an
  offline window only on a row that is offline, an append-only history, and every table but the
  two the model owns. Then what single operations do: \<open>upsert\<close>, the scan update, the staleness
  sweep and retirement.
\<close>

section \<open>Frames\<close>

text \<open>Everything the address model does not own.\<close>

definition env :: "db \<Rightarrow> db" where
  "env db = db\<lparr>ip_addresses := [], ip_events := [], next_ip_id := 0, next_event_id := 0\<rparr>"

lemma env_projections:
  assumes "env db' = env db"
  shows "subnets db' = subnets db" "dns_zones db' = dns_zones db" "dns_records db' = dns_records db"
    "dhcp_reservations db' = dhcp_reservations db" "dhcp_leases db' = dhcp_leases db" "dhcp_scopes db' = dhcp_scopes db"
    "dhcp_scope_pools db' = dhcp_scope_pools db" "settings db' = settings db" "next_record_id db' = next_record_id db"
    "clock db' = clock db" "actor db' = actor db"
  using arg_cong [OF assms, of subnets] arg_cong [OF assms, of dns_zones] arg_cong [OF assms, of dns_records]
    arg_cong [OF assms, of dhcp_reservations] arg_cong [OF assms, of dhcp_leases] arg_cong [OF assms, of dhcp_scopes]
    arg_cong [OF assms, of dhcp_scope_pools] arg_cong [OF assms, of settings] arg_cong [OF assms, of next_record_id]
    arg_cong [OF assms, of clock] arg_cong [OF assms, of actor]
  by (simp_all add: env_def)

text \<open>A step that only appends to the history.\<close>

definition only_events :: "db \<Rightarrow> db \<Rightarrow> bool" where
  "only_events db db' \<longleftrightarrow> ip_addresses db' = ip_addresses db \<and> next_ip_id db' = next_ip_id db \<and> env db' = env db
     \<and> (\<exists>es. ip_events db' = ip_events db @ es)"

lemma only_events_refl [simp]: "only_events db db"
  by (simp add: only_events_def)

lemma only_events_trans: "only_events a b \<Longrightarrow> only_events b c \<Longrightarrow> only_events a c"
  by (auto simp: only_events_def)

lemma only_events_insertEvent [simp]: "only_events db (insertEvent i s ip iface t a db)"
  by (simp add: only_events_def insertEvent_def env_def)

lemma only_events_emit [simp]: "only_events db (emit i s ip t a db)"
  by (simp add: emit_def Let_def)

lemma only_events_emit_pending [simp]: "only_events db (emit_pending i s ip d e db)"
  by (simp add: emit_pending_def split: prod.splits)

lemma only_events_fold:
  "(\<And>x db. only_events db (f x db)) \<Longrightarrow> only_events db (fold f xs db)"
  by (induction xs arbitrary: db) (auto intro: only_events_trans)

lemma only_events_fold_pending [simp]: "only_events db (fold (emit_pending i s ip d) es db)"
  by (simp add: only_events_fold)

lemma only_eventsD:
  assumes "only_events db db'"
  shows "ip_addresses db' = ip_addresses db" "next_ip_id db' = next_ip_id db" "env db' = env db" "clock db' = clock db"
  subgoal using assms by (simp add: only_events_def)
  subgoal using assms by (simp add: only_events_def)
  subgoal using assms by (simp add: only_events_def)
  subgoal using assms by (intro env_projections(10)) (simp add: only_events_def)
  done

lemmas emit_rows [simp] =
  only_eventsD [OF only_events_insertEvent] only_eventsD [OF only_events_emit]
  only_eventsD [OF only_events_emit_pending] only_eventsD [OF only_events_fold_pending]

lemma update_ips_simps [simp]:
  "ip_addresses (update_ips P f db) = map (\<lambda>r. if P r then f r else r) (ip_addresses db)"
  "ip_events (update_ips P f db) = ip_events db" "next_ip_id (update_ips P f db) = next_ip_id db"
  "env (update_ips P f db) = env db" "clock (update_ips P f db) = clock db"
  by (simp_all add: update_ips_def env_def)

lemma delete_ips_simps [simp]:
  "ip_addresses (delete_ips P db) = filter (\<lambda>r. \<not> P r) (ip_addresses db)"
  "ip_events (delete_ips P db) = ip_events db" "next_ip_id (delete_ips P db) = next_ip_id db"
  "env (delete_ips P db) = env db" "clock (delete_ips P db) = clock db"
  by (simp_all add: delete_ips_def env_def)

section \<open>Identity\<close>

lemma or_null_simps [simp]: "or_null None = None" "or_null (Some s) = (if s = [] then None else Some s)"
  by (simp_all add: or_null_def)

lemma interface_chars: "INTERFACE_RE s \<Longrightarrow> trim s = s \<and> s \<noteq> []"
proof -
  assume "INTERFACE_RE s"
  then have l: "list_all (\<lambda>c. is_alnum c \<or> c \<in> set ''._:-'') s" and ne: "s \<noteq> []"
    by (auto simp: INTERFACE_RE_def)
  have "\<not> is_space c" if "is_alnum c \<or> c \<in> set ''._:-''" for c
    using that by (auto simp: is_alnum_def is_alpha_def is_digit_def is_space_def)
  with l have "list_all (\<lambda>c. \<not> is_space c) s" by (auto simp: list_all_iff)
  with ne show ?thesis by (simp add: trim_id)
qed

text \<open>The parts of a successful identity.\<close>

lemma canonicalIdentity_Inr:
  assumes "canonicalIdentity ip iface = Inr d"
  obtains p where "parseIp ip = Some p" "id_ip d = formatIp (ip_value p) (ip_bits p)"
    "id_family d = (if ip_bits p = 32 then 4 else 6)" "id_sort_key d = sortKey (id_ip d)"
    "isV6LinkLocal p \<longleftrightarrow> id_interface d \<noteq> None" "\<And>s. id_interface d = Some s \<Longrightarrow> INTERFACE_RE s"
proof (cases "parseIp ip")
  case None
  with assms show ?thesis by (simp add: canonicalIdentity_def)
next
  case (Some p)
  then show ?thesis
    using assms that [of p]
    by (auto simp: canonicalIdentity_def Let_def canonicalizeIp_def split: if_splits option.splits)
qed

lemma canonicalIdentity_intro:
  assumes "parseIp ip = Some p" "ip_zoneId p = None" "isV6LinkLocal p \<longleftrightarrow> iface \<noteq> None"
    and "\<And>s. iface = Some s \<Longrightarrow> INTERFACE_RE s"
  shows "canonicalIdentity ip iface = Inr \<lparr>id_ip = formatIp (ip_value p) (ip_bits p),
     id_family = (if ip_bits p = 32 then 4 else 6), id_sort_key = sortKey (formatIp (ip_value p) (ip_bits p)),
     id_interface = iface\<rparr>"
proof -
  have "trim_or_null iface = iface"
    using assms(4) interface_chars by (cases iface) (auto simp: trim_or_null_def)
  then show ?thesis
    using assms by (cases iface) (auto simp: canonicalIdentity_def Let_def canonicalizeIp_def trim_or_null_def)
qed

lemma canonicalIdentity_fixpoint:
  assumes "canonicalIdentity ip iface = Inr d"
  shows "canonicalIdentity (id_ip d) (id_interface d) = Inr d"
proof -
  obtain p where p: "parseIp ip = Some p" "id_ip d = formatIp (ip_value p) (ip_bits p)"
    "id_family d = (if ip_bits p = 32 then 4 else 6)" "id_sort_key d = sortKey (id_ip d)"
    "isV6LinkLocal p \<longleftrightarrow> id_interface d \<noteq> None" "\<And>s. id_interface d = Some s \<Longrightarrow> INTERFACE_RE s"
    using canonicalIdentity_Inr [OF assms] by blast
  let ?q = "\<lparr>ip_value = ip_value p, ip_bits = ip_bits p, ip_zoneId = None\<rparr>"
  have q: "parseIp (id_ip d) = Some ?q"
    unfolding p(2) by (rule parseIp_format [OF parseIp_valid [OF p(1)]])
  have "isV6LinkLocal ?q \<longleftrightarrow> id_interface d \<noteq> None"
    using p(5) by (simp add: isV6LinkLocal_def)
  from canonicalIdentity_intro [OF q _ this] p(6)
  show ?thesis using p by (cases d) simp
qed

section \<open>The table invariant\<close>

text \<open>A row's identity is its own canonical identity; an online row has no offline window.\<close>

definition identity_ok :: "ip_row \<Rightarrow> bool" where
  "identity_ok r \<longleftrightarrow> canonicalIdentity (ip_address r) (ip_interface_id r)
     = Inr \<lparr>id_ip = ip_address r, id_family = ip_address_family r, id_sort_key = ip_address_sort_key r,
            id_interface = ip_interface_id r\<rparr>"

definition liveness_ok :: "ip_row \<Rightarrow> bool" where
  "liveness_ok r \<longleftrightarrow> (ip_is_online r \<longrightarrow> ip_offline_since_at r = None)"

definition table_ok :: "db \<Rightarrow> bool" where
  "table_ok db \<longleftrightarrow> distinct (map ip_id (ip_addresses db)) \<and> (\<forall>r \<in> set (ip_addresses db). ip_id r < next_ip_id db)
     \<and> distinct (map identity_of (ip_addresses db)) \<and> (\<forall>r \<in> set (ip_addresses db). identity_ok r \<and> liveness_ok r)"

text \<open>The columns that make up an identity.\<close>

definition same_identity :: "ip_row \<Rightarrow> ip_row \<Rightarrow> bool" where
  "same_identity r q \<longleftrightarrow> ip_id q = ip_id r \<and> ip_subnet_id q = ip_subnet_id r \<and> ip_address q = ip_address r
     \<and> ip_interface_id q = ip_interface_id r \<and> ip_address_family q = ip_address_family r
     \<and> ip_address_sort_key q = ip_address_sort_key r"

lemma same_identityD:
  assumes "same_identity r q"
  shows "ip_id q = ip_id r" "identity_of q = identity_of r" "identity_ok q = identity_ok r"
  using assms by (auto simp: same_identity_def identity_of_def identity_ok_def)

lemma table_ok_rows:
  "ip_addresses db' = ip_addresses db \<Longrightarrow> next_ip_id db' = next_ip_id db \<Longrightarrow> table_ok db' = table_ok db"
  by (simp add: table_ok_def)

lemma table_ok_only_events: "only_events db db' \<Longrightarrow> table_ok db' = table_ok db"
  by (intro table_ok_rows) (auto dest: only_eventsD)

lemma table_ok_emit [simp]:
  "table_ok (insertEvent oi os ip iface t a db) = table_ok db"
  "table_ok (emit i s ip t a db) = table_ok db"
  by (simp_all add: table_ok_only_events)

lemma table_ok_update:
  assumes "table_ok db" and "\<And>r. same_identity r (f r)" and "\<And>r. P r \<Longrightarrow> liveness_ok r \<Longrightarrow> liveness_ok (f r)"
  shows "table_ok (update_ips P f db)"
proof -
  let ?g = "\<lambda>r. if P r then f r else r"
  have s: "ip_id (?g r) = ip_id r" "identity_of (?g r) = identity_of r" "identity_ok (?g r) = identity_ok r" for r
    using same_identityD [OF assms(2) [of r]] by auto
  then have m: "map ip_id (map ?g rs) = map ip_id rs" "map identity_of (map ?g rs) = map identity_of rs" for rs
    by (induction rs) auto
  have "identity_ok q \<and> liveness_ok q \<and> ip_id q < next_ip_id db" if "q \<in> set (map ?g (ip_addresses db))" for q
    using that assms(1,3) same_identityD [OF assms(2)] by (auto simp: table_ok_def)
  moreover have "distinct (map ip_id (map ?g (ip_addresses db)))" "distinct (map identity_of (map ?g (ip_addresses db)))"
    using assms(1) unfolding m table_ok_def by auto
  ultimately show ?thesis by (auto simp: table_ok_def)
qed

lemma distinct_map_filter_keep: "distinct (map k xs) \<Longrightarrow> distinct (map k (filter P xs))"
  by (induction xs) auto

lemma table_ok_delete: "table_ok db \<Longrightarrow> table_ok (delete_ips P db)"
  by (auto simp: table_ok_def distinct_map_filter_keep)

lemma table_ok_insert:
  assumes "table_ok db" "identity_ok r" "liveness_ok r" "identity_of r \<notin> identity_of ` set (ip_addresses db)"
  shows "table_ok (fst (insert_ip r db))"
proof -
  have "identity_of (r\<lparr>ip_id := i\<rparr>) = identity_of r" "identity_ok (r\<lparr>ip_id := i\<rparr>) = identity_ok r"
    "liveness_ok (r\<lparr>ip_id := i\<rparr>) = liveness_ok r" for i
    by (simp_all add: identity_of_def identity_ok_def liveness_ok_def)
  then show ?thesis
    using assms by (auto simp: table_ok_def insert_ip_def less_Suc_eq)
qed

section \<open>What an upsert does\<close>

lemma given_simps [simp]: "given None x = x" "given (Some v) x = v"
  by (simp_all add: given_def)

text \<open>The row an upsert leaves in place of an existing one.\<close>

definition upserted :: "ip_fields \<Rightarrow> instant \<Rightarrow> ip_row \<Rightarrow> ip_row" where
  "upserted f now r = (if upsert_touches f r then upsert_row f now r else r)"

lemma set_liveness_identity [simp]:
  "ip_id (set_liveness b now r) = ip_id r" "ip_subnet_id (set_liveness b now r) = ip_subnet_id r"
  "ip_address (set_liveness b now r) = ip_address r" "ip_interface_id (set_liveness b now r) = ip_interface_id r"
  "ip_address_family (set_liveness b now r) = ip_address_family r"
  "ip_address_sort_key (set_liveness b now r) = ip_address_sort_key r"
  "ip_allocation_state (set_liveness b now r) = ip_allocation_state r"
  "ip_allocation_source_type (set_liveness b now r) = ip_allocation_source_type r"
  "ip_allocation_source_id (set_liveness b now r) = ip_allocation_source_id r"
  "ip_is_rogue (set_liveness b now r) = ip_is_rogue r" "ip_hostname (set_liveness b now r) = ip_hostname r"
  "ip_detection_source (set_liveness b now r) = ip_detection_source r"
  "ip_mac_address (set_liveness b now r) = ip_mac_address r"
  by (simp_all add: set_liveness_def split: option.splits bool.splits)

lemma set_liveness_ok: "liveness_ok r \<Longrightarrow> liveness_ok (set_liveness b now r)"
  by (simp add: set_liveness_def liveness_ok_def split: option.splits bool.splits)

lemma upsert_row_identity: "same_identity r (upsert_row f now r)"
  by (simp add: same_identity_def upsert_row_def set_columns_def)

lemma upserted_identity [simp]: "same_identity r (upserted f now r)"
  by (simp add: upserted_def upsert_row_identity) (simp add: same_identity_def)

lemma upsert_row_liveness: "liveness_ok r \<Longrightarrow> liveness_ok (upsert_row f now r)"
  using set_liveness_ok [of r "f_is_online f" now]
  by (simp add: liveness_ok_def upsert_row_def set_columns_def)

lemma upsert_row_columns [simp]:
  "ip_allocation_state (upsert_row f now r) = given (f_allocation_state f) (ip_allocation_state r)"
  "ip_allocation_source_type (upsert_row f now r) = given (f_allocation_source_type f) (ip_allocation_source_type r)"
  "ip_allocation_source_id (upsert_row f now r) = given (f_allocation_source_id f) (ip_allocation_source_id r)"
  "ip_is_rogue (upsert_row f now r) = given (f_is_rogue f) (ip_is_rogue r)"
  "ip_hostname (upsert_row f now r) = given (f_hostname f) (ip_hostname r)"
  "ip_mac_address (upsert_row f now r) = given (f_mac_address f) (ip_mac_address r)"
  "ip_detection_source (upsert_row f now r) = given (f_detection_source f) (ip_detection_source r)"
  by (simp_all add: upsert_row_def set_columns_def)

lemma changed_given: "\<not> changed v old \<Longrightarrow> given v old = old"
  by (cases v) (auto simp: changed_def)

lemma upserted_columns [simp]:
  "ip_allocation_state (upserted f now r) = given (f_allocation_state f) (ip_allocation_state r)"
  "ip_allocation_source_type (upserted f now r) = given (f_allocation_source_type f) (ip_allocation_source_type r)"
  "ip_allocation_source_id (upserted f now r) = given (f_allocation_source_id f) (ip_allocation_source_id r)"
  "ip_is_rogue (upserted f now r) = given (f_is_rogue f) (ip_is_rogue r)"
  "ip_hostname (upserted f now r) = given (f_hostname f) (ip_hostname r)"
  "ip_mac_address (upserted f now r) = given (f_mac_address f) (ip_mac_address r)"
  "ip_detection_source (upserted f now r) = given (f_detection_source f) (ip_detection_source r)"
  by (auto simp: upserted_def upsert_touches_def changed_given)

lemma insert_row_columns [simp]:
  "ip_allocation_state (insert_row sn d f now) = given (f_allocation_state f) UNASSIGNED"
  "ip_allocation_source_type (insert_row sn d f now) = given (f_allocation_source_type f) None"
  "ip_is_rogue (insert_row sn d f now) = given (f_is_rogue f) False"
  "ip_subnet_id (insert_row sn d f now) = sn" "ip_address (insert_row sn d f now) = id_ip d"
  "ip_interface_id (insert_row sn d f now) = id_interface d"
  "ip_offline_since_at (insert_row sn d f now) = None"
  "ip_detection_source (insert_row sn d f now) = or_null (given (f_detection_source f) None)"
  "ip_allocation_source_id (insert_row sn d f now) = or_null_num (given (f_allocation_source_id f) None)"
  by (simp_all add: insert_row_def Let_def)

lemma find_identity_Some:
  assumes "find_identity db sn ip iface = Some r"
  shows "r \<in> set (ip_addresses db)" "identity_of r = (sn, ip, coalesce iface)"
  using assms by (auto simp: find_identity_def find_Some_iff identity_of_def)

lemma find_identity_None:
  "find_identity db sn ip iface = None \<longleftrightarrow> (sn, ip, coalesce iface) \<notin> identity_of ` set (ip_addresses db)"
  by (auto simp: find_identity_def find_None_iff identity_of_def)

lemma find_identity_eq:
  assumes "table_ok db" "r \<in> set (ip_addresses db)" "identity_of r = (sn, ip, coalesce iface)"
  shows "find_identity db sn ip iface = Some r"
  unfolding find_identity_def
  using assms by (intro find_distinct [of identity_of]) (auto simp: table_ok_def identity_of_def)

lemma insert_row_identity_ok:
  assumes "canonicalIdentity ip iface = Inr d"
  shows "identity_ok (insert_row sn d f now)"
  using canonicalIdentity_fixpoint [OF assms]
  by (simp add: identity_ok_def insert_row_def Let_def)

lemma upsert_existing_step:
  "only_events (update_ips (\<lambda>q. ip_id q = ip_id r) (if upsert_touches f r then upsert_row f (clock db) else (\<lambda>q. q)) db)
     (upsert_existing db sn ip f r)"
  by (simp add: upsert_existing_def update_ips_def)

lemma upsert_new_step:
  "only_events (fst (insert_ip (insert_row sn d f (clock db)) db)) (fst (upsert_new db sn d f))"
  "snd (upsert_new db sn d f) = next_ip_id db"
  by (auto simp: upsert_new_def insert_ip_def split: option.splits prod.splits)

lemma update_by_id:
  assumes "distinct (map ip_id rows)" "r \<in> set rows"
  shows "map (\<lambda>q. if ip_id q = ip_id r then f q else q) rows = map (\<lambda>q. if ip_id q = ip_id r then f r else q) rows"
  using assms by (intro map_cong refl) (metis distinct_map inj_onD)

text \<open>The three outcomes of an upsert.\<close>

lemma upsert_outcome:
  assumes "table_ok db"
  obtains (error) e where "canonicalIdentity ip (f_interface_id f) = Inl e" "upsert db sn ip f = (db, Inl e)"
  | (existing) d r db' where "canonicalIdentity ip (f_interface_id f) = Inr d"
      "find_identity db sn (id_ip d) (id_interface d) = Some r" "r \<in> set (ip_addresses db)"
      "upsert db sn ip f = (db', Inr (ip_id r))"
      "only_events (update_ips (\<lambda>q. ip_id q = ip_id r) (\<lambda>_. upserted f (clock db) r) db) db'"
  | (new) d db' where "canonicalIdentity ip (f_interface_id f) = Inr d"
      "find_identity db sn (id_ip d) (id_interface d) = None"
      "upsert db sn ip f = (db', Inr (next_ip_id db))"
      "only_events (fst (insert_ip (insert_row sn d f (clock db)) db)) db'"
proof (cases "canonicalIdentity ip (f_interface_id f)")
  case (Inl e)
  then show ?thesis by (intro error) (simp_all add: upsert_def)
next
  case (Inr d)
  show ?thesis
  proof (cases "find_identity db sn (id_ip d) (id_interface d)")
    case None
    then show ?thesis
      using Inr upsert_new_step [where db = db and sn = sn and d = d and f = f]
      by (intro new [of d "fst (upsert_new db sn d f)"]) (auto simp: upsert_def split: prod.splits)
  next
    case (Some r)
    then have r: "r \<in> set (ip_addresses db)" by (rule find_identity_Some)
    have "distinct (map ip_id (ip_addresses db))" using assms by (simp add: table_ok_def)
    note upd = update_by_id [OF this r]
    have "update_ips (\<lambda>q. ip_id q = ip_id r) (\<lambda>_. upserted f (clock db) r) db
        = update_ips (\<lambda>q. ip_id q = ip_id r) (if upsert_touches f r then upsert_row f (clock db) else (\<lambda>q. q)) db"
      unfolding update_ips_def upd [of "if upsert_touches f r then upsert_row f (clock db) else (\<lambda>q. q)"]
      by (simp add: upserted_def)
    then show ?thesis
      using Inr Some r upsert_existing_step [where db = db and r = r and f = f]
      by (intro existing [of d r "upsert_existing db sn (id_ip d) f r"]) (auto simp: upsert_def)
  qed
qed

lemma same_identity_refl [simp]: "same_identity r r"
  by (simp add: same_identity_def)

lemma table_ok_replace:
  assumes "table_ok db" "r \<in> set (ip_addresses db)" "same_identity r r'" "liveness_ok r'"
  shows "table_ok (update_ips (\<lambda>q. ip_id q = ip_id r) (\<lambda>_. r') db)"
proof -
  let ?f = "\<lambda>q. if q = r then r' else q"
  have "distinct (map ip_id (ip_addresses db))" using assms(1) by (simp add: table_ok_def)
  then have "ip_id q = ip_id r \<longleftrightarrow> q = r" if "q \<in> set (ip_addresses db)" for q
    using that assms(2) by (metis distinct_map inj_onD)
  then have "update_ips (\<lambda>q. ip_id q = ip_id r) (\<lambda>_. r') db = update_ips (\<lambda>q. q = r) ?f db"
    unfolding update_ips_def by (auto intro!: arg_cong [where f = "\<lambda>rows. db\<lparr>ip_addresses := rows\<rparr>"])
  moreover have "table_ok (update_ips (\<lambda>q. q = r) ?f db)"
    using assms by (intro table_ok_update) auto
  ultimately show ?thesis by simp
qed

text \<open>A step of the model: the other tables stay, the history grows at its end.\<close>

definition model_frame :: "db \<Rightarrow> db \<Rightarrow> bool" where
  "model_frame db db' \<longleftrightarrow> env db' = env db \<and> (\<exists>es. ip_events db' = ip_events db @ es)"

lemma model_frame_refl [simp]: "model_frame db db"
  by (simp add: model_frame_def)

lemma model_frame_trans: "model_frame a b \<Longrightarrow> model_frame b c \<Longrightarrow> model_frame a c"
  by (auto simp: model_frame_def)

lemma only_events_frame: "only_events db db' \<Longrightarrow> model_frame db db'"
  by (auto simp: only_events_def model_frame_def)

lemma model_frame_basic [simp]:
  "model_frame db (update_ips P f db)" "model_frame db (delete_ips P db)" "model_frame db (fst (insert_ip r db))"
  by (simp_all add: model_frame_def update_ips_def delete_ips_def insert_ip_def env_def)

lemma model_frame_emit:
  "model_frame db0 db \<Longrightarrow> model_frame db0 (emit i s ip t a db)"
  "model_frame db0 db \<Longrightarrow> model_frame db0 (update_ips P f db)"
  by (auto intro: model_frame_trans [OF _ only_events_frame [OF only_events_emit]] model_frame_trans [OF _ model_frame_basic(1)])

text \<open>What every operation keeps.\<close>

definition keeps :: "db \<Rightarrow> db \<Rightarrow> bool" where
  "keeps db db' \<longleftrightarrow> (table_ok db \<longrightarrow> table_ok db') \<and> model_frame db db'"

lemma keeps_refl [simp]: "keeps db db"
  by (simp add: keeps_def)

lemma keeps_trans: "keeps a b \<Longrightarrow> keeps b c \<Longrightarrow> keeps a c"
  by (auto simp: keeps_def intro: model_frame_trans)

lemma keeps_only_events: "only_events db db' \<Longrightarrow> keeps db db'"
  by (simp add: keeps_def table_ok_only_events only_events_frame)

lemma keeps_emit [intro]: "keeps db0 db \<Longrightarrow> keeps db0 (emit i s ip t a db)"
  by (auto simp: keeps_def intro: model_frame_emit)

lemma keeps_update [intro]:
  assumes "keeps db0 db" "\<And>r. same_identity r (f r)" "\<And>r. liveness_ok r \<Longrightarrow> liveness_ok (f r)"
  shows "keeps db0 (update_ips P f db)"
  using assms by (auto simp: keeps_def intro: table_ok_update model_frame_emit)

lemma keeps_delete [intro]: "keeps db0 db \<Longrightarrow> keeps db0 (delete_ips P db)"
  by (auto simp: keeps_def intro: table_ok_delete model_frame_trans)

lemma keeps_fold: "(\<And>x db. x \<in> set xs \<Longrightarrow> keeps db (f x db)) \<Longrightarrow> keeps db (fold f xs db)"
  by (induction xs arbitrary: db) (auto intro: keeps_trans)

lemma insert_row_liveness: "liveness_ok (insert_row sn d f now)"
  by (simp add: liveness_ok_def)

lemma keeps_upsert [simp]: "keeps db (fst (upsert db sn ip f))"
proof -
  have frame: "model_frame db (fst (upsert db sn ip f))"
  proof (cases "canonicalIdentity ip (f_interface_id f)")
    case (Inr d)
    then show ?thesis
      using only_events_frame [OF upsert_existing_step [where db = db and f = f]]
        only_events_frame [OF upsert_new_step(1) [where db = db and f = f]]
      by (auto simp: upsert_def split: option.splits prod.splits intro: model_frame_trans [OF model_frame_basic(1)]
          model_frame_trans [OF model_frame_basic(3)])
        (metis (no_types, lifting) fst_conv model_frame_basic(3) model_frame_trans upsert_new_step(1) only_events_frame)
  qed (simp add: upsert_def)
  have "table_ok (fst (upsert db sn ip f))" if ok: "table_ok db"
  proof (rule upsert_outcome [OF ok, of ip f sn])
    fix e assume "upsert db sn ip f = (db, Inl e)"
    then show ?thesis using ok by simp
  next
    fix d r db'
    assume r: "r \<in> set (ip_addresses db)" "upsert db sn ip f = (db', Inr (ip_id r))"
      "only_events (update_ips (\<lambda>q. ip_id q = ip_id r) (\<lambda>_. upserted f (clock db) r) db) db'"
    have "liveness_ok r" using ok r(1) by (simp add: table_ok_def)
    then have "liveness_ok (upserted f (clock db) r)" by (simp add: upserted_def upsert_row_liveness)
    with ok r show ?thesis by (auto simp: table_ok_only_events intro: table_ok_replace)
  next
    fix d db'
    assume d: "canonicalIdentity ip (f_interface_id f) = Inr d" "find_identity db sn (id_ip d) (id_interface d) = None"
      "upsert db sn ip f = (db', Inr (next_ip_id db))"
      "only_events (fst (insert_ip (insert_row sn d f (clock db)) db)) db'"
    have "identity_of (insert_row sn d f (clock db)) \<notin> identity_of ` set (ip_addresses db)"
      using d(2) by (simp add: find_identity_None identity_of_def [of "insert_row sn d f (clock db)"])
    with ok d show ?thesis
      by (auto simp: table_ok_only_events intro!: table_ok_insert insert_row_identity_ok insert_row_liveness)
  qed
  with frame show ?thesis by (simp add: keeps_def)
qed

lemma keeps_andThen:
  assumes "keeps db (fst r)" "\<And>x. snd r = Inr x \<Longrightarrow> keeps (fst r) (fst (f (fst r) x))"
  shows "keeps db (fst (andThen r f))"
  using assms by (cases "snd r") (auto simp: andThen_def intro: keeps_trans)

section \<open>Every operation keeps the invariant\<close>

lemma keeps_cond: "(b \<Longrightarrow> keeps db x) \<Longrightarrow> (\<not> b \<Longrightarrow> keeps db y) \<Longrightarrow> keeps db (if b then x else y)"
  by simp

lemmas row_edits = same_identity_def liveness_ok_def

lemma keeps_markOnline [simp]: "keeps db (fst (markOnline db sn ip mac src))"
  by (auto simp: markOnline_def Let_def seen_online_def row_edits split: option.splits
      intro!: keeps_emit keeps_update)

lemma keeps_recordPassiveActivity [simp]: "keeps db (fst (recordPassiveActivity db sn ip mac src create reason))"
proof (cases "find_at db sn ip")
  case None
  then show ?thesis
    by (auto simp: recordPassiveActivity_def Let_def addressClaim_def intro!: keeps_andThen keeps_emit)
next
  case (Some r)
  then have "fst (recordPassiveActivity db sn ip mac src create reason) = fst (markOnline db sn ip mac (Some src))"
    by (simp add: recordPassiveActivity_def split: prod.splits)
  then show ?thesis by simp
qed

lemma keeps_gone_offline: "keeps db0 db \<Longrightarrow> keeps db0 (update_ips P (gone_offline now) db)"
  by (rule keeps_update) (auto simp: gone_offline_def row_edits)

lemma keeps_markOffline [simp]: "keeps db (fst (markOffline db sn ip))"
  by (auto simp: markOffline_def Let_def split: option.splits intro!: keeps_gone_offline keeps_emit)

lemma keeps_bulkMarkStale [simp]: "keeps db (fst (bulkMarkStale db minutes))"
proof -
  have "keeps d (emit_stale r d)" for r d
    by (auto simp: emit_stale_def Let_def intro!: keeps_emit)
  moreover have "keeps d (update_ips P (gone_offline now) d)" for P now d
    by (simp add: keeps_gone_offline)
  ultimately show ?thesis
    by (auto simp: bulkMarkStale_def split: sum.splits intro!: keeps_trans [OF keeps_fold keeps_fold])
qed

lemma keeps_startMissingRetirementWindows [simp]: "keeps db (fst (startMissingRetirementWindows db now))"
proof -
  let ?f = "\<lambda>r. r\<lparr>ip_offline_since_at := Some now, ip_updated_at := clock db\<rparr>"
  have "table_ok (update_ips (missing_window db) ?f db)" if "table_ok db"
    using that by (rule table_ok_update) (auto simp: row_edits missing_window_def)
  then show ?thesis by (simp add: startMissingRetirementWindows_def keeps_def)
qed

lemma keeps_retireLearnedMetadata [simp]: "keeps db (retireLearnedMetadata db row)"
  by (auto simp: retireLearnedMetadata_def Let_def retired_row_def row_edits intro!: keeps_emit keeps_update)

lemma keeps_setRogue [simp]: "keeps db (setRogue db sn ip reason)"
  by (auto simp: setRogue_def Let_def row_edits split: option.splits intro!: keeps_emit keeps_update)

lemma keeps_rogue_off: "keeps db0 db \<Longrightarrow> keeps db0 (update_ips P (rogue_off now) db)"
  by (rule keeps_update) (auto simp: rogue_off_def row_edits)

lemma keeps_clearRogue [simp]: "keeps db (clearRogue db sn ip)"
  by (auto simp: clearRogue_def split: option.splits intro!: keeps_emit keeps_rogue_off)

lemma keeps_clearRogueAfterScan [simp]: "keeps db (fst (clearRogueAfterScan db sn probed except))"
  by (auto simp: clearRogueAfterScan_def Let_def intro!: keeps_fold keeps_rogue_off keeps_emit)

lemma keeps_deletes [simp]:
  "keeps db (removeOtherRowsForMac db sn ip mac)" "keeps db (fst (deleteByIds db ids))" "keeps db (fst (deleteById db i))"
  "keeps db (deleteBySubnet db sn)" "keeps db (deleteByIpAddress db ip)"
  by (auto simp: removeOtherRowsForMac_def deleteByIds_def deleteById_def deleteBySubnet_def deleteByIpAddress_def
      split: option.splits)

lemma keeps_ensureAddress [simp]: "keeps db (fst (ensureAddress db sn ip f))"
  by (auto simp: ensureAddress_def split: sum.splits option.splits intro!: keeps_andThen)

lemma keeps_ensureAddresses [simp]: "keeps db (fst (ensureAddresses db sn entries))"
  by (induction entries arbitrary: db) (auto intro!: keeps_andThen)

lemma scanned_row_identity: "same_identity r (scanned_row s c reason now r)"
  by (simp add: scanned_row_def same_identity_def Let_def)

lemma scanned_row_liveness: "liveness_ok r \<Longrightarrow> liveness_ok (scanned_row s c reason now r)"
  by (auto simp: scanned_row_def liveness_ok_def Let_def scan_online_def)

lemma keeps_scan_events: "keeps db0 db \<Longrightarrow> keeps db0 (scan_events s c reason sn ip r db)"
  by (auto simp: scan_events_def Let_def intro!: keeps_emit)

lemma keeps_updateFromScan [simp]: "keeps db (fst (updateFromScan db sn ip s))"
  by (auto simp: updateFromScan_def Let_def split: option.splits
      intro!: keeps_andThen keeps_emit keeps_scan_events keeps_update scanned_row_identity scanned_row_liveness)

lemma keeps_setScanEnabled [simp]: "keeps db (fst (setScanEnabled db sn ip v))"
  by (auto simp: setScanEnabled_def Let_def set_scan_def row_edits split: option.splits
      intro!: keeps_andThen keeps_emit keeps_update)

lemma keeps_emitEvent [simp]: "keeps db (emitEvent db sn ip t a)"
  by (auto simp: emitEvent_def split: option.splits)

lemma keeps_recordEvent [simp]: "keeps db (fst (recordEvent db sn ip t a))"
  by (auto simp: recordEvent_def Let_def split: sum.splits intro!: keeps_only_events)

section \<open>Steps of the address model\<close>

text \<open>One rule per operation of the model that writes, with any arguments.\<close>

inductive model_step :: "db \<Rightarrow> db \<Rightarrow> bool" where
  step_upsert: "model_step db (fst (upsert db sn ip f))"
| step_markOnline: "model_step db (fst (markOnline db sn ip mac src))"
| step_recordPassiveActivity: "model_step db (fst (recordPassiveActivity db sn ip mac src' create reason))"
| step_markOffline: "model_step db (fst (markOffline db sn ip))"
| step_bulkMarkStale: "model_step db (fst (bulkMarkStale db minutes))"
| step_startMissingRetirementWindows: "model_step db (fst (startMissingRetirementWindows db now))"
| step_retireLearnedMetadata: "model_step db (retireLearnedMetadata db row)"
| step_setRogue: "model_step db (setRogue db sn ip reason)"
| step_clearRogue: "model_step db (clearRogue db sn ip)"
| step_clearRogueAfterScan: "model_step db (fst (clearRogueAfterScan db sn probed except))"
| step_removeOtherRowsForMac: "model_step db (removeOtherRowsForMac db sn ip mac)"
| step_deleteByIds: "model_step db (fst (deleteByIds db ids))"
| step_deleteById: "model_step db (fst (deleteById db i))"
| step_deleteBySubnet: "model_step db (deleteBySubnet db sn)"
| step_deleteByIpAddress: "model_step db (deleteByIpAddress db ip)"
| step_moveToSubnet: "model_step db (fst (moveToSubnet db j ip target))"
| step_ensureAddresses: "model_step db (fst (ensureAddresses db sn entries))"
| step_updateFromScan: "model_step db (fst (updateFromScan db sn ip s))"
| step_setScanEnabled: "model_step db (fst (setScanEnabled db sn ip v))"
| step_emitEvent: "model_step db (emitEvent db sn ip t a)"
| step_recordEvent: "model_step db (fst (recordEvent db sn ip t a))"

text \<open>What an event says, apart from the network it is filed under.\<close>

definition event_core :: "ip_event \<Rightarrow> ip_event" where
  "event_core e = e\<lparr>ev_subnet_id := None\<rparr>"

definition history_grows :: "db \<Rightarrow> db \<Rightarrow> bool" where
  "history_grows db db' \<longleftrightarrow> (\<exists>es. map event_core (ip_events db') = map event_core (ip_events db) @ es)"

lemma history_grows_trans: "history_grows a b \<Longrightarrow> history_grows b c \<Longrightarrow> history_grows a c"
  by (auto simp: history_grows_def)

lemma model_frame_history: "model_frame db db' \<Longrightarrow> history_grows db db'"
  by (auto simp: model_frame_def history_grows_def)

lemma table_ok_moved:
  assumes "table_ok db" "distinct (map identity_of (ip_addresses (update_ips (\<lambda>r. ip_id r = i)
     (\<lambda>r. r\<lparr>ip_subnet_id := target, ip_updated_at := now\<rparr>) db)))"
  shows "table_ok (update_ips (\<lambda>r. ip_id r = i) (\<lambda>r. r\<lparr>ip_subnet_id := target, ip_updated_at := now\<rparr>) db)"
proof -
  let ?g = "\<lambda>r. if ip_id r = i then r\<lparr>ip_subnet_id := target, ip_updated_at := now\<rparr> else r"
  have m: "map ip_id (map ?g (ip_addresses db)) = map ip_id (ip_addresses db)" by simp
  have "distinct (map ip_id (map ?g (ip_addresses db)))"
    unfolding m using assms(1) by (simp add: table_ok_def)
  moreover have "\<forall>q \<in> set (map ?g (ip_addresses db)). identity_ok q \<and> liveness_ok q"
    "\<forall>q \<in> set (map ?g (ip_addresses db)). ip_id q < next_ip_id db"
    using assms(1) by (auto simp: table_ok_def identity_ok_def liveness_ok_def)
  ultimately show ?thesis
    using assms(2) unfolding table_ok_def update_ips_simps by blast
qed

lemma moveEvents_frame:
  "ip_addresses (moveEventsToSubnet d j t) = ip_addresses d" "next_ip_id (moveEventsToSubnet d j t) = next_ip_id d"
  "env (moveEventsToSubnet d j t) = env d" "history_grows d (moveEventsToSubnet d j t)"
  by (auto simp: history_grows_def moveEventsToSubnet_def event_core_def env_def intro!: exI [of _ "[]"])

lemma moveToSubnet_keeps:
  assumes "table_ok db"
  shows "table_ok (fst (moveToSubnet db i ip target)) \<and> env (fst (moveToSubnet db i ip target)) = env db
     \<and> history_grows db (fst (moveToSubnet db i ip target))"
proof -
  define db1 where "db1 = (case find_at db target ip of None \<Rightarrow> db
     | Some dup \<Rightarrow> if ip_id dup \<noteq> i then fst (deleteById db (Some (ip_id dup))) else db)"
  define db2 where "db2 = update_ips (\<lambda>r. ip_id r = i) (\<lambda>r. r\<lparr>ip_subnet_id := target, ip_updated_at := clock db\<rparr>) db1"
  have "keeps db db1" unfolding db1_def by (simp split: option.split)
  then have ok1: "table_ok db1" and env1: "env db1 = env db" and h1: "history_grows db db1"
    using assms by (auto simp: keeps_def model_frame_def intro: model_frame_history)
  have res: "fst (moveToSubnet db i ip target)
      = (if distinct (map identity_of (ip_addresses db2)) then moveEventsToSubnet db2 i target else db1)"
    unfolding moveToSubnet_def Let_def db1_def [symmetric] db2_def [symmetric] by simp
  show ?thesis
  proof (cases "distinct (map identity_of (ip_addresses db2))")
    case True
    have "table_ok db2" unfolding db2_def by (rule table_ok_moved [OF ok1]) (use True in \<open>simp only: db2_def\<close>)
    moreover have "history_grows db1 db2" unfolding db2_def by (simp add: model_frame_history)
    moreover have "env db2 = env db" unfolding db2_def using env1 by simp
    ultimately show ?thesis
      using True h1 moveEvents_frame [of db2 i target] table_ok_rows [OF moveEvents_frame(1,2), of db2 i target]
      by (auto simp: res intro: history_grows_trans)
  qed (use ok1 env1 h1 in \<open>simp add: res\<close>)
qed

lemma model_step_keeps:
  assumes "model_step db db'" "table_ok db"
  shows "table_ok db' \<and> env db' = env db \<and> history_grows db db'"
proof -
  have k: "table_ok y \<and> env y = env x \<and> history_grows x y" if "keeps x y" "table_ok x" for x y
    using that by (auto simp: keeps_def model_frame_def intro: model_frame_history)
  have "keeps db db' \<or> (\<exists>i ip t. db' = fst (moveToSubnet db i ip t))"
    using assms(1) by (cases rule: model_step.cases) auto
  then show ?thesis using k [of db db'] assms(2) moveToSubnet_keeps by blast
qed

text \<open>C3. Whatever sequence of operations of the address model runs, with whatever arguments and
  whether they succeed or throw: row keys stay unique and below the next key, no two rows have one
  identity (network, canonical address, interface), every stored identity is its own canonical
  identity, so an interface is recorded exactly for a link-local IPv6 address, and a row that is
  online has no offline window. The history only grows, except that a moved row's events are filed
  under the new network, and no other table is touched.\<close>

theorem address_model_invariant:
  assumes "table_ok db" and "model_step\<^sup>*\<^sup>* db db'"
  shows "table_ok db' \<and> env db' = env db \<and> history_grows db db'"
  using assms(2,1)
proof (induction rule: rtranclp_induct)
  case base
  then show ?case by (simp add: model_frame_history)
next
  case (step y z)
  then show ?case using model_step_keeps [of y z] history_grows_trans by metis
qed

theorem address_model_invariant_witness:
  "\<exists>db'. model_step\<^sup>*\<^sup>* empty_db db' \<and> table_ok db' \<and> length (ip_addresses db') = 1 \<and> history_grows empty_db db'"
proof -
  let ?db = "fst (upsert empty_db 1 ''10.0.0.5'' no_fields)"
  have ok: "table_ok empty_db" by (simp add: table_ok_def empty_db_def)
  have steps: "model_step\<^sup>*\<^sup>* empty_db ?db" by (intro r_into_rtranclp step_upsert)
  have "length (ip_addresses ?db) = 1" by code_simp
  with address_model_invariant [OF ok steps] steps show ?thesis by blast
qed

section \<open>Reading back an upsert\<close>

lemma upsert_table_ok: "table_ok db \<Longrightarrow> upsert db sn ip f = (db', r) \<Longrightarrow> table_ok db'"
  using keeps_upsert [of db sn ip f] by (simp add: keeps_def)

text \<open>The row an upsert leaves, whether it was there or not.\<close>

definition upsert_result :: "db \<Rightarrow> nat \<Rightarrow> identity \<Rightarrow> ip_fields \<Rightarrow> ip_row" where
  "upsert_result db sn d f =
     (case find_identity db sn (id_ip d) (id_interface d) of
        Some old \<Rightarrow> upserted f (clock db) old
      | None \<Rightarrow> (insert_row sn d f (clock db))\<lparr>ip_id := next_ip_id db\<rparr>)"

lemma filter_replace:
  "filter (\<lambda>q. ip_id q \<noteq> i) (map (\<lambda>q. if ip_id q = i then r' else q) rows)
     = filter (\<lambda>q. ip_id q \<noteq> i) rows" if "ip_id r' = i"
  using that by (induction rows) auto

lemma in_replace:
  "r \<in> set rows \<Longrightarrow> ip_id r = i \<Longrightarrow> r' \<in> set (map (\<lambda>q. if ip_id q = i then r' else q) rows)"
  by (force simp: image_iff)

lemma upsert_reads_back:
  assumes ok: "table_ok db" and up: "upsert db sn ip f = (db', Inr i)" and d: "canonicalIdentity ip (f_interface_id f) = Inr d"
  shows "find_identity db' sn (id_ip d) (id_interface d) = Some (upsert_result db sn d f)"
    and "ip_id (upsert_result db sn d f) = i"
    and "filter (\<lambda>q. ip_id q \<noteq> i) (ip_addresses db') = filter (\<lambda>q. ip_id q \<noteq> i) (ip_addresses db)"
    and "upsert_result db sn d f \<in> set (ip_addresses db')"
proof -
  have ok': "table_ok db'" using upsert_table_ok ok up by blast
  have "ip_id (upsert_result db sn d f) = i
     \<and> filter (\<lambda>q. ip_id q \<noteq> i) (ip_addresses db') = filter (\<lambda>q. ip_id q \<noteq> i) (ip_addresses db)
     \<and> upsert_result db sn d f \<in> set (ip_addresses db')
     \<and> identity_of (upsert_result db sn d f) = (sn, id_ip d, coalesce (id_interface d))"
  proof (rule upsert_outcome [OF ok, of ip f sn])
    fix d' r db1
    assume r: "canonicalIdentity ip (f_interface_id f) = Inr d'"
      "find_identity db sn (id_ip d') (id_interface d') = Some r" "r \<in> set (ip_addresses db)"
      "upsert db sn ip f = (db1, Inr (ip_id r))"
      "only_events (update_ips (\<lambda>q. ip_id q = ip_id r) (\<lambda>_. upserted f (clock db) r) db) db1"
    then have eqs: "d' = d" "i = ip_id r" "db1 = db'" using d up by auto
    let ?r = "upserted f (clock db) r"
    have res: "upsert_result db sn d f = ?r" using r(2) eqs by (simp add: upsert_result_def)
    have rows: "ip_addresses db' = map (\<lambda>q. if ip_id q = i then ?r else q) (ip_addresses db)"
      using only_eventsD(1) [OF r(5)] eqs by simp
    have "ip_id ?r = i" "identity_of ?r = identity_of r" using same_identityD [OF upserted_identity] eqs by auto
    with find_identity_Some(2) [OF r(2)] r(3) show ?thesis
      unfolding res rows using eqs by (simp add: filter_replace in_replace)
  next
    fix d' db1
    assume n: "canonicalIdentity ip (f_interface_id f) = Inr d'" "find_identity db sn (id_ip d') (id_interface d') = None"
      "upsert db sn ip f = (db1, Inr (next_ip_id db))"
      "only_events (fst (insert_ip (insert_row sn d' f (clock db)) db)) db1"
    then have eqs: "d' = d" "i = next_ip_id db" "db1 = db'" using d up by auto
    have res: "upsert_result db sn d f = (insert_row sn d f (clock db))\<lparr>ip_id := i\<rparr>"
      using n(2) eqs by (simp add: upsert_result_def)
    have rows: "ip_addresses db' = ip_addresses db @ [(insert_row sn d f (clock db))\<lparr>ip_id := i\<rparr>]"
      using only_eventsD(1) [OF n(4)] eqs by (simp add: insert_ip_def)
    show ?thesis unfolding res rows by (simp add: identity_of_def)
  qed (use d in simp)
  then show "ip_id (upsert_result db sn d f) = i"
    "filter (\<lambda>q. ip_id q \<noteq> i) (ip_addresses db') = filter (\<lambda>q. ip_id q \<noteq> i) (ip_addresses db)"
    "upsert_result db sn d f \<in> set (ip_addresses db')"
    "find_identity db' sn (id_ip d) (id_interface d) = Some (upsert_result db sn d f)"
    using find_identity_eq [OF ok'] by auto
qed

lemma upsert_events_settled: "upsert_events f (upserted f now r) = []"
proof -
  have "given (f_is_online f) (ip_is_online r) = ip_is_online (upserted f now r)"
    by (auto simp: upserted_def upsert_row_def set_columns_def set_liveness_def upsert_touches_def split: option.splits bool.splits)
  then show ?thesis
    by (auto simp: upsert_events_def split: option.splits)
qed

lemma upserted_first_seen:
  "ip_first_seen_at r = Some t \<Longrightarrow> ip_first_seen_at (upserted f now r) = Some t"
  "ip_description (upserted f now r) = ip_description r"
  by (auto simp: upserted_def upsert_row_def set_columns_def set_liveness_def since_def split: option.splits bool.splits)

text \<open>A successful \<open>upsert\<close> is read back. Looking the address up in the same network afterwards
  gives the row with the answered key, and it is the old row with exactly the given columns replaced
  (its first-seen time and description kept) or, where there was none, a fresh row of that identity.
  Every other row is as it was, the other tables too, and repeating the call adds no event.\<close>

theorem upsert_lookup:
  assumes "table_ok db" "f_interface_id f = None" "upsert db sn ip f = (db', Inr i)"
  shows "\<exists>r. findBySubnetAndIp db' sn ip = Inr (Some r) \<and> ip_id r = i
     \<and> ip_allocation_state r = given (f_allocation_state f)
          (case findBySubnetAndIp db sn ip of Inr (Some old) \<Rightarrow> ip_allocation_state old | _ \<Rightarrow> UNASSIGNED)
     \<and> (\<forall>old. findBySubnetAndIp db sn ip = Inr (Some old) \<longrightarrow> r = upserted f (clock db) old
          \<and> ip_description r = ip_description old \<and> (ip_first_seen_at old \<noteq> None \<longrightarrow> ip_first_seen_at r = ip_first_seen_at old)
          \<and> upsert_events f r = [])
     \<and> filter (\<lambda>q. ip_id q \<noteq> i) (ip_addresses db') = filter (\<lambda>q. ip_id q \<noteq> i) (ip_addresses db)
     \<and> env db' = env db"
proof -
  obtain d where d: "canonicalIdentity ip None = Inr d"
    using assms(2,3) by (cases "canonicalIdentity ip None") (auto simp: upsert_def)
  then have d': "canonicalIdentity ip (f_interface_id f) = Inr d" using assms(2) by simp
  let ?r = "upsert_result db sn d f"
  note readback = upsert_reads_back [OF assms(1,3) d']
  have find: "findBySubnetAndIp e sn ip = Inr (find_identity e sn (id_ip d) (id_interface d))" for e
    using d by (simp add: findBySubnetAndIp_def)
  have old: "?r = upserted f (clock db) old" if "findBySubnetAndIp db sn ip = Inr (Some old)" for old
    using that by (simp add: find upsert_result_def)
  have "ip_allocation_state ?r = given (f_allocation_state f)
          (case findBySubnetAndIp db sn ip of Inr (Some old) \<Rightarrow> ip_allocation_state old | _ \<Rightarrow> UNASSIGNED)"
    by (simp add: find upsert_result_def split: option.splits)
  moreover have "env db' = env db"
    using keeps_upsert [of db sn ip f] assms(3) by (simp add: keeps_def model_frame_def)
  ultimately show ?thesis
    using readback old by (intro exI [of _ ?r]) (auto simp: find upserted_first_seen upsert_events_settled)
qed

end
