(* ===== verification/AddressLiveness.thy ===== *)
theory AddressLiveness
  imports AddressStore
begin

text \<open>
  Liveness of addresses: what one scan result does to a row and to its history, what the staleness
  sweep marks offline, and which rows retirement takes. The history of an operation is the part it
  appends to \<open>ip_events\<close>.
\<close>

section \<open>New events\<close>

definition new_events :: "db \<Rightarrow> db \<Rightarrow> ip_event list" where
  "new_events db db' = drop (length (ip_events db)) (ip_events db')"

lemma emit_events:
  "\<exists>e. ip_events (emit i sn ip t a db) = ip_events db @ [e] \<and> ev_type e = t \<and> ev_ip_address_id e = Some i
     \<and> ev_source e = event_source a \<and> ev_new_value e = new_value a \<and> ev_old_value e = old_value a"
  by (simp add: emit_def Let_def insertEvent_def)

text \<open>What history an operation wrote, as a list of types.\<close>

definition event_types :: "db \<Rightarrow> event_type list" where
  "event_types db = map ev_type (ip_events db)"

lemma event_types_emit [simp]: "event_types (emit i sn ip t a db) = event_types db @ [t]"
  by (simp add: event_types_def emit_def Let_def insertEvent_def)

lemma event_types_update [simp]: "event_types (update_ips P f db) = event_types db"
  by (simp add: event_types_def)

lemma new_event_types: "map ev_type (new_events db db') = drop (length (event_types db)) (event_types db')"
  by (simp add: new_events_def event_types_def drop_map)

lemma drop_own: "drop (length xs) (xs @ ys) = ys"
  by simp

section \<open>One scan result\<close>

lemma find_at_Some:
  assumes "find_at db sn ip = Some r"
  shows "r \<in> set (ip_addresses db)" "ip_subnet_id r = sn" "ip_address r = ip"
  using assms by (auto simp: find_at_def find_Some_iff)

lemma find_ip_in: "table_ok db \<Longrightarrow> r \<in> set (ip_addresses db) \<Longrightarrow> find_ip db (ip_id r) = Some r"
  unfolding find_ip_def by (rule find_distinct [of ip_id]) (auto simp: table_ok_def)

lemma find_ip_update:
  assumes "table_ok db" "r \<in> set (ip_addresses db)" "\<And>q. ip_id (f q) = ip_id q"
  shows "find_ip (update_ips (\<lambda>q. ip_id q = ip_id r) f db) (ip_id r) = Some (f r)"
proof -
  have "find (\<lambda>q. ip_id q = ip_id r) (map (\<lambda>q. if ip_id q = ip_id r then f q else q) (ip_addresses db))
      = map_option (\<lambda>q. if ip_id q = ip_id r then f q else q) (find (\<lambda>q. ip_id q = ip_id r) (ip_addresses db))"
    unfolding find_map comp_def by (intro arg_cong2 [where f = map_option] refl arg_cong2 [where f = find])
      (auto simp: assms(3))
  then show ?thesis using find_ip_in [OF assms(1,2)] by (simp add: find_ip_def)
qed

lemma find_ip_only_events: "only_events db db' \<Longrightarrow> find_ip db' i = find_ip db i"
  by (simp add: find_ip_def only_eventsD)

lemma only_events_emitI: "only_events db0 db \<Longrightarrow> only_events db0 (emit i sn ip t a db)"
  by (rule only_events_trans [OF _ only_events_emit])

lemma scan_events_only: "only_events db (scan_events s c reason sn ip r db)"
  by (auto simp: scan_events_def Let_def intro!: only_events_emitI)

lemma toLowerCase_Nil [simp]: "toLowerCase s = [] \<longleftrightarrow> s = []"
  by (simp add: toLowerCase_def)

lemma storedMac_Nil [simp]: "storedMac r = [] \<longleftrightarrow> \<not> truthy (ip_mac_address r)"
  by (cases "ip_mac_address r") (auto simp: storedMac_def toLowerCase_def)

lemma scan_event_types:
  "event_types (scan_events s c reason sn ip r db) = event_types db
     @ (if responded s \<and> \<not> ip_is_online r then [ONLINE] else if \<not> scan_online s r \<and> ip_is_online r then [OFFLINE] else [])
     @ (if macReplaced (scan_mac s) r then [MAC_CHANGED] else [])
     @ (if c \<and> \<not> ip_is_rogue r then [ROGUE_DETECTED] else if \<not> c \<and> ip_is_rogue r then [ROGUE_CLEARED] else [])"
  by (simp add: scan_events_def Let_def)

text \<open>The conflict flag that counts: none on a claimed address.\<close>

definition scan_conflict :: "scan_result \<Rightarrow> ip_row \<Rightarrow> bool" where
  "scan_conflict s r = (isConflict s \<and> ip_allocation_state r = UNASSIGNED)"

definition scan_reason :: "scan_result \<Rightarrow> ip_row \<Rightarrow> string option" where
  "scan_reason s r = (if isConflict s \<and> ip_allocation_state r \<noteq> UNASSIGNED then None else conflictReason s)"

lemma updateFromScan_existing:
  assumes "find_at db sn ip = Some r"
  shows "fst (updateFromScan db sn ip s) = scan_events s (scan_conflict s r) (scan_reason s r) sn ip r
     (update_ips (\<lambda>q. ip_id q = ip_id r) (scanned_row s (scan_conflict s r) (scan_reason s r) (clock db)) db)"
proof -
  have "(isConflict s \<and> \<not> (isConflict s \<and> addressClaim (Some r))) = scan_conflict s r"
    "(isConflict s \<and> addressClaim (Some r)) = (isConflict s \<and> ip_allocation_state r \<noteq> UNASSIGNED)"
    by (auto simp: addressClaim_def scan_conflict_def)
  then show ?thesis unfolding updateFromScan_def Let_def assms scan_reason_def by (simp only: option.case fst_conv)
qed

lemma filter_update_others:
  "(\<And>q. ip_id (f q) = ip_id q) \<Longrightarrow>
     filter (\<lambda>q. ip_id q \<noteq> i) (map (\<lambda>q. if ip_id q = i then f q else q) rows) = filter (\<lambda>q. ip_id q \<noteq> i) rows"
  by (induction rows) auto

lemma scanned_row_columns:
  "ip_allocation_state (scanned_row s c reason now r) = ip_allocation_state r"
  "ip_allocation_source_type (scanned_row s c reason now r) = ip_allocation_source_type r"
  "ip_is_online (scanned_row s c reason now r) = scan_online s r"
  "ip_is_rogue (scanned_row s c reason now r) = (responded s \<and> c)"
  "ip_first_seen_at r = Some t \<Longrightarrow> ip_first_seen_at (scanned_row s c reason now r) = Some t"
  "ip_mac_address (scanned_row s c reason now r)
     = (if truthy (scan_mac s) \<and> (storedMac r = [] \<or> macReplaced (scan_mac s) r) then scan_mac s else ip_mac_address r)"
  by (simp_all add: scanned_row_def Let_def since_def)

text \<open>C28. What one scan result does to the row of the probed address. Allocation never changes, and a
  claimed address is never flagged rogue, whatever the scanner reported. The row is online afterwards
  exactly when the host answered or was online and something else heard from it since the previous
  scan. A first-seen time is never moved, and a MAC that DHCP set is never replaced. The history
  records exactly the changes: online and offline on the edges, a replaced MAC, and rogue detected or
  cleared on its edges (for results that report a conflict only for a host that answered, as the
  scanner's do). Every other row is untouched.\<close>

theorem updateFromScan_spec:
  assumes "table_ok db" "find_at db sn ip = Some r" "isConflict s \<longrightarrow> responded s"
    and "db' = fst (updateFromScan db sn ip s)"
  shows "\<exists>r'. find_ip db' (ip_id r) = Some r'
     \<and> filter (\<lambda>q. ip_id q \<noteq> ip_id r) (ip_addresses db') = filter (\<lambda>q. ip_id q \<noteq> ip_id r) (ip_addresses db)
     \<and> ip_allocation_state r' = ip_allocation_state r
     \<and> (ip_is_rogue r' \<longleftrightarrow> isConflict s \<and> ip_allocation_state r = UNASSIGNED)
     \<and> (ip_is_online r' \<longleftrightarrow> responded s \<or> ip_is_online r \<and> seen_since_scan r)
     \<and> (ip_first_seen_at r \<noteq> None \<longrightarrow> ip_first_seen_at r' = ip_first_seen_at r)
     \<and> (macIsAuthoritative (ip_allocation_state r) \<and> truthy (ip_mac_address r) \<longrightarrow> ip_mac_address r' = ip_mac_address r)
     \<and> map ev_type (new_events db db') =
          (if \<not> ip_is_online r \<and> ip_is_online r' then [ONLINE] else if ip_is_online r \<and> \<not> ip_is_online r' then [OFFLINE] else [])
        @ (if truthy (ip_mac_address r) \<and> ip_mac_address r' \<noteq> ip_mac_address r then [MAC_CHANGED] else [])
        @ (if \<not> ip_is_rogue r \<and> ip_is_rogue r' then [ROGUE_DETECTED]
           else if ip_is_rogue r \<and> \<not> ip_is_rogue r' then [ROGUE_CLEARED] else [])"
proof -
  note up = updateFromScan_existing [OF assms(2), of s]
  let ?g = "scanned_row s (scan_conflict s r) (scan_reason s r) (clock db)"
  let ?d = "update_ips (\<lambda>q. ip_id q = ip_id r) ?g db"
  have id: "ip_id (?g q) = ip_id q" for q using scanned_row_identity by (simp add: same_identity_def)
  have find: "find_ip db' (ip_id r) = Some (?g r)"
    unfolding assms(4) up using find_ip_update [OF assms(1) find_at_Some(1) [OF assms(2)], of ?g] id
    by (simp add: find_ip_only_events [OF scan_events_only])
  have others: "filter (\<lambda>q. ip_id q \<noteq> ip_id r) (ip_addresses db') = filter (\<lambda>q. ip_id q \<noteq> ip_id r) (ip_addresses db)"
    unfolding assms(4) up only_eventsD(1) [OF scan_events_only]
    using filter_update_others [of ?g] id by simp
  have replaced: "macReplaced (scan_mac s) r \<longleftrightarrow> truthy (ip_mac_address r) \<and> ip_mac_address (?g r) \<noteq> ip_mac_address r"
    by (cases "ip_mac_address r") (auto simp: scanned_row_columns(6) macReplaced_def storedMac_def split: if_splits)
  have online: "ip_is_online (?g r) \<longleftrightarrow> responded s \<or> ip_is_online r \<and> seen_since_scan r"
    by (simp add: scanned_row_columns scan_online_def)
  have rogue: "ip_is_rogue (?g r) = scan_conflict s r" "scan_conflict s r = (isConflict s \<and> ip_allocation_state r = UNASSIGNED)"
    using assms(3) by (auto simp: scanned_row_columns scan_conflict_def)
  have edges: "responded s \<and> \<not> ip_is_online r \<longleftrightarrow> \<not> ip_is_online r \<and> ip_is_online (?g r)"
    "\<not> scan_online s r \<and> ip_is_online r \<longleftrightarrow> ip_is_online r \<and> \<not> ip_is_online (?g r)"
    "scan_conflict s r \<and> \<not> ip_is_rogue r \<longleftrightarrow> \<not> ip_is_rogue r \<and> ip_is_rogue (?g r)"
    "\<not> scan_conflict s r \<and> ip_is_rogue r \<longleftrightarrow> ip_is_rogue r \<and> \<not> ip_is_rogue (?g r)"
    by (auto simp: scanned_row_columns(3) scan_online_def rogue(1))
  have events: "map ev_type (new_events db db') =
     (if \<not> ip_is_online r \<and> ip_is_online (?g r) then [ONLINE] else if ip_is_online r \<and> \<not> ip_is_online (?g r) then [OFFLINE] else [])
     @ (if truthy (ip_mac_address r) \<and> ip_mac_address (?g r) \<noteq> ip_mac_address r then [MAC_CHANGED] else [])
     @ (if \<not> ip_is_rogue r \<and> ip_is_rogue (?g r) then [ROGUE_DETECTED]
        else if ip_is_rogue r \<and> \<not> ip_is_rogue (?g r) then [ROGUE_CLEARED] else [])"
    unfolding new_event_types assms(4) up scan_event_types replaced edges event_types_update
    by (rule drop_own)
  have seen: "ip_first_seen_at r \<noteq> None \<longrightarrow> ip_first_seen_at (?g r) = ip_first_seen_at r"
    using scanned_row_columns(5) by auto
  have mac: "macIsAuthoritative (ip_allocation_state r) \<and> truthy (ip_mac_address r) \<longrightarrow> ip_mac_address (?g r) = ip_mac_address r"
    by (simp add: scanned_row_columns(6) macReplaced_def)
  show ?thesis
    using find others events seen mac online rogue scanned_row_columns(1)
    by (intro exI [of _ "?g r"] conjI) simp_all
qed

section \<open>The staleness sweep\<close>

definition swept :: "db \<Rightarrow> nat \<Rightarrow> ip_row \<Rightarrow> bool" where
  "swept db minutes r \<longleftrightarrow> ip_is_online r \<and> seen_before r (clock db) minutes
     \<and> (\<exists>s. find_subnet db (ip_subnet_id r) = Some s \<and> sweepable db s r = Inr True)"

lemma emit_stale_only: "only_events db (emit_stale r db)"
  by (auto simp: emit_stale_def Let_def intro!: only_events_emitI)

lemma fold_update_ids:
  assumes "distinct (map ip_id rs)" "\<And>q. ip_id (g q) = ip_id q"
  shows "fold (\<lambda>r. update_ips (\<lambda>q. ip_id q = ip_id r) g) rs db = update_ips (\<lambda>q. ip_id q \<in> ip_id ` set rs) g db"
  using assms(1)
proof (induction rs arbitrary: db)
  case Nil
  then show ?case by (simp add: update_ips_def)
next
  case (Cons r rs)
  then show ?case
    using assms(2) by (auto simp: update_ips_def intro!: arg_cong [where f = "\<lambda>rows. db\<lparr>ip_addresses := rows\<rparr>"])
qed

text \<open>Every network of the table has a CIDR that can be read.\<close>

definition nets_ok :: "db \<Rightarrow> bool" where
  "nets_ok db \<longleftrightarrow> (\<forall>s \<in> set (subnets db). is_ok (parseNetwork (sub_cidr s)))"

lemma stale_ips_eq:
  assumes "nets_ok db"
  shows "stale_ips db minutes = Inr (filter (swept db minutes) (ip_addresses db))"
proof -
  have total: "\<exists>b. sweepable db s r = Inr b" if "find_subnet db i = Some s" for s r i
  proof -
    have "s \<in> set (subnets db)" using that by (auto simp: find_subnet_def dest: find_SomeD)
    then obtain n where "parseNetwork (sub_cidr s) = Inr n"
      using assms by (cases "parseNetwork (sub_cidr s)") (auto simp: nets_ok_def)
    from isAutomaticScanAllowed_total [OF this] obtain b where "isAutomaticScanAllowed s (ipv6Enabled db) = Inr b" by blast
    then show ?thesis by (cases "scannerCoveredSql db s r") (auto simp: sweepable_def)
  qed
  let ?p = "\<lambda>r. case find_subnet db (ip_subnet_id r) of Some s \<Rightarrow> sweepable db s r | None \<Rightarrow> Inr False"
  let ?online = "\<lambda>r. find_subnet db (ip_subnet_id r) \<noteq> None \<and> ip_is_online r \<and> seen_before r (clock db) minutes"
  have "?p r = Inr (\<exists>s. find_subnet db (ip_subnet_id r) = Some s \<and> sweepable db s r = Inr True)" for r
    using total [of "ip_subnet_id r" _ r] by (cases "find_subnet db (ip_subnet_id r)") auto
  then have "stale_ips db minutes = Inr (filter (\<lambda>r. \<exists>s. find_subnet db (ip_subnet_id r) = Some s \<and> sweepable db s r = Inr True)
       (filter ?online (ip_addresses db)))"
    unfolding stale_ips_def by (intro efilter_all) blast
  also have "\<dots> = Inr (filter (swept db minutes) (ip_addresses db))"
    by (auto simp: swept_def intro!: filter_cong)
  finally show ?thesis .
qed

lemma env_reads:
  assumes "env db' = env db"
  shows "find_subnet db' = find_subnet db" "sweepable db' = sweepable db" "getSetting db' = getSetting db"
proof -
  note e = env_projections [OF assms]
  show g: "getSetting db' = getSetting db" by (simp add: getSetting_def e fun_eq_iff)
  show "find_subnet db' = find_subnet db" by (simp add: find_subnet_def e fun_eq_iff)
  have "scannerCoveredSql db' = scannerCoveredSql db"
    by (intro ext) (simp only: scannerCoveredSql_def scanEnabledSql_def effectiveIntervalSql_def g)
  then show "sweepable db' = sweepable db" by (intro ext) (simp only: sweepable_def ipv6Enabled_def g)
qed

lemma bulkMarkStale_rows:
  assumes "table_ok db" "nets_ok db"
  shows "ip_addresses (fst (bulkMarkStale db minutes))
      = map (\<lambda>r. if swept db minutes r then gone_offline (clock db) r else r) (ip_addresses db)"
    and "snd (bulkMarkStale db minutes) = Inr (length (filter (swept db minutes) (ip_addresses db)))"
proof -
  let ?stale = "filter (swept db minutes) (ip_addresses db)"
  have d: "distinct (map ip_id (ip_addresses db))" using assms(1) by (simp add: table_ok_def)
  have "ip_id r \<in> ip_id ` set ?stale \<longleftrightarrow> swept db minutes r" if "r \<in> set (ip_addresses db)" for r
    using that d by (auto simp: distinct_map dest: inj_onD)
  moreover have "only_events db (fold emit_stale ?stale db)"
    by (simp add: only_events_fold emit_stale_only)
  moreover have "fst (bulkMarkStale db minutes)
      = update_ips (\<lambda>q. ip_id q \<in> ip_id ` set ?stale) (gone_offline (clock db)) (fold emit_stale ?stale db)"
    unfolding bulkMarkStale_def stale_ips_eq [OF assms(2)]
    using fold_update_ids [OF distinct_map_filter_keep [OF d], of "gone_offline (clock db)"] by (simp add: gone_offline_def)
  ultimately show "ip_addresses (fst (bulkMarkStale db minutes))
      = map (\<lambda>r. if swept db minutes r then gone_offline (clock db) r else r) (ip_addresses db)"
    using only_eventsD(1) [of db "fold emit_stale ?stale db"] by auto
  show "snd (bulkMarkStale db minutes) = Inr (length ?stale)"
    by (simp add: bulkMarkStale_def stale_ips_eq [OF assms(2)])
qed

text \<open>The staleness sweep marks offline exactly the rows it should: those online, last heard from
  before the staleness window, in a network where the scanner does not own liveness. Such a row loses
  its online and rogue flags and starts its offline window now unless one had begun; every other row is
  unchanged, and the answer counts the rows marked. A second sweep at the same time finds nothing.\<close>

theorem bulkMarkStale_spec:
  assumes "table_ok db" "nets_ok db"
    and "bulkMarkStale db minutes = (db', res)"
  shows "ip_addresses db' = map (\<lambda>r. if swept db minutes r then gone_offline (clock db) r else r) (ip_addresses db)
    \<and> res = Inr (length (filter (swept db minutes) (ip_addresses db)))
    \<and> snd (bulkMarkStale db' minutes) = Inr 0 \<and> ip_addresses (fst (bulkMarkStale db' minutes)) = ip_addresses db'"
proof -
  note rows = bulkMarkStale_rows [OF assms(1,2), of minutes, unfolded assms(3)]
  then have r1: "ip_addresses db' = map (\<lambda>r. if swept db minutes r then gone_offline (clock db) r else r) (ip_addresses db)"
    and r2: "res = Inr (length (filter (swept db minutes) (ip_addresses db)))" by simp_all
  have keep: "keeps db db'" using keeps_bulkMarkStale [of db minutes] assms(3) by simp
  then have env: "env db' = env db" and ok: "table_ok db'" using assms(1) by (auto simp: keeps_def model_frame_def)
  have nets': "nets_ok db'" using assms(2) env_projections(1) [OF env] by (simp add: nets_ok_def)
  have "\<not> swept db' minutes q" if "q \<in> set (ip_addresses db')" for q
    using that unfolding r1
    by (auto simp: swept_def gone_offline_def env_reads [OF env] env_projections(10) [OF env] split: if_splits)
  then have "filter (swept db' minutes) (ip_addresses db') = []"
    "map (\<lambda>r. if swept db' minutes r then gone_offline (clock db') r else r) (ip_addresses db') = ip_addresses db'"
    by (auto intro: map_idI)
  then have "snd (bulkMarkStale db' minutes) = Inr 0 \<and> ip_addresses (fst (bulkMarkStale db' minutes)) = ip_addresses db'"
    using bulkMarkStale_rows [OF ok nets', of minutes] by simp
  with r1 r2 show ?thesis by blast
qed

section \<open>Retirement\<close>

lemma candidates_in:
  "r \<in> set (findRetirementCandidates db cutoff now limit) \<Longrightarrow> r \<in> set (ip_addresses db) \<and> retirement_candidate db cutoff now r"
  unfolding findRetirementCandidates_def by (auto dest!: in_set_takeD)

lemma retireLearnedMetadata_rows:
  "ip_addresses (retireLearnedMetadata db row)
     = map (\<lambda>r. if ip_id r = ip_id row then retired_row (clock db) r else r) (ip_addresses db)"
  by (simp add: retireLearnedMetadata_def Let_def)

text \<open>C29. Retirement takes only what nobody declared. Every candidate is offline since the cutoff or
  longer; none is reserved, a static DNS or static DHCP allocation, a protected topology address or
  quarantined, and an unassigned one has neither an enabled DHCP reservation nor a served manual record.
  Candidates come longest-offline first, and only the batch limit leaves a matching row out. Retiring one
  clears what was learned about it and its allocation, keeps its identity, description, reservation
  note and scan policy, touches no other row, and leaves it no candidate.\<close>

theorem retirement_spec:
  assumes "table_ok db" "r \<in> set (findRetirementCandidates db cutoff now limit)"
    and "db' = retireLearnedMetadata db r"
  shows "(\<not> ip_is_online r \<and> (\<exists>t \<le> cutoff. ip_offline_since_at r = Some t)
      \<and> \<not> isAdminDeclared (Some r) \<and> ip_allocation_state r \<noteq> QUARANTINED)
    \<and> (ip_allocation_state r = UNASSIGNED \<longrightarrow> \<not> enabled_reservation db (ip_subnet_id r) (ip_address r)
      \<and> (\<forall>rec \<in> set (dns_records db). rec_value rec = ip_address r \<longrightarrow> \<not> served_manual db rec))
    \<and> (length (findRetirementCandidates db cutoff now limit) < limit \<longrightarrow>
      set (findRetirementCandidates db cutoff now limit) = {q \<in> set (ip_addresses db). retirement_candidate db cutoff now q})
    \<and> (\<exists>r'. find_ip db' (ip_id r) = Some r' \<and> same_identity r r' \<and> ip_allocation_state r' = UNASSIGNED \<and> \<not> has_learned r'
      \<and> ip_description r' = ip_description r \<and> ip_reservation_note r' = ip_reservation_note r
      \<and> ip_scan_enabled r' = ip_scan_enabled r \<and> (\<forall>c n. \<not> retirement_candidate db' c n r'))
    \<and> filter (\<lambda>q. ip_id q \<noteq> ip_id r) (ip_addresses db') = filter (\<lambda>q. ip_id q \<noteq> ip_id r) (ip_addresses db)"
proof (intro conjI impI)
  note c = candidates_in [OF assms(2)]
  show "\<not> ip_is_online r" "\<exists>t \<le> cutoff. ip_offline_since_at r = Some t" "\<not> isAdminDeclared (Some r)"
    "ip_allocation_state r \<noteq> QUARANTINED"
    using c by (auto simp: retirement_candidate_def isAdminDeclared_def split: option.splits)
  show "\<not> enabled_reservation db (ip_subnet_id r) (ip_address r)"
    "\<forall>rec \<in> set (dns_records db). rec_value rec = ip_address r \<longrightarrow> \<not> served_manual db rec"
    if "ip_allocation_state r = UNASSIGNED"
    using c that by (auto simp: retirement_candidate_def list_ex_iff)
  show "set (findRetirementCandidates db cutoff now limit) = {q \<in> set (ip_addresses db). retirement_candidate db cutoff now q}"
    if "length (findRetirementCandidates db cutoff now limit) < limit"
    using that by (auto simp: findRetirementCandidates_def)
  let ?r = "retired_row (clock db) r"
  have id: "ip_id (retired_row t q) = ip_id q" for t q by (simp add: retired_row_def)
  have rows: "ip_addresses db' = ip_addresses (update_ips (\<lambda>q. ip_id q = ip_id r) (retired_row (clock db)) db)"
    by (simp add: assms(3) retireLearnedMetadata_rows)
  have "find_ip db' (ip_id r) = Some ?r"
    using find_ip_update [OF assms(1) conjunct1 [OF c], of "retired_row (clock db)"] id rows
    by (simp add: find_ip_def)
  then show "\<exists>r'. find_ip db' (ip_id r) = Some r' \<and> same_identity r r' \<and> ip_allocation_state r' = UNASSIGNED \<and> \<not> has_learned r'
      \<and> ip_description r' = ip_description r \<and> ip_reservation_note r' = ip_reservation_note r
      \<and> ip_scan_enabled r' = ip_scan_enabled r \<and> (\<forall>c n. \<not> retirement_candidate db' c n r')"
    by (intro exI [of _ ?r]) (simp add: retired_row_def same_identity_def has_learned_def retirement_candidate_def)
  show "filter (\<lambda>q. ip_id q \<noteq> ip_id r) (ip_addresses db') = filter (\<lambda>q. ip_id q \<noteq> ip_id r) (ip_addresses db)"
    using rows filter_update_others [of "retired_row (clock db)"] id by simp
qed

section \<open>A concrete table\<close>

text \<open>A DHCP reservation at 10.0.0.5 that is online with its own MAC, and a dynamic lease at 10.0.0.9
  that went offline at time 0, in a network that is not scanned; the clock is at one hour.\<close>

definition quiet_subnet :: subnet_row where
  "quiet_subnet = sample_subnet\<lparr>sub_scan_enabled := Some False\<rparr>"

definition reserved_fields :: ip_fields where
  "reserved_fields = no_fields\<lparr>f_mac_address := Some (Some ''aa:bb:cc:00:00:01''), f_is_online := Some True,
     f_allocation_state := Some STATIC_DHCP, f_allocation_source_type := Some (Some DHCP_RESERVATION)\<rparr>"

definition leased_fields :: ip_fields where
  "leased_fields = no_fields\<lparr>f_hostname := Some (Some ''laptop''), f_allocation_state := Some DYNAMIC_DHCP,
     f_allocation_source_type := Some (Some DHCP_LEASE), f_detection_source := Some (Some ''dhcp_lease'')\<rparr>"

definition sample_db :: db where
  "sample_db =
     (let db0 = empty_db\<lparr>subnets := [quiet_subnet]\<rparr>;
          db1 = fst (upsert db0 1 ''10.0.0.5'' reserved_fields);
          db2 = fst (upsert db1 1 ''10.0.0.9'' leased_fields);
          db3 = fst (upsert db2 1 ''10.0.0.9'' (no_fields\<lparr>f_is_online := Some False\<rparr>))
      in db3\<lparr>clock := 3600\<rparr>)"

lemma table_ok_clock [simp]: "table_ok (db\<lparr>clock := t\<rparr>) = table_ok db"
  by (simp add: table_ok_def)

lemma table_ok_upsert: "table_ok db \<Longrightarrow> table_ok (fst (upsert db sn ip f))"
  using keeps_upsert [of db sn ip f] by (simp add: keeps_def)

lemma sample_table_ok: "table_ok sample_db"
proof -
  have "table_ok (empty_db\<lparr>subnets := [quiet_subnet]\<rparr>)" by (simp add: table_ok_def empty_db_def)
  then show ?thesis unfolding sample_db_def Let_def by (simp add: table_ok_upsert)
qed

lemma sample_subnets: "subnets sample_db = [quiet_subnet]"
proof -
  have "env (fst (upsert db sn ip f)) = env db" for db sn ip f
    using keeps_upsert [of db sn ip f] by (simp add: keeps_def model_frame_def)
  from env_projections(1) [OF this] show ?thesis by (simp add: sample_db_def Let_def)
qed

lemma sample_nets: "nets_ok sample_db"
  by (simp add: nets_ok_def sample_subnets quiet_subnet_def sample_subnet_def reserved_v4)

theorem upsert_lookup_witness:
  "\<exists>r. findBySubnetAndIp (fst (upsert sample_db 1 ''10.0.0.9'' (no_fields\<lparr>f_hostname := Some None\<rparr>))) 1 ''10.0.0.9''
       = Inr (Some r) \<and> ip_id r = 2 \<and> ip_allocation_state r = DYNAMIC_DHCP"
proof -
  let ?f = "no_fields\<lparr>f_hostname := Some None\<rparr>"
  have "snd (upsert sample_db 1 ''10.0.0.9'' ?f) = Inr 2" by code_simp
  then have up: "upsert sample_db 1 ''10.0.0.9'' ?f = (fst (upsert sample_db 1 ''10.0.0.9'' ?f), Inr 2)"
    by (metis prod.collapse)
  have "(case findBySubnetAndIp sample_db 1 ''10.0.0.9'' of Inr (Some old) \<Rightarrow> ip_allocation_state old | _ \<Rightarrow> UNASSIGNED)
      = DYNAMIC_DHCP" by code_simp
  with upsert_lookup [OF sample_table_ok _ up] show ?thesis by (auto simp: no_fields_def)
qed

text \<open>Another MAC answering at the DHCP reservation: reported as a conflict, and not flagged.\<close>

theorem updateFromScan_spec_witness:
  "\<exists>r r'. find_at sample_db 1 ''10.0.0.5'' = Some r \<and> ip_allocation_state r = STATIC_DHCP
     \<and> find_ip (fst (updateFromScan sample_db 1 ''10.0.0.5''
          \<lparr>responded = True, scan_mac = Some ''aa:bb:cc:00:00:02'', isConflict = True, conflictReason = Some ''MAC mismatch''\<rparr>))
          (ip_id r) = Some r'
     \<and> \<not> ip_is_rogue r' \<and> ip_mac_address r' = Some ''aa:bb:cc:00:00:01''"
proof -
  let ?s = "\<lparr>responded = True, scan_mac = Some ''aa:bb:cc:00:00:02'', isConflict = True, conflictReason = Some ''MAC mismatch''\<rparr>"
  have "case find_at sample_db 1 ''10.0.0.5'' of None \<Rightarrow> False
      | Some r \<Rightarrow> ip_allocation_state r = STATIC_DHCP \<and> ip_mac_address r = Some ''aa:bb:cc:00:00:01''" by code_simp
  then obtain r where r: "find_at sample_db 1 ''10.0.0.5'' = Some r" "ip_allocation_state r = STATIC_DHCP"
    "ip_mac_address r = Some ''aa:bb:cc:00:00:01''" by (auto split: option.splits)
  have "isConflict ?s \<longrightarrow> responded ?s" by simp
  from updateFromScan_spec [OF sample_table_ok r(1) this refl] r show ?thesis
    by (auto simp: macIsAuthoritative_def)
qed

theorem bulkMarkStale_spec_witness:
  "snd (bulkMarkStale sample_db 10) = Inr 1
   \<and> snd (bulkMarkStale (fst (bulkMarkStale sample_db 10)) 10) = Inr 0"
proof
  show "snd (bulkMarkStale sample_db 10) = Inr 1" by code_simp
  have "bulkMarkStale sample_db 10 = (fst (bulkMarkStale sample_db 10), snd (bulkMarkStale sample_db 10))" by simp
  from bulkMarkStale_spec [OF sample_table_ok sample_nets this]
  show "snd (bulkMarkStale (fst (bulkMarkStale sample_db 10)) 10) = Inr 0" by simp
qed

theorem retirement_spec_witness:
  "\<exists>r \<in> set (findRetirementCandidates sample_db 0 3600 500). ip_address r = ''10.0.0.9''
     \<and> (\<exists>r'. find_ip (retireLearnedMetadata sample_db r) (ip_id r) = Some r' \<and> ip_allocation_state r' = UNASSIGNED)"
proof -
  have "map ip_address (findRetirementCandidates sample_db 0 3600 500) = [''10.0.0.9'']" by code_simp
  then obtain r where r: "r \<in> set (findRetirementCandidates sample_db 0 3600 500)" "ip_address r = ''10.0.0.9''"
    by (auto simp: map_eq_Cons_conv)
  from retirement_spec [OF sample_table_ok r(1) refl] r show ?thesis by blast
qed

end
