(* ===== verification/DnsRecords.thy ===== *)
theory DnsRecords
  imports AddressLiveness "HOL-Library.List_Lexorder" "HOL-Library.Char_ord"
begin

text \<open>
  DNS records (\<open>server/src/models/dns-record.js\<close>): the PTR record that follows an address record, the
  rules for names and CNAME targets, and the records DHCP leases leave behind. Every write of a zone
  bumps its serial.
\<close>

section \<open>Statements\<close>

definition update_records :: "(record_row \<Rightarrow> bool) \<Rightarrow> (record_row \<Rightarrow> record_row) \<Rightarrow> db \<Rightarrow> db" where
  "update_records P f db = db\<lparr>dns_records := map (\<lambda>r. if P r then f r else r) (dns_records db)\<rparr>"

definition delete_record :: "nat \<Rightarrow> db \<Rightarrow> db" where
  "delete_record i db = db\<lparr>dns_records := filter (\<lambda>r. rec_id r \<noteq> i) (dns_records db)\<rparr>"

definition insert_record :: "record_row \<Rightarrow> db \<Rightarrow> db" where
  "insert_record r db =
     db\<lparr>dns_records := dns_records db @ [r\<lparr>rec_id := next_record_id db\<rparr>], next_record_id := Suc (next_record_id db)\<rparr>"

definition bumpZoneSerial :: "db \<Rightarrow> nat \<Rightarrow> db" where
  "bumpZoneSerial db zoneId =
     db\<lparr>dns_zones := map (\<lambda>z. if zone_id z = zoneId
          then z\<lparr>zone_soa_serial := zone_soa_serial z + 1, zone_updated_at := clock db\<rparr> else z) (dns_zones db)\<rparr>"

definition isAddressRecordType :: "string \<Rightarrow> bool" where
  "isAddressRecordType type = (type = ''A'' \<or> type = ''AAAA'')"

text \<open>A row as the PTR statements insert it.\<close>

definition ptr_row :: "nat \<Rightarrow> string \<Rightarrow> string \<Rightarrow> string \<Rightarrow> instant \<Rightarrow> record_row" where
  "ptr_row zoneId name value source now =
     \<lparr>rec_id = 0, rec_zone_id = zoneId, rec_name = name, rec_type = ''PTR'', rec_value = value, rec_priority = None,
      rec_weight = None, rec_port = None, rec_ttl = None, rec_source = Some source, rec_enabled = True, rec_updated_at = now\<rparr>"

definition find_ptr :: "db \<Rightarrow> nat \<Rightarrow> string \<Rightarrow> record_row option" where
  "find_ptr db zoneId name =
     find (\<lambda>r. rec_zone_id r = zoneId \<and> rec_type r = ''PTR'' \<and> rec_name r = name) (dns_records db)"

definition set_ptr :: "string \<Rightarrow> string \<Rightarrow> instant \<Rightarrow> record_row \<Rightarrow> record_row" where
  "set_ptr value source now r = r\<lparr>rec_value := value, rec_source := Some source, rec_enabled := True, rec_updated_at := now\<rparr>"

section \<open>Names\<close>

text \<open>The served name of a record as the SQL of \<open>cnameTargetError\<close> builds it.\<close>

definition sql_fqdn :: "record_row \<Rightarrow> zone_row \<Rightarrow> string" where
  "sql_fqdn r z =
     sql_lower (if rec_name r = ''@'' then zone_name z
                else if endsWith (rec_name r) ''.'' then butlast (rec_name r)
                else rec_name r @ ''.'' @ zone_name z)"

definition cnameTargetError :: "db \<Rightarrow> string \<Rightarrow> zone_row \<Rightarrow> string list option \<Rightarrow> string option" where
  "cnameTargetError db target zone extraKnownFqdns =
     (let normalized = normalizeDnsName target; zoneName = normalizeDnsName (zone_name zone) in
      if \<not> isValidDomain normalized then Some ''Invalid target domain''
      else if CHR ''.'' \<notin> set normalized then Some ''CNAME target must be fully qualified''
      else if \<not> endsWith normalized (''.'' @ zoneName) \<and> normalized \<noteq> zoneName
      then Some (''CNAME target must be inside '' @ zone_name zone)
      else if (case extraKnownFqdns of None \<Rightarrow> False | Some fs \<Rightarrow> normalized \<in> set fs) then None
      else if list_ex (\<lambda>r. case find_zone db (rec_zone_id r) of None \<Rightarrow> False
             | Some z \<Rightarrow> zone_enabled z \<and> zone_type z = FORWARD \<and> rec_enabled r
                 \<and> rec_type r \<in> {''A'', ''AAAA'', ''CNAME''} \<and> sql_fqdn r z = normalized) (dns_records db)
      then None
      else Some (''CNAME target must already exist as an enabled A, AAAA or CNAME record in '' @ zone_name zone))"

definition hostnameMatches :: "string \<Rightarrow> string \<Rightarrow> string option \<Rightarrow> bool" where
  "hostnameMatches candidate proposed domainName =
     (let c = normalizeDnsName candidate; p = normalizeDnsName proposed; d = normalizeDnsName (coalesce domainName) in
      if c = [] \<or> p = [] then False
      else if c = p then True
      else if d \<noteq> [] \<and> CHR ''.'' \<notin> set c \<and> c @ ''.'' @ d = p then True
      else d \<noteq> [] \<and> CHR ''.'' \<notin> set p \<and> p @ ''.'' @ d = c)"

text \<open>\<open>x IS NOT NULL AND trim(x) != ''\<close>\<close>

definition sql_named :: "string option \<Rightarrow> bool" where
  "sql_named v = (case v of None \<Rightarrow> False | Some s \<Rightarrow> sql_trim s \<noteq> [])"

definition prefix_of :: "db \<Rightarrow> nat \<Rightarrow> nat" where
  "prefix_of db sn = (case find_subnet db sn of None \<Rightarrow> 0 | Some s \<Rightarrow> sub_prefix_length s)"

definition domain_of :: "db \<Rightarrow> nat \<Rightarrow> string option" where
  "domain_of db sn = (case find_subnet db sn of None \<Rightarrow> None | Some s \<Rightarrow> sub_domain_name s)"

definition conflict_reservation :: "db \<Rightarrow> string \<Rightarrow> reservation_row option" where
  "conflict_reservation db ip =
     (case rev (sort_key (\<lambda>r. (prefix_of db (rsv_subnet_id r), rsv_id r))
         (filter (\<lambda>r. find_subnet db (rsv_subnet_id r) \<noteq> None \<and> rsv_ip_address r = ip \<and> rsv_enabled r \<and> sql_named (rsv_hostname r))
            (dhcp_reservations db))) of [] \<Rightarrow> None | r # _ \<Rightarrow> Some r)"

definition lease_subnet :: "db \<Rightarrow> lease_row \<Rightarrow> subnet_row option" where
  "lease_subnet db l = (case lease_subnet_id l of None \<Rightarrow> None | Some sn \<Rightarrow> find_subnet db sn)"

definition conflict_lease :: "db \<Rightarrow> string \<Rightarrow> lease_row option" where
  "conflict_lease db ip =
     (case rev (sort_key (\<lambda>l. (prefix_of db (case lease_subnet_id l of None \<Rightarrow> 0 | Some sn \<Rightarrow> sn), lease_rank db l))
         (filter (\<lambda>l. lease_subnet db l \<noteq> None \<and> lease_ip_address l = ip \<and> sql_named (lease_hostname l) \<and> activeLeaseSql db l)
            (dhcp_leases db))) of [] \<Rightarrow> None | l # _ \<Rightarrow> Some l)"

definition record_fqdn :: "db \<Rightarrow> record_row \<Rightarrow> string" where
  "record_fqdn db r =
     (case find_zone db (rec_zone_id r) of None \<Rightarrow> rec_name r | Some z \<Rightarrow> fqdnForRecordName (rec_name r) (zone_name z))"

definition conflict_records :: "db \<Rightarrow> string \<Rightarrow> nat option \<Rightarrow> record_row list" where
  "conflict_records db ip excludeRecordId =
     sort_key (\<lambda>r. (case find_zone db (rec_zone_id r) of None \<Rightarrow> [] | Some z \<Rightarrow> sql_lower (zone_name z), sql_lower (rec_name r), rec_id r))
       (filter (\<lambda>r. served_manual db r \<and> rec_value r = ip
            \<and> (case or_null_num excludeRecordId of None \<Rightarrow> True | Some i \<Rightarrow> rec_id r \<noteq> i)) (dns_records db))"

definition findAHostnameConflict ::
  "db \<Rightarrow> string \<Rightarrow> string \<Rightarrow> string \<Rightarrow> nat option \<Rightarrow> string list option \<Rightarrow> (string \<times> string) option" where
  "findAHostnameConflict db ip recordName zoneName excludeRecordId ignoreFqdns =
     (let proposed = fqdnForRecordName recordName zoneName;
          reserved = (case conflict_reservation db ip of
              None \<Rightarrow> None
            | Some r \<Rightarrow> if truthy (rsv_hostname r)
                          \<and> \<not> hostnameMatches (coalesce (rsv_hostname r)) proposed (domain_of db (rsv_subnet_id r))
                        then Some (coalesce (rsv_hostname r), ''DHCP Reservation'') else None);
          leased = (case conflict_lease db ip of
              None \<Rightarrow> None
            | Some l \<Rightarrow> if truthy (lease_hostname l)
                          \<and> \<not> hostnameMatches (coalesce (lease_hostname l)) proposed
                                (case lease_subnet db l of None \<Rightarrow> None | Some s \<Rightarrow> sub_domain_name s)
                        then Some (coalesce (lease_hostname l), ''dynamic DHCP'') else None)
      in if reserved \<noteq> None then reserved
         else if leased \<noteq> None then leased
         else case find (\<lambda>r. \<not> (case ignoreFqdns of None \<Rightarrow> False | Some fs \<Rightarrow> normalizeDnsName (record_fqdn db r) \<in> set fs)
                           \<and> \<not> hostnameMatches (record_fqdn db r) proposed None) (conflict_records db ip excludeRecordId) of
                None \<Rightarrow> None
              | Some r \<Rightarrow> Some (record_fqdn db r, ''static DNS''))"

definition listDnsAssignedIps :: "db \<Rightarrow> (string \<times> string) list" where
  "listDnsAssignedIps db = map (\<lambda>r. (rec_value r, record_fqdn db r)) (filter (served_manual db) (dns_records db))"

definition dnsAssignedHostname :: "db \<Rightarrow> string option \<Rightarrow> string option" where
  "dnsAssignedHostname db ip =
     (if \<not> truthy ip then None
      else map_option (record_fqdn db) (find (\<lambda>r. served_manual db r \<and> Some (rec_value r) = ip) (dns_records db)))"

section \<open>Reverse zones\<close>

definition reversePtrCandidates :: "string \<Rightarrow> (string \<times> string) list" where
  "reversePtrCandidates ip =
     (case parseIp_with unscoped ip of
        None \<Rightarrow> []
      | Some parsed \<Rightarrow>
          if ip_bits parsed = IPV4_BITS then
            (let octets = split_chr (CHR ''.'') (formatIp (ip_value parsed) IPV4_BITS)
             in [(octets ! 2 @ ''.'' @ octets ! 1 @ ''.'' @ octets ! 0 @ ''.in-addr.arpa'', octets ! 3),
                 (octets ! 1 @ ''.'' @ octets ! 0 @ ''.in-addr.arpa'', octets ! 3 @ ''.'' @ octets ! 2),
                 (octets ! 0 @ ''.in-addr.arpa'', octets ! 3 @ ''.'' @ octets ! 2 @ ''.'' @ octets ! 1)])
          else
            (let nibbles = nibbles_of (ip_value parsed)
             in map (\<lambda>zoneNibbles. (join ''.'' (rev (take zoneNibbles nibbles)) @ ''.ip6.arpa'',
                                    join ''.'' (rev (drop zoneNibbles nibbles)))) (rev [1..<32])))"

definition findReversePtrLocation :: "db \<Rightarrow> string \<Rightarrow> bool \<Rightarrow> (zone_row \<times> string) option" where
  "findReversePtrLocation db ip enabledOnly =
     (case List.map_filter (\<lambda>c. case find (\<lambda>z. zone_type z = REVERSE \<and> zone_name z = fst c \<and> (enabledOnly \<longrightarrow> zone_enabled z))
                                  (dns_zones db) of
              None \<Rightarrow> None | Some z \<Rightarrow> Some (z, snd c)) (reversePtrCandidates ip) of
        [] \<Rightarrow> None | hit # _ \<Rightarrow> Some hit)"

text \<open>What is left of a zone name when \<open>/\.?<arpa>\.?$/\<close> is removed; None where it does not match.\<close>

definition arpa_rest :: "string \<Rightarrow> string \<Rightarrow> string option" where
  "arpa_rest arpa zone =
     (let w = strip_dot zone in
      if endsWith w arpa then Some (strip_dot (take (length w - length arpa) w)) else None)"

definition labels :: "string \<Rightarrow> string list" where
  "labels s = filter (\<lambda>l. l \<noteq> []) (split_chr (CHR ''.'') s)"

definition ipForPtrRecord :: "string \<Rightarrow> string \<Rightarrow> string option" where
  "ipForPtrRecord recordName zoneName =
     (let zone = toLowerCase zoneName; recordLabels = labels (toLowerCase recordName) in
      case arpa_rest ''ip6.arpa'' zone of
        Some rest \<Rightarrow>
          (let nibbles = rev (recordLabels @ labels rest) in
           if length nibbles \<noteq> 32 \<or> \<not> list_all (\<lambda>n. length n = 1 \<and> list_all is_lower_hex n) nibbles then None
           else Some (formatIp (of_digits 16 (concat nibbles)) IPV6_BITS))
      | None \<Rightarrow>
          (let zoneLabels = labels (case arpa_rest ''in-addr.arpa'' zone of Some rest \<Rightarrow> rest | None \<Rightarrow> zone);
               ip = join ''.'' (rev (recordLabels @ zoneLabels))
           in case parseIp_with unscoped ip of
                None \<Rightarrow> None
              | Some p \<Rightarrow> if ip_bits p = IPV4_BITS \<and> CHR '':'' \<notin> set ip then Some ip else None))"

section \<open>The PTR of an address\<close>

datatype ptr_result = PtrUpdated bool | PtrConflict string string string

definition syncPtrForARecord :: "db \<Rightarrow> string \<Rightarrow> string \<Rightarrow> string \<Rightarrow> bool \<Rightarrow> string \<Rightarrow> db \<times> ptr_result" where
  "syncPtrForARecord db recordName ip forwardZoneName force source =
     (case findReversePtrLocation db ip True of
        None \<Rightarrow> (db, PtrUpdated False)
      | Some (zone, ptrName) \<Rightarrow>
          let fqdn = fqdnForRecordName recordName forwardZoneName in
          case find_ptr db (zone_id zone) ptrName of
            Some existing \<Rightarrow>
              let value = rec_value existing; low = toLowerCase value in
              if \<not> force \<and> value \<noteq> [] \<and> value \<noteq> ip \<and> \<not> isValidAddress value \<and> low \<noteq> toLowerCase fqdn
                 \<and> \<not> endsWith low (''.'' @ toLowerCase forwardZoneName) \<and> low \<noteq> toLowerCase forwardZoneName
              then (db, PtrConflict value fqdn (zone_name zone))
              else if value = fqdn \<and> rec_source existing = Some source \<and> rec_enabled existing then (db, PtrUpdated False)
              else (bumpZoneSerial (update_records (\<lambda>r. rec_id r = rec_id existing) (set_ptr fqdn source (clock db)) db)
                      (zone_id zone), PtrUpdated True)
          | None \<Rightarrow> (bumpZoneSerial (insert_record (ptr_row (zone_id zone) ptrName fqdn source (clock db)) db) (zone_id zone),
                     PtrUpdated True))"

definition isAllocatedAddress :: "db \<Rightarrow> string \<Rightarrow> bool" where
  "isAllocatedAddress db ip = list_ex (\<lambda>r. ip_address r = ip \<and> ip_allocation_state r \<noteq> UNASSIGNED) (ip_addresses db)"

definition isIpv6Text :: "parsed_ip option \<Rightarrow> bool" where
  "isIpv6Text p = (case p of None \<Rightarrow> False | Some q \<Rightarrow> ip_bits q = IPV6_BITS)"

definition setPtrForIp :: "db \<Rightarrow> string \<Rightarrow> string option \<Rightarrow> bool \<Rightarrow> string \<Rightarrow> db \<times> bool" where
  "setPtrForIp db ip hostname enabledOnly source =
     (case findReversePtrLocation db ip enabledOnly of
        None \<Rightarrow> (db, False)
      | Some (zone, ptrName) \<Rightarrow>
          let fqdn = trim (if truthy hostname then coalesce hostname else ip);
              existing = find_ptr db (zone_id zone) ptrName;
              placeholder = (\<not> truthy hostname \<or> parseIp_with unscoped fqdn \<noteq> None)
          in if placeholder \<and> isIpv6Text (parseIp ip) \<and> \<not> isAllocatedAddress db ip
             then (case existing of
                     None \<Rightarrow> (db, False)
                   | Some r \<Rightarrow> (bumpZoneSerial (delete_record (rec_id r) db) (zone_id zone), True))
             else case existing of
                    Some r \<Rightarrow>
                      if rec_value r = fqdn \<and> rec_source r = Some source \<and> rec_enabled r then (db, False)
                      else (bumpZoneSerial (update_records (\<lambda>q. rec_id q = rec_id r) (set_ptr fqdn source (clock db)) db)
                              (zone_id zone), True)
                  | None \<Rightarrow>
                      if fqdn \<noteq> []
                      then (bumpZoneSerial (insert_record (ptr_row (zone_id zone) ptrName fqdn source (clock db)) db)
                              (zone_id zone), True)
                      else (db, False))"

definition dropUnallocatedIpv6Ptr :: "db \<Rightarrow> string \<Rightarrow> db \<times> bool" where
  "dropUnallocatedIpv6Ptr db ip =
     (if \<not> isIpv6Text (parseIp_with unscoped ip) then (db, False)
      else if isAllocatedAddress db ip then (db, False)
      else case findReversePtrLocation db ip False of
             None \<Rightarrow> (db, False)
           | Some (zone, ptrName) \<Rightarrow>
               (case find_ptr db (zone_id zone) ptrName of
                  None \<Rightarrow> (db, False)
                | Some existing \<Rightarrow>
                    if parseIp_with unscoped (rec_value existing) = None then (db, False)
                    else (bumpZoneSerial (delete_record (rec_id existing) db) (zone_id zone), True)))"

definition clearPtrForIp :: "db \<Rightarrow> string \<Rightarrow> db \<times> bool" where
  "clearPtrForIp db ip = setPtrForIp db ip (Some ip) True ''placeholder''"

definition clearPtrForARecord :: "db \<Rightarrow> string \<Rightarrow> string \<Rightarrow> string \<Rightarrow> db \<times> bool" where
  "clearPtrForARecord db recordName ip forwardZoneName =
     (case findReversePtrLocation db ip True of
        None \<Rightarrow> (db, False)
      | Some (zone, ptrName) \<Rightarrow>
          (case find_ptr db (zone_id zone) ptrName of
             None \<Rightarrow> (db, False)
           | Some existing \<Rightarrow>
               if toLowerCase (rec_value existing) \<noteq> toLowerCase (fqdnForRecordName recordName forwardZoneName)
               then (db, False) else clearPtrForIp db ip))"

section \<open>Writing records\<close>

record record_fields =
  rf_name :: string
  rf_type :: string
  rf_value :: string
  rf_priority :: "nat option"
  rf_weight :: "nat option"
  rf_port :: "nat option"
  rf_ttl :: "nat option"
  rf_enabled :: "bool option"

definition new_record :: "zone_row \<Rightarrow> record_fields \<Rightarrow> instant \<Rightarrow> record_row" where
  "new_record zone f now =
     \<lparr>rec_id = 0, rec_zone_id = zone_id zone, rec_name = normalizeRecordNameForZone (rf_name f) (zone_name zone),
      rec_type = rf_type f, rec_value = rf_value f, rec_priority = rf_priority f, rec_weight = rf_weight f,
      rec_port = rf_port f, rec_ttl = rf_ttl f, rec_source = Some ''manual'', rec_enabled = given (rf_enabled f) True,
      rec_updated_at = now\<rparr>"

text \<open>Transactions: a throw leaves the database as it was.\<close>

definition createRecord :: "db \<Rightarrow> zone_row \<Rightarrow> record_fields \<Rightarrow> bool \<Rightarrow> (nat \<times> ptr_result option) outcome" where
  "createRecord db zone f forcePtr =
     (let db1 = bumpZoneSerial (insert_record (new_record zone f (clock db)) db) (zone_id zone) in
      if given (rf_enabled f) True \<and> isAddressRecordType (rf_type f) \<and> zone_type zone = FORWARD
      then (case syncPtrForARecord db1 (rf_name f) (rf_value f) (zone_name zone) forcePtr ''dns'' of
              (db2, PtrConflict _ _ _) \<Rightarrow> (db, Inl (Error ''PTR conflict''))
            | (db2, r) \<Rightarrow> (db2, Inr (next_record_id db, Some r)))
      else (db1, Inr (next_record_id db, None)))"

definition updated_record :: "zone_row \<Rightarrow> record_fields \<Rightarrow> bool \<Rightarrow> instant \<Rightarrow> record_row \<Rightarrow> record_row" where
  "updated_record zone f newEnabled now r =
     r\<lparr>rec_name := normalizeRecordNameForZone (rf_name f) (zone_name zone), rec_type := rf_type f, rec_value := rf_value f,
       rec_priority := rf_priority f, rec_weight := rf_weight f, rec_port := rf_port f, rec_ttl := rf_ttl f,
       rec_enabled := newEnabled, rec_updated_at := now\<rparr>"

definition updateRecord :: "db \<Rightarrow> zone_row \<Rightarrow> record_row \<Rightarrow> record_fields \<Rightarrow> db" where
  "updateRecord db zone rec f =
     (let oldEnabledA = (rec_enabled rec \<and> isAddressRecordType (rec_type rec) \<and> zone_type zone = FORWARD);
          newEnabled = given (rf_enabled f) (rec_enabled rec);
          newEnabledA = (newEnabled \<and> isAddressRecordType (rf_type f) \<and> zone_type zone = FORWARD);
          db1 = bumpZoneSerial (update_records (\<lambda>r. rec_id r = rec_id rec)
                  (updated_record zone f newEnabled (clock db)) db) (zone_id zone);
          db2 = (if oldEnabledA \<and> (\<not> newEnabledA \<or> rec_value rec \<noteq> rf_value f)
                 then fst (clearPtrForARecord db1 (rec_name rec) (rec_value rec) (zone_name zone)) else db1)
      in if newEnabledA then fst (syncPtrForARecord db2 (rf_name f) (rf_value f) (zone_name zone) False ''dns'') else db2)"

definition deleteRecord :: "db \<Rightarrow> zone_row \<Rightarrow> record_row \<Rightarrow> db" where
  "deleteRecord db zone rec =
     (let db1 = bumpZoneSerial (delete_record (rec_id rec) db) (zone_id zone) in
      if rec_enabled rec \<and> isAddressRecordType (rec_type rec) \<and> zone_type zone = FORWARD
      then fst (clearPtrForARecord db1 (rec_name rec) (rec_value rec) (zone_name zone)) else db1)"

section \<open>Records of DHCP leases\<close>

definition findRowlessDhcpRecordAddresses :: "db \<Rightarrow> instant \<Rightarrow> string list" where
  "findRowlessDhcpRecordAddresses db cutoff =
     remdups (map rec_value (filter (\<lambda>r. rec_source r = Some ''dhcp'' \<and> isAddressRecordType (rec_type r)
        \<and> rec_updated_at r \<le> cutoff
        \<and> \<not> list_ex (\<lambda>a. ip_address a = rec_value r) (ip_addresses db)
        \<and> \<not> list_ex (\<lambda>l. lease_ip_address l = rec_value r) (dhcp_leases db)) (dns_records db)))"

text \<open>\<open>COALESCE(NULLIF(s.domain_name, ''), NULLIF(sub.domain_name, ''))\<close> over the enabled scopes of a
  network, or the network's own name where it has none; empty names are dropped.\<close>

definition lease_zone_names :: "db \<Rightarrow> nat \<Rightarrow> string list" where
  "lease_zone_names db sn =
     (case find_subnet db sn of
        None \<Rightarrow> []
      | Some sub \<Rightarrow>
          let scopes = filter (\<lambda>s. scope_subnet_id s = sn \<and> scope_enabled s) (dhcp_scopes db);
              name = (\<lambda>d. if truthy d then d else or_null (sub_domain_name sub));
              names = (if scopes = [] then [or_null (sub_domain_name sub)] else map (\<lambda>s. name (scope_domain_name s)) scopes)
          in remdups (List.map_filter (\<lambda>v. v) names))"

text \<open>An address given as text (no network) or as a row.\<close>

definition lease_records_at :: "db \<Rightarrow> string \<times> nat option \<Rightarrow> record_row list" where
  "lease_records_at db address =
     (case address of (ip, subnetId) \<Rightarrow>
        let zoneNames = (case subnetId of None \<Rightarrow> [] | Some sn \<Rightarrow> lease_zone_names db sn) in
        if subnetId \<noteq> None \<and> zoneNames = [] then []
        else filter (\<lambda>r. isAddressRecordType (rec_type r) \<and> rec_source r = Some ''dhcp'' \<and> rec_value r = ip
                 \<and> (case find_zone db (rec_zone_id r) of None \<Rightarrow> False
                    | Some z \<Rightarrow> zoneNames = [] \<or> zone_name z \<in> set zoneNames)) (dns_records db))"

definition delete_lease_record :: "record_row \<Rightarrow> db \<Rightarrow> db" where
  "delete_lease_record rec db =
     (case find_zone db (rec_zone_id rec) of
        None \<Rightarrow> db
      | Some zone \<Rightarrow>
          let reverse = findReversePtrLocation db (rec_value rec) True;
              ptr = (case reverse of None \<Rightarrow> None
                     | Some (rz, ptrName) \<Rightarrow>
                         find (\<lambda>r. rec_zone_id r = zone_id rz \<and> rec_type r = ''PTR'' \<and> rec_name r = ptrName
                                 \<and> sql_lower (rec_value r) = sql_lower (fqdnForRecordName (rec_name rec) (zone_name zone)))
                           (dns_records db));
              db1 = deleteRecord db zone rec
          in case (reverse, ptr) of
               (Some (rz, _), Some p) \<Rightarrow> bumpZoneSerial (delete_record (rec_id p) db1) (zone_id rz)
             | _ \<Rightarrow> db1)"

definition deleteDynamicDhcpRecordsByIps :: "db \<Rightarrow> (string \<times> nat option) list \<Rightarrow> db \<times> nat" where
  "deleteDynamicDhcpRecordsByIps db addresses =
     (let found = rev (remdups (rev (concat (map (lease_records_at db) addresses)))) in
      (fold delete_lease_record found db, length found))"

end
