(* ===== verification/ReverseDns.thy ===== *)
theory ReverseDns
  imports DnsRecords
begin

text \<open>
  Reverse DNS: the record name and zone \<open>reversePtrCandidates\<close> gives an address are read back by
  \<open>ipForPtrRecord\<close>, the PTR an address is given is found again and setting it twice changes nothing,
  and removing lease records removes nothing else. A frame says for each of the three operations which PTR
  records it may change and which it may add.
\<close>

section \<open>Labels\<close>

definition label_ok :: "string \<Rightarrow> bool" where
  "label_ok l \<longleftrightarrow> l \<noteq> [] \<and> CHR ''.'' \<notin> set l \<and> toLowerCase l = l"

lemma labels_join:
  assumes "ls \<noteq> []" "\<forall>l \<in> set ls. label_ok l"
  shows "labels (join ''.'' ls) = ls"
proof -
  have "split_chr (CHR ''.'') (join [CHR ''.''] ls) = ls"
    using assms by (intro split_join) (auto simp: label_ok_def)
  then show ?thesis using assms(2) by (simp add: labels_def label_ok_def filter_id_conv)
qed

lemma join_last:
  assumes "ls \<noteq> []" "\<forall>l \<in> set ls. label_ok l"
  shows "join ''.'' ls \<noteq> [] \<and> last (join ''.'' ls) \<noteq> CHR ''.''"
  using assms
proof (induction "''.''" ls rule: join.induct)
  case (2 x)
  then have "x \<noteq> []" "CHR ''.'' \<notin> set x" by (simp_all add: label_ok_def)
  then show ?case by (metis join.simps(2) last_in_set)
next
  case (3 x y zs)
  then show ?case by auto
qed simp

lemma lower_join: "\<forall>l \<in> set ls. label_ok l \<Longrightarrow> toLowerCase (join ''.'' ls) = join ''.'' ls"
proof (induction "''.''" ls rule: join.induct)
  case (3 x y zs)
  have "toLowerCase ''.'' = ''.''" by code_simp
  with 3 show ?case by (simp only: join.simps toLowerCase_append) (simp add: label_ok_def)
qed (auto simp: label_ok_def toLowerCase_def)

lemma strip_dot_none: "s = [] \<or> last s \<noteq> CHR ''.'' \<Longrightarrow> strip_dot s = s"
  by (auto simp: strip_dot_def)

lemma arpa_rest_join:
  assumes "ls \<noteq> []" "\<forall>l \<in> set ls. label_ok l" "arpa \<noteq> []" "last arpa \<noteq> CHR ''.''"
  shows "arpa_rest arpa (join ''.'' ls @ ''.'' @ arpa) = Some (join ''.'' ls)"
proof -
  let ?z = "join ''.'' ls"
  have "strip_dot (?z @ ''.'' @ arpa) = ?z @ ''.'' @ arpa" using assms(3,4) by (intro strip_dot_none) auto
  moreover have "endsWith (?z @ ''.'' @ arpa) arpa" by (simp add: endsWith_def suffix_def)
  moreover have "strip_dot (?z @ ''.'') = ?z" using join_last [OF assms(1,2)] by (simp add: strip_dot_def)
  moreover have "take (length (?z @ ''.'' @ arpa) - length arpa) (?z @ ''.'' @ arpa) = ?z @ ''.''" by simp
  ultimately show ?thesis unfolding arpa_rest_def Let_def by (simp only: if_True)
qed

lemma in_addr_not_ip6: "arpa_rest ''ip6.arpa'' (s @ ''.in-addr.arpa'') = None"
proof -
  have "strip_dot (s @ ''.in-addr.arpa'') = s @ ''.in-addr.arpa''" by (intro strip_dot_none) auto
  moreover have "\<not> endsWith (s @ ''.in-addr.arpa'') ''ip6.arpa''"
    unfolding endsWith_def suffix_to_prefix by simp
  ultimately show ?thesis by (simp add: arpa_rest_def)
qed

section \<open>PTR names and addresses\<close>

text \<open>Both families: the reversed labels, cut at some point.\<close>

lemma candidate_labels:
  assumes "\<forall>l \<in> set parts. label_ok l" "0 < k" "k < length parts"
    and "arpa \<noteq> []" "last arpa \<noteq> CHR ''.''" "toLowerCase arpa = arpa"
  defines "zone \<equiv> join ''.'' (rev (take k parts)) @ ''.'' @ arpa" and "name \<equiv> join ''.'' (rev (drop k parts))"
  shows "toLowerCase zone = zone" "arpa_rest arpa zone = Some (join ''.'' (rev (take k parts)))"
    "rev (labels (toLowerCase name) @ labels (join ''.'' (rev (take k parts)))) = parts"
proof -
  have z: "rev (take k parts) \<noteq> []" "\<forall>l \<in> set (rev (take k parts)). label_ok l"
    using assms(1-3) by (auto dest: in_set_takeD)
  have n: "rev (drop k parts) \<noteq> []" "\<forall>l \<in> set (rev (drop k parts)). label_ok l"
    using assms(1-3) by (auto dest: in_set_dropD)
  have dot: "toLowerCase ''.'' = ''.''" by code_simp
  show "toLowerCase zone = zone"
    unfolding zone_def toLowerCase_append lower_join [OF z(2)] dot assms(6) ..
  show "arpa_rest arpa zone = Some (join ''.'' (rev (take k parts)))"
    unfolding zone_def by (rule arpa_rest_join [OF z assms(4,5)])
  show "rev (labels (toLowerCase name) @ labels (join ''.'' (rev (take k parts)))) = parts"
    unfolding name_def lower_join [OF n(2)] labels_join [OF n] labels_join [OF z]
    by (metis append_take_drop_id rev_append rev_rev_ident)
qed

lemma nibbles_label_ok: "\<forall>l \<in> set (nibbles_of v). label_ok l"
proof -
  have "lower_char c = c \<and> c \<noteq> CHR ''.''" if "is_lower_hex c" for c
    using that by (auto simp: is_lower_hex_def is_digit_def lower_char_def)
  moreover have "list_all is_lower_hex (padStart 32 (CHR ''0'') (hex v))"
    using hex_lower_chars [of v] by (auto simp: padStart_def list_all_iff is_lower_hex_def is_digit_def)
  ultimately show ?thesis by (auto simp: nibbles_of_def label_ok_def list_all_iff toLowerCase_def)
qed

lemma ptr_back_v6:
  assumes "v < 2 ^ 128" "0 < k" "k < 32"
  shows "ipForPtrRecord (join ''.'' (rev (drop k (nibbles_of v)))) (join ''.'' (rev (take k (nibbles_of v))) @ ''.ip6.arpa'')
    = Some (formatIp v 128)"
proof -
  have len: "length (nibbles_of v) = 32"
    using assms(1) by (simp add: nibbles_of_groups groups_of_def)
  have arpa: "''ip6.arpa'' \<noteq> ([] :: string)" "last ''ip6.arpa'' \<noteq> CHR ''.''" "toLowerCase ''ip6.arpa'' = ''ip6.arpa''"
    by code_simp+
  have kl: "k < length (nibbles_of v)" using assms(3) len by simp
  note c = candidate_labels [OF nibbles_label_ok assms(2) kl arpa]
  have "list_all (\<lambda>n. length n = 1 \<and> list_all is_lower_hex n) (nibbles_of v)"
  proof -
    have "list_all is_lower_hex (padStart 32 (CHR ''0'') (hex v))"
      using hex_lower_chars [of v] by (auto simp: padStart_def list_all_iff is_lower_hex_def is_digit_def)
    then show ?thesis by (auto simp: nibbles_of_def list_all_iff)
  qed
  moreover have "of_digits 16 (concat (nibbles_of v)) = v"
    by (simp add: nibbles_of_def concat_map_singleton [of "\<lambda>c. c", simplified] padStart_def of_digits_replicate_0 of_digits_to_digits)
  ultimately show ?thesis
    using c len unfolding ipForPtrRecord_def Let_def by (simp add: IPV6_BITS_def)
qed

lemma dec_label_ok: "label_ok (dec n)"
proof -
  have "lower_char c = c" if "is_digit c" for c using that by (auto simp: is_digit_def lower_char_def)
  then have "toLowerCase (dec n) = dec n"
    using dec_chars [of n] by (auto simp: toLowerCase_def list_all_iff intro: map_idI)
  then show ?thesis using dec_no_special by (fastforce simp: label_ok_def)
qed

lemma ptr_back_v4:
  assumes "v < 2 ^ 32" "0 < k" "k < 4"
  defines "os \<equiv> map dec (groups_of 256 4 v)"
  shows "ipForPtrRecord (join ''.'' (rev (drop k os))) (join ''.'' (rev (take k os)) @ ''.in-addr.arpa'') = Some (formatIp v 32)"
proof -
  have ok: "\<forall>l \<in> set os. label_ok l" and kl: "k < length os"
    using assms(3) by (auto simp: os_def dec_label_ok groups_of_def)
  have arpa: "''in-addr.arpa'' \<noteq> ([] :: string)" "last ''in-addr.arpa'' \<noteq> CHR ''.''" "toLowerCase ''in-addr.arpa'' = ''in-addr.arpa''"
    by code_simp+
  note c = candidate_labels [OF ok assms(2) kl arpa]
  have ip: "join ''.'' os = formatIp v 32" by (simp add: os_def formatIp_v4)
  have p: "parseIp_with unscoped (formatIp v 32) = Some \<lparr>ip_value = v, ip_bits = 32, ip_zoneId = None\<rparr>"
    using assms(1) by (intro parseIp_with_format) (simp add: valid_addr_def)
  have n6: "arpa_rest ''ip6.arpa'' (join ''.'' (rev (take k os)) @ ''.'' @ ''in-addr.arpa'') = None"
    using in_addr_not_ip6 by simp
  show ?thesis
    using c n6 p unfolding ipForPtrRecord_def Let_def
    by (simp add: ip formatIp_v4_no_colon IPV4_BITS_def)
qed

lemma candidates_v4:
  assumes "v < 2 ^ 32"
  shows "reversePtrCandidates (formatIp v 32) =
    map (\<lambda>k. (join ''.'' (rev (take k (map dec (groups_of 256 4 v)))) @ ''.in-addr.arpa'',
              join ''.'' (rev (drop k (map dec (groups_of 256 4 v)))))) [3, 2, 1]"
proof -
  have p: "parseIp_with unscoped (formatIp v 32) = Some \<lparr>ip_value = v, ip_bits = 32, ip_zoneId = None\<rparr>"
    using assms by (intro parseIp_with_format) (simp add: valid_addr_def)
  have split: "split_chr (CHR ''.'') (formatIp v 32) = map dec (groups_of 256 4 v)"
    unfolding formatIp_v4 by (rule split_join) (use dec_no_special in \<open>force simp: groups_of_def\<close>)+
  show ?thesis
    by (simp add: reversePtrCandidates_def p split IPV4_BITS_def groups_256_4)
qed

lemma candidates_v6:
  assumes "valid_addr v 128"
  shows "reversePtrCandidates (formatIp v 128) =
    map (\<lambda>k. (join ''.'' (rev (take k (nibbles_of v))) @ ''.ip6.arpa'', join ''.'' (rev (drop k (nibbles_of v))))) (rev [1..<32])"
  by (simp add: reversePtrCandidates_def parseIp_with_format [OF assms] IPV4_BITS_def Let_def)

lemma ptr_candidates_back:
  assumes "valid_addr v b" "(zone, name) \<in> set (reversePtrCandidates (formatIp v b))"
  shows "ipForPtrRecord name zone = Some (formatIp v b)"
proof -
  consider "b = 32" "v < 2 ^ 32" | "b = 128" "v < 2 ^ 128" using assms(1) by (auto simp: valid_addr_def)
  then show ?thesis
  proof cases
    case 1
    then show ?thesis using assms(2) ptr_back_v4 [of v] by (auto simp: candidates_v4)
  next
    case 2
    then show ?thesis using assms ptr_back_v6 [of v] by (auto simp: candidates_v6)
  qed
qed

text \<open>A zone of more labels has the longer name, so that no zone is listed twice.\<close>

lemma join_dots: "\<forall>l \<in> set ls. label_ok l \<Longrightarrow> length (filter (\<lambda>c. c = CHR ''.'') (join ''.'' ls)) = length ls - 1"
proof (induction "''.''" ls rule: join.induct)
  case (3 x y zs)
  then have "filter (\<lambda>c. c = CHR ''.'') x = []" by (auto simp: label_ok_def filter_empty_conv)
  with 3 show ?case by simp
qed (auto simp: label_ok_def filter_empty_conv)

lemma distinct_candidates:
  assumes "\<forall>l \<in> set parts. label_ok l" "\<forall>k \<in> set ks. 0 < k \<and> k < length parts" "distinct ks"
  shows "distinct (map (\<lambda>k. join ''.'' (rev (take k parts)) @ arpa) ks)"
proof -
  let ?dots = "\<lambda>s. length (filter (\<lambda>c. c = CHR ''.'') s)" and ?zone = "\<lambda>k. join ''.'' (rev (take k parts)) @ arpa"
  have dots: "?dots (?zone k) = k - 1 + ?dots arpa" if "k \<in> set ks" for k
    using join_dots [of "rev (take k parts)"] assms(1,2) that by (auto dest: in_set_takeD)
  have "inj_on ?zone (set ks)"
  proof (rule inj_onI)
    fix j k assume jk: "j \<in> set ks" "k \<in> set ks" "?zone j = ?zone k"
    then have "j - 1 + ?dots arpa = k - 1 + ?dots arpa" using dots [of j] dots [of k] by simp
    moreover have "0 < j" "0 < k" using jk(1,2) assms(2) by auto
    ultimately show "j = k" by linarith
  qed
  then show ?thesis using assms(3) by (simp add: distinct_map)
qed

lemma candidate_zones_distinct:
  assumes "valid_addr v b"
  shows "distinct (map fst (reversePtrCandidates (formatIp v b)))"
proof -
  consider "b = 32" "v < 2 ^ 32" | "b = 128" "v < 2 ^ 128" using assms by (auto simp: valid_addr_def)
  then show ?thesis
  proof cases
    case 1
    have len: "length (map dec (groups_of 256 4 v)) = 4" by (simp add: groups_of_def)
    have "distinct (map (\<lambda>k. join ''.'' (rev (take k (map dec (groups_of 256 4 v)))) @ ''.in-addr.arpa'') [3, 2, 1])"
      by (rule distinct_candidates) (auto simp: dec_label_ok len simp del: length_map)
    then show ?thesis unfolding 1(1) candidates_v4 [OF 1(2)] by (simp add: comp_def)
  next
    case 2
    have "length (nibbles_of v) = 32" using 2(2) by (simp add: nibbles_of_groups groups_of_def)
    then have "distinct (map (\<lambda>k. join ''.'' (rev (take k (nibbles_of v))) @ ''.ip6.arpa'') (rev [1..<32]))"
      by (intro distinct_candidates nibbles_label_ok) auto
    then show ?thesis using assms unfolding 2(1) by (simp add: candidates_v6 comp_def)
  qed
qed

text \<open>C30. Every reverse zone that could hold an address's PTR, and the record name in it, lead back to
  that address and to no other: an IPv4 address has three such zones, all different, and an IPv6 address 31;
  for each, \<open>ipForPtrRecord\<close> of the record name in it gives the canonical text of the address, and no other
  address has the same name in the same zone.\<close>

theorem ptr_roundtrip:
  assumes "valid_addr v b"
  shows "length (reversePtrCandidates (formatIp v b)) = (if b = 32 then 3 else 31)
    \<and> distinct (map fst (reversePtrCandidates (formatIp v b)))
    \<and> (\<forall>(zone, name) \<in> set (reversePtrCandidates (formatIp v b)). ipForPtrRecord name zone = Some (formatIp v b))
    \<and> (\<forall>w c zone name. valid_addr w c \<and> (zone, name) \<in> set (reversePtrCandidates (formatIp v b))
         \<and> (zone, name) \<in> set (reversePtrCandidates (formatIp w c)) \<longrightarrow> w = v \<and> c = b)"
proof -
  have "length (reversePtrCandidates (formatIp v b)) = (if b = 32 then 3 else 31)"
    using assms candidates_v4 [of v] candidates_v6 [of v] by (auto simp: valid_addr_def)
  moreover have "w = v \<and> c = b"
    if "valid_addr w c" "(zone, name) \<in> set (reversePtrCandidates (formatIp v b))"
      "(zone, name) \<in> set (reversePtrCandidates (formatIp w c))" for w c zone name
    using ptr_candidates_back [OF assms that(2)] ptr_candidates_back [OF that(1,3)] formatIp_inj [OF that(1) assms] by simp
  ultimately show ?thesis using ptr_candidates_back [OF assms] candidate_zones_distinct [OF assms] by blast
qed

theorem ptr_roundtrip_witness:
  "ipForPtrRecord ''7'' ''2.0.192.in-addr.arpa'' = Some ''192.0.2.7''"
proof -
  have "valid_addr 0xc0000207 32" by (simp add: valid_addr_def)
  moreover have "formatIp 0xc0000207 32 = ''192.0.2.7''" by code_simp
  moreover have "(''2.0.192.in-addr.arpa'', ''7'') \<in> set (reversePtrCandidates ''192.0.2.7'')" by code_simp
  ultimately show ?thesis using ptr_roundtrip [of "0xc0000207" 32] by fastforce
qed

section \<open>The record table\<close>

definition records_ok :: "db \<Rightarrow> bool" where
  "records_ok db \<longleftrightarrow> distinct (map rec_id (dns_records db)) \<and> (\<forall>r \<in> set (dns_records db). rec_id r < next_record_id db)"

definition nonptr :: "db \<Rightarrow> record_row list" where
  "nonptr db = filter (\<lambda>r. rec_type r \<noteq> ''PTR'') (dns_records db)"

text \<open>Everything but the record and zone tables, and the keys of the zones.\<close>

definition rest :: "db \<Rightarrow> db" where
  "rest db = db\<lparr>dns_zones := [], dns_records := [], next_record_id := 0\<rparr>"

definition zone_keys :: "db \<Rightarrow> (nat \<times> string \<times> zone_type \<times> bool) list" where
  "zone_keys db = map (\<lambda>z. (zone_id z, zone_name z, zone_type z, zone_enabled z)) (dns_zones db)"

text \<open>What a write of PTR records keeps.\<close>

definition ptr_write :: "db \<Rightarrow> db \<Rightarrow> bool" where
  "ptr_write db db' \<longleftrightarrow> (records_ok db \<longrightarrow> records_ok db' \<and> nonptr db' = nonptr db) \<and> rest db' = rest db \<and> zone_keys db' = zone_keys db"

lemma ptr_write_refl [simp]: "ptr_write db db"
  by (simp add: ptr_write_def)

lemma ptr_write_trans: "ptr_write a b \<Longrightarrow> ptr_write b c \<Longrightarrow> ptr_write a c"
  by (auto simp: ptr_write_def)

lemma bump_simps [simp]:
  "dns_records (bumpZoneSerial db i) = dns_records db" "next_record_id (bumpZoneSerial db i) = next_record_id db"
  "rest (bumpZoneSerial db i) = rest db" "zone_keys (bumpZoneSerial db i) = zone_keys db"
  "clock (bumpZoneSerial db i) = clock db" "ip_addresses (bumpZoneSerial db i) = ip_addresses db"
  by (auto simp: bumpZoneSerial_def rest_def zone_keys_def)

lemma ptr_write_bump: "ptr_write db db' \<Longrightarrow> ptr_write db (bumpZoneSerial db' i)"
  by (simp add: ptr_write_def records_ok_def nonptr_def)

lemma ptr_write_insert: "rec_type r = ''PTR'' \<Longrightarrow> ptr_write db (insert_record r db)"
  by (auto simp: ptr_write_def records_ok_def nonptr_def insert_record_def rest_def zone_keys_def less_Suc_eq)

lemma unique_record:
  "records_ok db \<Longrightarrow> p \<in> set (dns_records db) \<Longrightarrow> q \<in> set (dns_records db) \<Longrightarrow> rec_id q = rec_id p \<Longrightarrow> q = p"
  by (auto simp: records_ok_def distinct_map dest: inj_onD)

lemma ptr_write_delete:
  assumes "p \<in> set (dns_records db)" "rec_type p = ''PTR''"
  shows "ptr_write db (delete_record (rec_id p) db)"
proof -
  have "nonptr (delete_record (rec_id p) db) = nonptr db" if ok: "records_ok db"
    unfolding nonptr_def delete_record_def
    using unique_record [OF ok assms(1)] assms(2) by (auto intro!: filter_cong)
  moreover have "records_ok (delete_record (rec_id p) db)" if "records_ok db"
    using that by (auto simp: records_ok_def delete_record_def distinct_map_filter_keep)
  ultimately show ?thesis by (simp add: ptr_write_def delete_record_def rest_def zone_keys_def)
qed

lemma update_records_simps:
  "dns_records (update_records P f db) = map (\<lambda>r. if P r then f r else r) (dns_records db)"
  "next_record_id (update_records P f db) = next_record_id db" "dns_zones (update_records P f db) = dns_zones db"
  by (simp_all add: update_records_def)

lemma ptr_write_update:
  assumes "p \<in> set (dns_records db)" "rec_type p = ''PTR''"
  shows "ptr_write db (update_records (\<lambda>r. rec_id r = rec_id p) (set_ptr v src now) db)"
proof -
  let ?g = "\<lambda>r. if rec_id r = rec_id p then set_ptr v src now r else r"
  have id: "rec_id (set_ptr v src now r) = rec_id r" "rec_type (set_ptr v src now r) = rec_type r" for r
    by (simp_all add: set_ptr_def)
  have ids: "map rec_id (map ?g (dns_records db)) = map rec_id (dns_records db)" by (simp add: id)
  have below: "\<forall>q \<in> set (map ?g (dns_records db)). rec_id q < n" if "\<forall>q \<in> set (dns_records db). rec_id q < n" for n
    using that by (auto simp: id)
  have f: "filter (\<lambda>r. rec_type r \<noteq> ''PTR'') (map ?g rs) = filter (\<lambda>r. rec_type r \<noteq> ''PTR'') rs"
    if "\<forall>r \<in> set rs. rec_id r = rec_id p \<longrightarrow> r = p" for rs
    using that assms(2) by (induction rs) (auto simp: id)
  have "records_ok (update_records (\<lambda>r. rec_id r = rec_id p) (set_ptr v src now) db)" if "records_ok db"
  proof -
    have "distinct (map rec_id (map ?g (dns_records db)))" unfolding ids using that by (simp add: records_ok_def)
    moreover have "\<forall>q \<in> set (map ?g (dns_records db)). rec_id q < next_record_id db"
      using that by (intro below) (simp add: records_ok_def)
    ultimately show ?thesis unfolding records_ok_def update_records_simps by blast
  qed
  moreover have "nonptr (update_records (\<lambda>r. rec_id r = rec_id p) (set_ptr v src now) db) = nonptr db" if "records_ok db"
    unfolding nonptr_def update_records_def using f unique_record [OF that assms(1)] by simp
  ultimately show ?thesis by (simp add: ptr_write_def update_records_def rest_def zone_keys_def)
qed

lemma find_ptr_Some:
  "find_ptr db i n = Some r \<Longrightarrow> r \<in> set (dns_records db) \<and> rec_zone_id r = i \<and> rec_type r = ''PTR'' \<and> rec_name r = n"
  by (auto simp: find_ptr_def find_Some_iff)

lemma ptr_write_insert_row: "ptr_write db (insert_record (ptr_row i n v src now) db)"
  by (rule ptr_write_insert) (simp add: ptr_row_def)

lemma ptr_write_setPtr [simp]: "ptr_write db (fst (setPtrForIp db ip h en src))"
proof (cases "findReversePtrLocation db ip en")
  case (Some loc)
  obtain z n where loc: "loc = (z, n)" by (cases loc)
  show ?thesis
  proof (cases "find_ptr db (zone_id z) n")
    case None
    then show ?thesis
      by (simp add: setPtrForIp_def Let_def Some loc ptr_write_bump ptr_write_insert_row)
  next
    case (Some r)
    note r = find_ptr_Some [OF this]
    then have "ptr_write db (bumpZoneSerial (delete_record (rec_id r) db) (zone_id z))"
      "ptr_write db (bumpZoneSerial (update_records (\<lambda>q. rec_id q = rec_id r) (set_ptr v src (clock db)) db) (zone_id z))" for v
      by (auto intro: ptr_write_bump ptr_write_delete ptr_write_update)
    with Some \<open>findReversePtrLocation db ip en = Some loc\<close> loc show ?thesis
      by (simp add: setPtrForIp_def Let_def)
  qed
qed (simp add: setPtrForIp_def)

lemma ptr_write_clear [simp]: "ptr_write db (fst (clearPtrForARecord db n ip z))"
  by (simp add: clearPtrForARecord_def clearPtrForIp_def split: option.split prod.split)

lemma ptr_write_drop [simp]: "ptr_write db (fst (dropUnallocatedIpv6Ptr db ip))"
proof (cases "findReversePtrLocation db ip False")
  case (Some loc)
  obtain z n where loc: "loc = (z, n)" by (cases loc)
  show ?thesis
  proof (cases "find_ptr db (zone_id z) n")
    case (Some r)
    from find_ptr_Some [OF this] have "ptr_write db (bumpZoneSerial (delete_record (rec_id r) db) (zone_id z))"
      by (auto intro: ptr_write_bump ptr_write_delete)
    with Some \<open>findReversePtrLocation db ip False = Some loc\<close> loc show ?thesis
      by (simp add: dropUnallocatedIpv6Ptr_def)
  qed (simp add: dropUnallocatedIpv6Ptr_def Some loc)
qed (simp add: dropUnallocatedIpv6Ptr_def)

lemma ptr_write_sync [simp]: "ptr_write db (fst (syncPtrForARecord db n ip zn force src))"
proof (cases "findReversePtrLocation db ip True")
  case (Some loc)
  obtain z m where loc: "loc = (z, m)" by (cases loc)
  show ?thesis
  proof (cases "find_ptr db (zone_id z) m")
    case None
    then show ?thesis
      by (simp add: syncPtrForARecord_def Let_def Some loc ptr_write_bump ptr_write_insert_row)
  next
    case (Some r)
    from find_ptr_Some [OF this]
    have "ptr_write db (bumpZoneSerial (update_records (\<lambda>q. rec_id q = rec_id r) (set_ptr v src (clock db)) db) (zone_id z))" for v
      by (auto intro: ptr_write_bump ptr_write_update)
    with Some \<open>findReversePtrLocation db ip True = Some loc\<close> loc show ?thesis
      by (simp add: syncPtrForARecord_def Let_def)
  qed
qed (simp add: syncPtrForARecord_def)

section \<open>Which PTR records a write touches\<close>

definition ptrs :: "db \<Rightarrow> record_row set" where
  "ptrs db = {r \<in> set (dns_records db). rec_type r = ''PTR''}"

text \<open>Every PTR row stays unless it is in \<open>A\<close>, and is an old one unless it is in \<open>B\<close>.\<close>

definition ptr_frame :: "(record_row \<Rightarrow> bool) \<Rightarrow> (record_row \<Rightarrow> bool) \<Rightarrow> db \<Rightarrow> db \<Rightarrow> bool" where
  "ptr_frame A B db db' \<longleftrightarrow> (\<forall>p \<in> ptrs db. p \<in> ptrs db' \<or> A p) \<and> (\<forall>q \<in> ptrs db'. q \<in> ptrs db \<or> B q)"

lemma ptr_frame_same: "ptrs db' = ptrs db \<Longrightarrow> ptr_frame A B db db'"
  by (simp add: ptr_frame_def)

lemma ptr_frame_trans: "ptr_frame A B a b \<Longrightarrow> ptr_frame A B b c \<Longrightarrow> ptr_frame A B a c"
  unfolding ptr_frame_def by blast

lemma ptr_frame_mono:
  "ptr_frame A B a b \<Longrightarrow> (\<And>p. p \<in> ptrs a \<Longrightarrow> A p \<Longrightarrow> A' p) \<Longrightarrow> (\<And>q. q \<in> ptrs b \<Longrightarrow> B q \<Longrightarrow> B' q) \<Longrightarrow> ptr_frame A' B' a b"
  unfolding ptr_frame_def by blast

lemma ptrs_simps [simp]:
  "ptrs (bumpZoneSerial db i) = ptrs db"
  "ptrs (insert_record r db) = (if rec_type r = ''PTR'' then insert (r\<lparr>rec_id := next_record_id db\<rparr>) (ptrs db) else ptrs db)"
  "ptrs (delete_record i db) = {r \<in> ptrs db. rec_id r \<noteq> i}"
  by (auto simp: ptrs_def insert_record_def delete_record_def)

lemma find_ptr_ptrs: "find_ptr db i n = Some r \<Longrightarrow> r \<in> ptrs db \<and> rec_zone_id r = i \<and> rec_name r = n"
  using find_ptr_Some [of db i n r] by (simp add: ptrs_def)

lemma ptrs_unique: "records_ok db \<Longrightarrow> p \<in> ptrs db \<Longrightarrow> q \<in> ptrs db \<Longrightarrow> rec_id q = rec_id p \<Longrightarrow> q = p"
  using unique_record [of db p q] by (simp add: ptrs_def)

lemma ptrs_update:
  assumes "records_ok db" "e \<in> ptrs db"
  shows "ptrs (update_records (\<lambda>q. rec_id q = rec_id e) (set_ptr v src now) db) = insert (set_ptr v src now e) (ptrs db - {e})"
proof -
  have "(rec_id r = rec_id e) = (r = e)" if "r \<in> set (dns_records db)" for r
    using unique_record [OF assms(1) _ that] assms(2) by (auto simp: ptrs_def)
  then have "set (dns_records (update_records (\<lambda>q. rec_id q = rec_id e) (set_ptr v src now) db))
      = (\<lambda>r. if r = e then set_ptr v src now r else r) ` set (dns_records db)"
    by (auto simp: update_records_simps image_iff)
  moreover have "rec_type (set_ptr v src now e) = ''PTR''" using assms(2) by (simp add: ptrs_def set_ptr_def)
  ultimately show ?thesis using assms(2) by (auto simp: ptrs_def split: if_splits)
qed

text \<open>Where the PTR of an address belongs: a zone and a name. It depends on the keys of the zones only.\<close>

definition ptr_place :: "db \<Rightarrow> string \<Rightarrow> (nat \<times> string) option" where
  "ptr_place db ip = map_option (\<lambda>(z, n). (zone_id z, n)) (findReversePtrLocation db ip True)"

definition at_place :: "db \<Rightarrow> string \<Rightarrow> record_row \<Rightarrow> bool" where
  "at_place db ip p \<longleftrightarrow> ptr_place db ip = Some (rec_zone_id p, rec_name p)"

lemma map_filter_map_option: "List.map_filter (\<lambda>x. map_option g (f x)) xs = map g (List.map_filter f xs)"
  by (induction xs) (auto simp: List.map_filter_simps split: option.splits)

lemma place_by_keys:
  "ptr_place db ip =
     (case List.map_filter (\<lambda>c. map_option (\<lambda>k. (fst k, snd c)) (find (\<lambda>(i, n, t, en). t = REVERSE \<and> n = fst c \<and> en) (zone_keys db)))
        (reversePtrCandidates ip) of [] \<Rightarrow> None | k # _ \<Rightarrow> Some k)"
proof -
  let ?P = "\<lambda>c z. zone_type z = REVERSE \<and> zone_name z = fst c \<and> (True \<longrightarrow> zone_enabled z)"
  have keys: "map_option (\<lambda>k. (fst k, snd c)) (find (\<lambda>(i, n, t, en). t = REVERSE \<and> n = fst c \<and> en) (zone_keys db))
      = map_option (\<lambda>(z, n). (zone_id z, n)) (case find (?P c) (dns_zones db) of None \<Rightarrow> None | Some z \<Rightarrow> Some (z, snd c))" for c :: "string \<times> string"
    by (simp add: zone_keys_def find_map comp_def option.map_comp split: option.split)
  show ?thesis
    unfolding ptr_place_def findReversePtrLocation_def keys map_filter_map_option by (simp split: list.split)
qed

lemma place_keys: "zone_keys db' = zone_keys db \<Longrightarrow> ptr_place db' ip = ptr_place db ip"
  by (simp add: place_by_keys)

lemma at_place_keys: "zone_keys db' = zone_keys db \<Longrightarrow> at_place db' ip p = at_place db ip p"
  using place_keys [of db' db ip] by (simp add: at_place_def)

lemma find_ptr_at: "findReversePtrLocation db ip True = Some (z, n) \<Longrightarrow> find_ptr db (zone_id z) n = Some r \<Longrightarrow> r \<in> ptrs db \<and> at_place db ip r"
  using find_ptr_ptrs [of db "zone_id z" n r] by (simp add: at_place_def ptr_place_def)

text \<open>The name a PTR is set to, and whether the address gets none: an IPv6 address that nothing holds has
  no placeholder.\<close>

definition ptr_value :: "string \<Rightarrow> string option \<Rightarrow> string" where
  "ptr_value ip h = trim (if truthy h then coalesce h else ip)"

definition ptr_withheld :: "db \<Rightarrow> string \<Rightarrow> string option \<Rightarrow> bool" where
  "ptr_withheld db ip h \<longleftrightarrow> (truthy h \<longrightarrow> parseIp_with unscoped (ptr_value ip h) \<noteq> None)
     \<and> isIpv6Text (parseIp ip) \<and> \<not> isAllocatedAddress db ip"

lemma setPtr_withheld:
  assumes "findReversePtrLocation db ip en = Some (z, n)" "ptr_withheld db ip h"
  shows "setPtrForIp db ip h en src =
     (case find_ptr db (zone_id z) n of
        Some r \<Rightarrow> (bumpZoneSerial (delete_record (rec_id r) db) (zone_id z), True)
      | None \<Rightarrow> (db, False))"
  using assms unfolding setPtrForIp_def ptr_withheld_def ptr_value_def Let_def by auto

lemma setPtr_cases:
  assumes "findReversePtrLocation db ip en = Some (z, n)" "\<not> ptr_withheld db ip h"
  shows "setPtrForIp db ip h en src =
     (case find_ptr db (zone_id z) n of
        Some r \<Rightarrow> if rec_value r = ptr_value ip h \<and> rec_source r = Some src \<and> rec_enabled r then (db, False)
                  else (bumpZoneSerial (update_records (\<lambda>q. rec_id q = rec_id r) (set_ptr (ptr_value ip h) src (clock db)) db)
                          (zone_id z), True)
      | None \<Rightarrow> if ptr_value ip h \<noteq> []
                then (bumpZoneSerial (insert_record (ptr_row (zone_id z) n (ptr_value ip h) src (clock db)) db) (zone_id z), True)
                else (db, False))"
  using assms unfolding setPtrForIp_def ptr_withheld_def ptr_value_def Let_def
  by (cases "find_ptr db (zone_id z) n") auto

text \<open>Clearing the PTR of a record: only a PTR at its address that names the record, which is removed or becomes a
  placeholder.\<close>

definition names_record :: "string \<Rightarrow> string \<Rightarrow> record_row \<Rightarrow> bool" where
  "names_record name zone p \<longleftrightarrow> toLowerCase (rec_value p) = toLowerCase (fqdnForRecordName name zone)"

lemma clear_ptrs:
  assumes "records_ok db"
  shows "ptrs (fst (clearPtrForARecord db name ip zone)) = ptrs db
    \<or> (\<exists>z n e. findReversePtrLocation db ip True = Some (z, n) \<and> find_ptr db (zone_id z) n = Some e \<and> names_record name zone e
        \<and> (ptrs (fst (clearPtrForARecord db name ip zone)) = ptrs db - {e}
           \<or> ptrs (fst (clearPtrForARecord db name ip zone)) = insert (set_ptr (trim ip) ''placeholder'' (clock db) e) (ptrs db - {e})))"
proof (cases "clearPtrForARecord db name ip zone = (db, False)")
  case False
  then obtain z n e where e: "findReversePtrLocation db ip True = Some (z, n)" "find_ptr db (zone_id z) n = Some e" "names_record name zone e"
    and clear: "clearPtrForARecord db name ip zone = clearPtrForIp db ip"
    by (auto simp: clearPtrForARecord_def names_record_def split: option.splits if_splits)
  have row: "e \<in> ptrs db" using find_ptr_at [OF e(1,2)] by simp
  have "ptr_value ip (Some ip) = trim ip" by (simp add: ptr_value_def coalesce_def truthy_def)
  moreover have "{r \<in> ptrs db. rec_id r \<noteq> rec_id e} = ptrs db - {e}" using ptrs_unique [OF assms row] by auto
  ultimately show ?thesis
    using e setPtr_withheld [OF e(1), of "Some ip" "''placeholder''"] setPtr_cases [OF e(1), of "Some ip" "''placeholder''"]
      ptrs_update [OF assms row] unfolding clear clearPtrForIp_def
    by (cases "ptr_withheld db ip (Some ip)") auto
qed simp

lemma frame_clear:
  assumes "records_ok db"
  shows "ptr_frame (\<lambda>p. at_place db ip p \<and> names_record name zone p)
    (\<lambda>q. at_place db ip q \<and> rec_value q = trim ip \<and> rec_source q = Some ''placeholder'') db (fst (clearPtrForARecord db name ip zone))"
proof -
  have set: "at_place db ip (set_ptr v src now e) = at_place db ip e" "rec_value (set_ptr v src now e) = v" "rec_source (set_ptr v src now e) = Some src"
    for v src now e by (simp_all add: at_place_def set_ptr_def)
  from clear_ptrs [OF assms, of name ip zone] show ?thesis
  proof
    assume "\<exists>z n e. findReversePtrLocation db ip True = Some (z, n) \<and> find_ptr db (zone_id z) n = Some e \<and> names_record name zone e
        \<and> (ptrs (fst (clearPtrForARecord db name ip zone)) = ptrs db - {e}
           \<or> ptrs (fst (clearPtrForARecord db name ip zone)) = insert (set_ptr (trim ip) ''placeholder'' (clock db) e) (ptrs db - {e}))"
    then obtain e where "at_place db ip e" "names_record name zone e"
      "ptrs (fst (clearPtrForARecord db name ip zone)) = ptrs db - {e}
        \<or> ptrs (fst (clearPtrForARecord db name ip zone)) = insert (set_ptr (trim ip) ''placeholder'' (clock db) e) (ptrs db - {e})"
      using find_ptr_at by blast
    then show ?thesis using set by (auto simp: ptr_frame_def)
  qed (rule ptr_frame_same)
qed

text \<open>Following an address record without force: a PTR at its address gives way when it is blank or an address, or
  names something in the record's own zone.\<close>

definition gives_way :: "string \<Rightarrow> string \<Rightarrow> string \<Rightarrow> record_row \<Rightarrow> bool" where
  "gives_way name ip zone p \<longleftrightarrow> rec_value p = [] \<or> rec_value p = ip \<or> isValidAddress (rec_value p) \<or> names_record name zone p
     \<or> endsWith (toLowerCase (rec_value p)) (''.'' @ toLowerCase zone) \<or> toLowerCase (rec_value p) = toLowerCase zone"

lemma frame_sync:
  assumes "records_ok db"
  shows "ptr_frame (\<lambda>p. at_place db ip p \<and> gives_way name ip zone p)
    (\<lambda>q. at_place db ip q \<and> rec_value q = fqdnForRecordName name zone \<and> rec_source q = Some src) db (fst (syncPtrForARecord db name ip zone False src))"
proof (cases "findReversePtrLocation db ip True")
  case (Some loc)
  obtain z n where loc: "findReversePtrLocation db ip True = Some (z, n)" using Some by (cases loc) simp
  show ?thesis
  proof (cases "find_ptr db (zone_id z) n")
    case None
    then show ?thesis
      by (auto simp: syncPtrForARecord_def loc Let_def ptr_frame_def ptr_row_def at_place_def ptr_place_def)
  next
    case (Some e)
    note e = find_ptr_at [OF loc Some]
    have "at_place db ip (set_ptr v src now e)" for v now using e by (simp add: at_place_def set_ptr_def)
    then have "ptr_frame (\<lambda>p. p = e) (\<lambda>q. at_place db ip q \<and> rec_value q = v \<and> rec_source q = Some src) db
        (bumpZoneSerial (update_records (\<lambda>r. rec_id r = rec_id e) (set_ptr v src now) db) i)" for v now i
      using ptrs_update [OF assms, of e] e by (auto simp: ptr_frame_def) (auto simp: set_ptr_def)
    from ptr_frame_mono [OF this] e show ?thesis
      by (auto simp: syncPtrForARecord_def loc Let_def Some gives_way_def names_record_def ptr_frame_same)
  qed
qed (simp add: syncPtrForARecord_def ptr_frame_same)

section \<open>Setting the PTR of an address\<close>

definition bumped :: "nat \<Rightarrow> instant \<Rightarrow> zone_row \<Rightarrow> zone_row" where
  "bumped i now z = (if zone_id z = i then z\<lparr>zone_soa_serial := zone_soa_serial z + 1, zone_updated_at := now\<rparr> else z)"

lemma bumped_keys [simp]:
  "zone_id (bumped i now z) = zone_id z" "zone_type (bumped i now z) = zone_type z" "zone_name (bumped i now z) = zone_name z"
  "zone_enabled (bumped i now z) = zone_enabled z"
  by (simp_all add: bumped_def)

lemma location_bump:
  "findReversePtrLocation (bumpZoneSerial db i) ip en
     = map_option (\<lambda>(z, n). (bumped i (clock db) z, n)) (findReversePtrLocation db ip en)"
proof -
  let ?P = "\<lambda>c z. zone_type z = REVERSE \<and> zone_name z = fst c \<and> (en \<longrightarrow> zone_enabled z)"
  have "dns_zones (bumpZoneSerial db i) = map (bumped i (clock db)) (dns_zones db)"
    by (simp add: bumpZoneSerial_def bumped_def fun_eq_iff)
  then have "find (?P c) (dns_zones (bumpZoneSerial db i)) = map_option (bumped i (clock db)) (find (?P c) (dns_zones db))" for c :: "string \<times> string"
    by (simp add: find_map comp_def)
  note F = this
  have "(case find (?P c) (dns_zones (bumpZoneSerial db i)) of None \<Rightarrow> None | Some z \<Rightarrow> Some (z, snd c))
     = map_option (\<lambda>(z, n). (bumped i (clock db) z, n)) (case find (?P c) (dns_zones db) of None \<Rightarrow> None | Some z \<Rightarrow> Some (z, snd c))" for c :: "string \<times> string"
    unfolding F by (cases "find (?P c) (dns_zones db)") simp_all
  then show ?thesis
    unfolding findReversePtrLocation_def by (simp add: map_filter_map_option split: list.split)
qed

lemma location_records:
  "dns_zones db' = dns_zones db \<Longrightarrow> findReversePtrLocation db' ip en = findReversePtrLocation db ip en"
  by (simp add: findReversePtrLocation_def)

lemma find_ptr_bump [simp]: "find_ptr (bumpZoneSerial db i) j n = find_ptr db j n"
  by (simp add: find_ptr_def)

lemma find_ptr_update:
  assumes "find_ptr db i n = Some r"
  shows "find_ptr (update_records (\<lambda>q. rec_id q = rec_id r) (set_ptr v src now) db) i n = Some (set_ptr v src now r)"
proof -
  have "find_ptr (update_records (\<lambda>q. rec_id q = rec_id r) (set_ptr v src now) db) i n
      = map_option (\<lambda>q. if rec_id q = rec_id r then set_ptr v src now q else q) (find_ptr db i n)"
    unfolding find_ptr_def update_records_simps find_map comp_def
    by (intro arg_cong2 [where f = map_option] refl arg_cong2 [where f = find]) (auto simp: set_ptr_def)
  then show ?thesis using assms by simp
qed

lemma find_ptr_insert:
  "find_ptr db i n = None \<Longrightarrow>
     find_ptr (insert_record (ptr_row i n v src now) db) i n = Some ((ptr_row i n v src now)\<lparr>rec_id := next_record_id db\<rparr>)"
  by (simp add: find_ptr_def insert_record_def find_append ptr_row_def)

lemma ptr_row_columns:
  "rec_value (ptr_row i n v src now) = v" "rec_source (ptr_row i n v src now) = Some src" "rec_enabled (ptr_row i n v src now)"
  by (simp_all add: ptr_row_def)

lemma rest_projections:
  assumes "rest db' = rest db"
  shows "ip_addresses db' = ip_addresses db" "subnets db' = subnets db" "dhcp_leases db' = dhcp_leases db"
    "dhcp_reservations db' = dhcp_reservations db" "dhcp_scopes db' = dhcp_scopes db" "clock db' = clock db"
    "ip_events db' = ip_events db" "next_ip_id db' = next_ip_id db" "next_event_id db' = next_event_id db"
    "dhcp_scope_pools db' = dhcp_scope_pools db" "settings db' = settings db" "actor db' = actor db"
  using arg_cong [OF assms, of ip_addresses] arg_cong [OF assms, of subnets] arg_cong [OF assms, of dhcp_leases]
    arg_cong [OF assms, of dhcp_reservations] arg_cong [OF assms, of dhcp_scopes] arg_cong [OF assms, of clock]
    arg_cong [OF assms, of ip_events] arg_cong [OF assms, of next_ip_id] arg_cong [OF assms, of next_event_id]
    arg_cong [OF assms, of dhcp_scope_pools] arg_cong [OF assms, of settings] arg_cong [OF assms, of actor]
  by (simp_all add: rest_def)

text \<open>What is written where the address gets a PTR: one row, which is found again.\<close>

definition shown_ptr :: "string \<Rightarrow> string \<Rightarrow> record_row \<Rightarrow> bool" where
  "shown_ptr v src r \<longleftrightarrow> rec_value r = v \<and> rec_source r = Some src \<and> rec_enabled r"

definition other_records :: "nat \<Rightarrow> db \<Rightarrow> record_row list" where
  "other_records i db = filter (\<lambda>q. rec_id q \<noteq> i) (dns_records db)"

lemma other_records_update: "(\<And>q. rec_id (f q) = rec_id q) \<Longrightarrow> other_records i (update_records (\<lambda>q. rec_id q = i) f db) = other_records i db"
proof -
  assume id: "\<And>q. rec_id (f q) = rec_id q"
  have "filter (\<lambda>q. rec_id q \<noteq> i) (map (\<lambda>q. if rec_id q = i then f q else q) rs) = filter (\<lambda>q. rec_id q \<noteq> i) rs" for rs
    by (induction rs) (auto simp: id)
  then show ?thesis by (simp add: other_records_def update_records_simps)
qed

lemma other_records_insert: "other_records (next_record_id db) (insert_record r db) = other_records (next_record_id db) db"
  by (simp add: other_records_def insert_record_def)

lemma setPtr_writes:
  assumes "findReversePtrLocation db ip en = Some (z, n)" "\<not> ptr_withheld db ip h"
    and "ptr_value ip h \<noteq> [] \<or> find_ptr db (zone_id z) n \<noteq> None" "setPtrForIp db ip h en src = (db', upd)"
  obtains r where "find_ptr db' (zone_id z) n = Some r" "shown_ptr (ptr_value ip h) src r"
    "rec_id r = (case find_ptr db (zone_id z) n of None \<Rightarrow> next_record_id db | Some old \<Rightarrow> rec_id old)"
    "other_records (rec_id r) db' = other_records (rec_id r) db"
proof (cases "find_ptr db (zone_id z) n")
  case None
  let ?r = "(ptr_row (zone_id z) n (ptr_value ip h) src (clock db))\<lparr>rec_id := next_record_id db\<rparr>"
  show ?thesis
    using None assms(3,4) setPtr_cases [OF assms(1,2), of src] other_records_insert [of db]
    by (intro that [of ?r]) (auto simp: find_ptr_insert shown_ptr_def ptr_row_columns other_records_def)
next
  case (Some r)
  have id: "rec_id (set_ptr v src now q) = rec_id q" for v now q by (simp add: set_ptr_def)
  show ?thesis
  proof (cases "shown_ptr (ptr_value ip h) src r")
    case True
    then show ?thesis using Some assms(4) setPtr_cases [OF assms(1,2), of src] by (intro that [of r]) (auto simp: shown_ptr_def)
  next
    case False
    then show ?thesis
      using Some assms(4) setPtr_cases [OF assms(1,2), of src] other_records_update [of "set_ptr (ptr_value ip h) src (clock db)" "rec_id r" db]
      by (intro that [of "set_ptr (ptr_value ip h) src (clock db) r"])
         (auto simp: find_ptr_update shown_ptr_def set_ptr_def other_records_def)
  qed
qed

lemma setPtr_zones:
  assumes "findReversePtrLocation db ip en = Some (z, n)" "setPtrForIp db ip h en src = (db', upd)"
  shows "dns_zones db' = (if upd then map (bumped (zone_id z) (clock db)) (dns_zones db) else dns_zones db) \<and> (\<not> upd \<longrightarrow> db' = db)"
proof -
  have "db' = db \<and> \<not> upd \<or> upd \<and> (\<exists>d. db' = bumpZoneSerial d (zone_id z) \<and> dns_zones d = dns_zones db \<and> clock d = clock db)"
  proof (cases "find_ptr db (zone_id z) n")
    case None
    moreover have "dns_zones (insert_record r db) = dns_zones db" "clock (insert_record r db) = clock db" for r by (simp_all add: insert_record_def)
    ultimately show ?thesis using assms(2) unfolding setPtrForIp_def assms(1) Let_def by (auto split: if_splits)
  next
    case (Some r)
    moreover have "clock (update_records P f db) = clock db" "clock (delete_record i db) = clock db" "dns_zones (delete_record i db) = dns_zones db" for P f i
      by (simp_all add: update_records_def delete_record_def)
    ultimately show ?thesis
      using assms(2) update_records_simps(3) unfolding setPtrForIp_def assms(1) Let_def by (auto split: if_splits)
  qed
  moreover have "dns_zones (bumpZoneSerial d i) = map (bumped i (clock d)) (dns_zones d)" for d i
    by (simp add: bumpZoneSerial_def bumped_def fun_eq_iff)
  ultimately show ?thesis by auto
qed

text \<open>C31. Setting the PTR of an address. Where a reverse zone covers the address and it gets a PTR, the record
  found at its name afterwards carries the trimmed name and the source and is enabled; it is the record that was
  found there before, or a new one, every other record is as it was, and setting it again does nothing. Where it
  gets none (a placeholder of an IPv6 address that nothing holds), the record found there is removed and every
  other one stays. A blank name changes nothing where there is no record. In every case, the serial of that one
  reverse zone goes up exactly when something was written, and the other zones, the records that are not PTRs
  and all other tables are as they were.\<close>

theorem setPtrForIp_shown:
  assumes "records_ok db" "findReversePtrLocation db ip en = Some (z, n)" "setPtrForIp db ip h en src = (db', upd)"
  shows "(if ptr_withheld db ip h then dns_records db' = filter (\<lambda>q. find_ptr db (zone_id z) n \<noteq> Some q) (dns_records db)
      else if ptr_value ip h = [] \<and> find_ptr db (zone_id z) n = None then db' = db
      else (\<exists>r. find_ptr db' (zone_id z) n = Some r \<and> rec_value r = ptr_value ip h \<and> rec_source r = Some src \<and> rec_enabled r
              \<and> rec_id r = (case find_ptr db (zone_id z) n of None \<Rightarrow> next_record_id db | Some old \<Rightarrow> rec_id old)
              \<and> filter (\<lambda>q. rec_id q \<noteq> rec_id r) (dns_records db') = filter (\<lambda>q. rec_id q \<noteq> rec_id r) (dns_records db))
           \<and> setPtrForIp db' ip h en src = (db', False))
    \<and> dns_zones db' = (if upd then map (bumped (zone_id z) (clock db)) (dns_zones db) else dns_zones db)
    \<and> (upd = False \<longrightarrow> db' = db) \<and> records_ok db' \<and> nonptr db' = nonptr db \<and> rest db' = rest db"
proof -
  have w: "ptr_write db db'" using ptr_write_setPtr [of db ip h en src] assms(3) by simp
  note zones = setPtr_zones [OF assms(2,3)]
  have withheld: "dns_records db' = filter (\<lambda>q. find_ptr db (zone_id z) n \<noteq> Some q) (dns_records db)" if "ptr_withheld db ip h"
  proof (cases "find_ptr db (zone_id z) n")
    case (Some r)
    then have "dns_records db' = filter (\<lambda>q. rec_id q \<noteq> rec_id r) (dns_records db)"
      using setPtr_withheld [OF assms(2) that, of src] assms(3) by (auto simp: delete_record_def)
    then show ?thesis using unique_record [OF assms(1)] find_ptr_Some [OF Some] Some by (auto intro!: filter_cong)
  qed (use setPtr_withheld [OF assms(2) that, of src] assms(3) in auto)
  have shown: "(\<exists>r. find_ptr db' (zone_id z) n = Some r \<and> rec_value r = ptr_value ip h \<and> rec_source r = Some src \<and> rec_enabled r
              \<and> rec_id r = (case find_ptr db (zone_id z) n of None \<Rightarrow> next_record_id db | Some old \<Rightarrow> rec_id old)
              \<and> filter (\<lambda>q. rec_id q \<noteq> rec_id r) (dns_records db') = filter (\<lambda>q. rec_id q \<noteq> rec_id r) (dns_records db))
           \<and> setPtrForIp db' ip h en src = (db', False)"
    if c: "\<not> ptr_withheld db ip h" "ptr_value ip h \<noteq> [] \<or> find_ptr db (zone_id z) n \<noteq> None"
  proof -
    obtain r where r: "find_ptr db' (zone_id z) n = Some r" "shown_ptr (ptr_value ip h) src r"
      "rec_id r = (case find_ptr db (zone_id z) n of None \<Rightarrow> next_record_id db | Some old \<Rightarrow> rec_id old)"
      "other_records (rec_id r) db' = other_records (rec_id r) db" by (rule setPtr_writes [OF assms(2) c assms(3)])
    have "isAllocatedAddress db' ip = isAllocatedAddress db ip"
      using w rest_projections(1) [of db' db] by (simp add: ptr_write_def isAllocatedAddress_def)
    then have "\<not> ptr_withheld db' ip h" using c(1) by (simp add: ptr_withheld_def)
    moreover have "\<exists>z'. findReversePtrLocation db' ip en = Some (z', n) \<and> zone_id z' = zone_id z"
      using zones location_bump [of db "zone_id z" ip en] assms(2) location_records [of db' "bumpZoneSerial db (zone_id z)" ip en]
      by (cases upd) (auto simp: bumpZoneSerial_def bumped_def fun_eq_iff)
    ultimately have "setPtrForIp db' ip h en src = (db', False)"
      using r(1,2) setPtr_cases [of db' ip en _ n h src] by (auto simp: shown_ptr_def)
    with r show ?thesis by (auto simp: shown_ptr_def other_records_def)
  qed
  have blank: "db' = db" if "\<not> ptr_withheld db ip h" "ptr_value ip h = []" "find_ptr db (zone_id z) n = None"
    using that setPtr_cases [OF assms(2) that(1), of src] assms(3) by simp
  show ?thesis using withheld shown blank zones w assms(1) by (simp add: ptr_write_def)
qed

definition sample_zone :: "nat \<Rightarrow> string \<Rightarrow> zone_type \<Rightarrow> zone_row" where
  "sample_zone i name type =
     \<lparr>zone_id = i, zone_name = name, zone_type = type, zone_enabled = True, zone_soa_serial = 1, zone_updated_at = 0\<rparr>"

definition sample_dns :: db where
  "sample_dns = sample_db\<lparr>
     subnets := [quiet_subnet\<lparr>sub_domain_name := Some ''lan''\<rparr>],
     dns_zones := [sample_zone 1 ''lan'' FORWARD, sample_zone 2 ''0.0.10.in-addr.arpa'' REVERSE],
     dns_records := [\<lparr>rec_id = 1, rec_zone_id = 1, rec_name = ''laptop'', rec_type = ''A'', rec_value = ''10.0.0.9'',
        rec_priority = None, rec_weight = None, rec_port = None, rec_ttl = None, rec_source = Some ''dhcp'',
        rec_enabled = True, rec_updated_at = 0\<rparr>],
     next_record_id := 2\<rparr>"

lemma sample_records_ok: "records_ok sample_dns"
  by (simp add: records_ok_def sample_dns_def)

theorem setPtrForIp_shown_witness:
  "\<exists>z r. findReversePtrLocation sample_dns ''10.0.0.9'' True = Some (z, ''9'')
     \<and> find_ptr (fst (setPtrForIp sample_dns ''10.0.0.9'' (Some ''laptop.lan'') True ''dhcp'')) (zone_id z) ''9'' = Some r
     \<and> rec_value r = ''laptop.lan''"
proof -
  have "case findReversePtrLocation sample_dns ''10.0.0.9'' True of None \<Rightarrow> False | Some (z, n) \<Rightarrow> n = ''9''" by code_simp
  then obtain z where z: "findReversePtrLocation sample_dns ''10.0.0.9'' True = Some (z, ''9'')" by (auto split: option.splits)
  have w: "\<not> ptr_withheld sample_dns ''10.0.0.9'' (Some ''laptop.lan'')" "ptr_value ''10.0.0.9'' (Some ''laptop.lan'') = ''laptop.lan''"
    unfolding ptr_withheld_def by code_simp+
  have p: "setPtrForIp sample_dns ''10.0.0.9'' (Some ''laptop.lan'') True ''dhcp''
      = (fst (setPtrForIp sample_dns ''10.0.0.9'' (Some ''laptop.lan'') True ''dhcp''),
         snd (setPtrForIp sample_dns ''10.0.0.9'' (Some ''laptop.lan'') True ''dhcp''))" by simp
  from setPtrForIp_shown [OF sample_records_ok z p] w z show ?thesis by auto
qed

section \<open>Records of DHCP leases\<close>

lemma find_zone_keys:
  assumes "zone_keys db' = zone_keys db"
  shows "(find_zone db' i = None) = (find_zone db i = None)"
proof -
  have "map zone_id (dns_zones db') = map zone_id (dns_zones db)"
    using arg_cong [OF assms, of "map fst"] by (simp add: zone_keys_def comp_def)
  then have "zone_id ` set (dns_zones db') = zone_id ` set (dns_zones db)" by (metis list.set_map)
  then show ?thesis unfolding find_zone_def find_None_iff by force
qed

text \<open>The tables a lease-record deletion leaves alone, and the other records.\<close>

definition lease_delete :: "record_row list \<Rightarrow> db \<Rightarrow> db \<Rightarrow> bool" where
  "lease_delete gone db db' \<longleftrightarrow> records_ok db' \<and> nonptr db' = filter (\<lambda>r. r \<notin> set gone) (nonptr db)
     \<and> rest db' = rest db \<and> zone_keys db' = zone_keys db"

lemma delete_record_step:
  assumes "records_ok db0" "lease_delete gone db0 db" "r \<in> set (nonptr db0)"
  shows "lease_delete (gone @ [r]) db0 (delete_record (rec_id r) db)"
proof -
  have "(q \<notin> set gone \<and> rec_id q \<noteq> rec_id r) = (q \<notin> set (gone @ [r]))" if "q \<in> set (nonptr db0)" for q
    using that assms(3) unique_record [OF assms(1), of r q] by (auto simp: nonptr_def)
  then have "filter (\<lambda>q. rec_id q \<noteq> rec_id r) (filter (\<lambda>q. q \<notin> set gone) (nonptr db0)) = filter (\<lambda>q. q \<notin> set (gone @ [r])) (nonptr db0)"
    unfolding filter_filter by (intro filter_cong) auto
  moreover have "nonptr (delete_record (rec_id r) db) = filter (\<lambda>q. rec_id q \<noteq> rec_id r) (nonptr db)"
    by (auto simp: nonptr_def delete_record_def intro: filter_cong)
  moreover have "records_ok (delete_record (rec_id r) db)"
    using assms(2) by (auto simp: lease_delete_def records_ok_def delete_record_def distinct_map_filter_keep)
  ultimately show ?thesis
    using assms(2) by (simp add: lease_delete_def delete_record_def rest_def zone_keys_def)
qed

lemma lease_delete_ptr: "lease_delete gone db0 db \<Longrightarrow> ptr_write db db' \<Longrightarrow> lease_delete gone db0 db'"
  by (auto simp: lease_delete_def ptr_write_def)

lemma deleteRecord_step:
  assumes "records_ok db0" "lease_delete gone db0 db" "r \<in> set (nonptr db0)"
  shows "lease_delete (gone @ [r]) db0 (deleteRecord db z r)"
proof -
  have "lease_delete (gone @ [r]) db0 (bumpZoneSerial (delete_record (rec_id r) db) (zone_id z))"
    using delete_record_step [OF assms] ptr_write_bump [OF ptr_write_refl] by (rule lease_delete_ptr)
  then show ?thesis
    using lease_delete_ptr [OF _ ptr_write_clear] by (simp add: deleteRecord_def Let_def)
qed

lemma ptr_write_delete_id:
  assumes "\<forall>q \<in> set (dns_records db). rec_id q = i \<longrightarrow> rec_type q = ''PTR''"
  shows "ptr_write db (delete_record i db)"
proof (cases "\<exists>q \<in> set (dns_records db). rec_id q = i")
  case True
  then show ?thesis using assms ptr_write_delete by blast
next
  case False
  then have "delete_record i db = db" by (simp add: delete_record_def filter_id_conv)
  then show ?thesis by simp
qed

lemma delete_lease_record_step:
  assumes "records_ok db0" "lease_delete gone db0 db" "r \<in> set (nonptr db0)" "find_zone db0 (rec_zone_id r) \<noteq> None"
  shows "lease_delete (gone @ [r]) db0 (delete_lease_record r db)"
proof -
  obtain z where z: "find_zone db (rec_zone_id r) = Some z"
    using assms(2,4) find_zone_keys [of db db0 "rec_zone_id r"] by (auto simp: lease_delete_def)
  let ?db1 = "deleteRecord db z r"
  have step: "lease_delete (gone @ [r]) db0 ?db1" by (rule deleteRecord_step [OF assms(1-3)])
  have ptr: "\<forall>q \<in> set (dns_records ?db1). rec_id q = rec_id p \<longrightarrow> rec_type q = ''PTR''"
    if p: "p \<in> set (dns_records db)" "rec_type p = ''PTR''" for p
  proof (intro ballI impI, rule ccontr)
    fix q assume q: "q \<in> set (dns_records ?db1)" "rec_id q = rec_id p" "rec_type q \<noteq> ''PTR''"
    then have "q \<in> set (nonptr ?db1)" by (simp add: nonptr_def)
    then have "q \<in> set (nonptr db)" using step assms(2) by (auto simp: lease_delete_def)
    then show False using q p unique_record [of db p q] assms(2) by (auto simp: nonptr_def lease_delete_def)
  qed
  have "lease_delete (gone @ [r]) db0 (bumpZoneSerial (delete_record (rec_id p) ?db1) i)"
    if "find Q (dns_records db) = Some p" "\<And>q. Q q \<Longrightarrow> rec_type q = ''PTR''" for Q p i
    using find_SomeD [OF that(1)] that(2) ptr
    by (intro lease_delete_ptr [OF step] ptr_write_bump ptr_write_delete_id) blast
  then show ?thesis
    using step unfolding delete_lease_record_def Let_def z
    by (auto split: option.splits prod.splits)
qed

lemma fold_delete_lease:
  assumes "records_ok db0" "\<forall>r \<in> set rs. r \<in> set (nonptr db0) \<and> find_zone db0 (rec_zone_id r) \<noteq> None"
    and "lease_delete gone db0 db"
  shows "lease_delete (gone @ rs) db0 (fold delete_lease_record rs db)"
  using assms(2,3)
proof (induction rs arbitrary: gone db)
  case (Cons r rs)
  then have "lease_delete (gone @ [r]) db0 (delete_lease_record r db)"
    using delete_lease_record_step [OF assms(1)] by simp
  from Cons.IH [OF _ this] Cons.prems show ?case by simp
qed simp

text \<open>The records a call removes.\<close>

definition lease_records :: "db \<Rightarrow> (string \<times> nat option) list \<Rightarrow> record_row list" where
  "lease_records db addresses = rev (remdups (rev (concat (map (lease_records_at db) addresses))))"

lemma lease_records_facts:
  assumes "r \<in> set (lease_records db addresses)"
  shows "r \<in> set (dns_records db)" "isAddressRecordType (rec_type r)" "rec_source r = Some ''dhcp''"
    "rec_value r \<in> fst ` set addresses" "find_zone db (rec_zone_id r) \<noteq> None"
proof -
  obtain a where a: "a \<in> set addresses" "r \<in> set (lease_records_at db a)" using assms by (auto simp: lease_records_def)
  then show "r \<in> set (dns_records db)" "isAddressRecordType (rec_type r)" "rec_source r = Some ''dhcp''"
    "rec_value r \<in> fst ` set addresses" "find_zone db (rec_zone_id r) \<noteq> None"
    by (force simp: lease_records_at_def Let_def split: prod.splits if_splits option.splits)+
qed

text \<open>The PTRs of a record: those at its address that name it. SQL compares ASCII letters without case, the
  language all letters.\<close>

definition record_zone :: "db \<Rightarrow> record_row \<Rightarrow> string" where
  "record_zone db r = (case find_zone db (rec_zone_id r) of None \<Rightarrow> [] | Some z \<Rightarrow> zone_name z)"

definition own_ptr :: "db \<Rightarrow> record_row \<Rightarrow> record_row \<Rightarrow> bool" where
  "own_ptr db r p \<longleftrightarrow> at_place db (rec_value r) p \<and> names_record (rec_name r) (record_zone db r) p"

definition same_ascii :: "db \<Rightarrow> record_row \<Rightarrow> record_row \<Rightarrow> bool" where
  "same_ascii db r p \<longleftrightarrow> sql_lower (rec_value p) = sql_lower (fqdnForRecordName (rec_name r) (record_zone db r))"

lemma record_zone_keys:
  assumes "zone_keys db' = zone_keys db"
  shows "record_zone db' r = record_zone db r"
proof -
  have "record_zone d r = (case find (\<lambda>k. fst k = rec_zone_id r) (zone_keys d) of None \<Rightarrow> [] | Some k \<Rightarrow> fst (snd k))" for d
    by (simp add: record_zone_def find_zone_def zone_keys_def find_map comp_def split: option.split)
  then show ?thesis using assms by simp
qed

lemma own_ptr_keys:
  assumes "zone_keys db' = zone_keys db"
  shows "own_ptr db' r p = own_ptr db r p" "same_ascii db' r p = same_ascii db r p"
  using at_place_keys [OF assms, of "rec_value r" p] record_zone_keys [OF assms, of r] by (simp_all add: own_ptr_def same_ascii_def)

lemma sql_lower_lower: "sql_lower x = sql_lower y \<Longrightarrow> toLowerCase x = toLowerCase y"
proof -
  have "lower_char (if 65 \<le> code c \<and> code c \<le> (90 :: nat) then char_of (code c + 32 :: nat) else c) = lower_char c" for c
  proof -
    have "(code c :: nat) < 256" by simp
    then show ?thesis by (auto simp: lower_char_def Let_def)
  qed
  then have "toLowerCase (sql_lower s) = toLowerCase s" for s by (simp add: toLowerCase_def sql_lower_def)
  then show "sql_lower x = sql_lower y \<Longrightarrow> toLowerCase x = toLowerCase y" by metis
qed

lemma find_filter_keep: "(\<And>x. x \<in> set xs \<Longrightarrow> P x \<Longrightarrow> Q x) \<Longrightarrow> find P (filter Q xs) = find P xs"
  by (induction xs) auto

lemma find_refine: "find P xs = Some x \<Longrightarrow> Q x \<Longrightarrow> (\<And>y. Q y \<Longrightarrow> P y) \<Longrightarrow> find Q xs = Some x"
  by (induction xs) (auto split: if_splits)

text \<open>What the removal of one record does to the PTRs.\<close>

lemma deleteRecord_ptrs:
  assumes ok: "records_ok db" and r: "r \<in> set (nonptr db)" and z: "find_zone db (rec_zone_id r) = Some z"
  shows "ptrs (deleteRecord db z r) = ptrs db
    \<or> (\<exists>y n e. findReversePtrLocation db (rec_value r) True = Some (y, n) \<and> find_ptr db (zone_id y) n = Some e \<and> own_ptr db r e
        \<and> (ptrs (deleteRecord db z r) = ptrs db - {e}
           \<or> ptrs (deleteRecord db z r) = insert (set_ptr (trim (rec_value r)) ''placeholder'' (clock db) e) (ptrs db - {e})))"
proof -
  let ?db1 = "bumpZoneSerial (delete_record (rec_id r) db) (zone_id z)"
  have other: "rec_id p \<noteq> rec_id r" if "p \<in> ptrs db" for p
    using that r unique_record [OF ok, of r p] by (auto simp: ptrs_def nonptr_def)
  then have same: "ptrs ?db1 = ptrs db" by auto
  have ok1: "records_ok ?db1" using ok by (auto simp: records_ok_def delete_record_def distinct_map_filter_keep)
  have first: "find_ptr ?db1 i n = find_ptr db i n" for i n
    unfolding find_ptr_bump unfolding find_ptr_def delete_record_def using other by (auto simp: ptrs_def intro!: find_filter_keep)
  have clock: "clock ?db1 = clock db" by (simp add: delete_record_def)
  have loc: "\<exists>y'. findReversePtrLocation db ip True = Some (y', n) \<and> zone_id y' = zone_id y"
    if "findReversePtrLocation ?db1 ip True = Some (y, n)" for ip y n
    using that location_bump [of "delete_record (rec_id r) db" "zone_id z" ip True]
      location_records [of "delete_record (rec_id r) db" db ip True]
    by (cases "findReversePtrLocation db ip True") (auto simp: delete_record_def)
  let ?db2 = "fst (clearPtrForARecord ?db1 (rec_name r) (rec_value r) (zone_name z))"
  have result: "deleteRecord db z r = ?db1 \<or> deleteRecord db z r = ?db2" by (simp add: deleteRecord_def Let_def)
  show ?thesis
  proof (cases "ptrs (deleteRecord db z r) = ptrs db")
    case False
    then have d: "deleteRecord db z r = ?db2" "ptrs ?db2 \<noteq> ptrs ?db1" using result same by metis+
    with clear_ptrs [OF ok1, of "rec_name r" "rec_value r" "zone_name z"] obtain y n e
      where e: "findReversePtrLocation ?db1 (rec_value r) True = Some (y, n)" "find_ptr ?db1 (zone_id y) n = Some e"
        "names_record (rec_name r) (zone_name z) e"
        "ptrs ?db2 = ptrs db - {e} \<or> ptrs ?db2 = insert (set_ptr (trim (rec_value r)) ''placeholder'' (clock db) e) (ptrs db - {e})"
      unfolding same clock by blast
    obtain y' where y': "findReversePtrLocation db (rec_value r) True = Some (y', n)" "zone_id y' = zone_id y" using loc [OF e(1)] by blast
    have f: "find_ptr db (zone_id y') n = Some e" using e(2) first y'(2) by simp
    have "own_ptr db r e" using find_ptr_at [OF y'(1) f] e(3) z by (simp add: own_ptr_def record_zone_def)
    with y'(1) f e(4) show ?thesis unfolding d(1) by blast
  qed simp
qed

text \<open>The first PTR at the address of a record that names it up to the case of ASCII letters.\<close>

definition first_own :: "db \<Rightarrow> record_row \<Rightarrow> record_row option" where
  "first_own db r =
     (case findReversePtrLocation db (rec_value r) True of None \<Rightarrow> None
      | Some (y, n) \<Rightarrow> find (\<lambda>q. rec_zone_id q = zone_id y \<and> rec_type q = ''PTR'' \<and> rec_name q = n \<and> same_ascii db r q) (dns_records db))"

lemma first_own_Some:
  assumes "first_own db r = Some q"
  shows "q \<in> ptrs db \<and> own_ptr db r q \<and> same_ascii db r q"
proof -
  obtain y n where y: "findReversePtrLocation db (rec_value r) True = Some (y, n)"
    "find (\<lambda>q. rec_zone_id q = zone_id y \<and> rec_type q = ''PTR'' \<and> rec_name q = n \<and> same_ascii db r q) (dns_records db) = Some q"
    using assms unfolding first_own_def by (cases "findReversePtrLocation db (rec_value r) True") auto
  then show ?thesis
    using find_SomeD [OF y(2)] sql_lower_lower [of "rec_value q" "fqdnForRecordName (rec_name r) (record_zone db r)"]
    by (simp add: ptrs_def own_ptr_def at_place_def ptr_place_def names_record_def same_ascii_def)
qed

lemma first_own_None: "first_own db r = None \<Longrightarrow> q \<in> ptrs db \<Longrightarrow> at_place db (rec_value r) q \<Longrightarrow> \<not> same_ascii db r q"
  by (auto simp: first_own_def find_None_iff ptrs_def at_place_def ptr_place_def split: option.splits)

lemma first_own_first:
  assumes "findReversePtrLocation db (rec_value r) True = Some (y, n)" "find_ptr db (zone_id y) n = Some e" "same_ascii db r e"
  shows "first_own db r = Some e"
  using assms find_ptr_Some [OF assms(2)] by (auto simp: first_own_def find_ptr_def intro: find_refine)

lemma delete_lease_ptrs_eq:
  assumes "find_zone db (rec_zone_id r) = Some z"
  shows "ptrs (delete_lease_record r db) = (case first_own db r of None \<Rightarrow> ptrs (deleteRecord db z r)
     | Some q \<Rightarrow> {x \<in> ptrs (deleteRecord db z r). rec_id x \<noteq> rec_id q})"
proof -
  have "record_zone db r = zone_name z" using assms by (simp add: record_zone_def)
  then show ?thesis
    by (auto simp: first_own_def delete_lease_record_def assms Let_def same_ascii_def split: option.split prod.split)
qed

text \<open>A PTR at an address that names its record, letter for letter up to case, is removed; the rest of the PTRs
  stays, except that a name equal in other letters only may be left as a placeholder.\<close>

definition left_placeholder :: "db \<Rightarrow> record_row \<Rightarrow> record_row \<Rightarrow> bool" where
  "left_placeholder db r q \<longleftrightarrow> (\<exists>e \<in> ptrs db. own_ptr db r e \<and> \<not> same_ascii db r e
     \<and> (\<exists>v now. q = set_ptr v ''placeholder'' now e))"

lemma delete_lease_only:
  assumes "find_zone db (rec_zone_id r) \<noteq> None" "p \<in> ptrs db" "own_ptr db r p" "same_ascii db r p"
    and only: "\<And>q. q \<in> ptrs db \<Longrightarrow> at_place db (rec_value r) q \<Longrightarrow> q = p"
  shows "rec_id p \<notin> rec_id ` ptrs (delete_lease_record r db)"
proof -
  obtain z where z: "find_zone db (rec_zone_id r) = Some z" using assms(1) by auto
  obtain q where q: "first_own db r = Some q"
    using first_own_None [of db r p] assms(2-4) by (cases "first_own db r") (auto simp: own_ptr_def)
  have "q = p" using first_own_Some [OF q] only by (simp add: own_ptr_def)
  with q show ?thesis unfolding delete_lease_ptrs_eq [OF z] by auto
qed

lemma delete_lease_frame:
  assumes ok: "records_ok db" and r: "r \<in> set (nonptr db)" and z: "find_zone db (rec_zone_id r) \<noteq> None"
  shows "ptr_frame (own_ptr db r) (left_placeholder db r) db (delete_lease_record r db)"
proof -
  obtain zn where zn: "find_zone db (rec_zone_id r) = Some zn" using z by auto
  define hit where "hit = first_own db r"
  let ?db1 = "deleteRecord db zn r" and ?db2 = "delete_lease_record r db"
  have own: "q \<in> ptrs db \<and> own_ptr db r q" if "hit = Some q" for q using first_own_Some [OF that [unfolded hit_def]] by simp
  note after = delete_lease_ptrs_eq [OF zn, folded hit_def] and first = first_own_first [of db r, folded hit_def] and same = ptrs_unique [OF ok]
  have id: "rec_id (set_ptr v src now e) = rec_id e" for v src now e by (simp add: set_ptr_def)
  let ?held = "\<lambda>e. set_ptr (trim (rec_value r)) ''placeholder'' (clock db) e"
  consider "ptrs ?db1 = ptrs db"
    | e where "e \<in> ptrs db" "own_ptr db r e" "same_ascii db r e \<Longrightarrow> hit = Some e"
      "ptrs ?db1 \<subseteq> insert (?held e) (ptrs db - {e})" "ptrs db - {e} \<subseteq> ptrs ?db1"
  proof (cases "ptrs ?db1 = ptrs db")
    case False
    with deleteRecord_ptrs [OF ok r zn] obtain y n e where e: "findReversePtrLocation db (rec_value r) True = Some (y, n)"
      "find_ptr db (zone_id y) n = Some e" "own_ptr db r e"
      and ps: "ptrs ?db1 = ptrs db - {e} \<or> ptrs ?db1 = insert (?held e) (ptrs db - {e})" by blast
    have "e \<in> ptrs db" using find_ptr_at [OF e(1,2)] by simp
    moreover have "ptrs ?db1 \<subseteq> insert (?held e) (ptrs db - {e})" "ptrs db - {e} \<subseteq> ptrs ?db1" using ps by auto
    ultimately show ?thesis using e first that(2) by blast
  qed (rule that(1))
  then show ?thesis
  proof cases
    case 1
    then show ?thesis using own same unfolding ptr_frame_def after by (cases hit) (simp, force)
  next
    case (2 e)
    have "q \<in> ptrs db \<or> left_placeholder db r q" if "q \<in> ptrs ?db2" for q
    proof (cases "q \<in> ptrs db")
      case False
      have "q \<in> ptrs ?db1" using that unfolding after by (cases hit) auto
      then have q: "q = ?held e" using False 2(4) by blast
      then have "\<not> same_ascii db r e" using that 2(3) id unfolding after by (cases hit) auto
      then show ?thesis using 2(1,2) q unfolding left_placeholder_def by blast
    qed simp
    moreover have "q \<in> ptrs ?db2 \<or> own_ptr db r q" if "q \<in> ptrs db" for q
    proof (cases hit)
      case None
      then show ?thesis using that 2(2,5) unfolding after by (cases "q = e") auto
    next
      case (Some x)
      then show ?thesis using that 2(2,5) own [OF Some] same [of x q] unfolding after by (cases "q = e") auto
    qed
    ultimately show ?thesis by (simp add: ptr_frame_def)
  qed
qed

text \<open>The only PTR at the address of a record, whose name no record spells with other letters.\<close>

definition only_ptr :: "record_row list \<Rightarrow> db \<Rightarrow> record_row \<Rightarrow> record_row \<Rightarrow> bool" where
  "only_ptr all db r p \<longleftrightarrow> own_ptr db r p \<and> (\<forall>q \<in> ptrs db. at_place db (rec_value r) q \<longrightarrow> q = p)
     \<and> (\<forall>s \<in> set all. own_ptr db s p \<longrightarrow> same_ascii db s p)"

definition lease_ptrs :: "record_row list \<Rightarrow> record_row list \<Rightarrow> db \<Rightarrow> db \<Rightarrow> bool" where
  "lease_ptrs all gone db db' \<longleftrightarrow>
     ptr_frame (\<lambda>p. \<exists>r \<in> set gone. own_ptr db r p) (\<lambda>q. \<exists>r \<in> set gone. left_placeholder db r q) db db'
   \<and> (\<forall>r \<in> set gone. \<forall>p \<in> ptrs db. only_ptr all db r p \<longrightarrow> rec_id p \<notin> rec_id ` ptrs db')"

lemma left_placeholder_id: "left_placeholder db r q \<Longrightarrow> \<exists>e \<in> ptrs db. own_ptr db r e \<and> \<not> same_ascii db r e
    \<and> rec_id q = rec_id e \<and> (\<forall>d ip. at_place d ip q = at_place d ip e)"
  by (auto simp: left_placeholder_def set_ptr_def at_place_def)

lemma placeholder_again: "set_ptr v src now (set_ptr v' src' now' e) = set_ptr v src now e"
  by (simp add: set_ptr_def)

lemma lease_ptrs_frame:
  assumes keys: "zone_keys db = zone_keys db0"
    and before: "ptr_frame (\<lambda>p. \<exists>r \<in> set gone. own_ptr db0 r p) (\<lambda>q. \<exists>r \<in> set gone. left_placeholder db0 r q) db0 db"
    and step: "ptr_frame (own_ptr db r) (left_placeholder db r) db db'"
  shows "ptr_frame (\<lambda>p. \<exists>r \<in> set (gone @ [r]). own_ptr db0 r p) (\<lambda>q. \<exists>r \<in> set (gone @ [r]). left_placeholder db0 r q) db0 db'"
proof -
  note own = own_ptr_keys [OF keys]
  have "\<exists>s \<in> set (gone @ [r]). left_placeholder db0 s q" if h: "left_placeholder db r q" for q
  proof -
    obtain e v now where e: "e \<in> ptrs db" "own_ptr db0 r e" "\<not> same_ascii db0 r e" "q = set_ptr v ''placeholder'' now e"
      using h own by (auto simp: left_placeholder_def)
    then consider "e \<in> ptrs db0" | s where "s \<in> set gone" "left_placeholder db0 s e" using before by (auto simp: ptr_frame_def)
    then show ?thesis
    proof cases
      case 2
      then have "left_placeholder db0 s q" using e(4) placeholder_again unfolding left_placeholder_def by metis
      then show ?thesis using 2 by auto
    qed (use e in \<open>auto simp: left_placeholder_def\<close>)
  qed
  then show ?thesis using before step own unfolding ptr_frame_def by fastforce
qed

lemma lease_ptrs_step:
  assumes ok0: "records_ok db0" and inv: "lease_delete gone db0 db" "lease_ptrs all gone db0 db" and all: "set (gone @ [r]) \<subseteq> set all"
    and r: "r \<in> set (nonptr db0)" "r \<notin> set gone" "find_zone db0 (rec_zone_id r) \<noteq> None"
  shows "lease_ptrs all (gone @ [r]) db0 (delete_lease_record r db)"
proof -
  let ?db' = "delete_lease_record r db"
  have ok: "records_ok db" and keys: "zone_keys db = zone_keys db0" and row: "r \<in> set (nonptr db)"
    using inv(1) r(1,2) by (simp_all add: lease_delete_def)
  have zone: "find_zone db (rec_zone_id r) \<noteq> None" using r(3) find_zone_keys [OF keys] by simp
  note step = delete_lease_frame [OF ok row zone] and own = own_ptr_keys [OF keys]
  have before: "ptr_frame (\<lambda>p. \<exists>r \<in> set gone. own_ptr db0 r p) (\<lambda>q. \<exists>r \<in> set gone. left_placeholder db0 r q) db0 db"
    using inv(2) by (simp add: lease_ptrs_def)
  have frame: "ptr_frame (\<lambda>p. \<exists>r \<in> set (gone @ [r]). own_ptr db0 r p) (\<lambda>q. \<exists>r \<in> set (gone @ [r]). left_placeholder db0 r q) db0 ?db'"
    by (rule lease_ptrs_frame [OF keys before step])
  have "rec_id p \<notin> rec_id ` ptrs ?db'" if s: "s \<in> set (gone @ [r])" and p: "p \<in> ptrs db0" "only_ptr all db0 s p" for s p
  proof
    have not_left: False if "left_placeholder db0 t x" "t \<in> set all" "rec_id x = rec_id p \<or> at_place db0 (rec_value s) x" for t x
      using left_placeholder_id [OF that(1)] that(2,3) p ptrs_unique [OF ok0 p(1)] unfolding only_ptr_def by metis
    have before_p: "x = p" if h: "x \<in> ptrs db" "rec_id x = rec_id p \<or> at_place db0 (rec_value s) x" for x
    proof (cases "x \<in> ptrs db0")
      case True
      then show ?thesis using that(2) ptrs_unique [OF ok0 p(1)] p(2) by (auto simp: only_ptr_def)
    next
      case False
      then obtain t where "t \<in> set gone" "left_placeholder db0 t x" using before h(1) by (auto simp: ptr_frame_def)
      then show ?thesis using not_left [of t x] that(2) all by auto
    qed
    assume "rec_id p \<in> rec_id ` ptrs ?db'"
    then obtain x where x: "x \<in> ptrs ?db'" "rec_id x = rec_id p" by auto
    then have "p \<in> ptrs db"
      using step left_placeholder_id [of db r x] before_p unfolding ptr_frame_def by metis
    moreover have "p \<notin> ptrs db" if "s \<in> set gone" using inv(2) that p by (auto simp: lease_ptrs_def)
    ultimately have "s = r" using s by auto
    have "same_ascii db0 r p" "own_ptr db0 r p" using p(2) all unfolding only_ptr_def \<open>s = r\<close> by auto
    then have "rec_id p \<notin> rec_id ` ptrs ?db'"
      using delete_lease_only [OF zone \<open>p \<in> ptrs db\<close>] before_p own at_place_keys [OF keys] unfolding \<open>s = r\<close> by auto
    with x show False by (metis imageI)
  qed
  with frame show ?thesis by (simp add: lease_ptrs_def)
qed

lemma fold_lease_ptrs:
  assumes "records_ok db0" "\<forall>r \<in> set rs. r \<in> set (nonptr db0) \<and> find_zone db0 (rec_zone_id r) \<noteq> None"
    and "lease_delete gone db0 db" "lease_ptrs all gone db0 db" "distinct (gone @ rs)" "set (gone @ rs) \<subseteq> set all"
  shows "lease_ptrs all (gone @ rs) db0 (fold delete_lease_record rs db)"
  using assms(2-6)
proof (induction rs arbitrary: gone db)
  case (Cons r rs)
  then have d: "lease_delete (gone @ [r]) db0 (delete_lease_record r db)"
    using delete_lease_record_step [OF assms(1)] by simp
  have "lease_ptrs all (gone @ [r]) db0 (delete_lease_record r db)"
    using Cons.prems by (intro lease_ptrs_step [OF assms(1)]) auto
  from Cons.IH [OF _ d this] Cons.prems show ?case by simp
qed simp

text \<open>C32. Removing the records leases left behind removes exactly those: of the records that are not
  PTRs, the ones gone are the A and AAAA records of source dhcp for the given addresses (in the zones
  of their networks), all of them, and the answer counts them. Of the PTRs, only those at the address of a
  removed record that name this record are touched: where it is the only PTR there, it goes; only a name that
  equals the record's in letters other than ASCII, up to case, may be left behind as a placeholder. No manual
  record, no other lease's record, no other PTR and no other table changes, and of the zones only serials and
  times do.\<close>

theorem deleteDynamicDhcpRecords_exact:
  assumes "records_ok db" "deleteDynamicDhcpRecordsByIps db addresses = (db', n)"
  shows "nonptr db' = filter (\<lambda>r. r \<notin> set (lease_records db addresses)) (nonptr db)
    \<and> (\<forall>r \<in> set (lease_records db addresses). r \<in> set (nonptr db) \<and> isAddressRecordType (rec_type r)
         \<and> rec_source r = Some ''dhcp'' \<and> rec_value r \<in> fst ` set addresses)
    \<and> n = length (lease_records db addresses) \<and> records_ok db' \<and> rest db' = rest db \<and> zone_keys db' = zone_keys db
    \<and> (\<forall>p \<in> ptrs db. p \<in> ptrs db' \<or> (\<exists>r \<in> set (lease_records db addresses). own_ptr db r p))
    \<and> (\<forall>q \<in> ptrs db'. q \<in> ptrs db \<or> (\<exists>r \<in> set (lease_records db addresses). left_placeholder db r q))
    \<and> (\<forall>r \<in> set (lease_records db addresses). \<forall>p \<in> ptrs db. only_ptr (lease_records db addresses) db r p
         \<longrightarrow> rec_id p \<notin> rec_id ` ptrs db')"
proof -
  let ?gone = "lease_records db addresses"
  note facts = lease_records_facts [of _ db addresses]
  have np: "r \<in> set (nonptr db)" if "r \<in> set ?gone" for r
    using facts [OF that] by (auto simp: nonptr_def isAddressRecordType_def)
  have start: "lease_delete [] db db" "lease_ptrs ?gone [] db db"
    using assms(1) by (simp_all add: lease_delete_def lease_ptrs_def ptr_frame_same)
  have rows: "\<forall>r \<in> set ?gone. r \<in> set (nonptr db) \<and> find_zone db (rec_zone_id r) \<noteq> None" using np facts(5) by blast
  have "distinct ?gone" by (simp add: lease_records_def)
  with fold_lease_ptrs [OF assms(1) rows start] have "lease_ptrs ?gone ?gone db (fold delete_lease_record ?gone db)" by simp
  moreover have "lease_delete ?gone db (fold delete_lease_record ?gone db)"
    using fold_delete_lease [OF assms(1) rows start(1)] by simp
  moreover have "db' = fold delete_lease_record ?gone db" "n = length ?gone"
    using assms(2) by (auto simp: deleteDynamicDhcpRecordsByIps_def lease_records_def Let_def)
  ultimately show ?thesis using np facts by (simp add: lease_delete_def lease_ptrs_def ptr_frame_def)
qed

theorem deleteDynamicDhcpRecords_exact_witness:
  "nonptr (fst (deleteDynamicDhcpRecordsByIps sample_dns [(''10.0.0.9'', Some 1)])) = []
   \<and> snd (deleteDynamicDhcpRecordsByIps sample_dns [(''10.0.0.9'', Some 1)]) = 1"
proof -
  let ?as = "[(''10.0.0.9'', Some 1)]"
  have len: "length (lease_records sample_dns ?as) = 1" "length (nonptr sample_dns) = 1" by code_simp+
  then obtain r q where r: "lease_records sample_dns ?as = [r]" and q: "nonptr sample_dns = [q]"
    by (auto simp: length_Suc_conv)
  have "deleteDynamicDhcpRecordsByIps sample_dns ?as
      = (fst (deleteDynamicDhcpRecordsByIps sample_dns ?as), snd (deleteDynamicDhcpRecordsByIps sample_dns ?as))" by simp
  from deleteDynamicDhcpRecords_exact [OF sample_records_ok this] show ?thesis unfolding r q by simp
qed

end
