(* ===== verification/IpSync.thy ===== *)
theory IpSync
  imports DhcpScope ReverseDns
begin

text \<open>
  The projection of DNS and DHCP metadata onto address rows (\<open>server/src/utils/ip-sync.js\<close>): the network
  an address belongs to, the name an address carries, and what a DNS record, a DHCP reservation or a
  lease writes on its row. The list of leaf networks is read from the table at every call: the cache
  the source keeps is dropped by every writer of the table.
\<close>

section \<open>The network of an address\<close>

definition leaf_subnets :: "db \<Rightarrow> subnet_row list" where
  "leaf_subnets db = filter (\<lambda>s. \<not> list_ex (\<lambda>c. sub_parent_id c = Some (sub_id s)) (subnets db)) (subnets db)"

definition leaf_networks :: "db \<Rightarrow> cidr_error + (subnet_row \<times> network) list" where
  "leaf_networks db = emap (\<lambda>s. ebind (parseNetwork (sub_cidr s)) (\<lambda>n. Inr (s, n))) (leaf_subnets db)"

text \<open>The loop over the leaves: a longer prefix replaces the best match so far.\<close>

fun best_match :: "nat \<Rightarrow> nat \<Rightarrow> subnet_row option \<Rightarrow> (subnet_row \<times> network) list \<Rightarrow> subnet_row option" where
  "best_match family v best [] = best"
| "best_match family v best ((s, n) # leaves) =
     best_match family v
       (if net_family n = family \<and> networkBig n \<le> v \<and> v \<le> lastBig n
           \<and> (case best of None \<Rightarrow> True | Some b \<Rightarrow> sub_prefix_length s > sub_prefix_length b)
        then Some s else best) leaves"

definition findSubnetForIp :: "db \<Rightarrow> string \<Rightarrow> lc_error + subnet_row option" where
  "findSubnetForIp db ip =
     (case parseIp ip of
        None \<Rightarrow> Inl (Error (''Invalid IP address: '' @ ip))
      | Some address \<Rightarrow>
          (case leaf_networks db of
             Inl e \<Rightarrow> Inl (AddressError e)
           | Inr leaves \<Rightarrow> Inr (best_match (if ip_bits address = 32 then 4 else 6) (ip_value address) None leaves)))"

section \<open>The name of an address\<close>

definition nonEmpty :: "string option \<Rightarrow> bool" where
  "nonEmpty v = (case v of None \<Rightarrow> False | Some s \<Rightarrow> trim s \<noteq> [])"

definition ptrSourceForCanonical :: "canonical \<Rightarrow> string" where
  "ptrSourceForCanonical c =
     (if \<not> truthy (fst c) then ''placeholder''
      else if snd c = Some DHCP_RESERVATION then ''reservation''
      else if snd c = Some DHCP_LEASE then ''dhcp'' else ''dns'')"

definition named_reservation :: "db \<Rightarrow> nat \<Rightarrow> string \<Rightarrow> reservation_row option" where
  "named_reservation db subnetId ip =
     find (\<lambda>r. rsv_subnet_id r = subnetId \<and> rsv_ip_address r = ip \<and> rsv_enabled r \<and> sql_named (rsv_hostname r))
       (dhcp_reservations db)"

definition active_leases :: "db \<Rightarrow> nat \<Rightarrow> string \<Rightarrow> lease_row list" where
  "active_leases db subnetId ip =
     filter (\<lambda>l. lease_subnet_id l = Some subnetId \<and> lease_ip_address l = ip \<and> activeLeaseSql db l) (dhcp_leases db)"

definition named_lease :: "db \<Rightarrow> nat \<Rightarrow> string \<Rightarrow> lease_row option" where
  "named_lease db subnetId ip = best_lease db (filter (\<lambda>l. sql_named (lease_hostname l)) (active_leases db subnetId ip))"

definition served_record :: "db \<Rightarrow> string \<Rightarrow> record_row option" where
  "served_record db ip = find (\<lambda>r. served_manual db r \<and> rec_value r = ip) (dns_records db)"

text \<open>\<open>nonEmpty(x) ? x.trim() : null\<close>\<close>

definition trimmed_name :: "string option \<Rightarrow> string option" where
  "trimmed_name v = (if nonEmpty v then map_option trim v else None)"

definition resolveCanonicalHostname :: "db \<Rightarrow> nat \<Rightarrow> string \<Rightarrow> canonical" where
  "resolveCanonicalHostname db subnetId ip =
     canonicalHostnameForAllocation (map_option ip_allocation_state (find_at db subnetId ip))
       \<lparr>dnsHostname = map_option (record_fqdn db) (served_record db ip),
        reservationHostname = trimmed_name (Option.bind (named_reservation db subnetId ip) rsv_hostname),
        leaseHostname = trimmed_name (Option.bind (named_lease db subnetId ip) lease_hostname)\<rparr>"

definition syncCanonicalHostname :: "db \<Rightarrow> nat \<Rightarrow> string \<Rightarrow> bool \<Rightarrow> canonical outcome" where
  "syncCanonicalHostname db subnetId ip clearSource =
     (let canonical = resolveCanonicalHostname db subnetId ip;
          f = no_fields\<lparr>f_hostname := Some (fst canonical),
                f_detection_source := (if snd canonical \<noteq> None \<or> clearSource then Some (map_option source_text (snd canonical))
                                       else None)\<rparr>
      in andThen (upsert db subnetId ip f) (\<lambda>db1 _. (db1, Inr canonical)))"

section \<open>DNS records\<close>

definition syncDnsToIp :: "db \<Rightarrow> string \<Rightarrow> string \<Rightarrow> string \<Rightarrow> unit outcome" where
  "syncDnsToIp db recordName ip zoneName =
     (case findSubnetForIp db ip of
        Inl e \<Rightarrow> (db, Inl e)
      | Inr None \<Rightarrow> (db, Inr ())
      | Inr (Some subnet) \<Rightarrow>
          let fqdn = fqdnForRecordName recordName zoneName in
          andThen (upsert db (sub_id subnet) ip
                     (no_fields\<lparr>f_hostname := Some (Some fqdn), f_detection_source := Some (Some ''dns'')\<rparr>))
            (\<lambda>db1 _. (emitEvent (clearRogue db1 (sub_id subnet) ip) (sub_id subnet) ip DNS_ADDED
                        \<lparr>old_value = None, new_value = Some fqdn, event_source = Some ''dns''\<rparr>, Inr ())))"

definition clearDnsFromIp :: "db \<Rightarrow> string \<Rightarrow> string \<Rightarrow> string \<Rightarrow> unit outcome" where
  "clearDnsFromIp db recordName ip zoneName =
     (case findSubnetForIp db ip of
        Inl e \<Rightarrow> (db, Inl e)
      | Inr None \<Rightarrow> (db, Inr ())
      | Inr (Some subnet) \<Rightarrow>
          let fqdn = fqdnForRecordName recordName zoneName in
          andThen (db, findBySubnetAndIp db (sub_id subnet) ip) (\<lambda>db existing.
          andThen
            (if (case existing of None \<Rightarrow> False
                 | Some r \<Rightarrow> ip_hostname r = Some fqdn \<or> ip_allocation_state r = STATIC_DNS)
             then andThen (syncCanonicalHostname db (sub_id subnet) ip True) (\<lambda>db1 canonical.
                    (emitEvent db1 (sub_id subnet) ip DNS_REMOVED
                       \<lparr>old_value = Some fqdn, new_value = None, event_source = Some ''dns''\<rparr>, Inr canonical))
             else (db, Inr (resolveCanonicalHostname db (sub_id subnet) ip)))
            (\<lambda>db1 canonical.
               (fst (setPtrForIp db1 ip (Some (if truthy (fst canonical) then coalesce (fst canonical) else ip)) True
                       (ptrSourceForCanonical canonical)), Inr ()))))"

definition syncPtrForIp :: "db \<Rightarrow> string \<Rightarrow> string option \<Rightarrow> string option \<Rightarrow> db \<times> bool" where
  "syncPtrForIp db ip hostname source =
     setPtrForIp db ip (Some (if truthy hostname then coalesce hostname else ip)) False
       (if truthy source then coalesce source else if truthy hostname then ''manual'' else ''placeholder'')"

section \<open>DHCP reservations and leases\<close>

text \<open>\<open>hostname\<close> is \<open>undefined\<close>, \<open>null\<close> or text; \<open>mac_address\<close> may be absent too.\<close>

definition syncDhcpReservationToIp ::
  "vendor_row list \<Rightarrow> db \<Rightarrow> nat \<Rightarrow> string \<Rightarrow> string option option \<Rightarrow> string option option \<Rightarrow> unit outcome" where
  "syncDhcpReservationToIp vendors db subnetId ip hostname mac_address =
     (let effectiveHostname =
            (if hostname = Some None then Some None
             else if truthy (given hostname None) then Some (given hostname None)
             else case generateFallbackHostname vendors (given mac_address None) of
                    None \<Rightarrow> None | Some h \<Rightarrow> Some (Some h))
      in andThen (upsert db subnetId ip
                    (no_fields\<lparr>f_hostname := effectiveHostname, f_mac_address := mac_address,
                       f_detection_source := Some (Some ''dhcp_reservation'')\<rparr>))
           (\<lambda>db1 _. (clearRogue db1 subnetId ip, Inr ())))"

text \<open>\<open>x || undefined\<close>\<close>

definition or_undefined :: "string option \<Rightarrow> string option option" where
  "or_undefined v = (if truthy v then Some v else None)"

definition clearDhcpReservationFromIp :: "db \<Rightarrow> nat \<Rightarrow> string \<Rightarrow> string option \<Rightarrow> unit outcome" where
  "clearDhcpReservationFromIp db subnetId ip mac_address =
     andThen (db, findBySubnetAndIp db subnetId ip) (\<lambda>db existing.
       case existing of
         None \<Rightarrow> (db, Inr ())
       | Some r \<Rightarrow>
           if ip_detection_source r = Some ''dhcp_reservation''
           then (case best_lease db (active_leases db subnetId ip) of
                   Some lease \<Rightarrow>
                     andThen (upsert db subnetId ip
                        (no_fields\<lparr>f_hostname := or_undefined (lease_hostname lease),
                           f_mac_address := or_undefined (lease_mac_address lease),
                           f_last_seen_mac := or_undefined (lease_mac_address lease),
                           f_detection_source := Some (Some ''dhcp_lease'')\<rparr>))
                       (\<lambda>db1 _. andThen (syncCanonicalHostname db1 subnetId ip False) (\<lambda>db2 _. (db2, Inr ())))
                 | None \<Rightarrow>
                     let canonical = resolveCanonicalHostname db subnetId ip in
                     if truthy (fst canonical)
                     then andThen (upsert db subnetId ip
                            (no_fields\<lparr>f_hostname := Some (fst canonical), f_mac_address := Some None,
                               f_detection_source := Some (map_option source_text (snd canonical))\<rparr>))
                          (\<lambda>db1 _. (db1, Inr ()))
                     else (fst (deleteById db (Some (ip_id r))), Inr ()))
           else andThen (upsert db subnetId ip
                  (no_fields\<lparr>f_mac_address := Some (if ip_mac_address r = mac_address then None else ip_mac_address r),
                     f_hostname := Some None, f_detection_source := Some None\<rparr>))
                (\<lambda>db1 _. (db1, Inr ())))"

text \<open>A lease as the lease sync reports it; \<open>ol_expiresAt\<close> is None where the text is \<open>infinite\<close>.\<close>

record observed_lease =
  ol_subnetId :: "nat option"
  ol_ip :: string
  ol_mac :: "string option"
  ol_hostname :: "string option"
  ol_expiresAt :: "instant option"
  ol_dhcpVersion :: nat
  ol_duid :: "string option"
  ol_iaid :: "string option"
  ol_observedActivity :: bool
  ol_newLease :: "bool option"

definition syncLeaseToIp :: "db \<Rightarrow> observed_lease \<Rightarrow> unit outcome" where
  "syncLeaseToIp db l =
     (case or_null_num (ol_subnetId l) of
        None \<Rightarrow> (db, Inr ())
      | Some sn \<Rightarrow>
          let db0 = (if truthy (ol_mac l) then removeOtherRowsForMac db sn (ol_ip l) (ol_mac l) else db) in
          andThen (db0, findBySubnetAndIp db0 sn (ol_ip l)) (\<lambda>db0 before.
          let reservation = (if map_option ip_allocation_state before = Some STATIC_DHCP
                             then named_reservation db0 sn (ol_ip l) else None) in
          andThen (upsert db0 sn (ol_ip l)
             (no_fields\<lparr>f_hostname := (if reservation \<noteq> None then None else or_undefined (ol_hostname l)),
                f_mac_address := or_undefined (ol_mac l),
                f_is_online := (if reservation = None \<and> ol_observedActivity l then Some True else None),
                f_last_seen_mac := or_undefined (ol_mac l),
                f_detection_source := Some (Some ''dhcp_lease'')\<rparr>)) (\<lambda>db1 _.
          andThen (if reservation \<noteq> None
                   then andThen (syncCanonicalHostname db1 sn (ol_ip l) False) (\<lambda>db2 _. (db2, Inr ()))
                   else (db1, Inr ())) (\<lambda>db2 _.
            let db3 = clearRogue db2 sn (ol_ip l) in
            (if ol_newLease l \<noteq> Some False
             then emitEvent db3 sn (ol_ip l) LEASE_OBTAINED
                    \<lparr>old_value = None, new_value = or_null (ol_mac l), event_source = Some ''dhcp_lease''\<rparr>
             else db3, Inr ())))))"

definition syncLeasesToIps :: "db \<Rightarrow> observed_lease list \<Rightarrow> unit outcome" where
  "syncLeasesToIps db leases = foldOut syncLeaseToIp db leases"

end
