(* ===== verification/LifecycleService.thy ===== *)
theory LifecycleService
  imports IpSync
begin

text \<open>
  The lifecycle service (\<open>server/src/services/ip-lifecycle-service.js\<close>), the boundary through which DNS,
  DHCP, topology, administrators and observers change the allocation and the liveness of an address.
  Every change of allocation is checked against the transition table and against the protected
  addresses of the network before anything is written. One definition per function; the audit log, the
  console and the request to regenerate configuration are left out.
\<close>

section \<open>Guards\<close>

record protection =
  prot_state :: "alloc_state option"
  dnsNameAllowed :: bool
  prot_reason :: string

definition address_error :: "cidr_error + 'a \<Rightarrow> lc_error + 'a" where
  "address_error r = (case r of Inl e \<Rightarrow> Inl (AddressError e) | Inr x \<Rightarrow> Inr x)"

definition protectedAddress :: "db \<Rightarrow> nat \<Rightarrow> string \<Rightarrow> lc_error + protection option" where
  "protectedAddress db subnetId ip =
     (if \<not> isValidAddress ip then Inr None
      else case find_subnet db subnetId of
        None \<Rightarrow> Inr (Some \<lparr>prot_state = None, dnsNameAllowed = False,
                         prot_reason = ''Address does not belong to a managed subnet''\<rparr>)
      | Some subnet \<Rightarrow>
          ebind (address_error (parseNetwork (sub_cidr subnet))) (\<lambda>parsed.
          ebind (address_error (addressToBig ip)) (\<lambda>address.
            let v = a_value address in
            if a_family address \<noteq> net_family parsed then Inr None
            else if isTopologyAddress parsed v \<and> v = networkBig parsed
            then Inr (Some \<lparr>prot_state = Some SYSTEM, dnsNameAllowed = False,
                     prot_reason = (if net_family parsed = 6 then ''Subnet-router anycast address is protected''
                                    else ''Network address is protected'')\<rparr>)
            else if isTopologyAddress parsed v
            then Inr (Some \<lparr>prot_state = Some SYSTEM, dnsNameAllowed = False, prot_reason = ''Broadcast address is protected''\<rparr>)
            else if \<not> truthy (sub_gateway_address subnet) then Inr None
            else ebind (address_error (addressToBig (coalesce (sub_gateway_address subnet)))) (\<lambda>gateway.
                   if a_family gateway = net_family parsed \<and> a_value gateway = v
                   then Inr (Some \<lparr>prot_state = Some GATEWAY, dnsNameAllowed = True, prot_reason = ''Gateway address is protected''\<rparr>)
                   else Inr None))))"

definition protectedAddressReason :: "db \<Rightarrow> nat \<Rightarrow> string \<Rightarrow> lc_error + string option" where
  "protectedAddressReason db subnetId ip = ebind (protectedAddress db subnetId ip) (\<lambda>p. Inr (map_option prot_reason p))"

text \<open>\<open>existing?.allocation_state || UNASSIGNED\<close>\<close>

definition state_of :: "ip_row option \<Rightarrow> alloc_state" where
  "state_of row = (case row of None \<Rightarrow> UNASSIGNED | Some r \<Rightarrow> ip_allocation_state r)"

definition transition_refused :: "string \<Rightarrow> alloc_state \<Rightarrow> alloc_state \<Rightarrow> lifecycle_source \<Rightarrow> lc_error" where
  "transition_refused ip current target source =
     IpLifecycleConflictError (''Cannot change '' @ ip @ '' from '' @ alloc_text current @ '' to '' @ alloc_text target
        @ '' via '' @ source_text source) (Some current) (Some target)"

definition assertAllocationTransition ::
  "db \<Rightarrow> nat \<Rightarrow> string \<Rightarrow> alloc_state \<Rightarrow> lifecycle_source \<Rightarrow> lc_error + ip_row option" where
  "assertAllocationTransition db subnetId ip target source =
     ebind (findBySubnetAndIp db subnetId ip) (\<lambda>existing.
     let current = state_of existing; topologyTarget = (target = SYSTEM \<or> target = GATEWAY) in
     ebind (if target \<noteq> UNASSIGNED \<and> \<not> topologyTarget
            then ebind (protectedAddressReason db subnetId ip) (\<lambda>reason.
                   case reason of
                     Some why \<Rightarrow> Inl (IpLifecycleConflictError why (Some current) (Some target))
                   | None \<Rightarrow> Inr ())
            else Inr ()) (\<lambda>_.
       if current = UNASSIGNED \<and> target = UNASSIGNED then Inr existing
       else if \<not> canTransitionAllocation current target source then Inl (transition_refused ip current target source)
       else Inr existing))"

section \<open>Writing an allocation\<close>

text \<open>\<open>{ ...defaults, ...fields }\<close> on one key.\<close>

definition over :: "'a option \<Rightarrow> 'a \<Rightarrow> 'a option" where
  "over v d = (case v of None \<Rightarrow> Some d | Some _ \<Rightarrow> v)"

definition allocation_fields :: "alloc_state \<Rightarrow> lifecycle_source option \<Rightarrow> nat option \<Rightarrow> ip_fields \<Rightarrow> ip_fields" where
  "allocation_fields state sourceType sourceId f =
     (let g = (if state = UNASSIGNED
               then f\<lparr>f_preferred_until := over (f_preferred_until f) None, f_valid_until := over (f_valid_until f) None,
                      f_dhcp_version := over (f_dhcp_version f) None, f_dhcp_duid := over (f_dhcp_duid f) None,
                      f_dhcp_iaid := over (f_dhcp_iaid f) None\<rparr>
               else f\<lparr>f_is_rogue := over (f_is_rogue f) False, f_rogue_reason := over (f_rogue_reason f) None\<rparr>)
      in g\<lparr>f_allocation_state := Some state, f_allocation_source_type := Some sourceType,
           f_allocation_source_id := Some sourceId\<rparr>)"

definition setCanonicalAllocation ::
  "db \<Rightarrow> nat \<Rightarrow> string \<Rightarrow> alloc_state \<Rightarrow> lifecycle_source option \<Rightarrow> nat option \<Rightarrow> ip_fields \<Rightarrow> nat outcome" where
  "setCanonicalAllocation db subnetId ip state sourceType sourceId f =
     andThen (upsert db subnetId ip (allocation_fields state sourceType sourceId f)) (\<lambda>db1 row.
       (if state = UNASSIGNED then fst (dropUnallocatedIpv6Ptr db1 ip) else db1, Inr row))"

definition lifecycleIdentityIp :: "string \<Rightarrow> string option \<Rightarrow> lc_error + string" where
  "lifecycleIdentityIp ip interfaceId =
     (case parseIp ip of
        None \<Rightarrow> Inl (Error (''Invalid IP address: '' @ ip))
      | Some parsed \<Rightarrow>
          if \<not> isV6LinkLocal parsed \<or> truthy (ip_zoneId parsed) \<or> \<not> truthy interfaceId then Inr ip
          else Inr (ip @ ''%'' @ coalesce interfaceId))"

text \<open>What an operation answers: null, a row, or the key \<open>upsert\<close> answered; and \<open>a || b\<close> on answers.\<close>

datatype lc_result = NoResult | ResultRow ip_row | ResultId nat

fun or_result :: "lc_result \<Rightarrow> lc_result \<Rightarrow> lc_result" where
  "or_result NoResult b = b"
| "or_result (ResultId i) b = (if i = 0 then b else ResultId i)"
| "or_result a b = a"

definition row_result :: "ip_row option \<Rightarrow> lc_result" where
  "row_result row = (case row of None \<Rightarrow> NoResult | Some r \<Rightarrow> ResultRow r)"

definition id_result :: "nat outcome \<Rightarrow> lc_result outcome" where
  "id_result r = andThen r (\<lambda>db i. (db, Inr (ResultId i)))"

text \<open>An assertion, then a write.\<close>

definition guarded :: "db \<Rightarrow> lc_error + 'a \<Rightarrow> (db \<Rightarrow> 'b outcome) \<Rightarrow> 'b outcome" where
  "guarded db check f = andThen (db, check) (\<lambda>db _. f db)"

section \<open>Topology\<close>

definition protectTopologyAddress :: "db \<Rightarrow> nat \<Rightarrow> string \<Rightarrow> alloc_state option \<Rightarrow> string option \<Rightarrow> nat outcome" where
  "protectTopologyAddress db subnetId ip state note =
     (if state \<notin> {Some SYSTEM, Some GATEWAY}
      then (db, Inl (Error (''Invalid protected topology state: ''
                     @ (case state of None \<Rightarrow> ''null'' | Some s \<Rightarrow> alloc_text s))))
      else let s = the state in
        guarded db (assertAllocationTransition db subnetId ip s TOPOLOGY) (\<lambda>db.
          setCanonicalAllocation db subnetId ip s (Some TOPOLOGY) None
            (no_fields\<lparr>f_reservation_note := Some note, f_detection_source := Some (Some ''topology'')\<rparr>)))"

definition releaseTopologyAddress :: "db \<Rightarrow> nat \<Rightarrow> string \<Rightarrow> nat outcome" where
  "releaseTopologyAddress db subnetId ip =
     guarded db (assertAllocationTransition db subnetId ip UNASSIGNED TOPOLOGY) (\<lambda>db.
       setCanonicalAllocation db subnetId ip UNASSIGNED None None
         (no_fields\<lparr>f_reservation_note := Some None, f_detection_source := Some None\<rparr>))"

section \<open>Static DNS\<close>

definition touch_topology :: "db \<Rightarrow> nat \<Rightarrow> string \<Rightarrow> lc_result outcome" where
  "touch_topology db subnetId ip =
     andThen (upsert db subnetId ip (no_fields\<lparr>f_detection_source := Some (Some ''topology'')\<rparr>)) (\<lambda>db _.
     andThen (db, findBySubnetAndIp db subnetId ip) (\<lambda>db row. (db, Inr (row_result row))))"

text \<open>\<open>existing?.reservation_note || `Protected ${state} address`\<close>\<close>

definition topology_note :: "ip_row option \<Rightarrow> alloc_state option \<Rightarrow> string option" where
  "topology_note existing state =
     (let kept = Option.bind existing ip_reservation_note in
      if truthy kept then kept
      else Some (''Protected '' @ (case state of None \<Rightarrow> ''null'' | Some s \<Rightarrow> alloc_text s) @ '' address''))"

definition allocateStaticDns :: "db \<Rightarrow> string \<Rightarrow> string \<Rightarrow> string \<Rightarrow> nat option \<Rightarrow> lc_result outcome" where
  "allocateStaticDns db recordName ip zoneName recordId =
     andThen (db, findSubnetForIp db ip) (\<lambda>db subnet.
       case subnet of
         None \<Rightarrow> (db, Inr NoResult)
       | Some s \<Rightarrow>
           let sn = sub_id s in
           andThen (db, findBySubnetAndIp db sn ip) (\<lambda>db existing.
           andThen (throws db (findEnabledScopeForIp db sn ip)) (\<lambda>db scope.
             case scope of
               Some (sc, _) \<Rightarrow>
                 (db, Inl (IpLifecycleConflictError
                   (''Cannot allocate '' @ ip @ '' through DNS because it is inside enabled DHCP scope '' @ dec (scope_id sc))
                   (Some (state_of existing)) (Some STATIC_DNS)))
             | None \<Rightarrow>
                 andThen (db, protectedAddress db sn ip) (\<lambda>db target.
                   if (case target of None \<Rightarrow> False | Some p \<Rightarrow> dnsNameAllowed p)
                   then (let state = prot_state (the target);
                             note = topology_note existing state
                         in andThen (protectTopologyAddress db sn ip state note) (\<lambda>db _.
                            andThen (syncDnsToIp db recordName ip zoneName) (\<lambda>db _.
                              touch_topology db sn ip)))
                   else guarded db (assertAllocationTransition db sn ip STATIC_DNS DNS) (\<lambda>db.
                          andThen (syncDnsToIp db recordName ip zoneName) (\<lambda>db _.
                            id_result (setCanonicalAllocation db sn ip STATIC_DNS (Some DNS) recordId no_fields)))))))"

text \<open>A manual address record in a forward zone that is not served: it or its zone is disabled.\<close>

definition unserved_manual :: "db \<Rightarrow> record_row \<Rightarrow> bool" where
  "unserved_manual db r =
     (isAddressRecordType (rec_type r) \<and> manual_source r
      \<and> (case find_zone db (rec_zone_id r) of
           None \<Rightarrow> False | Some z \<Rightarrow> zone_type z = FORWARD \<and> (\<not> rec_enabled r \<or> \<not> zone_enabled z)))"

definition first_by_id :: "record_row list \<Rightarrow> record_row option" where
  "first_by_id rs = (case sort_key rec_id rs of [] \<Rightarrow> None | r # _ \<Rightarrow> Some r)"

definition dnsHoldingRecord :: "db \<Rightarrow> nat \<Rightarrow> string \<Rightarrow> lc_error + record_row option" where
  "dnsHoldingRecord db subnetId ip =
     ebind (protectedAddress db subnetId ip) (\<lambda>p.
       if p \<noteq> None then Inr None
       else ebind (address_error (findEnabledScopeForIp db subnetId ip)) (\<lambda>scope.
         if scope \<noteq> None then Inr None
         else Inr (first_by_id (filter (\<lambda>r. rec_value r = ip \<and> unserved_manual db r) (dns_records db)))))"

definition deallocateStaticDns :: "db \<Rightarrow> string \<Rightarrow> string \<Rightarrow> string \<Rightarrow> lc_result outcome" where
  "deallocateStaticDns db recordName ip zoneName =
     andThen (db, findSubnetForIp db ip) (\<lambda>db subnet.
       case subnet of
         None \<Rightarrow> (db, Inr NoResult)
       | Some s \<Rightarrow>
           let sn = sub_id s in
           andThen (db, findBySubnetAndIp db sn ip) (\<lambda>db existing.
             if (case existing of None \<Rightarrow> False | Some r \<Rightarrow> ip_allocation_state r \<in> {SYSTEM, GATEWAY})
             then andThen (clearDnsFromIp db recordName ip zoneName) (\<lambda>db _. touch_topology db sn ip)
             else andThen (db, dnsHoldingRecord db sn ip) (\<lambda>db holder.
                    let target = (if holder \<noteq> None then RESERVED else UNASSIGNED) in
                    guarded db (assertAllocationTransition db sn ip target DNS) (\<lambda>db.
                    andThen (clearDnsFromIp db recordName ip zoneName) (\<lambda>db _.
                      id_result
                        (case holder of
                           Some h \<Rightarrow> setCanonicalAllocation db sn ip target (Some DNS) (Some (rec_id h))
                                       (no_fields\<lparr>f_reservation_note := Some None\<rparr>)
                         | None \<Rightarrow> setCanonicalAllocation db sn ip target None None no_fields))))))"

definition isDnsHold :: "ip_row option \<Rightarrow> bool" where
  "isDnsHold row =
     (case row of None \<Rightarrow> False
      | Some r \<Rightarrow> ip_allocation_state r = RESERVED \<and> ip_allocation_source_type r = Some DNS)"

definition hold_taken :: "db \<Rightarrow> record_row \<Rightarrow> named_event" where
  "hold_taken db h = \<lparr>ne_type = DNS_HOLD_TAKEN, ne_old = Some None, ne_new = Some (Some (record_fqdn db h)),
     ne_source = Some (source_text DNS)\<rparr>"

definition hold_released :: named_event where
  "hold_released = \<lparr>ne_type = DNS_HOLD_RELEASED, ne_old = Some None, ne_new = Some None, ne_source = Some (source_text DNS)\<rparr>"

definition reconcileDnsHold :: "db \<Rightarrow> string \<Rightarrow> lc_result outcome" where
  "reconcileDnsHold db ip =
     andThen (db, findSubnetForIp db ip) (\<lambda>db subnet.
       case subnet of
         None \<Rightarrow> (db, Inr NoResult)
       | Some s \<Rightarrow>
           let sn = sub_id s in
           andThen (db, findBySubnetAndIp db sn ip) (\<lambda>db existing.
             let held = isDnsHold existing in
             if state_of existing \<noteq> UNASSIGNED \<and> \<not> held then (db, Inr (row_result existing))
             else andThen (db, dnsHoldingRecord db sn ip) (\<lambda>db holder.
               case holder of
                 Some h \<Rightarrow>
                   if held \<and> Option.bind existing ip_allocation_source_id = Some (rec_id h) then (db, Inr (row_result existing))
                   else guarded db (assertAllocationTransition db sn ip RESERVED DNS) (\<lambda>db.
                          id_result (setCanonicalAllocation db sn ip RESERVED (Some DNS) (Some (rec_id h))
                            (no_fields\<lparr>f_reservation_note := Some None, f_allocation_event := Some (hold_taken db h)\<rparr>)))
               | None \<Rightarrow>
                   if \<not> held then (db, Inr (row_result existing))
                   else guarded db (assertAllocationTransition db sn ip UNASSIGNED DNS) (\<lambda>db.
                          id_result (setCanonicalAllocation db sn ip UNASSIGNED None None
                            (no_fields\<lparr>f_allocation_event := Some hold_released\<rparr>))))))"

definition reconcileDnsHolds_ips :: "db \<Rightarrow> string list" where
  "reconcileDnsHolds_ips db =
     remdups (map rec_value (filter (unserved_manual db) (dns_records db))
       @ map ip_address (filter (\<lambda>r. isDnsHold (Some r)) (ip_addresses db)))"

text \<open>\<open>try ... catch\<close> of a lifecycle conflict; anything else is thrown on. What was written stays.\<close>

definition catchConflict :: "'a outcome \<Rightarrow> (db \<Rightarrow> string \<Rightarrow> 'b outcome) \<Rightarrow> (db \<Rightarrow> 'a \<Rightarrow> 'b outcome) \<Rightarrow> 'b outcome" where
  "catchConflict r handler continue =
     (case r of
        (db, Inr x) \<Rightarrow> continue db x
      | (db, Inl (IpLifecycleConflictError m _ _)) \<Rightarrow> handler db m
      | (db, Inl e) \<Rightarrow> (db, Inl e))"

definition claim_key :: "ip_row option \<Rightarrow> (alloc_state \<times> nat option) option" where
  "claim_key row = map_option (\<lambda>r. (ip_allocation_state r, ip_allocation_source_id r)) row"

fun reconcileDnsHolds_loop :: "db \<Rightarrow> nat \<Rightarrow> string list \<Rightarrow> nat outcome" where
  "reconcileDnsHolds_loop db n [] = (db, Inr n)"
| "reconcileDnsHolds_loop db n (ip # ips) =
     andThen (db, findSubnetForIp db ip) (\<lambda>db subnet.
       case subnet of
         None \<Rightarrow> reconcileDnsHolds_loop db n ips
       | Some s \<Rightarrow>
           andThen (db, findBySubnetAndIp db (sub_id s) ip) (\<lambda>db before.
             catchConflict (reconcileDnsHold db ip) (\<lambda>db _. reconcileDnsHolds_loop db n ips) (\<lambda>db _.
             andThen (db, findBySubnetAndIp db (sub_id s) ip) (\<lambda>db after.
               reconcileDnsHolds_loop db (if claim_key before \<noteq> claim_key after then Suc n else n) ips))))"

definition reconcileDnsHolds :: "db \<Rightarrow> (nat \<times> nat) outcome" where
  "reconcileDnsHolds db =
     (let ips = reconcileDnsHolds_ips db in
      andThen (reconcileDnsHolds_loop db 0 ips) (\<lambda>db n. (db, Inr (length ips, n))))"

definition forward_manual :: "db \<Rightarrow> record_row \<Rightarrow> bool" where
  "forward_manual db r =
     (isAddressRecordType (rec_type r) \<and> manual_source r
      \<and> (case find_zone db (rec_zone_id r) of None \<Rightarrow> False | Some z \<Rightarrow> zone_type z = FORWARD))"

record reconcile_result =
  rr_checked :: nat
  rr_changed :: nat
  rr_conflicts :: "(string \<times> nat \<times> string) list"

definition adopt_records :: "db \<Rightarrow> nat \<Rightarrow> string \<Rightarrow> record_row list \<Rightarrow> ip_row option \<Rightarrow> lc_result outcome" where
  "adopt_records db sn ip records before =
     (case find (\<lambda>r. rec_value r = ip \<and> served_manual db r) records of
        None \<Rightarrow> reconcileDnsHold db ip
      | Some served \<Rightarrow>
          let zoneName = (case find_zone db (rec_zone_id served) of None \<Rightarrow> [] | Some z \<Rightarrow> zone_name z);
              allocate = allocateStaticDns db (rec_name served) ip zoneName (Some (rec_id served))
          in if state_of before = GATEWAY
             then if Option.bind before ip_hostname \<noteq> Some (record_fqdn db served) then allocate else (db, Inr NoResult)
             else if state_of before = UNASSIGNED \<or> isDnsHold before then allocate
             else (db, Inr NoResult))"

definition shown_key :: "ip_row option \<Rightarrow> (alloc_state \<times> nat option \<times> string option) option" where
  "shown_key row = map_option (\<lambda>r. (ip_allocation_state r, ip_allocation_source_id r, ip_hostname r)) row"

fun adopt_loop :: "db \<Rightarrow> nat option \<Rightarrow> record_row list \<Rightarrow> reconcile_result \<Rightarrow> string list \<Rightarrow> reconcile_result outcome" where
  "adopt_loop db only records acc [] = (db, Inr acc)"
| "adopt_loop db only records acc (ip # ips) =
     andThen (db, findSubnetForIp db ip) (\<lambda>db subnet.
       if (case subnet of None \<Rightarrow> True | Some s \<Rightarrow> only \<noteq> None \<and> only \<noteq> Some (sub_id s))
       then adopt_loop db only records acc ips
       else let sn = sub_id (the subnet); acc1 = acc\<lparr>rr_checked := Suc (rr_checked acc)\<rparr> in
         andThen (db, findBySubnetAndIp db sn ip) (\<lambda>db before.
           catchConflict (adopt_records db sn ip records before)
             (\<lambda>db m. let culprit = (case find (\<lambda>r. rec_value r = ip \<and> served_manual db r) records of
                                       Some r \<Rightarrow> Some r | None \<Rightarrow> find (\<lambda>r. rec_value r = ip) records) in
                adopt_loop db only records
                  (acc1\<lparr>rr_conflicts := rr_conflicts acc1 @ [(ip, (case culprit of None \<Rightarrow> 0 | Some r \<Rightarrow> rec_id r), m)]\<rparr>) ips)
             (\<lambda>db _. andThen (db, findBySubnetAndIp db sn ip) (\<lambda>db after.
                adopt_loop db only records
                  (if shown_key before \<noteq> shown_key after then acc1\<lparr>rr_changed := Suc (rr_changed acc1)\<rparr> else acc1) ips))))"

definition reconcileStaticDnsAllocations :: "db \<Rightarrow> nat option \<Rightarrow> reconcile_result outcome" where
  "reconcileStaticDnsAllocations db subnetId =
     (let records = filter (\<lambda>r. isValidAddress (rec_value r)) (sort_key rec_id (filter (forward_manual db) (dns_records db)));
          ips = rev (remdups (rev (map rec_value records)))
      in adopt_loop db subnetId records \<lparr>rr_checked = 0, rr_changed = 0, rr_conflicts = []\<rparr> ips)"

text \<open>\<open>records\<close> are the zone's records read before a delete; None reads them here.\<close>

definition reconcileStaticDnsZone ::
  "db \<Rightarrow> zone_row \<Rightarrow> zone_row option \<Rightarrow> record_row list option \<Rightarrow> unit outcome" where
  "reconcileStaticDnsZone db previousZone currentZone records =
     (let addressRecords = (case records of
            Some rs \<Rightarrow> rs
          | None \<Rightarrow> filter (\<lambda>r. rec_zone_id r = zone_id previousZone \<and> isAddressRecordType (rec_type r) \<and> manual_source r)
                      (dns_records db))
      in andThen (foldOut (\<lambda>db r.
             andThen (if zone_type previousZone = FORWARD \<and> zone_enabled previousZone
                      then deallocateStaticDns db (rec_name r) (rec_value r) (zone_name previousZone)
                      else (db, Inr NoResult)) (\<lambda>db _.
             case currentZone of
               Some z \<Rightarrow>
                 if zone_type z = FORWARD \<and> zone_enabled z
                 then andThen (allocateStaticDns db (rec_name r) (rec_value r) (zone_name z) (Some (rec_id r))) (\<lambda>db _. (db, Inr ()))
                 else (db, Inr ())
             | None \<Rightarrow> (db, Inr ()))) db (filter rec_enabled addressRecords)) (\<lambda>db _.
           foldOut (\<lambda>db r. andThen (reconcileDnsHold db (rec_value r)) (\<lambda>db _. (db, Inr ()))) db addressRecords))"

section \<open>Static DHCP\<close>

record reservation_fields =
  rsvf_hostname :: "string option option"
  rsvf_mac_address :: "string option option"
  rsvf_dhcp_version :: "nat option"
  rsvf_dhcp_duid :: "string option"
  rsvf_dhcp_iaid :: "string option"

definition describeReservation :: "reservation_fields \<Rightarrow> string option" where
  "describeReservation f =
     (let mac = given (rsvf_mac_address f) None; hostname = given (rsvf_hostname f) None;
          client = (if truthy mac then mac
                    else if truthy (rsvf_dhcp_duid f) then Some (''DUID '' @ coalesce (rsvf_dhcp_duid f)) else None);
          named = (if truthy hostname then Some (''('' @ coalesce hostname @ '')'') else None)
      in or_null (Some (join '' '' (List.map_filter or_null [client, named]))))"

definition allocateStaticDhcp ::
  "vendor_row list \<Rightarrow> db \<Rightarrow> nat \<Rightarrow> string \<Rightarrow> reservation_fields \<Rightarrow> nat option \<Rightarrow> nat outcome" where
  "allocateStaticDhcp vendors db subnetId ip f reservationId =
     guarded db (assertAllocationTransition db subnetId ip STATIC_DHCP DHCP_RESERVATION) (\<lambda>db.
     andThen (syncDhcpReservationToIp vendors db subnetId ip (rsvf_hostname f) (rsvf_mac_address f)) (\<lambda>db _.
       setCanonicalAllocation db subnetId ip STATIC_DHCP (Some DHCP_RESERVATION) reservationId
         (no_fields\<lparr>f_dhcp_version := Some (Some (case or_null_num (rsvf_dhcp_version f) of None \<Rightarrow> 4 | Some v \<Rightarrow> v)),
            f_dhcp_duid := Some (or_null (rsvf_dhcp_duid f)), f_dhcp_iaid := Some (rsvf_dhcp_iaid f),
            f_allocation_event := Some \<lparr>ne_type = DHCP_RESERVATION_CREATED, ne_old = Some None,
              ne_new = Some (describeReservation f), ne_source = Some (source_text DHCP_RESERVATION)\<rparr>\<rparr>)))"

definition deallocateStaticDhcp :: "db \<Rightarrow> nat \<Rightarrow> string \<Rightarrow> string option \<Rightarrow> lc_result outcome" where
  "deallocateStaticDhcp db subnetId ip macAddress =
     guarded db (assertAllocationTransition db subnetId ip UNASSIGNED DHCP_RESERVATION) (\<lambda>db.
     andThen (clearDhcpReservationFromIp db subnetId ip macAddress) (\<lambda>db _.
     andThen (db, findBySubnetAndIp db subnetId ip) (\<lambda>db existing.
       case existing of
         None \<Rightarrow>
           andThen (recordEvent db subnetId ip DHCP_RESERVATION_REMOVED
                \<lparr>old_value = or_null macAddress, new_value = None, event_source = Some (source_text DHCP_RESERVATION)\<rparr>) (\<lambda>db _.
             reconcileDnsHold db ip)
       | Some r \<Rightarrow>
           let state = (if ip_detection_source r = Some ''dhcp_lease'' then DYNAMIC_DHCP else UNASSIGNED) in
           andThen (setCanonicalAllocation db subnetId ip state (if state = DYNAMIC_DHCP then Some DHCP_LEASE else None) None
                (no_fields\<lparr>f_allocation_event := Some \<lparr>ne_type = DHCP_RESERVATION_REMOVED, ne_old = Some (or_null macAddress),
                   ne_new = Some None, ne_source = Some (source_text DHCP_RESERVATION)\<rparr>\<rparr>)) (\<lambda>db released.
             if state = UNASSIGNED
             then andThen (reconcileDnsHold db ip) (\<lambda>db res. (db, Inr (or_result res (ResultId released))))
             else (db, Inr (ResultId released))))))"

section \<open>DHCP leases\<close>

definition enabledReservationAt :: "db \<Rightarrow> nat \<Rightarrow> string \<Rightarrow> reservation_row option" where
  "enabledReservationAt db subnetId ip =
     find (\<lambda>r. rsv_subnet_id r = subnetId \<and> rsv_ip_address r = ip \<and> rsv_enabled r) (dhcp_reservations db)"

definition leaseIsReservationClient :: "reservation_row \<Rightarrow> observed_lease \<Rightarrow> bool" where
  "leaseIsReservationClient reservation lease =
     (let matches = (\<lambda>expected observed. toLowerCase (coalesce expected) = toLowerCase (coalesce observed)) in
      if ol_dhcpVersion lease = 6 then matches (rsv_duid reservation) (ol_duid lease)
      else matches (rsv_mac_address reservation) (ol_mac lease))"

definition holdsAnotherClientsReservation :: "db \<Rightarrow> observed_lease \<Rightarrow> bool" where
  "holdsAnotherClientsReservation db lease =
     (case or_null_num (ol_subnetId lease) of
        None \<Rightarrow> False
      | Some sn \<Rightarrow>
          isValidAddress (ol_ip lease)
          \<and> (case enabledReservationAt db sn (ol_ip lease) of
               None \<Rightarrow> False | Some r \<Rightarrow> \<not> leaseIsReservationClient r lease))"

definition dhcpLeaseRejectionReason :: "db \<Rightarrow> observed_lease \<Rightarrow> lc_error + string option" where
  "dhcpLeaseRejectionReason db lease =
     (case or_null_num (ol_subnetId lease) of
        None \<Rightarrow> Inr (Some (''DHCP lease '' @ ol_ip lease @ '' has no managed subnet''))
      | Some sn \<Rightarrow>
          let ip = ol_ip lease in
          if \<not> isValidAddress ip then Inr (Some (''DHCP lease address '' @ ip @ '' is invalid''))
          else let reservation = enabledReservationAt db sn ip in
            if (case reservation of None \<Rightarrow> False | Some r \<Rightarrow> \<not> leaseIsReservationClient r lease)
            then Inr (Some (''DHCP Lease '' @ ip @ '' does not match its DHCP Reservation client''))
            else ebind (if reservation \<noteq> None then Inr True
                        else ebind (address_error (findEnabledScopeForIp db sn ip)) (\<lambda>scope. Inr (scope \<noteq> None))) (\<lambda>covered.
              if \<not> covered then Inr (Some (''Dynamic lease '' @ ip @ '' is outside an enabled DHCP scope''))
              else case assertAllocationTransition db sn ip (if reservation \<noteq> None then STATIC_DHCP else DYNAMIC_DHCP)
                       (if reservation \<noteq> None then DHCP_RESERVATION else DHCP_LEASE) of
                     Inr _ \<Rightarrow> Inr None
                   | Inl (IpLifecycleConflictError m _ _) \<Rightarrow> Inr (Some m)
                   | Inl e \<Rightarrow> Inl e))"

definition expired_allocation :: "db \<Rightarrow> ip_row \<Rightarrow> bool" where
  "expired_allocation db r =
     (ip_allocation_state r = DYNAMIC_DHCP
      \<and> active_leases db (ip_subnet_id r) (ip_address r) = []
      \<and> (ip_dhcp_version r = Some 4
         \<or> ip_dhcp_version r = Some 6 \<and> (case ip_valid_until r of None \<Rightarrow> True | Some t \<Rightarrow> t \<le> clock db)))"

definition expire_allocation :: "db \<Rightarrow> ip_row \<Rightarrow> unit outcome" where
  "expire_allocation db row =
     (let sn = ip_subnet_id row; ip = ip_address row in
      guarded db (assertAllocationTransition db sn ip UNASSIGNED DHCP_LEASE) (\<lambda>db.
      andThen (setCanonicalAllocation db sn ip UNASSIGNED None None
           (no_fields\<lparr>f_allocation_event := Some \<lparr>ne_type = LEASE_EXPIRED, ne_old = Some (or_null (ip_mac_address row)),
              ne_new = Some None, ne_source = Some (source_text DHCP_LEASE)\<rparr>\<rparr>)) (\<lambda>db _.
        if ip_is_online row
        then andThen (syncCanonicalHostname db sn ip True) (\<lambda>db _.
               (fst (deleteDynamicDhcpRecordsByIps db [(ip, Some sn)]), Inr ()))
        else (db, Inr ()))))"

definition reconcileExpiredDhcpAllocations :: "db \<Rightarrow> nat outcome" where
  "reconcileExpiredDhcpAllocations db =
     (let expired = filter (expired_allocation db) (ip_addresses db) in
      andThen (foldOut expire_allocation db expired) (\<lambda>db _. (db, Inr (length expired))))"

text \<open>\<open>9999-12-31T23:59:59.000Z\<close>\<close>

definition FAR_FUTURE :: instant where "FAR_FUTURE = 253402300799"

definition observeDhcpv6Lease ::
  "db \<Rightarrow> nat \<Rightarrow> string \<Rightarrow> string option \<Rightarrow> string option \<Rightarrow> instant option \<Rightarrow> instant option \<Rightarrow> bool \<Rightarrow> bool \<Rightarrow> nat outcome" where
  "observeDhcpv6Lease db subnetId ip duid iaid preferredUntil validUntil poolValidated observedActivity =
     (let normalizedDuid = trim (coalesce duid); normalizedIaid = trim (coalesce iaid) in
      if normalizedDuid = [] \<or> normalizedIaid = [] \<or> length normalizedDuid > 512 \<or> length normalizedIaid > 128
      then (db, Inl (Error ''DHCPv6 lease requires DUID and IAID identity''))
      else if validUntil = None then (db, Inl (Error ''DHCPv6 valid lifetime is required''))
      else if \<not> poolValidated then (db, Inl (Error ''DHCPv6 lease requires validated enabled-pool membership''))
      else guarded db (assertAllocationTransition db subnetId ip DYNAMIC_DHCP DHCP_LEASE) (\<lambda>db.
             setCanonicalAllocation db subnetId ip DYNAMIC_DHCP (Some DHCP_LEASE) None
               (no_fields\<lparr>f_dhcp_version := Some (Some 6), f_dhcp_duid := Some (Some normalizedDuid),
                  f_dhcp_iaid := Some (Some normalizedIaid), f_preferred_until := Some preferredUntil,
                  f_valid_until := Some validUntil, f_is_online := (if observedActivity then Some True else None),
                  f_detection_source := Some (Some ''dhcpv6_lease'')\<rparr>)))"

definition newest_lease_id :: "db \<Rightarrow> nat \<Rightarrow> string \<Rightarrow> nat option" where
  "newest_lease_id db subnetId ip =
     (case rev (sort_key lease_id (filter (\<lambda>l. lease_subnet_id l = Some subnetId \<and> lease_ip_address l = ip) (dhcp_leases db))) of
        [] \<Rightarrow> None | l # _ \<Rightarrow> or_null_num (Some (lease_id l)))"

definition observe_lease :: "db \<Rightarrow> observed_lease \<Rightarrow> unit outcome" where
  "observe_lease db lease =
     (case or_null_num (ol_subnetId lease) of
        None \<Rightarrow> (db, Inr ())
      | Some sn \<Rightarrow>
          let ip = ol_ip lease; v6 = (ol_dhcpVersion lease = 6) in
          andThen
            (case enabledReservationAt db sn ip of
               Some reservation \<Rightarrow>
                 setCanonicalAllocation db sn ip STATIC_DHCP (Some DHCP_RESERVATION) (Some (rsv_id reservation))
                   (if v6 then no_fields\<lparr>f_dhcp_version := Some (Some 6), f_dhcp_duid := Some (ol_duid lease),
                                 f_dhcp_iaid := Some (Some (case ol_iaid lease of None \<Rightarrow> ''null'' | Some i \<Rightarrow> i))\<rparr>
                    else no_fields\<lparr>f_dhcp_version := Some (Some 4), f_dhcp_duid := Some None, f_dhcp_iaid := Some None\<rparr>)
             | None \<Rightarrow>
                 if v6 then observeDhcpv6Lease db sn ip (ol_duid lease) (ol_iaid lease) None
                              (Some (case ol_expiresAt lease of None \<Rightarrow> FAR_FUTURE | Some t \<Rightarrow> t)) True (ol_observedActivity lease)
                 else setCanonicalAllocation db sn ip DYNAMIC_DHCP (Some DHCP_LEASE) (newest_lease_id db sn ip)
                        (no_fields\<lparr>f_dhcp_version := Some (Some 4), f_dhcp_duid := Some None, f_dhcp_iaid := Some None\<rparr>))
            (\<lambda>db _. (db, Inr ())))"

fun reject_leases :: "db \<Rightarrow> observed_lease list \<Rightarrow> lc_error + unit" where
  "reject_leases db [] = Inr ()"
| "reject_leases db (lease # leases) =
     (if or_null_num (ol_subnetId lease) = None then reject_leases db leases
      else ebind (dhcpLeaseRejectionReason db lease) (\<lambda>rejection.
             case rejection of
               Some why \<Rightarrow> Inl (IpLifecycleConflictError why None None)
             | None \<Rightarrow> reject_leases db leases))"

definition observeDhcpLeases :: "db \<Rightarrow> observed_lease list \<Rightarrow> bool \<Rightarrow> nat outcome" where
  "observeDhcpLeases db leases prevalidated =
     guarded db (if prevalidated then Inr () else reject_leases db leases) (\<lambda>db.
     andThen (syncLeasesToIps db leases) (\<lambda>db _.
     andThen (foldOut observe_lease db leases) (\<lambda>db _. reconcileExpiredDhcpAllocations db)))"

section \<open>Administrators and topology changes\<close>

definition setManualReservation :: "db \<Rightarrow> nat \<Rightarrow> string \<Rightarrow> bool \<Rightarrow> string option \<Rightarrow> lc_result outcome" where
  "setManualReservation db subnetId ip reserved note =
     andThen (db, findBySubnetAndIp db subnetId ip) (\<lambda>db existing.
       let target = (if reserved then RESERVED else UNASSIGNED) in
       if isDnsHold existing
       then (db, Inl (IpLifecycleConflictError (ip @ '' is held by a disabled DNS record. ''
               @ ''Enable the record to publish it, or delete it to free the address'')
               (Some (state_of existing)) (Some target)))
       else guarded db (assertAllocationTransition db subnetId ip target ADMIN_RESERVATION) (\<lambda>db.
         andThen (setCanonicalAllocation db subnetId ip target (if reserved then Some ADMIN_RESERVATION else None) None
              (no_fields\<lparr>f_reservation_note := Some (if reserved then note else None),
                 f_detection_source := Some (if reserved then Some ''manual'' else None),
                 f_allocation_event := Some
                   (if reserved
                    then \<lparr>ne_type = IP_RESERVATION_CREATED, ne_old = Some None, ne_new = Some (or_null note), ne_source = Some ''manual''\<rparr>
                    else \<lparr>ne_type = IP_RESERVATION_RELEASED, ne_old = Some (or_null (Option.bind existing ip_reservation_note)),
                          ne_new = Some None, ne_source = Some ''manual''\<rparr>)\<rparr>)) (\<lambda>db result.
           if reserved then (db, Inr (ResultId result))
           else andThen (reconcileDnsHold db ip) (\<lambda>db res. (db, Inr (or_result res (ResultId result)))))))"

text \<open>\<open>map.set(k, v)\<close>: a key that is there keeps its place.\<close>

definition map_set :: "'k \<Rightarrow> 'v \<Rightarrow> ('k \<times> 'v) list \<Rightarrow> ('k \<times> 'v) list" where
  "map_set k v kvs =
     (if k \<in> fst ` set kvs then map (\<lambda>kv. if fst kv = k then (k, v) else kv) kvs else kvs @ [(k, v)])"

definition desired_topology :: "network \<Rightarrow> string option \<Rightarrow> (string \<times> alloc_state) list" where
  "desired_topology parsed gatewayAddress =
     (let system = fold (\<lambda>ip. map_set ip SYSTEM) (topologyAddresses parsed) [] in
      if truthy gatewayAddress then map_set (coalesce gatewayAddress) GATEWAY system else system)"

text \<open>The name given to a former gateway is put together here without the rule for absolute names.\<close>

definition release_topology_row :: "nat \<Rightarrow> (string \<times> alloc_state) list \<Rightarrow> db \<Rightarrow> string \<Rightarrow> unit outcome" where
  "release_topology_row subnetId desired db ip =
     (if ip \<in> fst ` set desired then (db, Inr ())
      else andThen
        (case first_by_id (filter (\<lambda>r. rec_value r = ip \<and> served_manual db r) (dns_records db)) of
           Some dns \<Rightarrow>
             let zoneName = (case find_zone db (rec_zone_id dns) of None \<Rightarrow> [] | Some z \<Rightarrow> zone_name z);
                 hostname = (if rec_name dns = ''@'' then zoneName else rec_name dns @ ''.'' @ zoneName)
             in setCanonicalAllocation db subnetId ip STATIC_DNS (Some DNS) (Some (rec_id dns))
                  (no_fields\<lparr>f_hostname := Some (Some hostname), f_reservation_note := Some None,
                     f_detection_source := Some (Some ''dns'')\<rparr>)
         | None \<Rightarrow>
             setCanonicalAllocation db subnetId ip UNASSIGNED None None
               (no_fields\<lparr>f_reservation_note := Some None, f_detection_source := Some None, f_is_online := Some False,
                  f_is_rogue := Some False, f_rogue_reason := Some None\<rparr>))
        (\<lambda>db _. (db, Inr ())))"

definition reconcileTopologyAddresses :: "db \<Rightarrow> nat \<Rightarrow> network \<Rightarrow> string option \<Rightarrow> unit outcome" where
  "reconcileTopologyAddresses db subnetId parsed gatewayAddress =
     (let desired = desired_topology parsed gatewayAddress;
          existing = map ip_address (filter (\<lambda>r. ip_subnet_id r = subnetId \<and> ip_allocation_source_type r = Some TOPOLOGY)
                       (ip_addresses db))
      in andThen (foldOut (release_topology_row subnetId desired) db existing) (\<lambda>db _.
           foldOut (\<lambda>db kv. andThen (protectTopologyAddress db subnetId (fst kv) (Some (snd kv))
               (Some (if snd kv = GATEWAY then ''Default gateway'' else ''Protected topology address''))) (\<lambda>db _. (db, Inr ())))
             db desired))"

fun ensureLifecycleAddresses :: "db \<Rightarrow> nat \<Rightarrow> (string \<times> ip_fields) list \<Rightarrow> nat outcome" where
  "ensureLifecycleAddresses db subnetId [] = (db, Inr 0)"
| "ensureLifecycleAddresses db subnetId ((ip, entry) # entries) =
     andThen
       (if f_allocation_state entry \<in> {Some SYSTEM, Some GATEWAY}
        then andThen (db, findBySubnetAndIp db subnetId ip) (\<lambda>db existed.
             andThen (protectTopologyAddress db subnetId ip (f_allocation_state entry)
                 (if truthy (given (f_reservation_note entry) None) then given (f_reservation_note entry) None
                  else Some ''Protected topology address'')) (\<lambda>db _.
               (db, Inr (if existed = None then 1 else 0))))
        else andThen (ensureAddress db subnetId ip entry) (\<lambda>db r. (db, Inr (fst r)))) (\<lambda>db n.
     andThen (ensureLifecycleAddresses db subnetId entries) (\<lambda>db m. (db, Inr (n + m))))"

section \<open>IPv6 observations\<close>

definition observeSlaac ::
  "db \<Rightarrow> nat \<Rightarrow> string \<Rightarrow> string option \<Rightarrow> instant option \<Rightarrow> instant option \<Rightarrow> bool \<Rightarrow> nat outcome" where
  "observeSlaac db subnetId ip interfaceId preferredUntil validUntil temporary =
     (if validUntil = None then (db, Inl (Error ''SLAAC valid lifetime is required''))
      else andThen (db, lifecycleIdentityIp ip interfaceId) (\<lambda>db identityIp.
        guarded db (assertAllocationTransition db subnetId identityIp SLAAC BY_SLAAC) (\<lambda>db.
          setCanonicalAllocation db subnetId identityIp SLAAC (Some BY_SLAAC) None
            (no_fields\<lparr>f_preferred_until := Some preferredUntil, f_valid_until := Some validUntil,
               f_detection_source := Some (Some (if temporary then ''slaac_privacy'' else ''slaac''))\<rparr>))))"

definition observeNeighbor ::
  "db \<Rightarrow> nat \<Rightarrow> string \<Rightarrow> string option \<Rightarrow> string option \<Rightarrow> bool \<Rightarrow> string \<Rightarrow> nat outcome" where
  "observeNeighbor db subnetId ip interfaceId mac rogueAllowed source =
     andThen (db, lifecycleIdentityIp ip interfaceId) (\<lambda>db identityIp.
     andThen (db, findBySubnetAndIp db subnetId identityIp) (\<lambda>db existing.
       let isRogue = (rogueAllowed \<and> state_of existing = UNASSIGNED) in
       upsert db subnetId identityIp
         (no_fields\<lparr>f_is_online := Some True, f_last_seen_mac := or_undefined mac, f_is_rogue := Some isRogue,
            f_rogue_reason := Some (if isRogue then Some ''Neighbor Discovery from unassigned address'' else None),
            f_detection_source := Some (Some source)\<rparr>)))"

definition DEFAULT_SLAAC_LIFETIME_MS :: nat where "DEFAULT_SLAAC_LIFETIME_MS = 24 * 60 * 60 * 1000"

text \<open>\<open>/^fe[89ab]/i\<close>\<close>

definition LINK_LOCAL_RE :: "string \<Rightarrow> bool" where
  "LINK_LOCAL_RE ip = (let s = toLowerCase ip in
     take 2 s = ''fe'' \<and> length s > 2 \<and> s ! 2 \<in> set ''89ab'')"

definition slaac_valid_until :: "string option \<Rightarrow> instant \<Rightarrow> instant" where
  "slaac_valid_until leaseTime now =
     (case leaseDurationMs leaseTime of
        Forever \<Rightarrow> FAR_FUTURE
      | Seconds ms \<Rightarrow> (now * 1000 + ms) div 1000
      | NotANumber \<Rightarrow> (now * 1000 + DEFAULT_SLAAC_LIFETIME_MS) div 1000)"

definition observeIpv6Presence ::
  "db \<Rightarrow> nat \<Rightarrow> string \<Rightarrow> string option \<Rightarrow> string option \<Rightarrow> (string option \<times> string option) option \<Rightarrow> string \<Rightarrow> instant
     \<Rightarrow> nat outcome" where
  "observeIpv6Presence db subnetId ip interfaceId mac policy source now =
     (if LINK_LOCAL_RE ip then observeNeighbor db subnetId ip interfaceId mac False source
      else let mode = or_null (Option.bind policy fst) in
        andThen
          (if mode = Some ''slaac'' \<or> mode = Some ''stateless''
           then andThen (db, findBySubnetAndIp db subnetId ip) (\<lambda>db existing.
                  if state_of existing = UNASSIGNED
                  then andThen (observeSlaac db subnetId ip None None
                           (Some (slaac_valid_until (Option.bind policy snd) now)) False) (\<lambda>db _. (db, Inr ()))
                  else (db, Inr ()))
           else (db, Inr ())) (\<lambda>db _.
          observeNeighbor db subnetId ip None mac (mode = Some ''stateful'') source))"

definition observeRouterAdvertisement :: "db \<Rightarrow> nat \<Rightarrow> string \<Rightarrow> string option \<Rightarrow> bool \<Rightarrow> nat outcome" where
  "observeRouterAdvertisement db subnetId ip interfaceId trusted =
     (if \<not> trusted then (db, Inl (Error ''Untrusted Router Advertisement cannot set gateway authority''))
      else andThen (db, lifecycleIdentityIp ip interfaceId) (\<lambda>db identityIp.
        guarded db (assertAllocationTransition db subnetId identityIp GATEWAY TOPOLOGY) (\<lambda>db.
          setCanonicalAllocation db subnetId identityIp GATEWAY (Some TOPOLOGY) None
            (no_fields\<lparr>f_detection_source := Some (Some ''router_advertisement'')\<rparr>))))"

section \<open>Retirement\<close>

definition OFFLINE_RETIREMENT_S :: nat where "OFFLINE_RETIREMENT_S = 60 * 60"

definition findLeasesByAddress :: "db \<Rightarrow> nat \<Rightarrow> string \<Rightarrow> lease_row list" where
  "findLeasesByAddress db subnetId ip =
     filter (\<lambda>l. lease_subnet_id l = Some subnetId \<and> lease_ip_address l = ip) (dhcp_leases db)"

definition deleteLeasesByAddress :: "db \<Rightarrow> nat \<Rightarrow> string \<Rightarrow> db" where
  "deleteLeasesByAddress db subnetId ip =
     db\<lparr>dhcp_leases := filter (\<lambda>l. \<not> (lease_subnet_id l = Some subnetId \<and> lease_ip_address l = ip)) (dhcp_leases db)\<rparr>"

text \<open>A lease as the backend is given it, and what it answers to a release.\<close>

record backend_lease =
  bl_ip :: string
  bl_mac :: "string option"
  bl_clientId :: "string option"
  bl_expiresAt :: expiry
  bl_dhcpVersion :: nat
  bl_duid :: "string option"
  bl_iaid :: "string option"

definition backendLeaseFromRow :: "lease_row \<Rightarrow> backend_lease" where
  "backendLeaseFromRow row =
     \<lparr>bl_ip = lease_ip_address row, bl_mac = map_option toLowerCase (or_null (lease_mac_address row)),
      bl_clientId = lease_client_id row, bl_expiresAt = lease_expires_at row,
      bl_dhcpVersion = (if lease_dhcp_version row = 6 then 6 else 4),
      bl_duid = map_option toLowerCase (or_null (lease_duid row)), bl_iaid = lease_iaid row\<rparr>"

datatype release = Released | Skipped | Failed

definition sticky :: "instant \<Rightarrow> lease_row \<Rightarrow> bool" where
  "sticky now lease = (case lease_expires_at lease of INFINITE \<Rightarrow> True | EXPIRES t \<Rightarrow> t > now | UNREADABLE \<Rightarrow> True)"

text \<open>The first transaction: start missing windows and pick candidates.\<close>

definition retirement_begin :: "db \<Rightarrow> instant \<Rightarrow> nat \<Rightarrow> db \<times> ip_row list" where
  "retirement_begin db now limit =
     (let db1 = fst (startMissingRetirementWindows db now) in
      (db1, findRetirementCandidates db1 (now - OFFLINE_RETIREMENT_S) now (max 1 (min 500 (if limit = 0 then 500 else limit)))))"

text \<open>Between the transactions the backend is asked to drop the live leases; a row stays when one is not
  dropped.\<close>

definition releases :: "(backend_lease \<Rightarrow> release) \<Rightarrow> db \<Rightarrow> instant \<Rightarrow> ip_row \<Rightarrow> release list" where
  "releases releaseLease db now row =
     map (releaseLease \<circ> backendLeaseFromRow) (filter (sticky now) (findLeasesByAddress db (ip_subnet_id row) (ip_address row)))"

definition eligible :: "(backend_lease \<Rightarrow> release) \<Rightarrow> db \<Rightarrow> instant \<Rightarrow> ip_row \<Rightarrow> bool" where
  "eligible releaseLease db now row = list_all (\<lambda>r. r = Released) (releases releaseLease db now row)"

definition retire_row :: "db \<Rightarrow> ip_row \<Rightarrow> unit outcome" where
  "retire_row db row =
     (let sn = ip_subnet_id row;
          identityIp = (if truthy (ip_interface_id row) then ip_address row @ ''%'' @ coalesce (ip_interface_id row) else ip_address row)
      in guarded db
           (if ip_allocation_state row = DYNAMIC_DHCP then assertAllocationTransition db sn identityIp UNASSIGNED DHCP_LEASE
            else if ip_allocation_state row = SLAAC then assertAllocationTransition db sn identityIp UNASSIGNED BY_SLAAC
            else Inr None)
           (\<lambda>db. (retireLearnedMetadata (deleteLeasesByAddress db sn (ip_address row)) row, Inr ())))"

text \<open>The second transaction: a throw takes all of it back.\<close>

definition retirement_commit :: "db \<Rightarrow> instant \<Rightarrow> ip_row list \<Rightarrow> nat outcome" where
  "retirement_commit db now rows =
     (let rowless = findRowlessDhcpRecordAddresses db (now - OFFLINE_RETIREMENT_S) in
      case deleteDynamicDhcpRecordsByIps db (map (\<lambda>ip. (ip, None)) rowless) of
        (db1, n1) \<Rightarrow>
          if rows = [] then (db1, Inr n1)
          else case foldOut retire_row db1 rows of
                 (db2, Inl e) \<Rightarrow> (db, Inl e)
               | (db2, Inr _) \<Rightarrow>
                   (case deleteDynamicDhcpRecordsByIps db2 (map (\<lambda>r. (ip_address r, Some (ip_subnet_id r))) rows) of
                      (db3, n2) \<Rightarrow> (db3, Inr (n1 + n2))))"

record retirement_result =
  ret_retired :: nat
  ret_deferred :: nat
  ret_dnsRecordsRemoved :: nat
  ret_leasesRemoved :: nat
  ret_released :: nat
  ret_skipped :: nat
  ret_failed :: nat

definition retireStaleDynamicAddresses ::
  "(backend_lease \<Rightarrow> release) \<Rightarrow> db \<Rightarrow> instant \<Rightarrow> nat \<Rightarrow> retirement_result outcome" where
  "retireStaleDynamicAddresses releaseLease db now limit =
     (case retirement_begin db now limit of
        (db1, candidates) \<Rightarrow>
          let rows = filter (eligible releaseLease db1 now) candidates;
              answers = concat (map (releases releaseLease db1 now) candidates)
          in andThen (retirement_commit db1 now rows) (\<lambda>db2 removed.
               (db2, Inr \<lparr>ret_retired = length rows, ret_deferred = length candidates - length rows,
                          ret_dnsRecordsRemoved = removed,
                          ret_leasesRemoved = sum_list (map (\<lambda>r. length (findLeasesByAddress db1 (ip_subnet_id r) (ip_address r))) rows),
                          ret_released = length (filter (\<lambda>a. a = Released) answers),
                          ret_skipped = length (filter (\<lambda>a. a = Skipped) answers),
                          ret_failed = length (filter (\<lambda>a. a = Failed) answers)\<rparr>)))"

end
