(* ===== verification/LifecycleFrames.thy ===== *)
theory LifecycleFrames
  imports LifecycleService
begin

text \<open>
  What the lifecycle service does to the claims on addresses. A locale states what a relation between
  databases must allow for the metadata projection (names, MACs, history, PTR records) to stay inside
  it; its lemmas carry every \<open>ip-sync\<close> operation. It is interpreted on the two relations the properties
  rest on: \<open>safe\<close> (the claim invariant is kept) and \<open>refines\<close> (the allocation states change only by
  steps of the transition table of given sources).
\<close>

section \<open>Metadata writes\<close>

definition neutral :: "ip_fields \<Rightarrow> bool" where
  "neutral f \<longleftrightarrow> f_allocation_state f = None \<and> f_allocation_source_type f = None \<and> f_is_rogue f \<noteq> Some True
     \<and> f_interface_id f = None"

lemma no_fields_simps [simp]:
  "f_interface_id no_fields = None" "f_allocation_state no_fields = None" "f_allocation_source_type no_fields = None"
  "f_is_rogue no_fields = None" "f_allocation_source_id no_fields = None" "f_rogue_reason no_fields = None"
  by (simp_all add: no_fields_def)

lemma andThen_fst_cases:
  "P (fst r) \<Longrightarrow> (\<And>x. snd r = Inr x \<Longrightarrow> P (fst (f (fst r) x))) \<Longrightarrow> P (fst (andThen r f))"
  by (cases "snd r") (auto simp: andThen_def)

locale db_preorder =
  fixes R :: "db \<Rightarrow> db \<Rightarrow> bool"
  assumes R_refl: "R db db"
    and R_trans: "R a b \<Longrightarrow> R b c \<Longrightarrow> R a c"
begin

lemma R_andThen: "R db (fst r) \<Longrightarrow> (\<And>x. snd r = Inr x \<Longrightarrow> R (fst r) (fst (f (fst r) x))) \<Longrightarrow> R db (fst (andThen r f))"
  by (rule andThen_fst_cases) (auto intro: R_trans)

lemma R_read: "(\<And>x. c = Inr x \<Longrightarrow> R db (fst (f db x))) \<Longrightarrow> R db (fst (andThen (db, c) f))"
  by (rule R_andThen) (auto intro: R_refl)

lemma R_guarded: "(\<And>x. c = Inr x \<Longrightarrow> R db (fst (f db))) \<Longrightarrow> R db (fst (guarded db c f))"
  unfolding guarded_def by (rule R_read)

lemma R_throws: "(\<And>x. c = Inr x \<Longrightarrow> R db (fst (f db x))) \<Longrightarrow> R db (fst (andThen (throws db c) f))"
  by (rule R_andThen) (auto simp: throws_def intro: R_refl split: sum.splits)

lemma R_id_result: "R db (fst r) \<Longrightarrow> R db (fst (id_result r))"
  unfolding id_result_def by (rule R_andThen) (simp_all add: R_refl)

lemma R_foldOut: "(\<And>db x. R db (fst (f db x))) \<Longrightarrow> R db (fst (foldOut f db xs))"
  by (induction xs arbitrary: db) (auto intro: R_refl R_andThen)

lemma R_catch:
  assumes "R db (fst r)" "\<And>m. R (fst r) (fst (h (fst r) m))" "\<And>x. R (fst r) (fst (c (fst r) x))"
  shows "R db (fst (catchConflict r h c))"
  using assms by (cases r) (auto simp: catchConflict_def split: sum.split lc_error.split intro: R_trans)

end

locale metadata_frame = db_preorder +
  assumes R_upsert: "neutral f \<Longrightarrow> R db (fst (upsert db sn ip f))"
    and R_clearRogue: "R db (clearRogue db sn ip)"
    and R_events: "only_events db db' \<Longrightarrow> R db db'"
    and R_dns: "rest db' = rest db \<Longrightarrow> R db db'"
begin

lemma R_emitEvent: "R db (emitEvent db sn ip t a)"
  by (rule R_events) (simp add: emitEvent_def split: option.split)

lemma R_recordEvent: "R db (fst (recordEvent db sn ip t a))"
  by (rule R_events) (simp add: recordEvent_def Let_def split: sum.split)

lemma R_setPtr: "R db (fst (setPtrForIp db ip h en src))"
  using ptr_write_setPtr [of db ip h en src] by (intro R_dns) (simp add: ptr_write_def)

lemma R_dropPtr: "R db (fst (dropUnallocatedIpv6Ptr db ip))"
  using ptr_write_drop [of db ip] by (intro R_dns) (simp add: ptr_write_def)

lemma R_syncCanonicalHostname: "R db (fst (syncCanonicalHostname db sn ip c))"
  unfolding syncCanonicalHostname_def Let_def
  by (intro R_andThen R_upsert) (auto simp: neutral_def intro: R_refl)

lemma R_syncDnsToIp: "R db (fst (syncDnsToIp db n ip z))"
proof -
  have "R db1 (emitEvent (clearRogue db1 sn ip) sn ip t a)" for db1 sn t a
    by (rule R_trans [OF R_clearRogue R_emitEvent])
  then show ?thesis
    unfolding syncDnsToIp_def Let_def
    by (auto simp: neutral_def split: sum.split option.split intro!: R_andThen R_upsert R_refl)
qed

lemma R_clearDnsFromIp: "R db (fst (clearDnsFromIp db n ip z))"
proof -
  have step: "R db1 (fst (andThen (syncCanonicalHostname db1 sn ip True) (\<lambda>db2 c. (emitEvent db2 sn ip t a, Inr c))))" for db1 sn t a
    by (rule R_andThen [OF R_syncCanonicalHostname]) (simp add: R_emitEvent)
  show ?thesis
    unfolding clearDnsFromIp_def Let_def
    by (auto split: sum.split option.split intro!: R_andThen [OF step] R_read R_refl R_setPtr)
qed

lemma R_syncDhcpReservationToIp: "R db (fst (syncDhcpReservationToIp vs db sn ip h m))"
  unfolding syncDhcpReservationToIp_def Let_def
  by (intro R_andThen R_upsert) (auto simp: neutral_def intro: R_clearRogue)

lemma R_touch_topology: "R db (fst (touch_topology db sn ip))"
  unfolding touch_topology_def
  by (auto simp: neutral_def intro!: R_andThen R_upsert R_read R_refl)

text \<open>All of \<open>clearDhcpReservationFromIp\<close> but the deletion of a row no other source holds.\<close>

lemma R_clearDhcpReservationFromIp:
  assumes "\<And>r. findBySubnetAndIp db sn ip = Inr (Some r) \<Longrightarrow> R db (fst (deleteById db (Some (ip_id r))))"
  shows "R db (fst (clearDhcpReservationFromIp db sn ip mac))"
  unfolding clearDhcpReservationFromIp_def
  by (intro R_read)
     (auto simp: Let_def neutral_def split: option.split intro!: R_andThen R_upsert R_refl assms R_syncCanonicalHostname)

end

section \<open>The claim invariant\<close>

text \<open>An unassigned address has no owner; an allocated one has an owner of its state and is not rogue.\<close>

definition claim :: "alloc_state \<Rightarrow> lifecycle_source option \<Rightarrow> bool \<Rightarrow> bool" where
  "claim state owner rogue \<longleftrightarrow> (if state = UNASSIGNED then owner = None else owner \<in> Some ` owners state \<and> \<not> rogue)"

definition claim_ok :: "ip_row \<Rightarrow> bool" where
  "claim_ok r \<longleftrightarrow> claim (ip_allocation_state r) (ip_allocation_source_type r) (ip_is_rogue r)"

definition service_ok :: "db \<Rightarrow> bool" where
  "service_ok db \<longleftrightarrow> table_ok db \<and> (\<forall>r \<in> set (ip_addresses db). claim_ok r)"

definition safe :: "db \<Rightarrow> db \<Rightarrow> bool" where
  "safe db db' \<longleftrightarrow> (service_ok db \<longrightarrow> service_ok db')"

lemma safe_refl: "safe db db"
  by (simp add: safe_def)

lemma safe_trans: "safe a b \<Longrightarrow> safe b c \<Longrightarrow> safe a c"
  by (simp add: safe_def)

lemma claim_set_id [simp]: "claim_ok (r\<lparr>ip_id := i\<rparr>) = claim_ok r"
  by (simp add: claim_ok_def)

text \<open>An upsert is safe when the row it leaves keeps the invariant.\<close>

lemma safe_upsert:
  assumes "\<And>d r. service_ok db \<Longrightarrow> canonicalIdentity ip (f_interface_id f) = Inr d
       \<Longrightarrow> find_identity db sn (id_ip d) (id_interface d) = Some r \<Longrightarrow> claim_ok r
       \<Longrightarrow> claim (given (f_allocation_state f) (ip_allocation_state r))
             (given (f_allocation_source_type f) (ip_allocation_source_type r)) (given (f_is_rogue f) (ip_is_rogue r))"
    and "claim (given (f_allocation_state f) UNASSIGNED) (given (f_allocation_source_type f) None) (given (f_is_rogue f) False)"
  shows "safe db (fst (upsert db sn ip f))"
  unfolding safe_def
proof
  assume ok: "service_ok db"
  then have t: "table_ok db" by (simp add: service_ok_def)
  show "service_ok (fst (upsert db sn ip f))"
  proof (rule upsert_outcome [OF t, of ip f sn])
    fix e assume "upsert db sn ip f = (db, Inl e)"
    then show ?thesis using ok by simp
  next
    fix d r db'
    assume r: "canonicalIdentity ip (f_interface_id f) = Inr d" "find_identity db sn (id_ip d) (id_interface d) = Some r"
      "r \<in> set (ip_addresses db)" "upsert db sn ip f = (db', Inr (ip_id r))"
      "only_events (update_ips (\<lambda>q. ip_id q = ip_id r) (\<lambda>_. upserted f (clock db) r) db) db'"
    have "claim_ok r" using ok r(3) by (simp add: service_ok_def)
    from assms(1) [OF ok r(1,2) this] have "claim_ok (upserted f (clock db) r)" by (simp add: claim_ok_def)
    then have "\<forall>q \<in> set (ip_addresses db'). claim_ok q"
      using ok only_eventsD(1) [OF r(5)] by (auto simp: service_ok_def)
    then show ?thesis using table_ok_upsert [OF t, of sn ip f] r(4) by (simp add: service_ok_def)
  next
    fix d db'
    assume n: "upsert db sn ip f = (db', Inr (next_ip_id db))"
      "only_events (fst (insert_ip (insert_row sn d f (clock db)) db)) db'"
    have "claim_ok (insert_row sn d f (clock db))" using assms(2) by (simp add: claim_ok_def)
    then have "\<forall>q \<in> set (ip_addresses db'). claim_ok q"
      using ok only_eventsD(1) [OF n(2)] by (auto simp: service_ok_def insert_ip_def)
    then show ?thesis using table_ok_upsert [OF t, of sn ip f] n(1) by (simp add: service_ok_def)
  qed
qed

lemma claim_rogue_off: "claim s t b \<Longrightarrow> claim s t False"
  by (simp add: claim_def split: if_splits)

lemma safe_upsert_neutral: "neutral f \<Longrightarrow> safe db (fst (upsert db sn ip f))"
proof (rule safe_upsert)
  assume n: "neutral f"
  show "claim (given (f_allocation_state f) UNASSIGNED) (given (f_allocation_source_type f) None) (given (f_is_rogue f) False)"
    using n by (simp add: neutral_def claim_def)
  fix r assume "claim_ok r"
  with n show "claim (given (f_allocation_state f) (ip_allocation_state r))
      (given (f_allocation_source_type f) (ip_allocation_source_type r)) (given (f_is_rogue f) (ip_is_rogue r))"
    by (cases "f_is_rogue f") (auto simp: neutral_def claim_ok_def dest: claim_rogue_off)
qed

lemma safe_rows: "ip_addresses db' = ip_addresses db \<Longrightarrow> next_ip_id db' = next_ip_id db \<Longrightarrow> safe db db'"
  using table_ok_rows [of db' db] by (simp add: safe_def service_ok_def)

lemma safe_events: "only_events db db' \<Longrightarrow> safe db db'"
  by (rule safe_rows) (simp_all add: only_eventsD)

lemma safe_keeps: "keeps db db' \<Longrightarrow> (\<And>r. service_ok db \<Longrightarrow> r \<in> set (ip_addresses db') \<Longrightarrow> claim_ok r) \<Longrightarrow> safe db db'"
  by (auto simp: safe_def service_ok_def keeps_def)

lemma safe_update:
  assumes "keeps db (update_ips P g db)" "\<And>r. P r \<Longrightarrow> claim_ok r \<Longrightarrow> claim_ok (g r)"
  shows "safe db (update_ips P g db)"
  using assms by (intro safe_keeps) (auto simp: service_ok_def)

lemma safe_delete: "safe db (delete_ips P db)"
  by (intro safe_keeps keeps_delete keeps_refl) (auto simp: service_ok_def)

lemma safe_emit: "safe db0 db \<Longrightarrow> safe db0 (emit i s ip t a db)"
  by (rule safe_trans [OF _ safe_events [OF only_events_emit]])

lemma safe_rogue_off: "safe db (update_ips P (rogue_off now) db)"
  by (intro safe_update keeps_rogue_off keeps_refl) (auto simp: claim_ok_def rogue_off_def intro: claim_rogue_off)

lemma safe_clearRogue: "safe db (clearRogue db sn ip)"
  by (auto simp: clearRogue_def split: option.split intro!: safe_refl safe_emit safe_rogue_off)

interpretation claims: metadata_frame safe
proof unfold_locales
  show "safe db db'" if "rest db' = rest db" for db db'
    using rest_projections [OF that] by (intro safe_rows)
qed (auto intro: safe_refl safe_trans safe_upsert_neutral safe_clearRogue safe_events)

section \<open>Allocation states\<close>

text \<open>The abstract view: the state of every identity, unassigned where there is no row.\<close>

type_synonym address_key = "nat \<times> string \<times> string"

definition alloc_view :: "db \<Rightarrow> address_key \<Rightarrow> alloc_state" where
  "alloc_view db k = state_of (find (\<lambda>r. identity_of r = k) (ip_addresses db))"

text \<open>One step of the transition table by one of the sources: one address changes, or none.\<close>

inductive alloc_step :: "lifecycle_source set \<Rightarrow> (address_key \<Rightarrow> alloc_state) \<Rightarrow> (address_key \<Rightarrow> alloc_state) \<Rightarrow> bool"
  for S where
  transition: "src \<in> S \<Longrightarrow> canTransitionAllocation (a k) s src \<Longrightarrow> alloc_step S a (a(k := s))"

inductive_cases alloc_stepE: "alloc_step S a a'"

definition refines :: "lifecycle_source set \<Rightarrow> db \<Rightarrow> db \<Rightarrow> bool" where
  "refines S db db' \<longleftrightarrow> (table_ok db \<longrightarrow> table_ok db' \<and> (alloc_step S)\<^sup>*\<^sup>* (alloc_view db) (alloc_view db'))"

lemma refines_refl: "refines S db db"
  by (simp add: refines_def)

lemma refines_trans: "refines S a b \<Longrightarrow> refines S b c \<Longrightarrow> refines S a c"
  by (auto simp: refines_def)

lemma view_row:
  assumes "table_ok db" "r \<in> set (ip_addresses db)"
  shows "alloc_view db (identity_of r) = ip_allocation_state r"
proof -
  have "find (\<lambda>q. identity_of q = identity_of r) (ip_addresses db) = Some r"
    using assms by (intro find_distinct [of identity_of]) (auto simp: table_ok_def)
  then show ?thesis by (simp add: alloc_view_def state_of_def)
qed

lemma view_no_row: "k \<notin> identity_of ` set (ip_addresses db) \<Longrightarrow> alloc_view db k = UNASSIGNED"
proof -
  assume "k \<notin> identity_of ` set (ip_addresses db)"
  then have "find (\<lambda>r. identity_of r = k) (ip_addresses db) = None" by (auto simp: find_None_iff)
  then show ?thesis by (simp add: alloc_view_def state_of_def)
qed

lemma view_rows: "ip_addresses db' = ip_addresses db \<Longrightarrow> alloc_view db' = alloc_view db"
  by (simp add: alloc_view_def fun_eq_iff)

lemma view_find: "state_of (find_identity db sn ip iface) = alloc_view db (sn, ip, coalesce iface)"
  by (simp add: find_identity_def alloc_view_def identity_of_def conj_assoc)

lemma view_update:
  assumes "table_ok db" "\<And>r. same_identity r (g r)" "\<And>r. ip_allocation_state (g r) = ip_allocation_state r"
  shows "alloc_view (update_ips P g db) = alloc_view db"
proof
  fix k
  have "find (\<lambda>r. identity_of r = k) (map (\<lambda>r. if P r then g r else r) rows)
      = map_option (\<lambda>r. if P r then g r else r) (find (\<lambda>r. identity_of r = k) rows)" for rows
    using same_identityD(2) [OF assms(2)] by (induction rows) auto
  then show "alloc_view (update_ips P g db) k = alloc_view db k"
    using assms(3) by (simp add: alloc_view_def state_of_def split: option.split)
qed

lemma view_delete:
  assumes "table_ok db" "r \<in> set (ip_addresses db)"
  shows "alloc_view (delete_ips (\<lambda>q. ip_id q = ip_id r) db) = (alloc_view db)(identity_of r := UNASSIGNED)"
proof
  fix k
  let ?d = "delete_ips (\<lambda>q. ip_id q = ip_id r) db"
  have t: "table_ok ?d" using assms(1) by (rule table_ok_delete)
  have inj: "q = r" if "q \<in> set (ip_addresses db)" "ip_id q = ip_id r \<or> identity_of q = identity_of r" for q
    using assms that by (auto simp: table_ok_def distinct_map dest: inj_onD)
  show "alloc_view ?d k = ((alloc_view db)(identity_of r := UNASSIGNED)) k"
  proof (cases "k \<in> identity_of ` set (ip_addresses ?d)")
    case True
    then obtain q where q: "q \<in> set (ip_addresses ?d)" "k = identity_of q" by blast
    then have "q \<in> set (ip_addresses db)" "identity_of q \<noteq> identity_of r" using inj by auto
    then show ?thesis using view_row [OF t q(1)] view_row [OF assms(1), of q] q(2) by simp
  next
    case False
    have "k \<notin> identity_of ` set (ip_addresses db)" if "k \<noteq> identity_of r"
    proof
      assume "k \<in> identity_of ` set (ip_addresses db)"
      then obtain q where q: "q \<in> set (ip_addresses db)" "k = identity_of q" by blast
      with that have "ip_id q \<noteq> ip_id r" using inj by blast
      with q False show False by simp
    qed
    then show ?thesis using view_no_row [OF False] view_no_row [of k db] by auto
  qed
qed

lemma view_upsert:
  assumes "table_ok db" "upsert db sn ip f = (db', Inr i)" "canonicalIdentity ip (f_interface_id f) = Inr d"
  shows "alloc_view db' = (alloc_view db)((sn, id_ip d, coalesce (id_interface d)) :=
     given (f_allocation_state f) (alloc_view db (sn, id_ip d, coalesce (id_interface d))))"
proof
  fix k
  let ?k = "(sn, id_ip d, coalesce (id_interface d))"
  let ?r = "upsert_result db sn d f"
  note readback = upsert_reads_back [OF assms]
  have t: "table_ok db'" using upsert_table_ok [OF assms(1,2)] .
  have key: "identity_of ?r = ?k" using find_identity_Some(2) [OF readback(1)] .
  have kept: "q \<in> set (ip_addresses e')" if "q \<in> set (ip_addresses e)" "ip_id q \<noteq> i"
    "filter (\<lambda>q. ip_id q \<noteq> i) (ip_addresses e') = filter (\<lambda>q. ip_id q \<noteq> i) (ip_addresses e)" for q e e'
  proof -
    have "q \<in> set (filter (\<lambda>q. ip_id q \<noteq> i) (ip_addresses e))" using that(1,2) by simp
    then have "q \<in> set (filter (\<lambda>q. ip_id q \<noteq> i) (ip_addresses e'))" unfolding that(3) .
    then show ?thesis by simp
  qed
  have inj: "q = ?r" if "q \<in> set (ip_addresses db')" "ip_id q = i" for q
    using t readback(2,4) that by (auto simp: table_ok_def distinct_map dest: inj_onD)
  have iid: "identity_of q = ?k" if "q \<in> set (ip_addresses db)" "ip_id q = i" for q
  proof (cases "find_identity db sn (id_ip d) (id_interface d)")
    case (Some old)
    then have "ip_id old = i" using readback(2) same_identityD(1) [OF upserted_identity] by (simp add: upsert_result_def)
    then have "q = old" using assms(1) that find_identity_Some(1) [OF Some] by (auto simp: table_ok_def distinct_map dest: inj_onD)
    then show ?thesis using find_identity_Some(2) [OF Some] by simp
  next
    case None
    then have "i = next_ip_id db" using readback(2) by (simp add: upsert_result_def)
    then show ?thesis using assms(1) that by (auto simp: table_ok_def)
  qed
  show "alloc_view db' k = ((alloc_view db)(?k := given (f_allocation_state f) (alloc_view db ?k))) k"
  proof (cases "k = ?k")
    case True
    have "alloc_view db' ?k = ip_allocation_state ?r" using view_row [OF t readback(4)] key by simp
    also have "\<dots> = given (f_allocation_state f) (state_of (find_identity db sn (id_ip d) (id_interface d)))"
      by (simp add: upsert_result_def state_of_def split: option.split)
    finally show ?thesis using True by (simp add: view_find)
  next
    case False
    have "alloc_view db' k = alloc_view db k"
    proof (cases "k \<in> identity_of ` set (ip_addresses db)")
      case True
      then obtain q where q: "q \<in> set (ip_addresses db)" "k = identity_of q" by blast
      with iid False have "ip_id q \<noteq> i" by blast
      from kept [OF q(1) this readback(3)] show ?thesis using view_row [OF t] view_row [OF assms(1) q(1)] q(2) by simp
    next
      case no: False
      have "k \<notin> identity_of ` set (ip_addresses db')"
      proof
        assume "k \<in> identity_of ` set (ip_addresses db')"
        then obtain q where q: "q \<in> set (ip_addresses db')" "k = identity_of q" by blast
        with inj key False have "ip_id q \<noteq> i" by blast
        from kept [OF q(1) this readback(3) [symmetric]] q(2) no show False by blast
      qed
      then show ?thesis using no by (simp add: view_no_row)
    qed
    then show ?thesis using False by simp
  qed
qed

text \<open>Writes that change no allocation state.\<close>

definition same_view :: "db \<Rightarrow> db \<Rightarrow> bool" where
  "same_view db db' \<longleftrightarrow> (table_ok db \<longrightarrow> table_ok db' \<and> alloc_view db' = alloc_view db)"

lemma same_view_upsert: "f_allocation_state f = None \<Longrightarrow> same_view db (fst (upsert db sn ip f))"
  unfolding same_view_def
proof
  assume n: "f_allocation_state f = None" and t: "table_ok db"
  have "alloc_view (fst (upsert db sn ip f)) = alloc_view db"
  proof (cases "canonicalIdentity ip (f_interface_id f)")
    case (Inr d)
    then obtain i where "upsert db sn ip f = (fst (upsert db sn ip f), Inr i)"
      by (cases "upsert db sn ip f") (auto simp: upsert_def split: option.splits prod.splits)
    from view_upsert [OF t this Inr] n show ?thesis by simp
  qed (simp add: upsert_def)
  with table_ok_upsert [OF t] show "table_ok (fst (upsert db sn ip f)) \<and> alloc_view (fst (upsert db sn ip f)) = alloc_view db"
    by simp
qed

lemma same_view_rows: "ip_addresses db' = ip_addresses db \<Longrightarrow> next_ip_id db' = next_ip_id db \<Longrightarrow> same_view db db'"
  using table_ok_rows [of db' db] view_rows [of db' db] by (simp add: same_view_def)

lemma same_view_clearRogue: "same_view db (clearRogue db sn ip)"
proof -
  have "table_ok (clearRogue db sn ip)" if "table_ok db"
    using keeps_clearRogue [of db sn ip] that by (simp add: keeps_def)
  moreover have "alloc_view (update_ips P (rogue_off now) db) = alloc_view db" if "table_ok db" for P now
    using that by (rule view_update) (simp_all add: rogue_off_def same_identity_def)
  moreover have "alloc_view (emit i s ip t a d) = alloc_view d" for i s t a d
    by (rule view_rows) simp
  ultimately show ?thesis by (simp add: same_view_def clearRogue_def split: option.split)
qed

interpretation view: metadata_frame same_view
proof unfold_locales
  show "same_view db db'" if "rest db' = rest db" for db db'
    using rest_projections [OF that] by (intro same_view_rows)
  show "same_view db db'" if "only_events db db'" for db db'
    using that by (intro same_view_rows) (simp_all add: only_eventsD)
qed (auto simp: neutral_def intro: same_view_upsert same_view_clearRogue, auto simp: same_view_def)

interpretation refine: db_preorder "refines S" for S
  by unfold_locales (auto intro: refines_refl refines_trans)

lemma refines_mono: "S \<subseteq> T \<Longrightarrow> refines S db db' \<Longrightarrow> refines T db db'"
proof -
  assume "S \<subseteq> T"
  then have "alloc_step S a b \<Longrightarrow> alloc_step T a b" for a b
    by (auto elim!: alloc_stepE intro: alloc_step.intros)
  then have "(alloc_step S)\<^sup>*\<^sup>* a b \<Longrightarrow> (alloc_step T)\<^sup>*\<^sup>* a b" for a b
    using rtranclp_mono [of "alloc_step S" "alloc_step T"] by blast
  then show "refines S db db' \<Longrightarrow> refines T db db'" by (auto simp: refines_def)
qed

lemma refines_same: "same_view db db' \<Longrightarrow> refines S db db'"
  by (simp add: refines_def same_view_def)

lemma refines_after: "same_view db db1 \<Longrightarrow> refines S db1 db2 \<Longrightarrow> refines S db db2"
  by (rule refines_trans [OF refines_same])

text \<open>Writes that may free one address.\<close>

definition frees :: "address_key \<Rightarrow> db \<Rightarrow> db \<Rightarrow> bool" where
  "frees k db db' \<longleftrightarrow> (table_ok db \<longrightarrow> table_ok db' \<and> alloc_view db' \<in> {alloc_view db, (alloc_view db)(k := UNASSIGNED)})"

lemma frees_same: "same_view db db' \<Longrightarrow> frees k db db'"
  by (simp add: same_view_def frees_def)

interpretation freed: metadata_frame "frees k" for k
  by unfold_locales
     (auto intro: frees_same view.R_upsert view.R_clearRogue view.R_events view.R_dns, auto simp: frees_def)

lemma frees_clearReservation:
  assumes "canonicalIdentity ip None = Inr d"
  shows "frees (sn, id_ip d, coalesce (id_interface d)) db (fst (clearDhcpReservationFromIp db sn ip mac))"
proof (rule freed.R_clearDhcpReservationFromIp)
  fix r assume "findBySubnetAndIp db sn ip = Inr (Some r)"
  then have r: "r \<in> set (ip_addresses db)" "identity_of r = (sn, id_ip d, coalesce (id_interface d))"
    using assms find_identity_Some by (auto simp: findBySubnetAndIp_def)
  have "delete_ips (\<lambda>q. ip_id q \<in> set [ip_id r]) db = delete_ips (\<lambda>q. ip_id q = ip_id r) db"
    by (simp add: delete_ips_def)
  then show "frees (sn, id_ip d, coalesce (id_interface d)) db (fst (deleteById db (Some (ip_id r))))"
    using view_delete [OF _ r(1)] table_ok_delete [of db] r(2) by (simp add: frees_def deleteById_def deleteByIds_def)
qed

section \<open>Checked writes\<close>

text \<open>What a passed assertion says.\<close>

definition permitted :: "db \<Rightarrow> nat \<Rightarrow> string \<Rightarrow> alloc_state \<Rightarrow> lifecycle_source \<Rightarrow> bool" where
  "permitted db sn ip target src \<longleftrightarrow> (\<forall>d. canonicalIdentity ip None = Inr d \<longrightarrow>
     (let cur = alloc_view db (sn, id_ip d, coalesce (id_interface d))
      in cur = UNASSIGNED \<and> target = UNASSIGNED \<or> canTransitionAllocation cur target src))"

lemma findBySubnetAndIp_view:
  assumes "findBySubnetAndIp db sn ip = Inr x" "canonicalIdentity ip None = Inr d"
  shows "state_of x = alloc_view db (sn, id_ip d, coalesce (id_interface d))"
  using assms by (simp add: findBySubnetAndIp_def view_find [symmetric])

lemma ebind_Inr: "ebind r f = Inr y \<longleftrightarrow> (\<exists>x. r = Inr x \<and> f x = Inr y)"
  by (cases r) simp_all

lemma assert_permits:
  assumes "assertAllocationTransition db sn ip target src = Inr x"
  shows "findBySubnetAndIp db sn ip = Inr x" "permitted db sn ip target src"
proof -
  have "findBySubnetAndIp db sn ip = Inr x
     \<and> (state_of x = UNASSIGNED \<and> target = UNASSIGNED \<or> canTransitionAllocation (state_of x) target src)"
    using assms by (auto simp: assertAllocationTransition_def Let_def ebind_Inr split: if_splits)
  then show "findBySubnetAndIp db sn ip = Inr x" "permitted db sn ip target src"
    using findBySubnetAndIp_view [of db sn ip x] by (auto simp: permitted_def Let_def)
qed

lemma permitted_same_view:
  "permitted db sn ip target src \<Longrightarrow> same_view db db1 \<Longrightarrow> table_ok db \<Longrightarrow> permitted db1 sn ip target src"
  by (simp add: permitted_def same_view_def)

lemma allocation_fields_simps [simp]:
  "f_allocation_state (allocation_fields s t i f) = Some s" "f_allocation_source_type (allocation_fields s t i f) = Some t"
  "f_interface_id (allocation_fields s t i f) = f_interface_id f"
  "s \<noteq> UNASSIGNED \<Longrightarrow> f_is_rogue f = None \<Longrightarrow> f_is_rogue (allocation_fields s t i f) = Some False"
  by (simp_all add: allocation_fields_def Let_def over_def)

lemma refines_set_path:
  assumes "\<And>d k. canonicalIdentity ip None = Inr d \<Longrightarrow> k = (sn, id_ip d, coalesce (id_interface d))
       \<Longrightarrow> (alloc_step S)\<^sup>*\<^sup>* (alloc_view db) ((alloc_view db)(k := s))"
    and "f_interface_id f = None"
  shows "refines S db (fst (setCanonicalAllocation db sn ip s t i f))"
  unfolding setCanonicalAllocation_def
proof (rule refine.R_andThen)
  let ?f = "allocation_fields s t i f"
  show "refines S db (fst (upsert db sn ip ?f))"
    unfolding refines_def
  proof
    assume ok: "table_ok db"
    have "(alloc_step S)\<^sup>*\<^sup>* (alloc_view db) (alloc_view (fst (upsert db sn ip ?f)))"
    proof (cases "canonicalIdentity ip None")
      case (Inr d)
      obtain j where "upsert db sn ip ?f = (fst (upsert db sn ip ?f), Inr j)"
        using Inr assms(2) by (cases "upsert db sn ip ?f") (auto simp: upsert_def split: option.splits prod.splits)
      from view_upsert [OF ok this] Inr assms(1) [OF Inr refl] assms(2) show ?thesis by simp
    qed (simp add: upsert_def assms(2))
    then show "table_ok (fst (upsert db sn ip ?f)) \<and> (alloc_step S)\<^sup>*\<^sup>* (alloc_view db) (alloc_view (fst (upsert db sn ip ?f)))"
      using table_ok_upsert [OF ok] by simp
  qed
next
  fix j
  show "refines S db' (fst (if s = UNASSIGNED then fst (dropUnallocatedIpv6Ptr db' ip) else db', Inr j :: lc_error + nat))" for db'
    using view.R_dropPtr [of db' ip] by (simp add: refines_same refines_refl)
qed

lemma alloc_step_to:
  "src \<in> S \<Longrightarrow> a k = s \<or> canTransitionAllocation (a k) s src \<Longrightarrow> (alloc_step S)\<^sup>*\<^sup>* a (a(k := s))"
  using alloc_step.transition [of src S a k s] by (auto simp: fun_upd_idem)

lemma refines_set:
  assumes "permitted db sn ip s src" "src \<in> S" "f_interface_id f = None"
  shows "refines S db (fst (setCanonicalAllocation db sn ip s t i f))"
  using assms by (intro refines_set_path alloc_step_to) (auto simp: permitted_def Let_def)

text \<open>An assertion, metadata writes, then the write of the state.\<close>

lemma refines_checked:
  assumes "assertAllocationTransition db sn ip s src = Inr x" "src \<in> S" "f_interface_id f = None" "same_view db db1"
  shows "refines S db (fst (setCanonicalAllocation db1 sn ip s t i f))"
  unfolding refines_def
proof
  assume ok: "table_ok db"
  from refines_set [OF permitted_same_view [OF assert_permits(2) [OF assms(1)] assms(4) ok] assms(2,3), of t i]
  have "refines S db (fst (setCanonicalAllocation db1 sn ip s t i f))" by (rule refines_after [OF assms(4)])
  then show "table_ok (fst (setCanonicalAllocation db1 sn ip s t i f))
     \<and> (alloc_step S)\<^sup>*\<^sup>* (alloc_view db) (alloc_view (fst (setCanonicalAllocation db1 sn ip s t i f)))"
    using ok by (simp add: refines_def)
qed

text \<open>A write of a state its source owns keeps the claim invariant.\<close>

lemma safe_set:
  assumes "if s = UNASSIGNED then t = None else t \<in> Some ` owners s \<and> f_is_rogue f = None"
  shows "safe db (fst (setCanonicalAllocation db sn ip s t i f))"
  unfolding setCanonicalAllocation_def
proof (rule claims.R_andThen)
  show "safe db (fst (upsert db sn ip (allocation_fields s t i f)))"
    using assms by (intro safe_upsert) (auto simp: claim_def split: if_splits)
next
  show "safe db' (fst (if s = UNASSIGNED then fst (dropUnallocatedIpv6Ptr db' ip) else db', Inr j :: lc_error + nat))" for db' j
    using claims.R_dropPtr [of db' ip] by (simp add: safe_refl)
qed

end
