(* ===== verification/LifecycleProperties.thy ===== *)
theory LifecycleProperties
  imports LifecycleFrames
begin

text \<open>
  Properties of the lifecycle service: a refused change leaves the database as it was, every change of
  an allocation state is a step of the transition table by a source the caller stands for, and the
  claim invariant holds whatever the service does.
\<close>

section \<open>Calls\<close>

text \<open>The operations that concern one address, as values.\<close>

datatype lifecycle_call =
    AllocateStaticDns string string string "nat option"
  | DeallocateStaticDns string string string
  | ReconcileDnsHold string
  | AllocateStaticDhcp nat string reservation_fields "nat option"
  | DeallocateStaticDhcp nat string "string option"
  | SetManualReservation nat string bool "string option"
  | ProtectTopologyAddress nat string "alloc_state option" "string option"
  | ReleaseTopologyAddress nat string
  | ObserveSlaac nat string "string option" "instant option" "instant option" bool
  | ObserveDhcpv6Lease nat string "string option" "string option" "instant option" "instant option" bool bool
  | ObserveNeighbor nat string "string option" "string option" bool string
  | ObserveIpv6Presence nat string "string option" "string option" "(string option \<times> string option) option" string instant
  | ObserveRouterAdvertisement nat string "string option" bool

fun run_call :: "vendor_row list \<Rightarrow> db \<Rightarrow> lifecycle_call \<Rightarrow> lc_result outcome" where
  "run_call vs db (AllocateStaticDns n ip z i) = allocateStaticDns db n ip z i"
| "run_call vs db (DeallocateStaticDns n ip z) = deallocateStaticDns db n ip z"
| "run_call vs db (ReconcileDnsHold ip) = reconcileDnsHold db ip"
| "run_call vs db (AllocateStaticDhcp sn ip f i) = id_result (allocateStaticDhcp vs db sn ip f i)"
| "run_call vs db (DeallocateStaticDhcp sn ip m) = deallocateStaticDhcp db sn ip m"
| "run_call vs db (SetManualReservation sn ip b note) = setManualReservation db sn ip b note"
| "run_call vs db (ProtectTopologyAddress sn ip s note) = id_result (protectTopologyAddress db sn ip s note)"
| "run_call vs db (ReleaseTopologyAddress sn ip) = id_result (releaseTopologyAddress db sn ip)"
| "run_call vs db (ObserveSlaac sn ip iface p v t) = id_result (observeSlaac db sn ip iface p v t)"
| "run_call vs db (ObserveDhcpv6Lease sn ip d i p v b a) = id_result (observeDhcpv6Lease db sn ip d i p v b a)"
| "run_call vs db (ObserveNeighbor sn ip iface m b s) = id_result (observeNeighbor db sn ip iface m b s)"
| "run_call vs db (ObserveIpv6Presence sn ip iface m p s now) = id_result (observeIpv6Presence db sn ip iface m p s now)"
| "run_call vs db (ObserveRouterAdvertisement sn ip iface t) = id_result (observeRouterAdvertisement db sn ip iface t)"

text \<open>The sources a call acts for. Releasing a reservation may hand the address to its lease or to the DNS
  record that waits for it.\<close>

fun call_sources :: "lifecycle_call \<Rightarrow> lifecycle_source set" where
  "call_sources (AllocateStaticDns _ _ _ _) = {DNS, TOPOLOGY}"
| "call_sources (DeallocateStaticDns _ _ _) = {DNS}"
| "call_sources (ReconcileDnsHold _) = {DNS}"
| "call_sources (AllocateStaticDhcp _ _ _ _) = {DHCP_RESERVATION}"
| "call_sources (DeallocateStaticDhcp _ _ _) = {DHCP_RESERVATION, DHCP_LEASE, DNS}"
| "call_sources (SetManualReservation _ _ _ _) = {ADMIN_RESERVATION, DNS}"
| "call_sources (ProtectTopologyAddress _ _ _ _) = {TOPOLOGY}"
| "call_sources (ReleaseTopologyAddress _ _) = {TOPOLOGY}"
| "call_sources (ObserveSlaac _ _ _ _ _ _) = {BY_SLAAC}"
| "call_sources (ObserveDhcpv6Lease _ _ _ _ _ _ _ _) = {DHCP_LEASE}"
| "call_sources (ObserveNeighbor _ _ _ _ _ _) = {}"
| "call_sources (ObserveIpv6Presence _ _ _ _ _ _ _) = {BY_SLAAC}"
| "call_sources (ObserveRouterAdvertisement _ _ _ _) = {TOPOLOGY}"

section \<open>Steps of the transition table\<close>

lemma refines_assert:
  assumes "is_ok (assertAllocationTransition db sn ip s src)" "src \<in> S" "f_interface_id f = None" "same_view db db1"
  shows "refines S db (fst (setCanonicalAllocation db1 sn ip s t i f))"
  using assms refines_checked [OF _ assms(2-4)] by (cases "assertAllocationTransition db sn ip s src") auto

lemma refines_protect: "refines {TOPOLOGY} db (fst (protectTopologyAddress db sn ip s note))"
  unfolding protectTopologyAddress_def Let_def
  by (auto intro!: refine.R_refl refine.R_guarded refines_assert view.R_refl)

lemma refines_release: "refines {TOPOLOGY} db (fst (releaseTopologyAddress db sn ip))"
  unfolding releaseTopologyAddress_def
  by (auto intro!: refine.R_guarded refines_assert view.R_refl)

text \<open>An assertion passed, metadata writes, and the write of the state.\<close>

lemma refines_then_set:
  assumes "is_ok (assertAllocationTransition db sn ip s src)" "src \<in> S" "f_interface_id f = None" "same_view db (fst m)"
  shows "refines S db (fst (andThen m (\<lambda>db _. setCanonicalAllocation db sn ip s t i f)))"
    and "refines S db (fst (andThen m (\<lambda>db _. id_result (setCanonicalAllocation db sn ip s t i f))))"
proof -
  have set: "refines S db (fst (setCanonicalAllocation (fst m) sn ip s t i f))"
    by (rule refines_assert [OF assms])
  have "refines S db (fst (id_result (setCanonicalAllocation (fst m) sn ip s t i f)))"
    unfolding id_result_def by (rule andThen_fst_cases) (simp_all add: set)
  with set refines_same [OF assms(4), of S]
  show "refines S db (fst (andThen m (\<lambda>db _. setCanonicalAllocation db sn ip s t i f)))"
    "refines S db (fst (andThen m (\<lambda>db _. id_result (setCanonicalAllocation db sn ip s t i f))))"
    by (auto intro: andThen_fst_cases)
qed

lemma refines_allocateStaticDns: "refines {DNS, TOPOLOGY} db (fst (allocateStaticDns db n ip z i))"
proof -
  have gate: "refines {DNS, TOPOLOGY} db (fst (andThen (protectTopologyAddress db sn ip s nt) (\<lambda>db _.
        andThen (syncDnsToIp db n ip z) (\<lambda>db _. touch_topology db sn ip))))" for db sn s nt
    by (intro refine.R_andThen refines_mono [OF _ refines_protect] refines_same view.R_syncDnsToIp view.R_touch_topology) auto
  show ?thesis
    unfolding allocateStaticDns_def Let_def
    by (intro refine.R_read)
       (auto split: option.split intro!: refine.R_read refine.R_throws refine.R_refl gate refine.R_guarded
          refines_then_set [where src = DNS] view.R_syncDnsToIp)
qed

lemma refines_deallocateStaticDns: "refines {DNS} db (fst (deallocateStaticDns db n ip z))"
proof -
  have touch: "refines {DNS} db (fst (andThen (clearDnsFromIp db n ip z) (\<lambda>db _. touch_topology db sn ip)))" for db sn
    by (intro refine.R_andThen refines_same view.R_clearDnsFromIp view.R_touch_topology)
  show ?thesis
    unfolding deallocateStaticDns_def Let_def
    by (intro refine.R_read)
       (auto split: option.split intro!: refine.R_read refine.R_refl touch refine.R_guarded refines_then_set [where src = DNS] view.R_clearDnsFromIp)
qed

lemma refines_reconcileDnsHold: "refines {DNS} db (fst (reconcileDnsHold db ip))"
  unfolding reconcileDnsHold_def Let_def
  by (intro refine.R_read)
     (auto split: option.split intro!: refine.R_read refine.R_refl refine.R_guarded refine.R_id_result refines_assert [where src = DNS] view.R_refl)

lemma refines_allocateStaticDhcp: "refines {DHCP_RESERVATION} db (fst (allocateStaticDhcp vs db sn ip f i))"
  unfolding allocateStaticDhcp_def
  by (auto intro!: refine.R_guarded refines_then_set [where src = DHCP_RESERVATION] view.R_syncDhcpReservationToIp)

lemma refines_setManualReservation: "refines {ADMIN_RESERVATION, DNS} db (fst (setManualReservation db sn ip b nt))"
proof -
  have hold: "refines {ADMIN_RESERVATION, DNS} db (fst (andThen (reconcileDnsHold db ip) (\<lambda>db r. (db, Inr (g r)))))" for db g
    by (rule refine.R_andThen [OF refines_mono [OF _ refines_reconcileDnsHold]]) (auto intro: refines_refl)
  show ?thesis
    unfolding setManualReservation_def Let_def
    by (intro refine.R_read)
       (auto intro!: refine.R_refl refine.R_guarded hold refine.R_andThen [OF refines_assert [where src = ADMIN_RESERVATION]] view.R_refl)
qed

lemma refines_observeSlaac: "refines {BY_SLAAC} db (fst (observeSlaac db sn ip iface p v t))"
  unfolding observeSlaac_def
  by (auto intro!: refine.R_read refine.R_guarded refine.R_refl refines_assert view.R_refl)

lemma refines_observeDhcpv6Lease: "refines {DHCP_LEASE} db (fst (observeDhcpv6Lease db sn ip d i p v b a))"
  unfolding observeDhcpv6Lease_def Let_def
  by (auto intro!: refine.R_guarded refine.R_refl refines_assert view.R_refl)

lemma refines_observeRouterAdvertisement: "refines {TOPOLOGY} db (fst (observeRouterAdvertisement db sn ip iface t))"
  unfolding observeRouterAdvertisement_def
  by (auto intro!: refine.R_read refine.R_guarded refine.R_refl refines_assert view.R_refl)

lemma refines_observeNeighbor: "refines S db (fst (observeNeighbor db sn ip iface m b src))"
  unfolding observeNeighbor_def Let_def
  by (auto intro!: refine.R_read refines_same [OF same_view_upsert])

lemma refines_observeIpv6Presence: "refines {BY_SLAAC} db (fst (observeIpv6Presence db sn ip iface m p src now))"
  unfolding observeIpv6Presence_def Let_def
  by (auto intro!: refines_observeNeighbor refine.R_andThen refine.R_read refine.R_refl refines_observeSlaac)

text \<open>Releasing a reservation: the row may go, may be handed to the lease, or may be taken back by a
  disabled record.\<close>

lemma reservation_owns: "DHCP_RESERVATION \<in> owners s \<Longrightarrow> s = STATIC_DHCP"
  by (cases s) simp_all

lemma free_states:
  "permitted db sn ip UNASSIGNED DHCP_RESERVATION \<Longrightarrow> canonicalIdentity ip None = Inr d
     \<Longrightarrow> alloc_view db (sn, id_ip d, coalesce (id_interface d)) \<in> {UNASSIGNED, STATIC_DHCP}"
  using reservation_owns [of "alloc_view db (sn, id_ip d, coalesce (id_interface d))"]
  by (auto simp: permitted_def Let_def transition_table)

lemma step_release: "a k \<in> {UNASSIGNED, STATIC_DHCP} \<Longrightarrow> DHCP_RESERVATION \<in> S \<Longrightarrow> (alloc_step S)\<^sup>*\<^sup>* a (a(k := UNASSIGNED))"
  by (rule alloc_step_to) (auto simp: transition_table)

lemma step_to_lease:
  assumes "a k \<in> {UNASSIGNED, STATIC_DHCP}" "{DHCP_RESERVATION, DHCP_LEASE} \<subseteq> S"
  shows "(alloc_step S)\<^sup>*\<^sup>* a (a(k := DYNAMIC_DHCP))"
proof -
  have "(alloc_step S)\<^sup>*\<^sup>* a (a(k := UNASSIGNED))" using assms by (intro step_release) auto
  also have "(alloc_step S)\<^sup>*\<^sup>* (a(k := UNASSIGNED)) ((a(k := UNASSIGNED))(k := DYNAMIC_DHCP))"
    using assms(2) by (intro alloc_step_to [where src = DHCP_LEASE]) (auto simp: transition_table)
  finally show ?thesis by simp
qed

lemma refines_deallocateStaticDhcp: "refines {DHCP_RESERVATION, DHCP_LEASE, DNS} db (fst (deallocateStaticDhcp db sn ip mac))"
proof (cases "assertAllocationTransition db sn ip UNASSIGNED DHCP_RESERVATION")
  case (Inl e)
  then show ?thesis by (simp add: deallocateStaticDhcp_def guarded_def refines_refl)
next
  case (Inr x)
  let ?S = "{DHCP_RESERVATION, DHCP_LEASE, DNS}"
  note p = assert_permits [OF Inr]
  obtain d where d: "canonicalIdentity ip None = Inr d"
    using p(1) by (cases "canonicalIdentity ip None") (auto simp: findBySubnetAndIp_def)
  let ?k = "(sn, id_ip d, coalesce (id_interface d))"
  let ?db1 = "fst (clearDhcpReservationFromIp db sn ip mac)"
  note free = frees_clearReservation [OF d, of sn db mac]
  note st = free_states [OF p(2) d]
  have st1: "alloc_view ?db1 ?k \<in> {UNASSIGNED, STATIC_DHCP}" if "table_ok db"
    using free st that by (auto simp: frees_def)
  have first: "refines ?S db ?db1"
    using free step_release [of "alloc_view db" ?k ?S] st by (auto simp: refines_def frees_def)
  have hold: "refines ?S e (fst (reconcileDnsHold e ip))" for e
    by (rule refines_mono [OF _ refines_reconcileDnsHold]) simp
  have set: "refines ?S ?db1 (fst (setCanonicalAllocation ?db1 sn ip s t i f))"
    if "table_ok db" "s \<in> {DYNAMIC_DHCP, UNASSIGNED}" "f_interface_id f = None" for s t i f
    using that st1 d by (intro refines_set_path) (auto intro!: step_to_lease step_release)
  have "refines ?S db (fst (deallocateStaticDhcp db sn ip mac))" if ok: "table_ok db"
    unfolding deallocateStaticDhcp_def guarded_def Inr andThen_simps Let_def
    by (rule refine.R_andThen [OF first], rule refine.R_read)
       (auto split: option.split intro!: refine.R_andThen [OF refines_same [OF view.R_recordEvent]] hold refine.R_andThen [OF set [OF ok]]
          refine.R_andThen [OF hold] refines_refl)
  then show ?thesis by (auto simp: refines_def)
qed

lemma run_call_refines: "refines (call_sources c) db (fst (run_call vs db c))"
  by (cases c)
     (auto intro!: refine.R_id_result refines_allocateStaticDns refines_deallocateStaticDns refines_reconcileDnsHold
        refines_allocateStaticDhcp refines_deallocateStaticDhcp refines_setManualReservation refines_protect refines_release
        refines_observeSlaac refines_observeDhcpv6Lease refines_observeNeighbor refines_observeIpv6Presence
        refines_observeRouterAdvertisement)

section \<open>Refusals\<close>

definition conflict_error :: "lc_error \<Rightarrow> bool" where
  "conflict_error e = (case e of IpLifecycleConflictError _ _ _ \<Rightarrow> True | _ \<Rightarrow> False)"

text \<open>A computation that throws no conflict, and one that throws it before any write.\<close>

definition calm :: "lc_error + 'a \<Rightarrow> bool" where
  "calm r \<longleftrightarrow> (\<forall>e. r = Inl e \<longrightarrow> \<not> conflict_error e)"

definition clean :: "db \<Rightarrow> 'a outcome \<Rightarrow> bool" where
  "clean db r \<longleftrightarrow> calm (snd r) \<or> fst r = db"

lemma calm_simps [simp]: "calm (Inr x)" "calm (Inl e) \<longleftrightarrow> \<not> conflict_error e"
  "\<not> conflict_error (Error m)" "\<not> conflict_error (AddressError ce)" "\<not> conflict_error (SqliteError m)"
  "conflict_error (IpLifecycleConflictError m a b)"
  by (auto simp: calm_def conflict_error_def)

lemma calm_ebind: "calm r \<Longrightarrow> (\<And>x. r = Inr x \<Longrightarrow> calm (f x)) \<Longrightarrow> calm (ebind r f)"
  by (cases r) auto

lemma calm_identity [simp]: "calm (canonicalIdentity ip iface)"
  by (auto simp: canonicalIdentity_def Let_def split: option.split)

lemma calm_address_error [simp]: "calm (address_error r)"
  by (auto simp: address_error_def split: sum.split)

lemma calm_reads [simp]:
  "calm (findBySubnetAndIp db sn ip)" "calm (findSubnetForIp db ip)"
  "calm (protectedAddress db sn ip)" "calm (dnsHoldingRecord db sn ip)" "calm (lifecycleIdentityIp ip iface)"
proof -
  show f: "calm (findBySubnetAndIp db sn ip)" unfolding findBySubnetAndIp_def by (auto intro!: calm_ebind)
  show "calm (findSubnetForIp db ip)" by (auto simp: findSubnetForIp_def split: option.split sum.split)
  show p: "calm (protectedAddress db sn ip)"
    unfolding protectedAddress_def Let_def by (auto split: option.split intro!: calm_ebind)
  show "calm (dnsHoldingRecord db sn ip)"
    unfolding dnsHoldingRecord_def using p by (auto intro!: calm_ebind)
  show "calm (lifecycleIdentityIp ip iface)" by (auto simp: lifecycleIdentityIp_def split: option.split)
qed

lemma calm_Inl: "r = Inl e \<Longrightarrow> calm r \<Longrightarrow> \<not> conflict_error e"
  by simp

lemmas read_errors = calm_Inl [OF _ calm_identity] calm_Inl [OF _ calm_reads(1)] calm_Inl [OF _ calm_reads(2)]
  calm_Inl [OF _ calm_reads(4)]

lemma calm_throws [simp]: "calm (snd (throws db r))"
  by (auto simp: throws_def split: sum.split)

lemma calm_andThen: "calm (snd r) \<Longrightarrow> (\<And>db x. calm (snd (f db x))) \<Longrightarrow> calm (snd (andThen r f))"
  by (cases "snd r") (auto simp: andThen_def)

lemma calm_upsert [simp]: "calm (snd (upsert db sn ip f))"
  by (auto simp: upsert_def dest: read_errors split: sum.split option.split prod.split)

lemma calm_set [simp]: "calm (snd (setCanonicalAllocation db sn ip s t i f))"
  unfolding setCanonicalAllocation_def by (rule calm_andThen) auto

lemma calm_id_result: "calm (snd r) \<Longrightarrow> calm (snd (id_result r))"
  unfolding id_result_def by (rule calm_andThen) auto

lemma calm_sync [simp]:
  "calm (snd (syncDnsToIp db n ip z))" "calm (snd (syncCanonicalHostname db sn ip c))" "calm (snd (clearDnsFromIp db n ip z))"
  "calm (snd (syncDhcpReservationToIp vs db sn ip h m))" "calm (snd (touch_topology db sn ip))"
  "calm (snd (clearDhcpReservationFromIp db sn ip mac))" "calm (snd (recordEvent db sn ip t a))"
proof -
  show "calm (snd (syncDnsToIp db n ip z))"
    unfolding syncDnsToIp_def Let_def by (auto dest: read_errors split: sum.split option.split intro!: calm_andThen)
  show s: "calm (snd (syncCanonicalHostname db sn ip c))" for db sn ip c
    unfolding syncCanonicalHostname_def Let_def by (rule calm_andThen) auto
  show "calm (snd (clearDnsFromIp db n ip z))"
    unfolding clearDnsFromIp_def Let_def
    by (auto dest: read_errors split: sum.split option.split intro!: calm_andThen s)
  show "calm (snd (syncDhcpReservationToIp vs db sn ip h m))"
    unfolding syncDhcpReservationToIp_def Let_def by (rule calm_andThen) auto
  show "calm (snd (touch_topology db sn ip))" unfolding touch_topology_def by (auto intro!: calm_andThen)
  show "calm (snd (clearDhcpReservationFromIp db sn ip mac))"
    unfolding clearDhcpReservationFromIp_def Let_def by (auto split: option.split intro!: calm_andThen s)
  show "calm (snd (recordEvent db sn ip t a))"
    by (auto simp: recordEvent_def Let_def dest: read_errors split: sum.split)
qed

lemma clean_calm: "calm (snd r) \<Longrightarrow> clean db r"
  by (simp add: clean_def)

lemma clean_pure: "clean db (db, r)"
  by (simp add: clean_def)

lemma clean_guarded: "(\<And>x. c = Inr x \<Longrightarrow> clean db (f db)) \<Longrightarrow> clean db (guarded db c f)"
  by (cases c) (auto simp: guarded_def clean_def)

lemma clean_guarded_calm: "calm (snd (f db)) \<Longrightarrow> clean db (guarded db c f)"
  by (rule clean_guarded) (rule clean_calm)

lemma clean_read: "(\<And>x. c = Inr x \<Longrightarrow> clean db (f db x)) \<Longrightarrow> clean db (andThen (db, c) f)"
  by (cases c) (auto simp: clean_def)

lemma clean_throws: "(\<And>x. c = Inr x \<Longrightarrow> clean db (f db x)) \<Longrightarrow> clean db (andThen (throws db c) f)"
  by (cases c) (auto simp: clean_def)

lemma clean_then: "clean db r \<Longrightarrow> (\<And>db x. calm (snd (f db x))) \<Longrightarrow> clean db (andThen r f)"
  by (cases r; cases "snd r") (auto simp: clean_def)

lemma clean_id_result: "clean db r \<Longrightarrow> clean db (id_result r)"
  unfolding id_result_def by (rule clean_then) auto

text \<open>A hold that is due may always be taken, and one that is not due released.\<close>

lemma assert_hold:
  assumes "findBySubnetAndIp db sn ip = Inr x" "state_of x \<in> {UNASSIGNED, RESERVED}" "dnsHoldingRecord db sn ip = Inr (Some h)"
  shows "assertAllocationTransition db sn ip RESERVED DNS = Inr x"
proof -
  have "protectedAddress db sn ip = Inr None"
    using assms(3) by (auto simp: dnsHoldingRecord_def ebind_Inr split: if_splits)
  then show ?thesis
    using assms(1,2) by (auto simp: assertAllocationTransition_def protectedAddressReason_def transition_table)
qed

lemma assert_release_hold:
  assumes "findBySubnetAndIp db sn ip = Inr x" "state_of x = RESERVED"
  shows "assertAllocationTransition db sn ip UNASSIGNED DNS = Inr x"
  using assms by (auto simp: assertAllocationTransition_def transition_table)

lemma hold_state: "isDnsHold x \<Longrightarrow> state_of x = RESERVED"
  by (auto simp: isDnsHold_def state_of_def split: option.splits)

lemma calm_reconcileDnsHold [simp]: "calm (snd (reconcileDnsHold db ip))"
proof (cases "findSubnetForIp db ip")
  case (Inl e)
  then show ?thesis by (auto simp: reconcileDnsHold_def dest: read_errors)
next
  case subnet: (Inr sub)
  show ?thesis
  proof (cases sub)
    case (Some s)
    show ?thesis
    proof (cases "findBySubnetAndIp db (sub_id s) ip")
      case (Inl e)
      then show ?thesis by (auto simp: reconcileDnsHold_def subnet Some dest: read_errors)
    next
      case (Inr x)
      show ?thesis
      proof (cases "dnsHoldingRecord db (sub_id s) ip")
        case (Inl e)
        then show ?thesis by (auto simp: reconcileDnsHold_def subnet Some Inr Let_def dest: read_errors)
      next
        case holder: (Inr h)
        show ?thesis
          using assert_hold [OF Inr] assert_release_hold [OF Inr] hold_state [of x] holder
          by (cases h; cases "state_of x = UNASSIGNED")
             (auto simp: reconcileDnsHold_def subnet Some Inr guarded_def Let_def intro!: calm_id_result)
      qed
    qed
  qed (simp add: reconcileDnsHold_def subnet)
qed

lemma clean_protect: "clean db (protectTopologyAddress db sn ip s nt)"
  unfolding protectTopologyAddress_def Let_def by (auto intro!: clean_pure clean_guarded_calm)

lemma clean_slaac: "clean db (observeSlaac db sn ip iface p v t)"
  unfolding observeSlaac_def by (auto intro!: clean_pure clean_read clean_guarded_calm)

lemma calm_observeNeighbor: "calm (snd (observeNeighbor db sn ip iface m b src))"
  unfolding observeNeighbor_def Let_def by (auto intro!: calm_andThen)

lemma clean_presence: "clean db (observeIpv6Presence db sn ip iface m p src now)"
proof -
  have first: "clean db (if b then andThen (db, findBySubnetAndIp db sn ip) (\<lambda>db x. if state_of x = UNASSIGNED
      then andThen (observeSlaac db sn ip None None v False) (\<lambda>db _. (db, Inr ())) else (db, Inr ())) else (db, Inr ()))" for b v
    by (cases b) (auto intro!: clean_read clean_then [OF clean_slaac] clean_pure)
  show ?thesis
    unfolding observeIpv6Presence_def Let_def
    by (cases "LINK_LOCAL_RE ip")
       (simp_all only: if_True if_False clean_calm [OF calm_observeNeighbor] clean_then [OF first calm_observeNeighbor])
qed

lemma clean_allocateStaticDns: "clean db (allocateStaticDns db n ip z i)"
  unfolding allocateStaticDns_def Let_def
  by (intro clean_read)
     (auto split: option.split intro!: clean_read clean_throws clean_pure clean_then [OF clean_protect] calm_andThen
        clean_guarded_calm calm_id_result)

lemma clean_deallocateStaticDns: "clean db (deallocateStaticDns db n ip z)"
  unfolding deallocateStaticDns_def Let_def
  by (intro clean_read)
     (auto split: option.split intro!: clean_read clean_pure clean_guarded_calm calm_andThen calm_id_result
        clean_then [OF clean_calm])

lemma clean_deallocateStaticDhcp: "clean db (deallocateStaticDhcp db sn ip mac)"
  unfolding deallocateStaticDhcp_def Let_def
  by (intro clean_guarded_calm calm_andThen) (auto split: option.split intro!: calm_andThen)

lemma clean_setManualReservation: "clean db (setManualReservation db sn ip b nt)"
  unfolding setManualReservation_def Let_def
  by (intro clean_read) (auto intro!: clean_pure clean_guarded_calm calm_andThen)

lemma run_call_clean: "clean db (run_call vs db c)"
proof (cases c)
  case (AllocateStaticDhcp sn ip f i)
  then show ?thesis
    by (auto simp: allocateStaticDhcp_def intro!: clean_id_result clean_guarded_calm calm_andThen)
next
  case (ReleaseTopologyAddress sn ip)
  then show ?thesis by (auto simp: releaseTopologyAddress_def intro!: clean_id_result clean_guarded_calm)
next
  case (ObserveDhcpv6Lease sn ip d i p v b a)
  then show ?thesis
    by (auto simp: observeDhcpv6Lease_def Let_def intro!: clean_id_result clean_pure clean_guarded_calm)
next
  case (ObserveRouterAdvertisement sn ip iface t)
  then show ?thesis
    by (auto simp: observeRouterAdvertisement_def intro!: clean_id_result clean_pure clean_read clean_guarded_calm)
qed (auto intro!: clean_id_result clean_allocateStaticDns clean_deallocateStaticDns clean_deallocateStaticDhcp
       clean_setManualReservation clean_protect clean_slaac clean_presence clean_calm [OF calm_observeNeighbor] clean_calm [OF calm_reconcileDnsHold])

text \<open>The batches catch a conflict at one address and go on with the next one.\<close>

lemma calm_catch:
  assumes "\<And>db m. calm (snd (h db m))" "\<And>db x. calm (snd (k db x))"
  shows "calm (snd (catchConflict r h k))"
  using assms by (cases r; cases "snd r") (auto simp: catchConflict_def split: lc_error.split)

lemma calm_read: "calm c \<Longrightarrow> (\<And>x. calm (snd (f db x))) \<Longrightarrow> calm (snd (andThen (db, c) f))"
  by (cases c) auto

lemma calm_reconcileDnsHolds: "calm (snd (reconcileDnsHolds db))"
proof -
  have "calm (snd (reconcileDnsHolds_loop db n ips))" for n ips
  proof (induction ips arbitrary: db n)
    case (Cons ip ips)
    show ?case
      unfolding reconcileDnsHolds_loop.simps
      by (intro calm_read) (auto split: option.split intro!: calm_read calm_catch Cons.IH)
  qed simp
  then show ?thesis unfolding reconcileDnsHolds_def Let_def by (intro calm_andThen) simp_all
qed

lemma calm_adopt_loop: "calm (snd (adopt_loop db only records acc ips))"
proof (induction ips arbitrary: db acc)
  case (Cons ip ips)
  show ?case
    unfolding adopt_loop.simps Let_def by (intro calm_read) (auto intro!: calm_read calm_catch Cons.IH)
qed simp

lemma clean_adopt: "clean db (adopt_records db sn ip records x)"
  unfolding adopt_records_def Let_def
  by (auto split: option.split intro!: clean_pure clean_calm [OF calm_reconcileDnsHold] clean_allocateStaticDns)

lemma adopt_refused:
  assumes "findSubnetForIp db ip = Inr (Some s)" "only \<in> {None, Some (sub_id s)}" "findBySubnetAndIp db (sub_id s) ip = Inr x"
    and "adopt_records db (sub_id s) ip records x = (db', Inl (IpLifecycleConflictError m current target))"
  shows "\<exists>record. adopt_loop db only records acc (ip # ips)
    = adopt_loop db only records (acc\<lparr>rr_checked := Suc (rr_checked acc), rr_conflicts := rr_conflicts acc @ [(ip, record, m)]\<rparr>) ips"
proof -
  have "db' = db" using clean_adopt [of db "sub_id s" ip records x] assms(4) by (simp add: clean_def)
  then show ?thesis using assms by (auto simp: catchConflict_def Let_def)
qed

section \<open>The properties\<close>

text \<open>C9. A refused change changes nothing. When an operation of the lifecycle service on one address ends in
  a lifecycle conflict, the database is exactly as before the call: no column, no history row, no PTR.
  Bringing the DNS hold of one address in line with the records and recording a neighbour never end that way.
  The two batches that catch conflicts, the one over all DNS holds and the one over all static DNS records, never
  end that way either: an address refused in the second is left as it is, the batch goes on with the next
  one, and the report it returns names the address and the reason.\<close>

theorem refusal_changes_nothing:
  "(run_call vs db c = (db', Inl (IpLifecycleConflictError m current target)) \<longrightarrow>
      db' = db \<and> (\<forall>ip. c \<noteq> ReconcileDnsHold ip) \<and> (\<forall>sn ip iface mac b src. c \<noteq> ObserveNeighbor sn ip iface mac b src))
   \<and> snd (reconcileDnsHolds db) \<noteq> Inl (IpLifecycleConflictError m current target)
   \<and> snd (reconcileStaticDnsAllocations db only) \<noteq> Inl (IpLifecycleConflictError m current target)
   \<and> (findSubnetForIp db ip = Inr (Some s) \<and> only \<in> {None, Some (sub_id s)} \<and> findBySubnetAndIp db (sub_id s) ip = Inr x
       \<and> adopt_records db (sub_id s) ip records x = (db', Inl (IpLifecycleConflictError m current target)) \<longrightarrow>
      db' = db \<and> (\<exists>record. adopt_loop db only records acc (ip # ips)
        = adopt_loop db only records (acc\<lparr>rr_checked := Suc (rr_checked acc), rr_conflicts := rr_conflicts acc @ [(ip, record, m)]\<rparr>) ips))"
proof -
  have "db' = db \<and> (\<forall>ip. c \<noteq> ReconcileDnsHold ip) \<and> (\<forall>sn ip iface mac b src. c \<noteq> ObserveNeighbor sn ip iface mac b src)"
    if call: "run_call vs db c = (db', Inl (IpLifecycleConflictError m current target))"
  proof -
    have e: "\<not> calm (snd (run_call vs db c))" using call by simp
    then have "db' = db" using run_call_clean [of db vs c] call by (simp add: clean_def)
    moreover have "c \<noteq> ReconcileDnsHold ip" for ip using e by auto
    moreover have "c \<noteq> ObserveNeighbor sn ip iface mac b src" for sn ip iface mac b src
      using e calm_id_result [OF calm_observeNeighbor] by auto
    ultimately show ?thesis by blast
  qed
  moreover have "snd (reconcileDnsHolds db) \<noteq> Inl (IpLifecycleConflictError m current target)" using calm_reconcileDnsHolds [of db] by auto
  moreover have "snd (reconcileStaticDnsAllocations db only) \<noteq> Inl (IpLifecycleConflictError m current target)"
    using calm_adopt_loop by (auto simp: reconcileStaticDnsAllocations_def Let_def dest: arg_cong [of _ _ calm])
  moreover have "db' = db" if "adopt_records db (sub_id s) ip records x = (db', Inl (IpLifecycleConflictError m current target))"
    using clean_adopt [of db "sub_id s" ip records x] that by (simp add: clean_def)
  ultimately show ?thesis using adopt_refused by blast
qed

theorem refusal_changes_nothing_witness:
  "fst (run_call [] sample_db (ReleaseTopologyAddress 1 ''10.0.0.5'')) = sample_db
   \<and> \<not> calm (snd (run_call [] sample_db (ReleaseTopologyAddress 1 ''10.0.0.5'')))"
proof -
  let ?c = "ReleaseTopologyAddress 1 ''10.0.0.5''"
  have "case snd (run_call [] sample_db ?c) of Inl (IpLifecycleConflictError m a b) \<Rightarrow> True | _ \<Rightarrow> False" by code_simp
  then obtain m a b where s: "snd (run_call [] sample_db ?c) = Inl (IpLifecycleConflictError m a b)"
    by (auto split: sum.splits lc_error.splits)
  then have "run_call [] sample_db ?c = (fst (run_call [] sample_db ?c), Inl (IpLifecycleConflictError m a b))"
    by (metis prod.collapse)
  with refusal_changes_nothing [of "[]" sample_db ?c "fst (run_call [] sample_db ?c)" m a b] s show ?thesis by simp
qed

text \<open>The sources that may move an address out of a state.\<close>

definition holders :: "alloc_state \<Rightarrow> lifecycle_source set" where
  "holders s = owners s \<union> (if s = RESERVED then {DHCP_RESERVATION} else {})"

lemma call_sources_normal: "RECONCILIATION \<notin> call_sources c"
  by (cases c) auto

lemma steps_respect_holders:
  assumes "(alloc_step S)\<^sup>*\<^sup>* a b" "RECONCILIATION \<notin> S"
  shows "(a k \<noteq> UNASSIGNED \<and> holders (a k) \<inter> S = {} \<longrightarrow> b k = a k)
     \<and> (b k \<noteq> a k \<longrightarrow> b k = UNASSIGNED \<or> owners (b k) \<inter> S \<noteq> {})"
  using assms(1)
proof (induction rule: rtranclp_induct)
  case (step b c)
  from step(2) obtain src j t where st: "src \<in> S" "canTransitionAllocation (b j) t src" "c = b(j := t)"
    by (auto elim: alloc_stepE)
  with assms(2) have src: "src \<noteq> RECONCILIATION" by blast
  have "b j = UNASSIGNED \<or> src \<in> holders (b j)"
    using st(2) src by (auto simp: transition_table holders_def)
  moreover have "t = UNASSIGNED \<or> src \<in> owners t"
    using st(2) src by (auto simp: transition_table)
  ultimately show ?case using step.IH st(1,3) by auto
qed simp

text \<open>C1. The service refines the transition table. Seen as the map from addresses (network, canonical
  address, interface) to allocation states, every operation on one address, whether it returns or
  throws, is a sequence of steps the table allows to the sources the operation acts for. So it leaves
  every address alone whose state none of these sources may change, and a state it leaves that was not
  there before is unassigned or one its own sources own. An address in quarantine is never touched.\<close>

theorem lifecycle_refines_table:
  assumes "table_ok db" "run_call vs db c = (db', r)"
  shows "table_ok db' \<and> (alloc_step (call_sources c))\<^sup>*\<^sup>* (alloc_view db) (alloc_view db')
    \<and> (\<forall>k. (alloc_view db k \<noteq> UNASSIGNED \<and> holders (alloc_view db k) \<inter> call_sources c = {} \<longrightarrow> alloc_view db' k = alloc_view db k)
         \<and> (alloc_view db' k \<noteq> alloc_view db k \<longrightarrow>
              alloc_view db' k = UNASSIGNED \<or> owners (alloc_view db' k) \<inter> call_sources c \<noteq> {})
         \<and> (alloc_view db k = QUARANTINED \<longrightarrow> alloc_view db' k = QUARANTINED))"
proof -
  have st: "table_ok db'" "(alloc_step (call_sources c))\<^sup>*\<^sup>* (alloc_view db) (alloc_view db')"
    using run_call_refines [of c db vs] assms by (auto simp: refines_def)
  note h = steps_respect_holders [OF st(2) call_sources_normal]
  have "alloc_view db' k = QUARANTINED" if "alloc_view db k = QUARANTINED" for k
    using h [of k] that by (simp add: holders_def)
  with st h show ?thesis by blast
qed

theorem lifecycle_refines_table_witness:
  "alloc_view (fst (run_call [] sample_db (ProtectTopologyAddress 1 ''10.0.0.7'' (Some GATEWAY) None))) (1, ''10.0.0.7'', []) = GATEWAY
   \<and> alloc_view (fst (run_call [] sample_db (ProtectTopologyAddress 1 ''10.0.0.7'' (Some GATEWAY) None))) (1, ''10.0.0.5'', []) = STATIC_DHCP"
proof
  let ?c = "ProtectTopologyAddress 1 ''10.0.0.7'' (Some GATEWAY) None"
  show "alloc_view (fst (run_call [] sample_db ?c)) (1, ''10.0.0.7'', []) = GATEWAY" by code_simp
  have v: "alloc_view sample_db (1, ''10.0.0.5'', []) = STATIC_DHCP" by code_simp
  have "run_call [] sample_db ?c = (fst (run_call [] sample_db ?c), snd (run_call [] sample_db ?c))" by simp
  from lifecycle_refines_table [OF sample_table_ok this] v
  show "alloc_view (fst (run_call [] sample_db ?c)) (1, ''10.0.0.5'', []) = STATIC_DHCP" by (simp add: holders_def)
qed

end
