(* ===== verification/LifecycleInvariant.thy ===== *)
theory LifecycleInvariant
  imports LifecycleProperties
begin

text \<open>
  The claim invariant along every run of the service: an unassigned address has no owner, and an
  allocated one has an owner that its state belongs to and is not flagged rogue. The steps are the
  operations on one address, the batch operations, and the observations the service passes on to the
  address model.
\<close>

section \<open>Operations on one address\<close>

lemma safe_protect: "safe db (fst (protectTopologyAddress db sn ip s nt))"
  unfolding protectTopologyAddress_def Let_def
  by (auto intro!: safe_refl claims.R_guarded safe_set)

lemma safe_release: "safe db (fst (releaseTopologyAddress db sn ip))"
  unfolding releaseTopologyAddress_def by (auto intro!: claims.R_guarded safe_set)

lemma safe_allocateStaticDns: "safe db (fst (allocateStaticDns db n ip z i))"
  unfolding allocateStaticDns_def Let_def
  by (intro claims.R_read)
     (auto split: option.split intro!: claims.R_read claims.R_throws safe_refl claims.R_guarded claims.R_andThen claims.R_syncDnsToIp
        claims.R_touch_topology safe_protect claims.R_id_result safe_set)

lemma safe_deallocateStaticDns: "safe db (fst (deallocateStaticDns db n ip z))"
  unfolding deallocateStaticDns_def Let_def
  by (intro claims.R_read)
     (auto split: option.split intro!: claims.R_read safe_refl claims.R_guarded claims.R_andThen [OF claims.R_clearDnsFromIp]
        claims.R_touch_topology claims.R_id_result safe_set)

lemma safe_reconcileDnsHold: "safe db (fst (reconcileDnsHold db ip))"
  unfolding reconcileDnsHold_def Let_def
  by (intro claims.R_read)
     (auto split: option.split intro!: claims.R_read safe_refl claims.R_guarded claims.R_id_result safe_set)

lemma safe_allocateStaticDhcp: "safe db (fst (allocateStaticDhcp vs db sn ip f i))"
  unfolding allocateStaticDhcp_def
  by (auto intro!: claims.R_guarded claims.R_andThen [OF claims.R_syncDhcpReservationToIp] safe_set)

lemma safe_deleteById: "safe db (fst (deleteById db i))"
  by (auto simp: deleteById_def deleteByIds_def split: option.split intro: safe_refl safe_delete)

lemma safe_deallocateStaticDhcp: "safe db (fst (deallocateStaticDhcp db sn ip mac))"
proof -
  have clear: "safe db (fst (clearDhcpReservationFromIp db sn ip mac))" for db
    by (rule claims.R_clearDhcpReservationFromIp) (rule safe_deleteById)
  show ?thesis
    unfolding deallocateStaticDhcp_def Let_def
    by (intro claims.R_guarded claims.R_andThen [OF clear] claims.R_read)
       (auto split: option.split intro!: claims.R_andThen claims.R_recordEvent safe_reconcileDnsHold safe_set safe_refl)
qed

lemma safe_setManualReservation: "safe db (fst (setManualReservation db sn ip b nt))"
  unfolding setManualReservation_def Let_def
  by (intro claims.R_read)
     (auto intro!: safe_refl claims.R_guarded claims.R_andThen safe_set safe_reconcileDnsHold)

lemma safe_observeSlaac: "safe db (fst (observeSlaac db sn ip iface p v t))"
  unfolding observeSlaac_def by (auto intro!: safe_refl claims.R_read claims.R_guarded safe_set)

lemma safe_observeDhcpv6Lease: "safe db (fst (observeDhcpv6Lease db sn ip d i p v b a))"
  unfolding observeDhcpv6Lease_def Let_def by (auto intro!: safe_refl claims.R_guarded safe_set)

lemma safe_observeRouterAdvertisement: "safe db (fst (observeRouterAdvertisement db sn ip iface t))"
  unfolding observeRouterAdvertisement_def by (auto intro!: safe_refl claims.R_read claims.R_guarded safe_set)

text \<open>An observation may flag an address rogue only where it found no claim.\<close>

lemma safe_observe:
  assumes "findBySubnetAndIp db sn ip = Inr x" "f_allocation_state f = None" "f_allocation_source_type f = None"
    "f_interface_id f = None" "f_is_rogue f = Some True \<Longrightarrow> state_of x = UNASSIGNED"
  shows "safe db (fst (upsert db sn ip f))"
proof (rule safe_upsert)
  fix d r
  assume d: "canonicalIdentity ip (f_interface_id f) = Inr d" "find_identity db sn (id_ip d) (id_interface d) = Some r" "claim_ok r"
  then have "x = Some r" using assms(1,4) by (simp add: findBySubnetAndIp_def)
  then have "f_is_rogue f = Some True \<Longrightarrow> ip_allocation_state r = UNASSIGNED" using assms(5) by (simp add: state_of_def)
  then have "claim (ip_allocation_state r) (ip_allocation_source_type r) (given (f_is_rogue f) (ip_is_rogue r))"
    using d(3) claim_rogue_off [of "ip_allocation_state r" "ip_allocation_source_type r" "ip_is_rogue r"]
    by (cases "f_is_rogue f"; cases "the (f_is_rogue f)") (auto simp: claim_ok_def, auto simp: claim_def)
  then show "claim (given (f_allocation_state f) (ip_allocation_state r))
      (given (f_allocation_source_type f) (ip_allocation_source_type r)) (given (f_is_rogue f) (ip_is_rogue r))"
    using assms(2,3) by simp
next
  show "claim (given (f_allocation_state f) UNASSIGNED) (given (f_allocation_source_type f) None) (given (f_is_rogue f) False)"
    using assms(2,3) by (simp add: claim_def)
qed

lemma safe_observeNeighbor: "safe db (fst (observeNeighbor db sn ip iface m b src))"
  unfolding observeNeighbor_def Let_def by (intro claims.R_read safe_observe) auto

lemma safe_observeIpv6Presence: "safe db (fst (observeIpv6Presence db sn ip iface m p src now))"
  unfolding observeIpv6Presence_def Let_def
  by (auto intro!: safe_observeNeighbor claims.R_andThen claims.R_read safe_refl safe_observeSlaac)

lemma safe_run_call: "safe db (fst (run_call vs db c))"
  by (cases c)
     (auto intro!: claims.R_id_result safe_allocateStaticDns safe_deallocateStaticDns safe_reconcileDnsHold
        safe_allocateStaticDhcp safe_deallocateStaticDhcp safe_setManualReservation safe_protect safe_release
        safe_observeSlaac safe_observeDhcpv6Lease safe_observeNeighbor safe_observeIpv6Presence safe_observeRouterAdvertisement)

section \<open>Batches\<close>

lemma rest_deleteRecord: "rest (deleteRecord db z r) = rest db"
proof -
  have "rest (delete_record i db) = rest db" for i by (simp add: delete_record_def rest_def)
  moreover have "rest (fst (clearPtrForARecord d n ip zn)) = rest d" for d n ip zn
    using ptr_write_clear [of d n ip zn] by (simp add: ptr_write_def)
  ultimately show ?thesis by (simp add: deleteRecord_def Let_def)
qed

lemma rest_delete_lease_record: "rest (delete_lease_record r db) = rest db"
proof -
  have "rest (delete_record i d) = rest d" for i d by (simp add: delete_record_def rest_def)
  then show ?thesis
    by (auto simp: delete_lease_record_def Let_def rest_deleteRecord split: option.split prod.split)
qed

lemma rest_deleteDynamic: "rest (fst (deleteDynamicDhcpRecordsByIps db as)) = rest db"
proof -
  have "rest (fold delete_lease_record rs d) = rest d" for rs d
    by (induction rs arbitrary: d) (simp_all add: rest_delete_lease_record)
  then show ?thesis by (simp add: deleteDynamicDhcpRecordsByIps_def Let_def)
qed

lemma safe_deleteDynamic: "safe db (fst (deleteDynamicDhcpRecordsByIps db as))"
  by (rule claims.R_dns [OF rest_deleteDynamic])

lemma safe_reconcileDnsHolds_loop: "safe db (fst (reconcileDnsHolds_loop db n ips))"
proof (induction ips arbitrary: db n)
  case (Cons ip ips)
  show ?case
    unfolding reconcileDnsHolds_loop.simps
    by (intro claims.R_read)
       (auto split: option.split intro!: claims.R_read claims.R_catch safe_reconcileDnsHold Cons.IH)
qed (simp add: safe_refl)

lemma safe_reconcileDnsHolds: "safe db (fst (reconcileDnsHolds db))"
  unfolding reconcileDnsHolds_def Let_def
  by (intro claims.R_andThen safe_reconcileDnsHolds_loop) (simp add: safe_refl)

lemma safe_adopt_records: "safe db (fst (adopt_records db sn ip records x))"
  unfolding adopt_records_def Let_def
  by (auto split: option.split intro!: safe_reconcileDnsHold safe_allocateStaticDns safe_refl)

lemma safe_adopt_loop: "safe db (fst (adopt_loop db only records acc ips))"
proof (induction ips arbitrary: db acc)
  case (Cons ip ips)
  show ?case
    unfolding adopt_loop.simps Let_def
    by (intro claims.R_read)
       (auto intro!: claims.R_read claims.R_catch safe_adopt_records Cons.IH)
qed (simp add: safe_refl)

lemma safe_reconcileStaticDnsZone: "safe db (fst (reconcileStaticDnsZone db z1 z2 records))"
  unfolding reconcileStaticDnsZone_def Let_def
  by (intro claims.R_andThen claims.R_foldOut)
     (auto split: option.split intro!: claims.R_andThen safe_deallocateStaticDns safe_allocateStaticDns safe_reconcileDnsHold safe_refl)

lemma safe_removeOther: "safe db (removeOtherRowsForMac db sn ip mac)"
  by (simp add: removeOtherRowsForMac_def safe_refl safe_delete)

text \<open>What leases write: on top of the metadata, whole rows of other addresses of a MAC are removed, and
  allocations are set to what their owner may set.\<close>

locale lease_frame = metadata_frame +
  assumes R_removeOther: "R db (removeOtherRowsForMac db sn ip mac)"
    and R_set: "if s = UNASSIGNED then t = None else t \<in> Some ` owners s \<and> f_is_rogue f = None
      \<Longrightarrow> R db (fst (setCanonicalAllocation db sn ip s t i f))"
begin

lemma R_syncLeaseToIp: "R db (fst (syncLeaseToIp db l))"
proof -
  have emit: "R d (if b then emitEvent (clearRogue d sn ip) sn ip t a else clearRogue d sn ip)" for d b sn ip t a
    using R_trans [OF R_clearRogue R_emitEvent] by (simp add: R_clearRogue)
  have name: "R d (fst (if b then andThen (syncCanonicalHostname d sn ip c) (\<lambda>d _. (d, Inr ())) else (d, Inr ())))" for d b sn ip c
    by (auto intro!: R_andThen R_syncCanonicalHostname R_refl)
  have start: "R db (if truthy (ol_mac l) then removeOtherRowsForMac db sn (ol_ip l) (ol_mac l) else db)" for sn
    by (simp add: R_refl R_removeOther)
  show ?thesis
  proof (cases "or_null_num (ol_subnetId l)")
    case (Some sn)
    show ?thesis
      unfolding syncLeaseToIp_def Let_def Some option.case
      by (rule R_trans [OF start], rule R_read, rule R_andThen, rule R_upsert, simp add: neutral_def,
          rule R_andThen, rule name, simp only: fst_conv emit)
  qed (simp add: syncLeaseToIp_def R_refl)
qed

lemma R_observe_lease: "R db (fst (observe_lease db l))"
  unfolding observe_lease_def observeDhcpv6Lease_def Let_def
  by (auto split: option.split intro!: R_refl R_andThen R_guarded R_set)

lemma R_deleteDynamic: "R db (fst (deleteDynamicDhcpRecordsByIps db as))"
  by (rule R_dns [OF rest_deleteDynamic])

lemma R_expire: "R db (fst (expire_allocation db r))"
  unfolding expire_allocation_def Let_def
  by (intro R_guarded R_andThen R_set)
     (auto intro!: R_andThen R_syncCanonicalHostname R_deleteDynamic R_refl)

lemma R_reconcileExpired: "R db (fst (reconcileExpiredDhcpAllocations db))"
  unfolding reconcileExpiredDhcpAllocations_def Let_def
  by (intro R_andThen R_foldOut R_expire) (simp add: R_refl)

lemma R_observeDhcpLeases: "R db (fst (observeDhcpLeases db leases v))"
  unfolding observeDhcpLeases_def syncLeasesToIps_def
  by (intro R_guarded R_andThen R_foldOut R_syncLeaseToIp R_observe_lease R_reconcileExpired)

end

interpretation leases: lease_frame safe
  by unfold_locales (auto simp: safe_removeOther intro: safe_set)

lemma safe_release_topology_row: "safe db (fst (release_topology_row sn desired db ip))"
  unfolding release_topology_row_def Let_def
  by (auto split: option.split intro!: safe_refl claims.R_andThen safe_set)

lemma safe_reconcileTopologyAddresses: "safe db (fst (reconcileTopologyAddresses db sn n g))"
  unfolding reconcileTopologyAddresses_def Let_def
  by (intro claims.R_andThen claims.R_foldOut safe_release_topology_row safe_protect) (simp add: safe_refl)

text \<open>An address that has no row yet gets one with the columns of its entry, which have to be a consistent claim of
  their own; an address that has a row keeps it.\<close>

definition own_claim :: "ip_fields \<Rightarrow> bool" where
  "own_claim f \<longleftrightarrow> claim (given (f_allocation_state f) UNASSIGNED) (given (f_allocation_source_type f) None) (given (f_is_rogue f) False)"

definition ensured_entry :: "ip_fields \<Rightarrow> bool" where
  "ensured_entry f \<longleftrightarrow> f_allocation_state f \<in> {Some SYSTEM, Some GATEWAY} \<or> own_claim f"

text \<open>An entry as the creation of a network makes them is one of these.\<close>

lemma topology_entries: "ensured_entry (no_fields\<lparr>f_allocation_state := Some UNASSIGNED, f_reservation_note := note\<rparr>)"
  "ensured_entry (no_fields\<lparr>f_allocation_state := Some GATEWAY, f_reservation_note := note\<rparr>)"
  by (simp_all add: ensured_entry_def own_claim_def claim_def)

lemma same_canonical:
  assumes "canonicalIdentity ip iface = Inr i" "canonicalIdentity (id_ip i) iface' = Inr d"
  shows "id_ip d = id_ip i"
proof -
  obtain p where p: "parseIp (id_ip i) = Some p" "id_ip i = formatIp (ip_value p) (ip_bits p)"
    using canonicalIdentity_Inr [OF canonicalIdentity_fixpoint [OF assms(1)]] by metis
  then show ?thesis using canonicalIdentity_Inr [OF assms(2)] by (metis option.inject)
qed

lemma ensure_absent:
  assumes "canonicalIdentity ip None = Inr i" "find_at db sn (id_ip i) = None" "canonicalIdentity (id_ip i) iface = Inr d"
  shows "find_identity db sn (id_ip d) (id_interface d) = None"
  using assms(2) same_canonical [OF assms(1,3)] by (auto simp: find_identity_def find_at_def find_None_iff)

lemma safe_ensureAddress:
  assumes "own_claim f"
  shows "safe db (fst (ensureAddress db sn ip f))"
proof (cases "canonicalIdentity ip None")
  case (Inr i)
  have "safe db (fst (upsert db sn (id_ip i) f))" if "find_at db sn (id_ip i) = None"
    using ensure_absent [OF Inr that] assms by (intro safe_upsert) (auto simp: own_claim_def)
  then show ?thesis
    by (auto simp: ensureAddress_def Inr split: option.split intro!: safe_refl claims.R_andThen)
qed (simp add: ensureAddress_def safe_refl)

lemma safe_ensureLifecycleAddresses:
  "\<forall>e \<in> set entries. ensured_entry (snd e) \<Longrightarrow> safe db (fst (ensureLifecycleAddresses db sn entries))"
proof (induction entries arbitrary: db)
  case (Cons e entries)
  obtain ip f where e: "e = (ip, f)" by (cases e)
  have "safe db (fst (if f_allocation_state f \<in> {Some SYSTEM, Some GATEWAY}
      then andThen (db, findBySubnetAndIp db sn ip) (\<lambda>db x. andThen (protectTopologyAddress db sn ip (f_allocation_state f) nt)
             (\<lambda>db _. (db, Inr (c x :: nat))))
      else andThen (ensureAddress db sn ip f) (\<lambda>db r. (db, Inr (fst r)))))" for db nt c
    using Cons.prems e by (auto simp: ensured_entry_def intro!: claims.R_read claims.R_andThen safe_protect safe_ensureAddress safe_refl)
  then show ?case
    using Cons unfolding e ensureLifecycleAddresses.simps
    by (intro claims.R_andThen) (auto intro: safe_refl)
qed (simp add: safe_refl)

text \<open>Ensuring addresses that are not of the topology adds rows and changes none.\<close>

lemma ensure_adds:
  assumes "table_ok db"
  shows "set (ip_addresses db) \<subseteq> set (ip_addresses (fst (ensureAddress db sn ip f)))"
proof (cases "canonicalIdentity ip None")
  case (Inr i)
  show ?thesis
  proof (cases "find_at db sn (id_ip i)")
    case None
    have "set (ip_addresses db) \<subseteq> set (ip_addresses (fst (upsert db sn (id_ip i) f)))"
    proof (rule upsert_outcome [OF assms, of "id_ip i" f sn])
      fix d db' assume "upsert db sn (id_ip i) f = (db', Inr (next_ip_id db))" "only_events (fst (insert_ip (insert_row sn d f (clock db)) db)) db'"
      then show ?thesis by (auto simp: only_events_def insert_ip_def)
    qed (use ensure_absent [OF Inr None] in auto)
    then show ?thesis by (auto simp: ensureAddress_def Inr None andThen_def split: prod.split sum.split)
  qed (simp add: ensureAddress_def Inr)
qed (simp add: ensureAddress_def)

lemma ensure_all_adds:
  "table_ok db \<Longrightarrow> \<forall>e \<in> set entries. f_allocation_state (snd e) \<notin> {Some SYSTEM, Some GATEWAY} \<Longrightarrow>
     set (ip_addresses db) \<subseteq> set (ip_addresses (fst (ensureLifecycleAddresses db sn entries)))"
proof (induction entries arbitrary: db)
  case (Cons e entries)
  obtain ip f where e: "e = (ip, f)" by (cases e)
  let ?r = "ensureAddress db sn ip f"
  note first = ensure_adds [OF Cons.prems(1), of sn ip f]
  show ?case
  proof (cases "snd ?r")
    case (Inr x)
    have "table_ok (fst ?r)" using keeps_ensureAddress [of db sn ip f] Cons.prems(1) by (simp add: keeps_def)
    then have "set (ip_addresses (fst ?r)) \<subseteq> set (ip_addresses (fst (ensureLifecycleAddresses (fst ?r) sn entries)))"
      using Cons by simp
    then show ?thesis using first Cons.prems(2) Inr e by (cases ?r) (auto simp: andThen_def split: prod.split sum.split)
  qed (use first Cons.prems(2) e in \<open>cases ?r; auto\<close>)
qed simp

section \<open>Retirement and observations\<close>

lemma safe_retireLearned: "safe db (retireLearnedMetadata db row)"
proof (rule safe_keeps [OF keeps_retireLearnedMetadata])
  fix r assume "service_ok db" "r \<in> set (ip_addresses (retireLearnedMetadata db row))"
  then show "claim_ok r"
    by (auto simp: retireLearnedMetadata_rows service_ok_def retired_row_def claim_ok_def claim_def)
qed

lemma safe_retire_row: "safe db (fst (retire_row db row))"
proof -
  have "safe d (deleteLeasesByAddress d sn ip)" for d sn ip by (rule safe_rows) (simp_all add: deleteLeasesByAddress_def)
  then show ?thesis
    unfolding retire_row_def Let_def by (intro claims.R_guarded) (auto intro: safe_trans [OF _ safe_retireLearned])
qed

lemma safe_retirement_begin: "safe db (fst (retirement_begin db now limit))"
proof -
  have "safe db (fst (startMissingRetirementWindows db now))"
    using keeps_startMissingRetirementWindows [of db now]
    by (intro safe_keeps) (auto simp: startMissingRetirementWindows_def service_ok_def claim_ok_def)
  then show ?thesis by (simp add: retirement_begin_def Let_def)
qed

lemma safe_retirement_commit: "safe db (fst (retirement_commit db now rows))"
proof -
  define dns where "dns = deleteDynamicDhcpRecordsByIps db (map (\<lambda>ip. (ip, None)) (findRowlessDhcpRecordAddresses db (now - OFFLINE_RETIREMENT_S)))"
  define res where "res = foldOut retire_row (fst dns) rows"
  have 1: "safe db (fst dns)" unfolding dns_def by (rule safe_deleteDynamic)
  have 2: "safe (fst dns) (fst res)" unfolding res_def by (rule claims.R_foldOut [OF safe_retire_row])
  have 3: "safe d (fst (deleteDynamicDhcpRecordsByIps d as))" for d as by (rule safe_deleteDynamic)
  show ?thesis
    unfolding retirement_commit_def Let_def dns_def [symmetric]
    using 1 safe_trans [OF safe_trans [OF 1 2] 3]
    by (auto simp: case_prod_beta res_def [symmetric] safe_refl split: sum.split)
qed

text \<open>A text that is no address at all, or spelt the way addresses are stored.\<close>

definition stored_spelling :: "string \<Rightarrow> bool" where
  "stored_spelling ip \<longleftrightarrow> canonicalizeIp ip \<in> {None, Some ip}"

lemma stored_find:
  assumes "stored_spelling ip" "find_at db sn ip = None" "canonicalIdentity ip None = Inr d"
  shows "findBySubnetAndIp db sn ip = Inr None"
proof -
  obtain p where "parseIp ip = Some p" "id_ip d = formatIp (ip_value p) (ip_bits p)" by (rule canonicalIdentity_Inr [OF assms(3)])
  then have "id_ip d = ip" using assms(1) by (simp add: stored_spelling_def canonicalizeIp_def)
  moreover have "find_identity db sn ip (id_interface d) = None"
    using assms(2) by (auto simp: find_identity_def find_at_def find_None_iff)
  ultimately show ?thesis using assms(3) by (simp add: findBySubnetAndIp_def)
qed

lemma safe_scan_events: "safe db (scan_events s c reason sn ip r db)"
  by (rule safe_events [OF scan_events_only])

lemma safe_updateFromScan:
  assumes "stored_spelling ip"
  shows "safe db (fst (updateFromScan db sn ip s))"
proof (cases "find_at db sn ip")
  case (Some r)
  let ?g = "scanned_row s (scan_conflict s r) (scan_reason s r) (clock db)"
  have "safe db (update_ips (\<lambda>q. ip_id q = ip_id r) ?g db)"
  proof (rule safe_keeps)
    show "keeps db (update_ips (\<lambda>q. ip_id q = ip_id r) ?g db)"
      by (intro keeps_update keeps_refl scanned_row_identity scanned_row_liveness)
    fix q assume ok: "service_ok db" and q: "q \<in> set (ip_addresses (update_ips (\<lambda>q. ip_id q = ip_id r) ?g db))"
    have "p = r" if "p \<in> set (ip_addresses db)" "ip_id p = ip_id r" for p
      using ok that find_at_Some(1) [OF Some] by (auto simp: service_ok_def table_ok_def distinct_map dest: inj_onD)
    moreover have "claim_ok (?g r)"
      using ok find_at_Some(1) [OF Some] claim_rogue_off [of "ip_allocation_state r" "ip_allocation_source_type r"]
      by (auto simp: service_ok_def claim_ok_def scanned_row_columns scan_conflict_def) (auto simp: claim_def)
    ultimately show "claim_ok q" using q ok by (auto simp: service_ok_def)
  qed
  then show ?thesis using updateFromScan_existing [OF Some] safe_trans [OF _ safe_scan_events] by simp
next
  case None
  show ?thesis
  proof (cases "canonicalIdentity ip None")
    case (Inl e)
    then show ?thesis unfolding updateFromScan_def Let_def None by (simp add: upsert_def safe_refl)
  next
    case (Inr d)
    note found = stored_find [OF assms None Inr]
    show ?thesis
      unfolding updateFromScan_def Let_def None
      by (auto intro!: safe_refl claims.R_andThen safe_observe [OF found] safe_emit simp: state_of_def)
  qed
qed

lemma safe_recordPassiveActivity: "safe db (fst (recordPassiveActivity db sn ip mac src create reason))"
proof -
  have on: "safe d (update_ips P (seen_online mac src now) d)" for d P src now
    by (intro safe_update keeps_update keeps_refl) (auto simp: seen_online_def row_edits claim_ok_def)
  have "safe db (fst (markOnline db sn ip mac src))" for src
    by (auto simp: markOnline_def Let_def split: option.split intro!: safe_refl safe_emit on)
  moreover have "safe db (fst (upsert db sn ip (no_fields\<lparr>f_is_online := o1, f_last_seen_mac := o2, f_is_rogue := o3, f_rogue_reason := o4,
      f_detection_source := o5, f_allocation_state := Some UNASSIGNED, f_allocation_source_type := Some None\<rparr>)))" for o1 o2 o3 o4 o5
    by (rule safe_upsert) (auto simp: claim_def)
  ultimately show ?thesis
    by (cases "find_at db sn ip")
       (auto simp: recordPassiveActivity_def Let_def split: prod.split intro!: safe_refl claims.R_andThen safe_emit,
        metis fst_conv)
qed

lemma safe_fold: "(\<And>x d. safe d (g x d)) \<Longrightarrow> safe d (fold g xs d)"
  by (induction xs arbitrary: d) (auto intro: safe_refl safe_trans)

lemma safe_bulkMarkStale: "safe db (fst (bulkMarkStale db minutes))"
proof -
  have off: "safe d (update_ips P (gone_offline now) d)" for d P now
    by (intro safe_update keeps_gone_offline keeps_refl)
       (auto simp: gone_offline_def claim_ok_def dest: claim_rogue_off)
  show ?thesis
    unfolding bulkMarkStale_def
    by (auto split: sum.split intro!: safe_refl safe_trans [OF safe_fold safe_fold] off safe_events [OF emit_stale_only])
qed

lemma safe_clearRogueAfterScan: "safe db (fst (clearRogueAfterScan db sn probed except))"
proof -
  have "safe d (update_ips P (rogue_off now) (emit i sn ip t a d))" for d P now i ip t a
    by (rule safe_trans [OF safe_events [OF only_events_emit] safe_rogue_off])
  then show ?thesis by (auto simp: clearRogueAfterScan_def Let_def intro: safe_fold)
qed

lemma safe_setScanEnabled: "safe db (fst (setScanEnabled db sn ip v))"
proof -
  have scan: "safe d (update_ips P (set_scan v now) d)" for d P now
    by (intro safe_update keeps_update keeps_refl) (auto simp: set_scan_def row_edits claim_ok_def)
  show ?thesis
    by (auto simp: setScanEnabled_def Let_def neutral_def split: option.split
        intro!: safe_emit scan claims.R_andThen claims.R_upsert)
qed

lemma safe_moveToSubnet: "safe db (fst (moveToSubnet db j ip target))"
  unfolding safe_def
proof
  assume ok: "service_ok db"
  define db1 where "db1 = (case find_at db target ip of None \<Rightarrow> db
     | Some dup \<Rightarrow> if ip_id dup \<noteq> j then fst (deleteById db (Some (ip_id dup))) else db)"
  have "safe db db1" unfolding db1_def by (auto split: option.split intro: safe_refl safe_deleteById)
  then have 1: "\<forall>r \<in> set (ip_addresses db1). claim_ok r" using ok by (simp add: safe_def service_ok_def)
  have "\<forall>r \<in> set (ip_addresses (fst (moveToSubnet db j ip target))). claim_ok r"
    using 1 unfolding moveToSubnet_def Let_def db1_def [symmetric]
    by (auto simp: moveEventsToSubnet_def claim_ok_def)
  then show "service_ok (fst (moveToSubnet db j ip target))"
    using moveToSubnet_keeps [of db j ip target] ok by (simp add: service_ok_def)
qed

section \<open>Runs of the service\<close>

inductive service_step :: "vendor_row list \<Rightarrow> db \<Rightarrow> db \<Rightarrow> bool" for vendors where
  step_call: "service_step vendors db (fst (run_call vendors db c))"
| step_reconcileDnsHolds: "service_step vendors db (fst (reconcileDnsHolds db))"
| step_reconcileStaticDnsAllocations: "service_step vendors db (fst (reconcileStaticDnsAllocations db only))"
| step_reconcileStaticDnsZone: "service_step vendors db (fst (reconcileStaticDnsZone db z1 z2 records))"
| step_observeDhcpLeases: "service_step vendors db (fst (observeDhcpLeases db leases prevalidated))"
| step_reconcileExpired: "service_step vendors db (fst (reconcileExpiredDhcpAllocations db))"
| step_reconcileTopology: "service_step vendors db (fst (reconcileTopologyAddresses db sn n g))"
| step_ensure: "\<forall>e \<in> set entries. ensured_entry (snd e)
    \<Longrightarrow> service_step vendors db (fst (ensureLifecycleAddresses db sn entries))"
| step_retirement_begin: "service_step vendors db (fst (retirement_begin db now limit))"
| step_retirement_commit: "service_step vendors db (fst (retirement_commit db now rows))"
| step_scan: "stored_spelling ip \<Longrightarrow> service_step vendors db (fst (updateFromScan db sn ip s))"
| step_passive: "service_step vendors db (fst (recordPassiveActivity db sn ip mac src create reason))"
| step_stale: "service_step vendors db (fst (bulkMarkStale db minutes))"
| step_scan_rogues: "service_step vendors db (fst (clearRogueAfterScan db sn probed except))"
| step_scan_enabled: "service_step vendors db (fst (setScanEnabled db sn ip v))"
| step_move: "service_step vendors db (fst (moveToSubnet db j ip target))"
| step_delete: "service_step vendors db (fst (deleteById db i))"
| step_delete_subnet: "service_step vendors db (deleteBySubnet db sn)"
| step_delete_ip: "service_step vendors db (deleteByIpAddress db ip)"
| step_prune: "service_step vendors db (fst (pruneEvents db))"
| step_clock: "service_step vendors db (db\<lparr>clock := t\<rparr>)"
| step_tables: "service_step vendors db (db\<lparr>subnets := ss, dns_zones := zs, dns_records := rs, dhcp_reservations := vs,
    dhcp_leases := ls, dhcp_scopes := cs, dhcp_scope_pools := ps, settings := kvs\<rparr>)"

lemma service_step_safe: "service_step vs db db' \<Longrightarrow> safe db db'"
proof (induction rule: service_step.induct)
  case (step_reconcileStaticDnsAllocations db only)
  then show ?case by (simp add: reconcileStaticDnsAllocations_def Let_def safe_adopt_loop)
next
  case (step_prune db)
  show ?case by (rule safe_rows) (simp_all add: pruneEvents_def Let_def)
next
  case (step_clock db t)
  show ?case by (rule safe_rows) simp_all
next
  case (step_tables db ss zs rs vs ls cs ps kvs)
  show ?case by (rule safe_rows) simp_all
next
  case (step_delete_subnet db sn)
  show ?case unfolding deleteBySubnet_def by (rule safe_delete)
next
  case (step_delete_ip db ip)
  show ?case unfolding deleteByIpAddress_def by (rule safe_delete)
qed (rule safe_run_call safe_reconcileDnsHolds safe_reconcileStaticDnsZone leases.R_observeDhcpLeases leases.R_reconcileExpired
       safe_reconcileTopologyAddresses safe_ensureLifecycleAddresses safe_retirement_begin safe_retirement_commit
       safe_updateFromScan safe_recordPassiveActivity safe_bulkMarkStale safe_clearRogueAfterScan safe_setScanEnabled
       safe_moveToSubnet safe_deleteById, assumption?)+

text \<open>C2. Claims stay consistent. Start from a table in which every unassigned address has no owner and
  every allocated one has an owner its state belongs to and is not flagged rogue. Then this holds after
  any sequence of operations of the lifecycle service, of scan results, passive activity, staleness
  sweeps, retirements, moves and deletions, whether they succeed or throw, and whatever the other
  tables and the clock do in between. The unique keys and identities of the table are kept along. Two
  operations are taken with the arguments their callers give: addresses are ensured with entries that are of
  the topology, or whose own columns (a state, its owner, a rogue flag; by default unassigned, none and no) are
  a consistent claim, as all entries of a new network are; and a scan result is for a text in the spelling in
  which addresses are stored, as the scanner writes them, link-local ones and texts that are no addresses
  included. Ensuring addresses that are not of the topology leaves every row of the table as it is.\<close>

theorem service_invariant:
  assumes "service_ok db" "(service_step vendors)\<^sup>*\<^sup>* db db'"
  shows "service_ok db'
    \<and> (\<forall>sn entries. (\<forall>e \<in> set entries. f_allocation_state (snd e) \<notin> {Some SYSTEM, Some GATEWAY}) \<longrightarrow>
         set (ip_addresses db') \<subseteq> set (ip_addresses (fst (ensureLifecycleAddresses db' sn entries))))"
proof -
  have "service_ok db'"
    using assms(2,1)
  proof (induction rule: rtranclp_induct)
    case (step y z)
    then show ?case using service_step_safe [of vendors y z] by (simp add: safe_def)
  qed
  then show ?thesis using ensure_all_adds by (auto simp: service_ok_def)
qed

theorem service_invariant_witness:
  "\<exists>db'. (service_step [])\<^sup>*\<^sup>* empty_db db' \<and> service_ok db'
     \<and> alloc_view db' (1, ''10.0.0.1'', []) = GATEWAY"
proof -
  let ?db = "fst (run_call [] empty_db (ProtectTopologyAddress 1 ''10.0.0.1'' (Some GATEWAY) None))"
  have ok: "service_ok empty_db" by (simp add: service_ok_def table_ok_def empty_db_def)
  have steps: "(service_step [])\<^sup>*\<^sup>* empty_db ?db" by (intro r_into_rtranclp step_call)
  have "alloc_view ?db (1, ''10.0.0.1'', []) = GATEWAY" by code_simp
  with service_invariant [OF ok steps] steps show ?thesis by blast
qed

end
