(* ===== verification/DnsWire.thy ===== *)
theory DnsWire
  imports Prelude "HOL-Library.Word"
begin

text \<open>
  The framing of DNS messages on a TCP stream, \<open>server/src/utils/dns-wire.js\<close>: every message is
  preceded by its length as two bytes. A Buffer is a list of bytes. The stream is cut into chunks at
  arbitrary places; the theory shows that the messages read do not depend on the cuts.
\<close>

type_synonym byte = "8 word"
type_synonym bytes = "byte list"

section \<open>Sixteen-bit numbers in a buffer\<close>

text \<open>\<open>buf.readUInt16BE(offset)\<close> and \<open>buf.writeUInt16BE(value, offset)\<close>. Reading past the end and writing a
  number that does not fit raise a RangeError, here \<open>None\<close>.\<close>

definition readUInt16BE :: "bytes \<Rightarrow> nat \<Rightarrow> nat option" where
  "readUInt16BE buf offset =
     (if offset + 2 \<le> length buf then Some (unat (buf ! offset) * 256 + unat (buf ! (offset + 1))) else None)"

definition uint16_bytes :: "nat \<Rightarrow> bytes option" where
  "uint16_bytes n = (if n \<le> 65535 then Some [of_nat (n div 256), of_nat (n mod 256)] else None)"

definition writeUInt16BE :: "bytes \<Rightarrow> nat \<Rightarrow> nat \<Rightarrow> bytes option" where
  "writeUInt16BE buf n offset =
     (if offset + 2 \<le> length buf
      then Option.bind (uint16_bytes n) (\<lambda>b. Some (take offset buf @ b @ drop (offset + 2) buf))
      else None)"

lemma unat_byte_less [simp]: "unat (b :: byte) < 256"
  using unsigned_less [of b] by simp

lemma unat_of_nat_byte [simp]: "n < 256 \<Longrightarrow> unat (of_nat n :: byte) = n"
  by (simp add: unat_of_nat)

lemma readUInt16BE_0: "readUInt16BE (a # b # xs) 0 = Some (unat a * 256 + unat b)"
  by (simp add: readUInt16BE_def)

lemma readUInt16BE_drop: "readUInt16BE buf k = readUInt16BE (drop k buf) 0"
  by (auto simp: readUInt16BE_def)

lemma readUInt16BE_le: "readUInt16BE buf k = Some n \<Longrightarrow> n \<le> 65535"
proof -
  assume "readUInt16BE buf k = Some n"
  then have n: "n = unat (buf ! k) * 256 + unat (buf ! (k + 1))" by (auto simp: readUInt16BE_def split: if_splits)
  have "unat (buf ! k) < 256" "unat (buf ! (k + 1)) < 256" by (rule unat_byte_less)+
  then show "n \<le> 65535" unfolding n by linarith
qed

lemma read_uint16_bytes: "uint16_bytes n = Some b \<Longrightarrow> readUInt16BE (b @ xs) 0 = Some n"
proof -
  assume b: "uint16_bytes n = Some b"
  then have "n div 256 < 256" by (auto simp: uint16_bytes_def split: if_splits)
  with b show ?thesis by (auto simp: uint16_bytes_def readUInt16BE_0 split: if_splits)
qed

lemma length_uint16_bytes: "uint16_bytes n = Some b \<Longrightarrow> length b = 2"
  by (auto simp: uint16_bytes_def split: if_splits)

lemma readUInt16BE_take: "2 \<le> length xs \<Longrightarrow> readUInt16BE (xs @ ys) 0 = readUInt16BE xs 0"
  by (cases xs) (auto simp: readUInt16BE_def nth_append)

lemma read_short [simp]: "length xs < 2 \<Longrightarrow> readUInt16BE xs 0 = None"
  by (simp add: readUInt16BE_def)

lemma write_bytes: "readUInt16BE buf 0 = Some n \<Longrightarrow> uint16_bytes n = Some (take 2 buf)"
proof -
  assume r: "readUInt16BE buf 0 = Some n"
  then obtain a b xs where buf: "buf = a # b # xs"
    by (cases buf; cases "tl buf") (auto simp: readUInt16BE_def)
  then have n: "n = unat a * 256 + unat b" using r by (simp add: readUInt16BE_0)
  have "n div 256 = unat a" "n mod 256 = unat b" using unat_byte_less [of b] unfolding n by simp_all
  then show ?thesis using readUInt16BE_le [OF r] by (simp add: uint16_bytes_def buf)
qed

section \<open>Framing\<close>

definition frameTcpMessage :: "bytes \<Rightarrow> bytes option" where
  "frameTcpMessage payload = Option.bind (uint16_bytes (length payload)) (\<lambda>lenBuf. Some (lenBuf @ payload))"

text \<open>The loop of \<open>extractTcpMessages\<close> from \<open>offset\<close>: the messages it pushes and the offset it stops at.\<close>

function extract_loop :: "bytes \<Rightarrow> nat \<Rightarrow> bytes list \<times> nat" where
  "extract_loop buf offset =
     (if length buf - offset \<ge> 2
      then (case readUInt16BE buf offset of
              None \<Rightarrow> ([], offset)
            | Some msgLen \<Rightarrow>
                if length buf - offset < 2 + msgLen then ([], offset)
                else (case extract_loop buf (offset + (2 + msgLen)) of
                        (messages, stop) \<Rightarrow> (take msgLen (drop (offset + 2) buf) # messages, stop)))
      else ([], offset))"
  by pat_completeness auto
termination by (relation "measure (\<lambda>(buf, offset). length buf - offset)") auto

declare extract_loop.simps [simp del]

definition extractTcpMessages :: "bytes \<Rightarrow> bytes list \<times> bytes" where
  "extractTcpMessages buf =
     (case extract_loop buf 0 of (messages, offset) \<Rightarrow> (messages, if offset > 0 then drop offset buf else buf))"

text \<open>The reading side of a connection: \<open>buf = concat(buf, chunk)\<close>, then the complete messages are taken out
  and the rest stays in the buffer.\<close>

fun feed :: "bytes \<Rightarrow> bytes list \<Rightarrow> bytes list \<times> bytes" where
  "feed buf [] = ([], buf)"
| "feed buf (chunk # chunks) =
     (case extractTcpMessages (buf @ chunk) of
        (messages, left) \<Rightarrow> (case feed left chunks of (later, end') \<Rightarrow> (messages @ later, end')))"

section \<open>The messages of a stream\<close>

text \<open>The same extraction as a recursion over the bytes themselves.\<close>

function take_messages :: "bytes \<Rightarrow> bytes list \<times> bytes" where
  "take_messages buf =
     (case readUInt16BE buf 0 of
        None \<Rightarrow> ([], buf)
      | Some n \<Rightarrow> if length buf < 2 + n then ([], buf)
                  else (case take_messages (drop (2 + n) buf) of (ms, left) \<Rightarrow> (take n (drop 2 buf) # ms, left)))"
  by pat_completeness auto
termination by (relation "measure length") auto

declare take_messages.simps [simp del]

lemma extract_loop_take:
  "k \<le> length buf \<Longrightarrow> take_messages (drop k buf) = (case extract_loop buf k of (ms, n) \<Rightarrow> (ms, drop n buf))"
proof (induction buf k rule: extract_loop.induct)
  case (1 buf k)
  show ?case
  proof (cases "readUInt16BE buf k")
    case None
    then show ?thesis
      using readUInt16BE_drop [of buf k] by (simp add: extract_loop.simps [of buf k] take_messages.simps)
  next
    case (Some n)
    then have two: "2 \<le> length buf - k" by (auto simp: readUInt16BE_def split: if_splits)
    have r: "readUInt16BE (drop k buf) 0 = Some n" using Some readUInt16BE_drop [of buf k] by simp
    show ?thesis
    proof (cases "length buf - k < 2 + n")
      case True
      then show ?thesis using Some r two by (simp add: extract_loop.simps [of buf k] take_messages.simps)
    next
      case False
      then have "k + (2 + n) \<le> length buf" using two by linarith
      then have ih: "take_messages (drop (k + (2 + n)) buf) = (case extract_loop buf (k + (2 + n)) of (ms, n) \<Rightarrow> (ms, drop n buf))"
        using 1(1) [OF two Some False] by simp
      have "drop (2 + n) (drop k buf) = drop (k + (2 + n)) buf" "drop 2 (drop k buf) = drop (k + 2) buf"
        by (simp_all add: add.commute)
      then have "take_messages (drop k buf)
          = (case take_messages (drop (k + (2 + n)) buf) of (ms, left) \<Rightarrow> (take n (drop (k + 2) buf) # ms, left))"
        using r False by (subst take_messages.simps) simp
      then show ?thesis
        unfolding ih using Some False two by (subst extract_loop.simps) (simp split: prod.split)
    qed
  qed
qed

lemma extract_take: "extractTcpMessages buf = take_messages buf"
  using extract_loop_take [of 0 buf] by (auto simp: extractTcpMessages_def split: prod.splits)

text \<open>A buffer that holds no complete message.\<close>

definition incomplete :: "bytes \<Rightarrow> bool" where
  "incomplete buf \<longleftrightarrow> (case readUInt16BE buf 0 of None \<Rightarrow> True | Some n \<Rightarrow> length buf < 2 + n)"

lemma take_incomplete: "incomplete buf \<Longrightarrow> take_messages buf = ([], buf)"
  by (subst take_messages.simps) (auto simp: incomplete_def split: option.splits)

lemma take_frame:
  assumes "frameTcpMessage m = Some f"
  shows "take_messages (f @ xs) = (case take_messages xs of (ms, left) \<Rightarrow> (m # ms, left))"
proof -
  obtain b where b: "uint16_bytes (length m) = Some b" "f = b @ m"
    using assms by (auto simp: frameTcpMessage_def bind_eq_Some_conv)
  note l = length_uint16_bytes [OF b(1)]
  have "readUInt16BE (f @ xs) 0 = Some (length m)" using read_uint16_bytes [OF b(1)] b(2) by simp
  then show ?thesis using b l by (subst take_messages.simps) simp
qed

text \<open>Whatever is read from a buffer is read from a longer one first, and the bytes are neither lost nor
  invented.\<close>

lemma take_messages_split:
  assumes "take_messages buf = (ms, left)"
  shows "incomplete left \<and> list_all (\<lambda>m. frameTcpMessage m \<noteq> None) ms
    \<and> buf = concat (map (the \<circ> frameTcpMessage) ms) @ left"
  using assms
proof (induction buf arbitrary: ms rule: take_messages.induct)
  case (1 buf)
  show ?case
  proof (cases "incomplete buf")
    case True
    then show ?thesis using 1(2) by (simp add: take_incomplete)
  next
    case False
    then obtain n where n: "readUInt16BE buf 0 = Some n" "\<not> length buf < 2 + n"
      by (auto simp: incomplete_def split: option.splits)
    obtain ms' where ms': "take_messages (drop (2 + n) buf) = (ms', left)" "ms = take n (drop 2 buf) # ms'"
      using 1(2) n by (subst (asm) take_messages.simps) (auto split: prod.splits)
    have "length (take n (drop 2 buf)) = n" using n(2) by simp
    then have f: "frameTcpMessage (take n (drop 2 buf)) = Some (take 2 buf @ take n (drop 2 buf))"
      using write_bytes [OF n(1)] by (simp add: frameTcpMessage_def)
    have "buf = take 2 buf @ take n (drop 2 buf) @ drop (2 + n) buf"
      by (metis append_take_drop_id drop_drop add.commute)
    with 1(1) [OF n ms'(1)] f ms'(2) show ?thesis by simp
  qed
qed

lemma take_frames:
  assumes "list_all (\<lambda>m. frameTcpMessage m \<noteq> None) ms"
  shows "take_messages (concat (map (the \<circ> frameTcpMessage) ms) @ xs) = (case take_messages xs of (ns, left) \<Rightarrow> (ms @ ns, left))"
  using assms by (induction ms) (auto simp: take_frame split: prod.splits)

lemma take_append:
  assumes "take_messages buf = (ms, left)"
  shows "take_messages (buf @ xs) = (case take_messages (left @ xs) of (ns, r) \<Rightarrow> (ms @ ns, r))"
  using take_messages_split [OF assms] take_frames [of ms "left @ xs"] by simp

lemma feed_take: "incomplete buf \<Longrightarrow> feed buf chunks = take_messages (buf @ concat chunks)"
proof (induction chunks arbitrary: buf)
  case (Cons c chunks)
  obtain ms left where t: "take_messages (buf @ c) = (ms, left)" by fastforce
  then have "incomplete left" using take_messages_split by blast
  from Cons.IH [OF this] t take_append [OF t, of "concat chunks"] show ?case by (simp add: extract_take)
qed (simp add: take_incomplete)

lemma incomplete_Nil [simp]: "incomplete []"
  by (simp add: incomplete_def)

text \<open>C36. Framing round trip over a stream cut anywhere. A message can be framed exactly when its length
  fits 16 bits. Whatever way the bytes of framed messages, followed by a partial message, arrive in
  chunks, the reader yields exactly these messages in order and keeps exactly the partial message. And
  any bytes at all, however chunked, are the frames of the messages the reader yields followed by what
  it keeps, which is no complete message.\<close>

theorem tcp_framing_roundtrip:
  "(frameTcpMessage m \<noteq> None \<longleftrightarrow> length m < 2 ^ 16)
   \<and> (list_all (\<lambda>m. length m < 2 ^ 16) ms \<and> incomplete part
        \<and> concat chunks = concat (map (the \<circ> frameTcpMessage) ms) @ part \<longrightarrow> feed [] chunks = (ms, part))
   \<and> (feed [] cs = (ns, left) \<longrightarrow> concat cs = concat (map (the \<circ> frameTcpMessage) ns) @ left \<and> incomplete left)"
proof -
  have len: "frameTcpMessage m \<noteq> None \<longleftrightarrow> length m < 2 ^ 16" for m
    by (auto simp: frameTcpMessage_def uint16_bytes_def)
  have "feed [] chunks = (ms, part)"
    if "list_all (\<lambda>m. length m < 2 ^ 16) ms" "incomplete part" "concat chunks = concat (map (the \<circ> frameTcpMessage) ms) @ part"
  proof -
    have "list_all (\<lambda>m. frameTcpMessage m \<noteq> None) ms" unfolding len by (rule that(1))
    from take_frames [OF this, of part] that show ?thesis by (simp add: feed_take take_incomplete)
  qed
  moreover have "concat cs = concat (map (the \<circ> frameTcpMessage) ns) @ left \<and> incomplete left" if "feed [] cs = (ns, left)"
    using that take_messages_split [of "concat cs" ns left] by (simp add: feed_take)
  ultimately show ?thesis using len by blast
qed

theorem tcp_framing_roundtrip_witness:
  "feed [] [[0, 2, 7], [8, 0], [3, 1, 2, 3, 0, 9]] = ([[7, 8], [1, 2, 3]], [0, 9])"
proof -
  have "list_all (\<lambda>m. length m < 2 ^ 16) [[7, 8], [1, 2, 3 :: byte]]" by simp
  moreover have "incomplete [0, 9]" by (simp add: incomplete_def readUInt16BE_def)
  moreover have "concat [[0, 2, 7], [8, 0], [3, 1, 2, 3, 0, 9]]
      = concat (map (the \<circ> frameTcpMessage) [[7, 8], [1, 2, 3]]) @ [0, 9]"
    by (simp add: frameTcpMessage_def uint16_bytes_def)
  ultimately show ?thesis using tcp_framing_roundtrip by blast
qed

end
