(* ===== verification/DotConnection.thy ===== *)
theory DotConnection
  imports DnsWire
begin

text \<open>
  One DNS-over-TLS connection of the forwarder, the classes \<open>Connection\<close> and \<open>DotConnection\<close> of
  \<open>server/src/utils/upstream-pool.js\<close>: queries are pipelined on one stream under wire ids of their own,
  replies are matched back by id. The TLS socket is the environment: its events, and the timers, are the
  events of the machine, and each handler of the code is a function on the state. Promises are numbered
  by the calls of \<open>send\<close>; a call object is named by the number of its promise. The model keeps what was
  written to the socket and whether it was destroyed, which is what the code does to it.
\<close>

section \<open>Machines driven by events\<close>

text \<open>The runs of a machine: which events may happen in a state, and what the handler of each does.\<close>

inductive run :: "('e \<Rightarrow> 's \<Rightarrow> bool) \<Rightarrow> ('e \<Rightarrow> 's \<Rightarrow> 's) \<Rightarrow> 's \<Rightarrow> 'e list \<Rightarrow> 's \<Rightarrow> bool"
  for allowed handle start where
  run_start: "run allowed handle start [] start"
| run_event: "run allowed handle start es s \<Longrightarrow> allowed e s \<Longrightarrow> run allowed handle start (es @ [e]) (handle e s)"

fun legal :: "('e \<Rightarrow> 's \<Rightarrow> bool) \<Rightarrow> ('e \<Rightarrow> 's \<Rightarrow> 's) \<Rightarrow> 's \<Rightarrow> 'e list \<Rightarrow> bool" where
  "legal allowed handle s [] \<longleftrightarrow> True"
| "legal allowed handle s (e # es) \<longleftrightarrow> allowed e s \<and> legal allowed handle (handle e s) es"

lemma run_legal:
  "run allowed handle start es s \<Longrightarrow> legal allowed handle s fs \<Longrightarrow> run allowed handle start (es @ fs) (fold handle fs s)"
proof (induction fs arbitrary: es s)
  case (Cons f fs)
  then show ?case using Cons.IH [OF run_event [OF Cons.prems(1)]] by simp
qed simp

lemmas run_from_start = run_legal [OF run_start, simplified]

locale traced_machine =
  fixes allowed :: "'e \<Rightarrow> 's \<Rightarrow> bool" and handle :: "'e \<Rightarrow> 's \<Rightarrow> 's" and start :: 's
    and inv :: "'e list \<Rightarrow> 's \<Rightarrow> bool"
  assumes inv_start: "inv [] start"
    and inv_event: "inv es s \<Longrightarrow> allowed e s \<Longrightarrow> inv (es @ [e]) (handle e s)"
begin

lemma run_inv: "run allowed handle start es s \<Longrightarrow> inv es s"
  by (induction rule: run.induct) (auto intro: inv_start inv_event)

end

section \<open>State\<close>

datatype fail = FAIL_CONNECT | FAIL_CLOSED | FAIL_TIMEOUT | FAIL_HTTP | FAIL_DOWNGRADE

datatype send_result = Response bytes | Failed fail string

datatype promise = Pending | Resolved send_result | Rejected

record dot_call =
  call_done :: bool
  call_timer :: bool
  call_originalId :: "nat option"
  call_cleanup :: "16 word option"

record dot_connection =
  dot_inflight :: "nat list"
  dot_idleTimer :: bool
  dot_open :: bool
  dot_ended :: bool
  dot_failure :: "(fail \<times> string) option"
  dot_pending :: "16 word \<Rightarrow> nat option"
  dot_queued :: "bytes list"
  dot_nextId :: "16 word"
  dot_buf :: bytes
  dot_calls :: "nat \<Rightarrow> dot_call option"
  dot_promises :: "promise list"
  dot_written :: "bytes list"
  dot_destroyed :: bool

text \<open>The constructor; \<open>n\<close> is the random first id.\<close>

definition new_dot :: "16 word \<Rightarrow> dot_connection" where
  "new_dot n =
     \<lparr>dot_inflight = [], dot_idleTimer = False, dot_open = False, dot_ended = False, dot_failure = None,
      dot_pending = Map.empty, dot_queued = [], dot_nextId = n, dot_buf = [], dot_calls = Map.empty, dot_promises = [],
      dot_written = [], dot_destroyed = False\<rparr>"

section \<open>Connection\<close>

definition dot_usable :: "dot_connection \<Rightarrow> bool" where
  "dot_usable s \<longleftrightarrow> \<not> dot_ended s"

text \<open>A promise that is settled stays as it is.\<close>

definition settle :: "nat \<Rightarrow> promise \<Rightarrow> dot_connection \<Rightarrow> dot_connection" where
  "settle k p s =
     (if k < length (dot_promises s) \<and> dot_promises s ! k = Pending
      then s\<lparr>dot_promises := (dot_promises s)[k := p]\<rparr> else s)"

definition begin_call :: "nat \<Rightarrow> dot_connection \<Rightarrow> dot_connection" where
  "begin_call k s =
     s\<lparr>dot_idleTimer := False,
       dot_calls := (dot_calls s)(k := Some \<lparr>call_done = False, call_timer = True, call_originalId = None, call_cleanup = None\<rparr>),
       dot_inflight := dot_inflight s @ [k]\<rparr>"

definition finish :: "nat \<Rightarrow> send_result \<Rightarrow> dot_connection \<Rightarrow> dot_connection" where
  "finish k result s =
     (case dot_calls s k of
        None \<Rightarrow> s
      | Some c \<Rightarrow>
          if call_done c then s
          else let s1 = settle k (Resolved result)
                 (s\<lparr>dot_calls := (dot_calls s)(k := Some (c\<lparr>call_done := True, call_timer := False\<rparr>)),
                    dot_pending := (case call_cleanup c of None \<Rightarrow> dot_pending s | Some i \<Rightarrow> (dot_pending s)(i := None)),
                    dot_inflight := filter (\<lambda>j. j \<noteq> k) (dot_inflight s)\<rparr>)
               in if dot_inflight s1 = [] \<and> \<not> dot_ended s1 then s1\<lparr>dot_idleTimer := True\<rparr> else s1)"

definition fail_kind :: "dot_connection \<Rightarrow> fail" where
  "fail_kind s = (if dot_open s then FAIL_CLOSED else FAIL_CONNECT)"

definition end_connection :: "dot_connection \<Rightarrow> dot_connection" where
  "end_connection s =
     (if dot_ended s then s
      else let s1 = s\<lparr>dot_ended := True, dot_idleTimer := False\<rparr>;
               (kind, error) = (case dot_failure s1 of Some f \<Rightarrow> f | None \<Rightarrow> (fail_kind s1, ''connection closed''))
           in fold (\<lambda>k. finish k (Failed kind error)) (dot_inflight s1) s1)"

definition failed :: "string \<Rightarrow> dot_connection \<Rightarrow> dot_connection" where
  "failed error s =
     s\<lparr>dot_failure := (case dot_failure s of Some f \<Rightarrow> Some f | None \<Rightarrow> Some (fail_kind s, error))\<rparr>"

section \<open>DotConnection\<close>

definition close_dot :: "dot_connection \<Rightarrow> dot_connection" where
  "close_dot s = s\<lparr>dot_destroyed := True\<rparr>"

text \<open>The timer of a call: \<open>closeOnTimeout\<close> is true for DNS over TLS.\<close>

definition call_timeout :: "nat \<Rightarrow> dot_connection \<Rightarrow> dot_connection" where
  "call_timeout k s = close_dot (finish k (Failed FAIL_TIMEOUT ''DoT timeout'') s)"

definition secure_connect :: "string option \<Rightarrow> dot_connection \<Rightarrow> dot_connection" where
  "secure_connect authorizationError s =
     (case authorizationError of
        Some e \<Rightarrow> close_dot (s\<lparr>dot_failure := Some (FAIL_CONNECT, e)\<rparr>)
      | None \<Rightarrow> s\<lparr>dot_open := True, dot_written := dot_written s @ dot_queued s, dot_queued := []\<rparr>)"

fun allocate_loop :: "nat \<Rightarrow> (16 word \<Rightarrow> nat option) \<Rightarrow> 16 word \<Rightarrow> 16 word option \<times> 16 word" where
  "allocate_loop i pending n =
     (if i = 0 then (None, n)
      else if pending n = None then (Some n, n + 1)
      else allocate_loop (i - 1) pending (n + 1))"

declare allocate_loop.simps [simp del]

definition allocateId :: "dot_connection \<Rightarrow> 16 word option \<times> dot_connection" where
  "allocateId s = (case allocate_loop 65536 (dot_pending s) (dot_nextId s) of (r, n) \<Rightarrow> (r, s\<lparr>dot_nextId := n\<rparr>))"

text \<open>\<open>send\<close>: an exception in the executor, here from a query too short to hold an id or too long to frame,
  rejects the promise and leaves the call in flight.\<close>

definition send :: "bytes \<Rightarrow> dot_connection \<Rightarrow> dot_connection" where
  "send query s =
     (let k = length (dot_promises s) in
      case allocateId (s\<lparr>dot_promises := dot_promises s @ [Pending]\<rparr>) of
        (None, s1) \<Rightarrow> settle k (Resolved (Failed FAIL_CLOSED ''no free query id'')) s1
      | (Some i, s1) \<Rightarrow>
          let s2 = begin_call k s1 in
          case readUInt16BE query 0 of
            None \<Rightarrow> settle k Rejected s2
          | Some orig \<Rightarrow>
              let s3 = s2\<lparr>dot_calls := (dot_calls s2)(k := map_option (\<lambda>c. c\<lparr>call_originalId := Some orig, call_cleanup := Some i\<rparr>)
                                                   (dot_calls s2 k)),
                          dot_pending := (dot_pending s2)(i := Some k)\<rparr> in
              case Option.bind (writeUInt16BE query (unat i) 0) frameTcpMessage of
                None \<Rightarrow> settle k Rejected s3
              | Some frame \<Rightarrow>
                  if dot_open s3 then s3\<lparr>dot_written := dot_written s3 @ [frame]\<rparr>
                  else s3\<lparr>dot_queued := dot_queued s3 @ [frame]\<rparr>)"

definition deliver :: "bytes \<Rightarrow> dot_connection \<Rightarrow> dot_connection" where
  "deliver message s =
     (case readUInt16BE message 0 of
        None \<Rightarrow> s
      | Some n \<Rightarrow>
          (case dot_pending s (of_nat n) of
             None \<Rightarrow> s
           | Some k \<Rightarrow>
               (case Option.bind (Option.bind (dot_calls s k) call_originalId) (\<lambda>orig. writeUInt16BE message orig 0) of
                  None \<Rightarrow> s
                | Some response \<Rightarrow> finish k (Response response) s)))"

definition onData :: "bytes \<Rightarrow> dot_connection \<Rightarrow> dot_connection" where
  "onData chunk s =
     (case extractTcpMessages (dot_buf s @ chunk) of (messages, left) \<Rightarrow> fold deliver messages (s\<lparr>dot_buf := left\<rparr>))"

section \<open>The connection as a machine\<close>

datatype dot_event =
    Send bytes
  | SecureConnect "string option"
  | Data bytes
  | SocketError string
  | SocketClose
  | CallTimer nat
  | IdleTimer

text \<open>The pool sends on usable connections only, and a timer fires only while it is armed. Nothing else
  is assumed of the socket: its events may come in any order and any number.\<close>

fun dot_allowed :: "dot_event \<Rightarrow> dot_connection \<Rightarrow> bool" where
  "dot_allowed (Send q) s \<longleftrightarrow> dot_usable s"
| "dot_allowed (CallTimer k) s \<longleftrightarrow> (case dot_calls s k of None \<Rightarrow> False | Some c \<Rightarrow> call_timer c)"
| "dot_allowed IdleTimer s \<longleftrightarrow> dot_idleTimer s"
| "dot_allowed _ s \<longleftrightarrow> True"

fun dot_handle :: "dot_event \<Rightarrow> dot_connection \<Rightarrow> dot_connection" where
  "dot_handle (Send q) s = send q s"
| "dot_handle (SecureConnect e) s = secure_connect e s"
| "dot_handle (Data chunk) s = onData chunk s"
| "dot_handle (SocketError e) s = failed e s"
| "dot_handle SocketClose s = end_connection s"
| "dot_handle (CallTimer k) s = call_timeout k s"
| "dot_handle IdleTimer s = close_dot (s\<lparr>dot_idleTimer := False\<rparr>)"

section \<open>Allocation of wire ids\<close>

text \<open>The loop tries the ids from \<open>n\<close> on, wrapping at 65536.\<close>

lemma allocate_loop_spec:
  "allocate_loop i pending n = (r, n') \<Longrightarrow>
     (case r of
        None \<Rightarrow> (\<forall>j < i. pending (n + of_nat j) \<noteq> None)
      | Some x \<Rightarrow> (\<exists>j < i. x = n + of_nat j \<and> n' = x + 1 \<and> pending x = None \<and> (\<forall>l < j. pending (n + of_nat l) \<noteq> None)))"
proof (induction i arbitrary: n)
  case 0
  then show ?case by (simp add: allocate_loop.simps)
next
  case (Suc i)
  show ?case
  proof (cases "pending n")
    case None
    then show ?thesis using Suc.prems by (auto simp: allocate_loop.simps intro!: exI [of _ 0])
  next
    case (Some k)
    have step: "n + 1 + of_nat j = n + of_nat (Suc j)" for j by simp
    have "allocate_loop i pending (n + 1) = (r, n')" using Suc.prems Some by (simp add: allocate_loop.simps [of "Suc i"])
    note ih = Suc.IH [OF this, unfolded step]
    show ?thesis
    proof (cases r)
      case None
      then show ?thesis using ih Some unfolding All_less_Suc2 by simp
    next
      case (Some x)
      then obtain j where j: "j < i" "x = n + of_nat (Suc j)" "n' = x + 1" "pending x = None"
        "\<forall>l < j. pending (n + of_nat (Suc l)) \<noteq> None" using ih by auto
      then have "\<forall>l < Suc j. pending (n + of_nat l) \<noteq> None" using \<open>pending n = Some k\<close> unfolding All_less_Suc2 by simp
      with j Some show ?thesis by (auto intro!: exI [of _ "Suc j"])
    qed
  qed
qed

lemma all_ids: "(\<forall>j < 65536. P (n + of_nat j :: 16 word)) \<longleftrightarrow> (\<forall>x. P x)"
proof
  assume all: "\<forall>j < 65536. P (n + of_nat j)"
  show "\<forall>x. P x"
  proof
    fix x :: "16 word"
    have "unat (x - n) < 65536" using unsigned_less [of "x - n"] by simp
    with all have "P (n + of_nat (unat (x - n)))" by blast
    then show "P x" by simp
  qed
qed simp

lemma allocateId_spec:
  assumes "allocateId s = (r, s')"
  shows "s' = s\<lparr>dot_nextId := dot_nextId s'\<rparr>
    \<and> (case r of None \<Rightarrow> (\<forall>i. dot_pending s i \<noteq> None) | Some i \<Rightarrow> dot_pending s i = None \<and> dot_nextId s' = i + 1)"
proof -
  obtain n where n: "allocate_loop 65536 (dot_pending s) (dot_nextId s) = (r, n)" "s' = s\<lparr>dot_nextId := n\<rparr>"
    using assms by (auto simp: allocateId_def split: prod.splits)
  from allocate_loop_spec [OF n(1)] n(2) show ?thesis
    using all_ids [of "\<lambda>i. dot_pending s i \<noteq> None" "dot_nextId s"] by (cases r) auto
qed

section \<open>The invariant\<close>

definition running :: "dot_connection \<Rightarrow> nat \<Rightarrow> bool" where
  "running s k \<longleftrightarrow> (\<exists>c. dot_calls s k = Some c \<and> \<not> call_done c)"

text \<open>What holds at every moment, also inside a handler.\<close>

definition dot_ok :: "dot_connection \<Rightarrow> bool" where
  "dot_ok s \<longleftrightarrow>
     distinct (dot_inflight s) \<and> (\<forall>k. k \<in> set (dot_inflight s) \<longleftrightarrow> running s k)
   \<and> (\<forall>k c. dot_calls s k = Some c \<longrightarrow> k < length (dot_promises s) \<and> (call_timer c \<longleftrightarrow> \<not> call_done c)
        \<and> (call_cleanup c = None \<longleftrightarrow> call_originalId c = None))
   \<and> (\<forall>k < length (dot_promises s). dot_promises s ! k = Pending \<longrightarrow> running s k)
   \<and> (\<forall>i k. dot_pending s i = Some k \<longleftrightarrow> (\<exists>c. dot_calls s k = Some c \<and> \<not> call_done c \<and> call_cleanup c = Some i))
   \<and> (dot_idleTimer s \<longrightarrow> dot_inflight s = [] \<and> \<not> dot_ended s)"

lemma dot_okD:
  assumes "dot_ok s"
  shows "distinct (dot_inflight s)" "k \<in> set (dot_inflight s) \<longleftrightarrow> running s k"
    "dot_calls s k = Some c \<Longrightarrow> k < length (dot_promises s)"
    "dot_calls s k = Some c \<Longrightarrow> call_timer c \<longleftrightarrow> \<not> call_done c"
    "dot_calls s k = Some c \<Longrightarrow> call_cleanup c = None \<longleftrightarrow> call_originalId c = None"
    "k < length (dot_promises s) \<Longrightarrow> dot_promises s ! k = Pending \<Longrightarrow> running s k"
    "dot_pending s i = Some k \<longleftrightarrow> (\<exists>c. dot_calls s k = Some c \<and> \<not> call_done c \<and> call_cleanup c = Some i)"
    "dot_idleTimer s \<Longrightarrow> dot_inflight s = []" "dot_idleTimer s \<Longrightarrow> \<not> dot_ended s"
  using assms by (simp_all add: dot_ok_def)

lemma settle_fields [simp]:
  "dot_calls (settle k p s) = dot_calls s" "dot_pending (settle k p s) = dot_pending s"
  "dot_inflight (settle k p s) = dot_inflight s" "dot_idleTimer (settle k p s) = dot_idleTimer s"
  "dot_ended (settle k p s) = dot_ended s" "dot_open (settle k p s) = dot_open s"
  "dot_written (settle k p s) = dot_written s" "dot_queued (settle k p s) = dot_queued s"
  "dot_buf (settle k p s) = dot_buf s" "dot_destroyed (settle k p s) = dot_destroyed s"
  "length (dot_promises (settle k p s)) = length (dot_promises s)"
  by (simp_all add: settle_def)

lemma settle_nth:
  "p \<noteq> Pending \<Longrightarrow> j < length (dot_promises s) \<Longrightarrow>
     dot_promises (settle k p s) ! j = (if j = k \<and> dot_promises s ! k = Pending then p else dot_promises s ! j)"
  by (auto simp: settle_def nth_list_update)

lemma running_settle [simp]: "running (settle k p s) = running s"
  by (simp add: running_def fun_eq_iff)

lemma ok_settle: "dot_ok s \<Longrightarrow> p \<noteq> Pending \<Longrightarrow> dot_ok (settle k p s)"
  by (auto simp: dot_ok_def settle_nth split: if_splits)

lemma ok_finish:
  assumes "dot_ok s"
  shows "dot_ok (finish k r s)"
proof (cases "running s k")
  case False
  then have "finish k r s = s" by (auto simp: finish_def running_def split: option.splits)
  then show ?thesis using assms by simp
next
  case True
  then obtain c where c: "dot_calls s k = Some c" "\<not> call_done c" by (auto simp: running_def)
  define s1 where "s1 = s\<lparr>dot_calls := (dot_calls s)(k := Some (c\<lparr>call_done := True, call_timer := False\<rparr>)),
     dot_pending := (case call_cleanup c of None \<Rightarrow> dot_pending s | Some i \<Rightarrow> (dot_pending s)(i := None)),
     dot_inflight := filter (\<lambda>j. j \<noteq> k) (dot_inflight s)\<rparr>"
  let ?s2 = "settle k (Resolved r) s1"
  have f: "finish k r s = (if dot_inflight ?s2 = [] \<and> \<not> dot_ended ?s2 then ?s2\<lparr>dot_idleTimer := True\<rparr> else ?s2)"
    using c by (simp add: finish_def s1_def Let_def)
  have run: "running s1 j \<longleftrightarrow> running s j \<and> j \<noteq> k" for j by (auto simp: running_def s1_def)
  have P: "dot_pending s i = Some j \<longleftrightarrow> (\<exists>c. dot_calls s j = Some c \<and> \<not> call_done c \<and> call_cleanup c = Some i)" for i j
    using assms by (simp add: dot_ok_def)
  have pend: "dot_pending s1 i = Some j \<longleftrightarrow> (\<exists>c. dot_calls s1 j = Some c \<and> \<not> call_done c \<and> call_cleanup c = Some i)" for i j
  proof (cases "j = k")
    case True
    then show ?thesis using P [of i k] c by (auto simp: s1_def split: option.splits)
  next
    case False
    then have "(\<exists>c. dot_calls s1 j = Some c \<and> \<not> call_done c \<and> call_cleanup c = Some i) \<longleftrightarrow> dot_pending s i = Some j"
      using P [of i j] by (simp add: s1_def)
    then show ?thesis using P [of i k] c False by (auto simp: s1_def split: option.splits)
  qed
  have prom: "dot_promises s1 = dot_promises s" "dot_inflight s1 = filter (\<lambda>j. j \<noteq> k) (dot_inflight s)"
      "dot_idleTimer s1 = dot_idleTimer s" "dot_ended s1 = dot_ended s" by (simp_all add: s1_def)
  have "dot_promises ?s2 ! j = Pending \<Longrightarrow> running s1 j" if "j < length (dot_promises s)" for j
    using assms that by (auto simp: settle_nth run prom dot_ok_def split: if_splits)
  moreover have "call_timer d \<longleftrightarrow> \<not> call_done d" "call_cleanup d = None \<longleftrightarrow> call_originalId d = None" "j < length (dot_promises s)"
      if "dot_calls s1 j = Some d" for j d
    using that assms c by (auto simp: s1_def dot_ok_def split: if_splits)
  ultimately have "dot_ok ?s2"
    using assms pend run by (simp add: dot_ok_def prom)
  then show ?thesis unfolding f by (auto simp: dot_ok_def running_def)
qed

lemma finish_fields [simp]:
  "dot_ended (finish k r s) = dot_ended s" "dot_open (finish k r s) = dot_open s" "dot_buf (finish k r s) = dot_buf s"
  "dot_written (finish k r s) = dot_written s" "dot_queued (finish k r s) = dot_queued s"
  "dot_destroyed (finish k r s) = dot_destroyed s" "length (dot_promises (finish k r s)) = length (dot_promises s)"
  by (simp_all add: finish_def Let_def split: option.split)

lemma finish_inflight: "dot_ok s \<Longrightarrow> dot_inflight (finish k r s) = filter (\<lambda>j. j \<noteq> k) (dot_inflight s)"
proof -
  assume ok: "dot_ok s"
  then have "\<not> running s k \<Longrightarrow> filter (\<lambda>j. j \<noteq> k) (dot_inflight s) = dot_inflight s"
    by (auto simp: dot_ok_def filter_id_conv)
  then show ?thesis by (auto simp: finish_def Let_def running_def split: option.split)
qed

lemma finish_promise:
  "j < length (dot_promises s) \<Longrightarrow>
     dot_promises (finish k r s) ! j = (if j = k \<and> running s k \<and> dot_promises s ! k = Pending then Resolved r else dot_promises s ! j)"
  by (auto simp: finish_def Let_def running_def settle_nth split: option.split)

text \<open>A handler that loses no call keeps what identifies it.\<close>

lemma finish_calls:
  "dot_calls (finish k r s) j = (case dot_calls s j of
      None \<Rightarrow> None | Some c \<Rightarrow> Some (if j = k \<and> \<not> call_done c then c\<lparr>call_done := True, call_timer := False\<rparr> else c))"
  by (auto simp: finish_def Let_def split: option.split)

lemma ok_fold_finish: "dot_ok s \<Longrightarrow> dot_ok (fold (\<lambda>k. finish k r) ks s)"
  by (induction ks arbitrary: s) (auto intro: ok_finish)

lemma fold_finish_inflight:
  "dot_ok s \<Longrightarrow> dot_inflight (fold (\<lambda>k. finish k r) ks s) = filter (\<lambda>j. j \<notin> set ks) (dot_inflight s)"
  by (induction ks arbitrary: s) (auto simp: ok_finish finish_inflight intro: filter_cong)

lemma fold_finish_fields [simp]:
  "dot_ended (fold (\<lambda>k. finish k r) ks s) = dot_ended s" "dot_buf (fold (\<lambda>k. finish k r) ks s) = dot_buf s"
  "dot_written (fold (\<lambda>k. finish k r) ks s) = dot_written s" "dot_queued (fold (\<lambda>k. finish k r) ks s) = dot_queued s"
  "length (dot_promises (fold (\<lambda>k. finish k r) ks s)) = length (dot_promises s)"
  by (induction ks arbitrary: s) auto

lemma ok_frame:
  "dot_calls s' = dot_calls s \<Longrightarrow> dot_pending s' = dot_pending s \<Longrightarrow> dot_inflight s' = dot_inflight s \<Longrightarrow>
   dot_promises s' = dot_promises s \<Longrightarrow> (dot_idleTimer s' \<Longrightarrow> dot_idleTimer s \<and> \<not> dot_ended s') \<Longrightarrow> dot_ok s \<Longrightarrow> dot_ok s'"
  by (auto simp: dot_ok_def running_def)

lemma end_folds: "\<exists>kind e. end_connection s = (if dot_ended s then s
    else fold (\<lambda>k. finish k (Failed kind e)) (dot_inflight s) (s\<lparr>dot_ended := True, dot_idleTimer := False\<rparr>))"
  unfolding end_connection_def Let_def case_prod_beta by auto

lemma end_ok:
  assumes "dot_ok s" "dot_ended s \<longrightarrow> dot_inflight s = []"
  shows "dot_ok (end_connection s) \<and> dot_ended (end_connection s) \<and> dot_inflight (end_connection s) = []"
proof (cases "dot_ended s")
  case False
  let ?s = "s\<lparr>dot_ended := True, dot_idleTimer := False\<rparr>"
  have ok: "dot_ok ?s" by (rule ok_frame [of _ s]) (use assms in simp_all)
  obtain kind e where "end_connection s = fold (\<lambda>k. finish k (Failed kind e)) (dot_inflight s) ?s"
    using False end_folds [of s] by auto
  then show ?thesis using ok_fold_finish [OF ok] fold_finish_inflight [OF ok] by simp
qed (use assms in \<open>simp add: end_connection_def\<close>)

lemma ok_deliver: "dot_ok s \<Longrightarrow> dot_ok (deliver m s)"
  by (auto simp: deliver_def ok_finish split: option.split)

lemma deliver_fields [simp]:
  "dot_ended (deliver m s) = dot_ended s" "dot_buf (deliver m s) = dot_buf s"
  "dot_written (deliver m s) = dot_written s" "dot_queued (deliver m s) = dot_queued s"
  "length (dot_promises (deliver m s)) = length (dot_promises s)"
  by (auto simp: deliver_def split: option.split)

lemma deliver_inflight: "dot_ok s \<Longrightarrow> set (dot_inflight (deliver m s)) \<subseteq> set (dot_inflight s)"
  by (auto simp: deliver_def finish_inflight split: option.splits)

lemma ok_deliver_all:
  "dot_ok s \<Longrightarrow> dot_ok (fold deliver ms s) \<and> set (dot_inflight (fold deliver ms s)) \<subseteq> set (dot_inflight s)
     \<and> dot_ended (fold deliver ms s) = dot_ended s \<and> dot_buf (fold deliver ms s) = dot_buf s
     \<and> dot_written (fold deliver ms s) = dot_written s \<and> dot_queued (fold deliver ms s) = dot_queued s"
proof (induction ms arbitrary: s)
  case (Cons m ms)
  from Cons.IH [OF ok_deliver [OF Cons.prems, of m]] deliver_inflight [OF Cons.prems, of m] show ?case by auto
qed simp

lemma set_opt: "set (case x of None \<Rightarrow> [] | Some f \<Rightarrow> [f]) = set_option x"
  by (cases x) simp_all

lemma send_cases:
  assumes "dot_ok s"
  defines "k \<equiv> length (dot_promises s)"
  obtains (full) s' where "send q s = s'" "\<forall>i. dot_pending s i \<noteq> None" "dot_ok s'" "dot_inflight s' = dot_inflight s"
      "dot_calls s' = dot_calls s" "dot_written s' = dot_written s" "dot_queued s' = dot_queued s" "dot_buf s' = dot_buf s"
      "dot_promises s' = dot_promises s @ [Resolved (Failed FAIL_CLOSED ''no free query id'')]" "dot_ended s' = dot_ended s"
    | (sent) s' i p w where "send q s = s'" "dot_pending s i = None" "dot_ok s'" "dot_ended s' = dot_ended s" "dot_buf s' = dot_buf s"
      "dot_promises s' = dot_promises s @ [p]" "p = Pending \<or> p = Rejected"
      "set (dot_written s') \<union> set (dot_queued s') = set (dot_written s) \<union> set (dot_queued s) \<union> w"
      "w = set_option (Option.bind (writeUInt16BE q (unat i) 0) frameTcpMessage)"
      "dot_calls s' = (dot_calls s)(k \<mapsto> \<lparr>call_done = False, call_timer = True, call_originalId = readUInt16BE q 0,
         call_cleanup = (if readUInt16BE q 0 = None then None else Some i)\<rparr>)"
proof -
  let ?s0 = "s\<lparr>dot_promises := dot_promises s @ [Pending]\<rparr>"
  obtain r s1 where a: "allocateId ?s0 = (r, s1)" by fastforce
  note spec = allocateId_spec [OF a]
  define n where "n = dot_nextId s1"
  have s1: "s1 = ?s0\<lparr>dot_nextId := n\<rparr>" using spec by (simp add: n_def)
  have new: "dot_calls s k = None" using dot_okD(3) [OF assms(1), of k] by (cases "dot_calls s k") (auto simp: k_def)
  show thesis
  proof (cases r)
    case None
    define s' where "s' = settle k (Resolved (Failed FAIL_CLOSED ''no free query id'')) s1"
    have s': "s' = s1\<lparr>dot_promises := dot_promises s @ [Resolved (Failed FAIL_CLOSED ''no free query id'')]\<rparr>"
      by (simp add: s'_def settle_def s1 k_def)
    have "dot_ok s'" using assms(1) by (auto simp: s' s1 dot_ok_def running_def nth_append intro: less_SucI)
    moreover have "send q s = s'" using a None by (simp add: send_def s'_def k_def)
    ultimately show thesis using full [of s'] spec None by (simp add: s' s1)
  next
    case (Some i)
    let ?o = "readUInt16BE q 0" and ?f = "Option.bind (writeUInt16BE q (unat i) 0) frameTcpMessage"
    define call where "call = \<lparr>call_done = False, call_timer = True, call_originalId = ?o,
         call_cleanup = (if ?o = None then None else Some i)\<rparr>"
    define p where "p = (if ?o = None \<or> ?f = None then Rejected else Pending)"
    define s' where "s' = s\<lparr>dot_promises := dot_promises s @ [p], dot_nextId := n, dot_idleTimer := False,
       dot_calls := (dot_calls s)(k \<mapsto> call), dot_inflight := dot_inflight s @ [k],
       dot_pending := (if ?o = None then dot_pending s else (dot_pending s)(i \<mapsto> k)),
       dot_written := dot_written s @ (if dot_open s then (case ?f of None \<Rightarrow> [] | Some f \<Rightarrow> [f]) else []),
       dot_queued := dot_queued s @ (if dot_open s then [] else (case ?f of None \<Rightarrow> [] | Some f \<Rightarrow> [f]))\<rparr>"
    have f: "?o = None \<Longrightarrow> ?f = None" by (simp add: readUInt16BE_def writeUInt16BE_def split: if_splits)
    have send: "send q s = s'"
    proof -
      have base: "send q s = (let s2 = begin_call k s1 in
          case ?o of None \<Rightarrow> settle k Rejected s2
          | Some orig \<Rightarrow> let s3 = s2\<lparr>dot_calls := (dot_calls s2)(k := map_option (\<lambda>c. c\<lparr>call_originalId := Some orig, call_cleanup := Some i\<rparr>)
              (dot_calls s2 k)), dot_pending := (dot_pending s2)(i := Some k)\<rparr> in
              case ?f of None \<Rightarrow> settle k Rejected s3
              | Some frame \<Rightarrow> if dot_open s3 then s3\<lparr>dot_written := dot_written s3 @ [frame]\<rparr>
                  else s3\<lparr>dot_queued := dot_queued s3 @ [frame]\<rparr>)"
        unfolding send_def Let_def k_def [symmetric] a Some by simp
      show ?thesis
      proof (cases ?o)
        case None
        show ?thesis
          unfolding base s'_def p_def call_def Let_def None f [OF None] s1 by (simp add: begin_call_def settle_def k_def)
      next
        case o: (Some orig)
        show ?thesis
        proof (cases ?f)
          case None
          show ?thesis unfolding base s'_def p_def call_def Let_def None o s1 by (simp add: begin_call_def settle_def k_def)
        next
          case (Some frame)
          show ?thesis unfolding base s'_def p_def call_def Let_def Some o s1 by (simp add: begin_call_def k_def)
        qed
      qed
    qed
    have free: "dot_pending s i = None" using spec Some by simp
    have run: "running s' j \<longleftrightarrow> running s j \<or> j = k" for j by (auto simp: running_def s'_def call_def)
    have "dot_pending s' x = Some j \<longleftrightarrow> (\<exists>c. dot_calls s' j = Some c \<and> \<not> call_done c \<and> call_cleanup c = Some x)" for x j
      using dot_okD(7) [OF assms(1), of x j] dot_okD(7) [OF assms(1), of i j] free new
      by (auto simp: s'_def call_def)
    moreover have "j < Suc (length (dot_promises s)) \<and> (call_timer c \<longleftrightarrow> \<not> call_done c) \<and> (call_cleanup c = None \<longleftrightarrow> call_originalId c = None)"
      if "dot_calls s' j = Some c" for j c
      using that dot_okD(3-5) [OF assms(1), of j c] by (auto simp: s'_def call_def k_def split: if_splits)
    moreover have "running s' j" if "j < Suc (length (dot_promises s))" "(dot_promises s @ [p]) ! j = Pending" for j
      using that dot_okD(6) [OF assms(1), of j] by (auto simp: run k_def nth_append less_Suc_eq)
    moreover have "k \<notin> set (dot_inflight s)" using dot_okD(2) [OF assms(1), of k] new by (simp add: running_def)
    ultimately have "dot_ok s'"
      unfolding dot_ok_def using dot_okD(1,2) [OF assms(1)] by (auto simp: run) (auto simp: s'_def, blast)
    then show thesis
    proof (intro sent [OF send free])
      show "set (dot_written s') \<union> set (dot_queued s') = set (dot_written s) \<union> set (dot_queued s) \<union> set_option ?f"
        unfolding s'_def using set_opt [of ?f] by (cases "dot_open s") (simp_all add: Un_ac)
      show "dot_promises s' = dot_promises s @ [p]" "p = Pending \<or> p = Rejected" by (simp_all add: s'_def p_def)
    qed (simp_all add: s'_def call_def)
  qed
qed

section \<open>Queries and replies along a run\<close>

definition sends :: "dot_event list \<Rightarrow> bytes list" where
  "sends es = List.map_filter (\<lambda>e. case e of Send q \<Rightarrow> Some q | _ \<Rightarrow> None) es"

definition received :: "dot_event list \<Rightarrow> bytes" where
  "received es = concat (List.map_filter (\<lambda>e. case e of Data c \<Rightarrow> Some c | _ \<Rightarrow> None) es)"

text \<open>A query under a wire id, framed for the stream.\<close>

definition on_wire :: "bytes \<Rightarrow> 16 word \<Rightarrow> bytes option" where
  "on_wire q i = Option.bind (writeUInt16BE q (unat i) 0) frameTcpMessage"

text \<open>Calls belong to the queries \<open>Q\<close>, answers to a message among \<open>M\<close> that carried the wire id of the
  call, with the id of the query put back.\<close>

definition matched :: "bytes list \<Rightarrow> bytes set \<Rightarrow> dot_connection \<Rightarrow> bool" where
  "matched Q M s \<longleftrightarrow>
     length (dot_promises s) = length Q
   \<and> (\<forall>k c i. dot_calls s k = Some c \<and> call_cleanup c = Some i \<longrightarrow>
        call_originalId c = readUInt16BE (Q ! k) 0 \<and> set_option (on_wire (Q ! k) i) \<subseteq> set (dot_written s) \<union> set (dot_queued s))
   \<and> (\<forall>k r. k < length Q \<and> dot_promises s ! k = Resolved (Response r) \<longrightarrow>
        (\<exists>c i m. dot_calls s k = Some c \<and> call_cleanup c = Some i \<and> m \<in> M \<and> readUInt16BE m 0 = Some (unat i)
           \<and> r = take 2 (Q ! k) @ drop 2 m))"

lemma matchedD:
  assumes "matched Q M s"
  shows "length (dot_promises s) = length Q"
    "dot_calls s k = Some c \<Longrightarrow> call_cleanup c = Some i \<Longrightarrow> call_originalId c = readUInt16BE (Q ! k) 0"
    "dot_calls s k = Some c \<Longrightarrow> call_cleanup c = Some i \<Longrightarrow> set_option (on_wire (Q ! k) i) \<subseteq> set (dot_written s) \<union> set (dot_queued s)"
    "k < length Q \<Longrightarrow> dot_promises s ! k = Resolved (Response r) \<Longrightarrow> \<exists>c i m. dot_calls s k = Some c \<and> call_cleanup c = Some i
       \<and> m \<in> M \<and> readUInt16BE m 0 = Some (unat i) \<and> r = take 2 (Q ! k) @ drop 2 m"
  using assms unfolding matched_def by blast+

lemma matched_mono: "matched Q M s \<Longrightarrow> M \<subseteq> N \<Longrightarrow> matched Q N s"
  unfolding matched_def by blast

lemma matched_frame:
  "matched Q M s \<Longrightarrow> dot_calls s' = dot_calls s \<Longrightarrow> dot_promises s' = dot_promises s \<Longrightarrow>
   set (dot_written s) \<union> set (dot_queued s) \<subseteq> set (dot_written s') \<union> set (dot_queued s') \<Longrightarrow> matched Q M s'"
  unfolding matched_def by (simp, blast)

lemma matched_finish:
  assumes "matched Q M s" "k < length Q"
    and "\<And>a. r = Response a \<Longrightarrow> running s k \<Longrightarrow> \<exists>c i m. dot_calls s k = Some c \<and> call_cleanup c = Some i \<and> m \<in> M
           \<and> readUInt16BE m 0 = Some (unat i) \<and> a = take 2 (Q ! k) @ drop 2 m"
  shows "matched Q M (finish k r s)"
proof -
  have call: "\<exists>c. dot_calls s j = Some c \<and> call_cleanup c = call_cleanup d \<and> call_originalId c = call_originalId d"
    if "dot_calls (finish k r s) j = Some d" for j d
    using that by (auto simp: finish_calls split: option.splits if_splits)
  have call': "\<exists>d. dot_calls (finish k r s) j = Some d \<and> call_cleanup d = call_cleanup c" if "dot_calls s j = Some c" for j c
    using that by (auto simp: finish_calls)
  have len: "length (dot_promises s) = length Q" using assms(1) by (simp add: matched_def)
  have old: "\<exists>c i m. dot_calls s j = Some c \<and> call_cleanup c = Some i \<and> m \<in> M \<and> readUInt16BE m 0 = Some (unat i)
      \<and> a = take 2 (Q ! j) @ drop 2 m" if "j < length Q" "dot_promises (finish k r s) ! j = Resolved (Response a)" for j a
    using that assms len by (auto simp: finish_promise matched_def split: if_splits)
  show ?thesis
    unfolding matched_def
  proof (intro conjI allI impI)
    fix j d i assume "dot_calls (finish k r s) j = Some d \<and> call_cleanup d = Some i"
    with call [of j d] assms(1) show "call_originalId d = readUInt16BE (Q ! j) 0"
      "set_option (on_wire (Q ! j) i) \<subseteq> set (dot_written (finish k r s)) \<union> set (dot_queued (finish k r s))"
      by (auto simp: matched_def)
  next
    fix j a assume "j < length Q \<and> dot_promises (finish k r s) ! j = Resolved (Response a)"
    with old [of j a] call' show "\<exists>c i m. dot_calls (finish k r s) j = Some c \<and> call_cleanup c = Some i \<and> m \<in> M
        \<and> readUInt16BE m 0 = Some (unat i) \<and> a = take 2 (Q ! j) @ drop 2 m" by metis
  qed (simp add: len)
qed

lemma unat_of_nat_16: "n \<le> 65535 \<Longrightarrow> unat (of_nat n :: 16 word) = n"
  by (simp add: unat_of_nat)

lemma matched_deliver:
  assumes ok: "dot_ok s" and m: "matched Q M s" "m \<in> M"
  shows "matched Q M (deliver m s)"
proof -
  have "matched Q M (finish k (Response a) s)"
    if n: "readUInt16BE m 0 = Some n" and p: "dot_pending s (of_nat n) = Some k"
      and c: "dot_calls s k = Some c" "call_originalId c = Some orig" and w: "writeUInt16BE m orig 0 = Some a" for n k c orig a
  proof (rule matched_finish [OF m(1)])
    show "k < length Q" using dot_okD(3) [OF ok c(1)] m(1) by (simp add: matched_def)
    have i: "call_cleanup c = Some (of_nat n)" using p c(1) dot_okD(7) [OF ok] by auto
    then have "readUInt16BE (Q ! k) 0 = Some orig" using m(1) c by (simp add: matched_def)
    then have "a = take 2 (Q ! k) @ drop 2 m" using w write_bytes by (auto simp: writeUInt16BE_def numeral_2_eq_2 split: if_splits)
    then show "\<exists>c i m. dot_calls s k = Some c \<and> call_cleanup c = Some i \<and> m \<in> M
           \<and> readUInt16BE m 0 = Some (unat i) \<and> b = take 2 (Q ! k) @ drop 2 m" if "Response a = Response b" for b
      using that c(1) i m(2) n unat_of_nat_16 [OF readUInt16BE_le [OF n]] by auto
  qed
  then show ?thesis using m(1) by (auto simp: deliver_def bind_eq_Some_conv split: option.split)
qed

lemma matched_deliver_all: "dot_ok s \<Longrightarrow> matched Q M s \<Longrightarrow> set ms \<subseteq> M \<Longrightarrow> matched Q M (fold deliver ms s)"
  by (induction ms arbitrary: s) (auto intro: matched_deliver ok_deliver)

lemma matched_fold_finish:
  "matched Q M s \<Longrightarrow> \<forall>k \<in> set ks. k < length Q \<Longrightarrow> matched Q M (fold (\<lambda>k. finish k (Failed kind e)) ks s)"
  by (induction ks arbitrary: s) (auto intro: matched_finish)

lemma matched_send:
  assumes "dot_ok s" "matched Q M s"
  shows "matched (Q @ [q]) M (send q s)"
proof -
  have len: "length (dot_promises s) = length Q" using assms(2) by (simp add: matched_def)
  have calls: "k < length Q" if "dot_calls s k = Some c" for k c using dot_okD(3) [OF assms(1) that] len by simp
  from assms(1) show ?thesis
  proof (cases rule: send_cases [where q = q])
    case (full s')
    have "call_originalId c = readUInt16BE ((Q @ [q]) ! k) 0
        \<and> set_option (on_wire ((Q @ [q]) ! k) j) \<subseteq> set (dot_written s) \<union> set (dot_queued s)"
      if "dot_calls s k = Some c" "call_cleanup c = Some j" for k c j
      using matchedD(2,3) [OF assms(2) that] calls [OF that(1)] by (simp add: nth_append)
    moreover have "\<exists>c i m. dot_calls s k = Some c \<and> call_cleanup c = Some i \<and> m \<in> M \<and> readUInt16BE m 0 = Some (unat i)
           \<and> r = take 2 ((Q @ [q]) ! k) @ drop 2 m"
      if r: "k < Suc (length Q)" "(dot_promises s @ [Resolved (Failed FAIL_CLOSED ''no free query id'')]) ! k = Resolved (Response r)" for k r
      using r matchedD(4) [OF assms(2), of k r] len by (auto simp: nth_append less_Suc_eq)
    ultimately show ?thesis unfolding matched_def full(1,5-9) using len by simp
  next
    case (sent s' i p w)
    have "call_originalId c = readUInt16BE ((Q @ [q]) ! k) 0
        \<and> set_option (on_wire ((Q @ [q]) ! k) j) \<subseteq> set (dot_written s') \<union> set (dot_queued s')"
      if c: "dot_calls s' k = Some c" "call_cleanup c = Some j" for k c j
    proof (cases "k = length Q")
      case True
      then have "j = i" using c sent(10) len by (auto split: if_splits)
      then show ?thesis using c sent(8,9,10) True len by (auto simp: on_wire_def)
    next
      case False
      then have "dot_calls s k = Some c" using c sent(10) len by simp
      then show ?thesis using matchedD(2,3) [OF assms(2) _ c(2)] calls [of k c] sent(8) by (auto simp: nth_append)
    qed
    moreover have "\<exists>c i m. dot_calls s' k = Some c \<and> call_cleanup c = Some i \<and> m \<in> M \<and> readUInt16BE m 0 = Some (unat i)
           \<and> r = take 2 ((Q @ [q]) ! k) @ drop 2 m" if r: "k < Suc (length Q)" "dot_promises s' ! k = Resolved (Response r)" for k r
    proof (cases "k = length Q")
      case True
      then show ?thesis using r sent(6,7) len by (auto simp: nth_append)
    next
      case False
      then show ?thesis using r sent(6,10) len matchedD(4) [OF assms(2), of k r] by (auto simp: nth_append)
    qed
    ultimately show ?thesis using sent(1,6) len by (simp add: matched_def)
  qed
qed

definition dot_trace :: "dot_event list \<Rightarrow> dot_connection \<Rightarrow> bool" where
  "dot_trace es s \<longleftrightarrow> dot_ok s \<and> (dot_ended s \<longrightarrow> dot_inflight s = [])
     \<and> dot_buf s = snd (take_messages (received es)) \<and> matched (sends es) (set (fst (take_messages (received es)))) s"

lemma sends_snoc: "sends (es @ [e]) = sends es @ (case e of Send q \<Rightarrow> [q] | _ \<Rightarrow> [])"
  by (simp add: sends_def map_filter_def split: dot_event.split)

lemma received_snoc: "received (es @ [e]) = received es @ (case e of Data c \<Rightarrow> c | _ \<Rightarrow> [])"
  by (simp add: received_def map_filter_def split: dot_event.split)

lemma trace_start: "dot_trace [] (new_dot n)"
  by (simp add: dot_trace_def dot_ok_def running_def matched_def new_dot_def sends_def received_def map_filter_def
      take_incomplete)

lemma trace_data:
  assumes "dot_trace es s"
  shows "dot_trace (es @ [Data chunk]) (onData chunk s)"
proof -
  obtain ms where t: "take_messages (received es) = (ms, dot_buf s)" using assms by (metis dot_trace_def prod.collapse)
  obtain ns left where u: "take_messages (dot_buf s @ chunk) = (ns, left)" by fastforce
  have all: "take_messages (received es @ chunk) = (ms @ ns, left)" using take_append [OF t, of chunk] u by simp
  let ?s = "s\<lparr>dot_buf := left\<rparr>"
  have "dot_ok s" using assms by (simp add: dot_trace_def)
  then have ok: "dot_ok ?s" by (intro ok_frame [where s = s and s' = ?s, OF _ _ _ _ _ \<open>dot_ok s\<close>]) (simp_all add: dot_okD(9))
  have "matched (sends es) (set ms) ?s" by (rule matched_frame [of _ _ s]) (use assms t in \<open>simp_all add: dot_trace_def\<close>)
  then have m: "matched (sends es) (set (ms @ ns)) (fold deliver ns ?s)"
    using matched_deliver_all [OF ok matched_mono, of "sends es" "set ms" "set (ms @ ns)" ns] by simp
  have "onData chunk s = fold deliver ns ?s" using u by (simp add: onData_def extract_take)
  moreover have "dot_inflight s = [] \<Longrightarrow> dot_inflight (fold deliver ns ?s) = []" using ok_deliver_all [OF ok, of ns] by auto
  ultimately show ?thesis
    using assms m all ok_deliver_all [OF ok, of ns] by (simp add: dot_trace_def sends_snoc received_snoc)
qed

lemma trace_event:
  assumes "dot_trace es s" "dot_allowed e s"
  shows "dot_trace (es @ [e]) (dot_handle e s)"
proof -
  from assms(1) have ok: "dot_ok s" "dot_ended s \<longrightarrow> dot_inflight s = []" and buf: "dot_buf s = snd (take_messages (received es))"
    and m: "matched (sends es) (set (fst (take_messages (received es)))) s" by (simp_all add: dot_trace_def)
  have flight: "\<forall>k \<in> set (dot_inflight s). k < length (sends es)"
    using dot_okD(2,3) [OF ok(1)] m by (auto simp: running_def matched_def)
  have same: "dot_trace (es @ [e]) s'" if "dot_ok s'" "dot_ended s' \<longrightarrow> dot_inflight s' = []" "dot_buf s' = dot_buf s"
      "matched (sends es) (set (fst (take_messages (received es)))) s'" "\<And>q. e \<noteq> Send q" "\<And>c. e \<noteq> Data c" for s'
    using that buf by (cases e) (auto simp: dot_trace_def sends_snoc received_snoc)
  have frame: "dot_trace (es @ [e]) s'" if "dot_calls s' = dot_calls s" "dot_pending s' = dot_pending s" "dot_inflight s' = dot_inflight s"
      "dot_promises s' = dot_promises s" "dot_idleTimer s' \<Longrightarrow> dot_idleTimer s" "dot_ended s' = dot_ended s" "dot_buf s' = dot_buf s"
      "set (dot_written s) \<union> set (dot_queued s) \<subseteq> set (dot_written s') \<union> set (dot_queued s')" "\<And>q. e \<noteq> Send q" "\<And>c. e \<noteq> Data c" for s'
    by (rule same [OF ok_frame [OF that(1-4) _ ok(1)] _ _ matched_frame [OF m that(1,4,8)]])
       (use that ok dot_okD(9) [OF ok(1)] in auto)
  show ?thesis
  proof (cases e)
    case (Send q)
    from ok(1) have "dot_ok (send q s)" "dot_ended (send q s) = dot_ended s" "dot_buf (send q s) = dot_buf s"
      by (cases rule: send_cases [where q = q]; simp)+
    then show ?thesis
      using matched_send [OF ok(1) m, of q] assms(2) buf
      by (simp add: Send dot_trace_def sends_snoc received_snoc dot_usable_def)
  next
    case (Data chunk)
    then show ?thesis using trace_data [OF assms(1)] by simp
  next
    case SocketClose
    obtain kind err s1 where s1: "s1 = s\<lparr>dot_ended := True, dot_idleTimer := False\<rparr>"
      "end_connection s = (if dot_ended s then s else fold (\<lambda>k. finish k (Failed kind err)) (dot_inflight s) s1)"
      using end_folds [of s] by blast
    have "matched (sends es) (set (fst (take_messages (received es)))) (end_connection s)"
      using m matched_fold_finish [OF matched_frame [OF m] flight] by (simp add: s1)
    then show ?thesis using end_ok [OF ok] SocketClose by (intro same) (auto simp: s1)
  next
    case (CallTimer k)
    then have k: "k < length (sends es)" using assms(2) dot_okD(3) [OF ok(1)] m by (auto simp: matched_def split: option.splits)
    let ?s = "finish k (Failed FAIL_TIMEOUT ''DoT timeout'') s"
    have "dot_ok (close_dot ?s)" by (rule ok_frame [OF _ _ _ _ _ ok_finish [OF ok(1)]])
       (use dot_okD(9) [OF ok_finish [OF ok(1)]] in \<open>auto simp: close_dot_def\<close>)
    moreover have "matched (sends es) (set (fst (take_messages (received es)))) (close_dot ?s)"
      by (rule matched_frame [OF matched_finish [OF m k]]) (simp_all add: close_dot_def)
    ultimately show ?thesis
      using ok finish_inflight [OF ok(1)] by (intro same) (auto simp: CallTimer call_timeout_def close_dot_def)
  next
    case (SecureConnect x)
    show ?thesis by (rule frame) (auto simp: SecureConnect secure_connect_def close_dot_def split: option.splits)
  next
    case (SocketError x)
    show ?thesis by (rule frame) (auto simp: SocketError failed_def)
  next
    case IdleTimer
    show ?thesis by (rule frame) (auto simp: IdleTimer close_dot_def)
  qed
qed

interpretation dot: traced_machine dot_allowed dot_handle "new_dot n" dot_trace for n
  by unfold_locales (auto intro: trace_start trace_event)

lemma length_end: "length (dot_promises (end_connection s)) = length (dot_promises s)"
  using end_folds [of s] by (auto split: if_splits)

lemma fold_stays:
  assumes "\<And>x s. length (dot_promises (g x s)) = length (dot_promises s)"
    and "\<And>x s. k < length (dot_promises s) \<Longrightarrow> dot_promises s ! k \<noteq> Pending \<Longrightarrow> dot_promises (g x s) ! k = dot_promises s ! k"
    and "k < length (dot_promises s)" "dot_promises s ! k \<noteq> Pending"
  shows "dot_promises (fold g xs s) ! k = dot_promises s ! k"
  using assms(3,4) by (induction xs arbitrary: s) (simp_all add: assms(1,2))

lemma allocateId_promises: "allocateId s = (r, s') \<Longrightarrow> dot_promises s' = dot_promises s"
  by (auto simp: allocateId_def split: prod.splits)

lemma promise_stays:
  assumes "k < length (dot_promises s)" "dot_promises s ! k \<noteq> Pending"
  shows "dot_promises (dot_handle e s) ! k = dot_promises s ! k"
proof (cases e)
  case (Send q)
  have "\<exists>xs. dot_promises (send q s) = dot_promises s @ xs"
    by (cases "allocateId (s\<lparr>dot_promises := dot_promises s @ [Pending]\<rparr>)")
       (auto simp: send_def Let_def begin_call_def settle_def list_update_append dest!: allocateId_promises split: option.split)
  then show ?thesis using assms Send by (auto simp: nth_append)
next
  case (Data c)
  have "dot_promises (deliver m t) ! k = dot_promises t ! k" if "k < length (dot_promises t)" "dot_promises t ! k \<noteq> Pending" for m t
    using that by (auto simp: deliver_def finish_promise split: option.split)
  from fold_stays [where g = deliver, OF _ this] assms show ?thesis by (auto simp: Data onData_def split: prod.split)
next
  case SocketClose
  have "dot_promises (finish j r t) ! k = dot_promises t ! k" if "k < length (dot_promises t)" "dot_promises t ! k \<noteq> Pending" for j r t
    using that by (auto simp: finish_promise)
  from fold_stays [where g = "\<lambda>j. finish j r" for r, OF _ this] end_folds [of s] assms show ?thesis by (auto simp: SocketClose split: if_splits)
qed (use assms in \<open>auto simp: secure_connect_def failed_def close_dot_def call_timeout_def finish_promise split: option.split\<close>)

section \<open>What a connection promises\<close>

text \<open>C4. Replies are matched to their queries. However queries, chunks of the stream, errors and timers
  interleave on a DNS-over-TLS connection, an answer resolved for a query is a message the server
  sent under the wire id the query was written to the stream with, and carries the query's own id
  again. Two queries in flight never share a wire id, and a query is refused for want of an id only
  when all 65536 are in use.\<close>

theorem dot_replies_matched:
  assumes "run dot_allowed dot_handle (new_dot n) es s"
  shows "(\<forall>k r. k < length (sends es) \<and> dot_promises s ! k = Resolved (Response r) \<longrightarrow>
           (\<exists>i m. m \<in> set (fst (extractTcpMessages (received es))) \<and> readUInt16BE m 0 = Some (unat i)
              \<and> r = take 2 (sends es ! k) @ drop 2 m
              \<and> set_option (on_wire (sends es ! k) i) \<subseteq> set (dot_written s) \<union> set (dot_queued s)))
    \<and> (\<forall>j k c d i. dot_calls s j = Some c \<and> dot_calls s k = Some d \<and> \<not> call_done c \<and> \<not> call_done d
          \<and> call_cleanup c = Some i \<and> call_cleanup d = Some i \<longrightarrow> j = k)
    \<and> (case fst (allocateId s) of
         None \<Rightarrow> \<forall>i. \<exists>k c. dot_calls s k = Some c \<and> \<not> call_done c \<and> call_cleanup c = Some i
       | Some i \<Rightarrow> \<forall>k c. dot_calls s k = Some c \<and> \<not> call_done c \<longrightarrow> call_cleanup c \<noteq> Some i)"
proof -
  have t: "dot_ok s" "matched (sends es) (set (fst (take_messages (received es)))) s"
    using dot.run_inv [OF assms] by (simp_all add: dot_trace_def)
  note P = dot_okD(7) [OF t(1)]
  have "\<exists>i m. m \<in> set (fst (extractTcpMessages (received es))) \<and> readUInt16BE m 0 = Some (unat i)
      \<and> r = take 2 (sends es ! k) @ drop 2 m
      \<and> set_option (on_wire (sends es ! k) i) \<subseteq> set (dot_written s) \<union> set (dot_queued s)"
    if "k < length (sends es)" "dot_promises s ! k = Resolved (Response r)" for k r
    using matchedD(4) [OF t(2) that] matchedD(3) [OF t(2)] unfolding extract_take by metis
  moreover have "j = k" if "dot_calls s j = Some c" "dot_calls s k = Some d" "\<not> call_done c" "\<not> call_done d"
      "call_cleanup c = Some i" "call_cleanup d = Some i" for j k c d i
    using that P [of i j] P [of i k] by auto
  moreover have "case fst (allocateId s) of
         None \<Rightarrow> \<forall>i. \<exists>k c. dot_calls s k = Some c \<and> \<not> call_done c \<and> call_cleanup c = Some i
       | Some i \<Rightarrow> \<forall>k c. dot_calls s k = Some c \<and> \<not> call_done c \<longrightarrow> call_cleanup c \<noteq> Some i"
  proof (cases "allocateId s")
    case (Pair r s')
    show ?thesis
    proof (cases r)
      case None
      have "\<forall>i. \<exists>k. dot_pending s i = Some k" using allocateId_spec [OF Pair] None by auto
      then show ?thesis using P Pair None by simp
    next
      case (Some i)
      have "dot_pending s i \<noteq> Some k" for k using allocateId_spec [OF Pair] Some by simp
      then show ?thesis using P Pair Some by auto
    qed
  qed
  ultimately show ?thesis by blast
qed

theorem dot_replies_matched_witness:
  "let es = [SecureConnect None, Send [18, 52, 9], Data [0, 3, 0], Data [5, 7]]; s = fold dot_handle es (new_dot 5) in
     dot_promises s = [Resolved (Response [18, 52, 7])]
   \<and> (\<exists>i m. m \<in> set (fst (extractTcpMessages (received es))) \<and> readUInt16BE m 0 = Some (unat (i :: 16 word))
        \<and> [18, 52, 7] = take 2 (sends es ! 0) @ drop 2 m)"
proof -
  define es where "es = [SecureConnect None, Send [18, 52, 9], Data [0, 3, 0], Data [5, 7]]"
  define s where "s = fold dot_handle es (new_dot 5)"
  have "legal dot_allowed dot_handle (new_dot 5) es" unfolding es_def by code_simp
  then have r: "run dot_allowed dot_handle (new_dot 5) es s" unfolding s_def by (rule run_from_start)
  have p: "dot_promises s = [Resolved (Response [18, 52, 7])]" unfolding s_def es_def by code_simp
  have "length (sends es) = 1" unfolding es_def by code_simp
  then have "0 < length (sends es) \<and> dot_promises s ! 0 = Resolved (Response [18, 52, 7])" using p by simp
  then have "\<exists>i m. m \<in> set (fst (extractTcpMessages (received es))) \<and> readUInt16BE m 0 = Some (unat (i :: 16 word))
        \<and> [18, 52, 7] = take 2 (sends es ! 0) @ drop 2 m"
    using dot_replies_matched [OF r] by blast
  then show ?thesis using p unfolding Let_def es_def [symmetric] s_def [symmetric] by blast
qed

text \<open>C33. Every query on a DNS-over-TLS connection is settled. In every reachable state a query without
  a result has its timer running; when it fires the query fails as timed out and the socket is
  destroyed. When the socket closes, every query is settled, every timer is cleared and no wire id is
  taken; and no event changes a result once it is there.\<close>

theorem dot_queries_settle:
  assumes "run dot_allowed dot_handle (new_dot n) es s"
  shows "(\<forall>k < length (dot_promises s). dot_promises s ! k = Pending \<longrightarrow>
            dot_allowed (CallTimer k) s \<and> dot_destroyed (dot_handle (CallTimer k) s)
          \<and> dot_promises (dot_handle (CallTimer k) s) ! k = Resolved (Failed FAIL_TIMEOUT ''DoT timeout''))
    \<and> (\<forall>k < length (dot_promises s). dot_promises (dot_handle SocketClose s) ! k \<noteq> Pending)
    \<and> (\<forall>k c. dot_calls (dot_handle SocketClose s) k = Some c \<longrightarrow> \<not> call_timer c)
    \<and> \<not> dot_idleTimer (dot_handle SocketClose s) \<and> dot_pending (dot_handle SocketClose s) = Map.empty
    \<and> (\<forall>e k. k < length (dot_promises s) \<and> dot_promises s ! k \<noteq> Pending \<longrightarrow>
          dot_promises (dot_handle e s) ! k = dot_promises s ! k)"
proof -
  have ok: "dot_ok s" "dot_ended s \<longrightarrow> dot_inflight s = []" using dot.run_inv [OF assms] by (simp_all add: dot_trace_def)
  let ?c = "end_connection s"
  have c: "dot_ok ?c" "dot_ended ?c" "dot_inflight ?c = []" using end_ok [OF ok] by simp_all
  have idle: "\<not> running ?c k" for k using dot_okD(2) [OF c(1), of k] c(3) by simp
  have timer: "dot_allowed (CallTimer k) s" if "running s k" for k
    using that dot_okD(4) [OF ok(1)] by (auto simp: running_def)
  have "dot_promises ?c ! k \<noteq> Pending" if "k < length (dot_promises s)" for k
    using that dot_okD(6) [OF c(1), of k] idle [of k] by (auto simp: length_end)
  moreover have "\<not> call_timer d" if "dot_calls ?c k = Some d" for k d
    using dot_okD(4) [OF c(1) that] idle [of k] that by (auto simp: running_def)
  moreover have "dot_pending ?c = Map.empty"
  proof
    fix i show "dot_pending ?c i = None"
      using dot_okD(7) [OF c(1), of i] idle by (cases "dot_pending ?c i") (auto simp: running_def)
  qed
  ultimately show ?thesis
    using timer dot_okD(6) [OF ok(1)] dot_okD(9) [OF c(1)] c(2) promise_stays [of _ s]
    by (auto simp: call_timeout_def close_dot_def finish_promise)
qed

theorem dot_queries_settle_witness:
  "let s = fold dot_handle [Send [1, 2, 3]] (new_dot 65535) in
     dot_promises s = [Pending]
   \<and> dot_promises (dot_handle (CallTimer 0) s) ! 0 = Resolved (Failed FAIL_TIMEOUT ''DoT timeout'')
   \<and> dot_promises (dot_handle SocketClose s) ! 0 \<noteq> Pending"
proof -
  let ?s = "fold dot_handle [Send [1, 2, 3]] (new_dot 65535)"
  have "legal dot_allowed dot_handle (new_dot 65535) [Send [1, 2, 3]]" by code_simp
  then have r: "run dot_allowed dot_handle (new_dot 65535) [Send [1, 2, 3]] ?s" by (rule run_from_start)
  have p: "dot_promises ?s = [Pending]" by code_simp
  then have l: "0 < length (dot_promises ?s)" "dot_promises ?s ! 0 = Pending" by simp_all
  then show ?thesis using dot_queries_settle [OF r] p unfolding Let_def by blast
qed

end
