(* ===== verification/UpstreamPool.thy ===== *)
theory UpstreamPool
  imports DotConnection
begin

text \<open>
  The pool of encrypted connections to the forwarder's upstreams, \<open>createUpstreamPool\<close> of
  \<open>server/src/utils/upstream-pool.js\<close>: which connection a query is sent on, how often it is sent again,
  when the next address of the upstream is tried, and the time each attempt gets. The connections, the
  network and the clock are the environment of a query: a record of functions of the number of the
  attempt. What the pool does with them (sends and the callbacks \<open>onEvent\<close> and \<open>onError\<close>) is a log. The
  URL parser of the platform is a parameter.
\<close>

section \<open>State and environment\<close>

datatype protocol = Dot | Doh

datatype connection_kind = DotConnection | DohH2Connection | DohH1Connection

record pool_url =
  pu_hostname :: string
  pu_port :: string

record upstream =
  up_hostname :: "string option"
  up_addresses :: "string list"
  up_doh_url :: string

text \<open>\<open>env_usable n\<close> says whether the connection the pool holds for the address of attempt \<open>n\<close> is still usable,
  \<open>env_now n\<close> is the clock when it starts, \<open>env_send n\<close> how the send on a connection turns out.\<close>

record pool_env =
  env_now :: "nat \<Rightarrow> int"
  env_usable :: "nat \<Rightarrow> bool"
  env_send :: "nat \<Rightarrow> connection_kind \<Rightarrow> string \<Rightarrow> send_result"

datatype pool_event =
    Query string
  | Sent nat connection_kind string int
  | Result string string
  | GaveUp string "string option"

record pool =
  pool_connections :: "string \<Rightarrow> connection_kind option"
  pool_http1Only :: "string list"
  pool_attempts :: nat
  pool_log :: "pool_event list"

record pool_config =
  cfg_protocol :: protocol
  cfg_timeoutMs :: int
  cfg_port :: nat

definition CLOSED_RETRIES :: nat where "CLOSED_RETRIES = 2"

definition EVENT_FOR_FAIL :: "fail \<Rightarrow> string option" where
  "EVENT_FOR_FAIL f = (case f of
      FAIL_CLOSED \<Rightarrow> Some ''drop'' | FAIL_TIMEOUT \<Rightarrow> Some ''timeout'' | FAIL_CONNECT \<Rightarrow> Some ''connect_failed''
    | FAIL_HTTP \<Rightarrow> Some ''error_status'' | FAIL_DOWNGRADE \<Rightarrow> None)"

definition new_pool :: pool where
  "new_pool = \<lparr>pool_connections = Map.empty, pool_http1Only = [], pool_attempts = 0, pool_log = []\<rparr>"

section \<open>Connections\<close>

text \<open>\<open>upstream.hostname || url?.hostname\<close>; in the key an undefined name is the text \<open>undefined\<close>.\<close>

definition target :: "pool_config \<Rightarrow> string \<Rightarrow> upstream \<Rightarrow> pool_url option \<Rightarrow> string" where
  "target cfg address upstream url =
     (let hostname = (case up_hostname upstream of
                        Some h \<Rightarrow> if h = [] then map_option pu_hostname url else Some h
                      | None \<Rightarrow> map_option pu_hostname url);
          connectPort = (case url of
                           Some u \<Rightarrow> let p = of_digits 10 (pu_port u) in if p = 0 then 443 else p
                         | None \<Rightarrow> cfg_port cfg)
      in address @ ''|'' @ (case hostname of Some h \<Rightarrow> h | None \<Rightarrow> ''undefined'') @ ''|'' @ dec connectPort)"

definition connectionFor ::
  "pool_config \<Rightarrow> pool_env \<Rightarrow> string \<Rightarrow> upstream \<Rightarrow> pool_url option \<Rightarrow> pool \<Rightarrow> connection_kind \<times> pool" where
  "connectionFor cfg env address upstream url p =
     (let key = target cfg address upstream url;
          held = (case pool_connections p key of
                    Some kind \<Rightarrow> if env_usable env (pool_attempts p) then Some kind else None
                  | None \<Rightarrow> None)
      in case held of
           Some kind \<Rightarrow> (kind, p)
         | None \<Rightarrow>
             let kind = (if cfg_protocol cfg = Dot then DotConnection
                         else if key \<in> set (pool_http1Only p) then DohH1Connection else DohH2Connection)
             in (kind, p\<lparr>pool_connections := (pool_connections p)(key := Some kind)\<rparr>))"

section \<open>A query\<close>

definition log_event :: "pool_event \<Rightarrow> pool \<Rightarrow> pool" where
  "log_event e p = p\<lparr>pool_log := pool_log p @ [e]\<rparr>"

text \<open>\<open>deadline\<close> is \<open>None\<close> for Infinity.\<close>

definition attempt ::
  "pool_config \<Rightarrow> pool_env \<Rightarrow> upstream \<Rightarrow> pool_url option \<Rightarrow> int option \<Rightarrow> string \<Rightarrow> pool \<Rightarrow> send_result \<times> pool" where
  "attempt cfg env upstream url deadline address p =
     (let n = pool_attempts p;
          ms = (case deadline of None \<Rightarrow> cfg_timeoutMs cfg | Some d \<Rightarrow> min (cfg_timeoutMs cfg) (d - env_now env n))
      in if ms \<le> 0 then (Failed FAIL_TIMEOUT ''out of time'', p\<lparr>pool_attempts := n + 1\<rparr>)
         else case connectionFor cfg env address upstream url p of
                (kind, p1) \<Rightarrow>
                  let p2 = log_event (Sent n kind address ms) (p1\<lparr>pool_attempts := n + 1\<rparr>);
                      result = env_send env n kind address;
                      event = (case result of Response r \<Rightarrow> Some ''answer'' | Failed f _ \<Rightarrow> EVENT_FOR_FAIL f)
                  in (result, case event of None \<Rightarrow> p2 | Some e \<Rightarrow> log_event (Result e address) p2))"

definition fails :: "fail \<Rightarrow> send_result \<Rightarrow> bool" where
  "fails f r = (case r of Failed g _ \<Rightarrow> f = g | Response _ \<Rightarrow> False)"

text \<open>The loop that sends a dropped query again.\<close>

fun resend :: "nat \<Rightarrow> (pool \<Rightarrow> send_result \<times> pool) \<Rightarrow> send_result \<times> pool \<Rightarrow> send_result \<times> pool" where
  "resend 0 again (result, p) = (result, p)"
| "resend (Suc left) again (result, p) = (if fails FAIL_CLOSED result then resend left again (again p) else (result, p))"

text \<open>What is done with one address, up to its last result.\<close>

definition try_address ::
  "pool_config \<Rightarrow> pool_env \<Rightarrow> upstream \<Rightarrow> pool_url option \<Rightarrow> int option \<Rightarrow> string \<Rightarrow> pool \<Rightarrow> send_result \<times> pool" where
  "try_address cfg env upstream url deadline address p =
     (let again = attempt cfg env upstream url deadline address;
          (first, p1) = again (log_event (Query address) p);
          (result, p2) = (if fails FAIL_DOWNGRADE first
                          then again (p1\<lparr>pool_http1Only := target cfg address upstream url # pool_http1Only p1\<rparr>)
                          else (first, p1))
      in resend CLOSED_RETRIES again (result, p2))"

fun try_addresses ::
  "pool_config \<Rightarrow> pool_env \<Rightarrow> upstream \<Rightarrow> pool_url option \<Rightarrow> int option \<Rightarrow> string list \<Rightarrow> pool \<Rightarrow> bytes option \<times> pool" where
  "try_addresses cfg env upstream url deadline [] p = (None, p)"
| "try_addresses cfg env upstream url deadline (address # addresses) p =
     (case try_address cfg env upstream url deadline address p of
        (Response r, p1) \<Rightarrow> (Some r, p1)
      | (Failed f e, p1) \<Rightarrow>
          let p2 = log_event (GaveUp e (Some address)) p1 in
          if f \<noteq> FAIL_CONNECT \<and> f \<noteq> FAIL_CLOSED then (None, p2)
          else try_addresses cfg env upstream url deadline addresses p2)"

definition query ::
  "(string \<Rightarrow> pool_url option) \<Rightarrow> pool_config \<Rightarrow> pool_env \<Rightarrow> upstream \<Rightarrow> int option \<Rightarrow> pool \<Rightarrow> bytes option \<times> pool" where
  "query parseUrl cfg env upstream deadline p =
     (let url = (if cfg_protocol cfg = Doh then parseUrl (up_doh_url upstream) else None) in
      if cfg_protocol cfg = Doh \<and> url = None then (None, log_event (GaveUp ''Invalid URL'' None) p)
      else if up_addresses upstream = [] then (None, log_event (GaveUp ''no upstream address'' None) p)
      else try_addresses cfg env upstream url deadline (up_addresses upstream) p)"

text \<open>\<open>closeAll\<close> ends every connection the pool holds and forgets them.\<close>

definition closeAll :: "pool \<Rightarrow> pool" where
  "closeAll p = p\<lparr>pool_connections := Map.empty\<rparr>"

section \<open>What one attempt does\<close>

text \<open>A pool holds DNS-over-TLS connections or DNS-over-HTTPS ones, by its protocol.\<close>

definition pool_ok :: "pool_config \<Rightarrow> pool \<Rightarrow> bool" where
  "pool_ok cfg p \<longleftrightarrow> (\<forall>key kind. pool_connections p key = Some kind \<longrightarrow>
     (cfg_protocol cfg = Dot \<longleftrightarrow> kind = DotConnection) \<and> (kind = DohH1Connection \<longrightarrow> key \<in> set (pool_http1Only p)))"

fun is_sent :: "pool_event \<Rightarrow> bool" where
  "is_sent (Sent n kind a ms) = True"
| "is_sent _ = False"

text \<open>A send to one of the addresses \<open>A\<close>, within the time it may take, on a connection of the right kind.\<close>

definition sent_ok :: "pool_config \<Rightarrow> pool_env \<Rightarrow> int option \<Rightarrow> string set \<Rightarrow> (string \<Rightarrow> string) \<Rightarrow> pool \<Rightarrow> pool_event \<Rightarrow> bool" where
  "sent_ok cfg env deadline A keyOf q e \<longleftrightarrow> (\<forall>n kind a ms. e = Sent n kind a ms \<longrightarrow>
     a \<in> A \<and> 0 < ms \<and> ms \<le> cfg_timeoutMs cfg \<and> (\<forall>d. deadline = Some d \<longrightarrow> ms \<le> d - env_now env n)
   \<and> (cfg_protocol cfg = Dot \<longleftrightarrow> kind = DotConnection) \<and> (kind = DohH1Connection \<longrightarrow> keyOf a \<in> set (pool_http1Only q)))"

text \<open>What a part of a query that makes at most \<open>k\<close> sends to the addresses \<open>A\<close> does to the pool.\<close>

definition works ::
  "pool_config \<Rightarrow> pool_env \<Rightarrow> int option \<Rightarrow> (string \<Rightarrow> string) \<Rightarrow> string set \<Rightarrow> nat \<Rightarrow> pool \<Rightarrow> bytes option \<Rightarrow> pool \<Rightarrow> bool" where
  "works cfg env deadline keyOf A k p answer q \<longleftrightarrow>
     pool_ok cfg q \<and> set (pool_http1Only p) \<subseteq> set (pool_http1Only q)
   \<and> (\<exists>es. pool_log q = pool_log p @ es \<and> length (filter is_sent es) \<le> k \<and> list_all (sent_ok cfg env deadline A keyOf q) es
        \<and> (\<forall>r. answer = Some r \<longrightarrow> (\<exists>n kind a ms. Sent n kind a ms \<in> set es \<and> env_send env n kind a = Response r)))"

definition answer_of :: "send_result \<Rightarrow> bytes option" where
  "answer_of r = (case r of Response b \<Rightarrow> Some b | Failed _ _ \<Rightarrow> None)"

lemma answer_of_simps [simp]: "answer_of (Response b) = Some b" "answer_of (Failed f e) = None"
  by (simp_all add: answer_of_def)

lemma sent_ok_mono:
  "sent_ok cfg env deadline A keyOf q e \<Longrightarrow> set (pool_http1Only q) \<subseteq> set (pool_http1Only q') \<Longrightarrow> A \<subseteq> B
     \<Longrightarrow> sent_ok cfg env deadline B keyOf q' e"
  unfolding sent_ok_def by blast

lemma works_trans:
  assumes "works cfg env deadline keyOf A j p a q" "works cfg env deadline keyOf B k q b r" "j + k \<le> m"
    "A \<subseteq> C" "B \<subseteq> C"
  shows "works cfg env deadline keyOf C m p b r"
proof -
  obtain es where es: "pool_log q = pool_log p @ es" "length (filter is_sent es) \<le> j"
      "list_all (sent_ok cfg env deadline A keyOf q) es" and h: "set (pool_http1Only p) \<subseteq> set (pool_http1Only q)"
    using assms(1) by (auto simp: works_def)
  obtain fs where fs: "pool_log r = pool_log q @ fs" "length (filter is_sent fs) \<le> k"
      "list_all (sent_ok cfg env deadline B keyOf r) fs"
      "\<forall>x. b = Some x \<longrightarrow> (\<exists>n kind a ms. Sent n kind a ms \<in> set fs \<and> env_send env n kind a = Response x)"
      and h': "set (pool_http1Only q) \<subseteq> set (pool_http1Only r)" "pool_ok cfg r"
    using assms(2) by (auto simp: works_def)
  have "list_all (sent_ok cfg env deadline C keyOf r) (es @ fs)"
    using es(3) fs(3) sent_ok_mono [OF _ h'(1) assms(4)] sent_ok_mono [OF _ order_refl assms(5)]
    by (auto simp: list_all_iff)
  moreover have "length (filter is_sent (es @ fs)) \<le> m" using es(2) fs(2) assms(3) by simp
  moreover have "\<forall>x. b = Some x \<longrightarrow> (\<exists>n kind a ms. Sent n kind a ms \<in> set (es @ fs) \<and> env_send env n kind a = Response x)"
    using fs(4) by (metis UnI2 set_append)
  ultimately show ?thesis using es(1) fs(1) h h' unfolding works_def by (metis append.assoc order_trans)
qed

lemma works_log: "pool_ok cfg p \<Longrightarrow> \<not> is_sent e \<Longrightarrow> works cfg env deadline keyOf A k p None (log_event e p)"
  by (auto simp: works_def log_event_def pool_ok_def sent_ok_def)

lemma works_refl: "pool_ok cfg p \<Longrightarrow> works cfg env deadline keyOf A k p None p"
  by (auto simp: works_def)

lemma works_mono:
  "works cfg env deadline keyOf A k p a q \<Longrightarrow> A \<subseteq> C \<Longrightarrow> k \<le> m \<Longrightarrow> works cfg env deadline keyOf C m p a q"
  unfolding works_def list_all_iff by (meson order_refl order_trans sent_ok_mono)

lemma pool_ok_connect:
  "pool_ok cfg p \<Longrightarrow> (cfg_protocol cfg = Dot \<longleftrightarrow> kind = DotConnection) \<Longrightarrow> (kind = DohH1Connection \<longrightarrow> key \<in> set (pool_http1Only p))
     \<Longrightarrow> pool_ok cfg (p\<lparr>pool_connections := (pool_connections p)(key := Some kind)\<rparr>)"
  by (simp add: pool_ok_def)

lemma pool_okD:
  "pool_ok cfg p \<Longrightarrow> pool_connections p key = Some kind \<Longrightarrow>
     (cfg_protocol cfg = Dot \<longleftrightarrow> kind = DotConnection) \<and> (kind = DohH1Connection \<longrightarrow> key \<in> set (pool_http1Only p))"
  by (simp add: pool_ok_def)

lemma connectionFor_ok:
  assumes "pool_ok cfg p" "connectionFor cfg env a up url p = (kind, q)"
  shows "pool_ok cfg q \<and> pool_http1Only q = pool_http1Only p \<and> pool_log q = pool_log p
    \<and> (cfg_protocol cfg = Dot \<longleftrightarrow> kind = DotConnection) \<and> (kind = DohH1Connection \<longrightarrow> target cfg a up url \<in> set (pool_http1Only p))"
  using assms
  by (auto simp: connectionFor_def Let_def split: option.splits if_splits intro!: pool_ok_connect dest: pool_okD)

lemma attempt_works:
  assumes "pool_ok cfg p" "attempt cfg env up url deadline a p = (res, q)"
  shows "works cfg env deadline (\<lambda>a. target cfg a up url) {a} 1 p (answer_of res) q"
proof -
  let ?n = "pool_attempts p"
  define ms where "ms = (case deadline of None \<Rightarrow> cfg_timeoutMs cfg | Some d \<Rightarrow> min (cfg_timeoutMs cfg) (d - env_now env ?n))"
  obtain kind p1 where c: "connectionFor cfg env a up url p = (kind, p1)" by fastforce
  note ok = connectionFor_ok [OF assms(1) c]
  show ?thesis
  proof (cases "ms \<le> 0")
    case True
    then have "res = Failed FAIL_TIMEOUT ''out of time''" "q = p\<lparr>pool_attempts := ?n + 1\<rparr>"
      using assms(2) by (simp_all add: attempt_def Let_def ms_def [symmetric])
    then show ?thesis using assms(1) by (auto simp: works_def pool_ok_def)
  next
    case False
    define p2 where "p2 = log_event (Sent ?n kind a ms) (p1\<lparr>pool_attempts := ?n + 1\<rparr>)"
    have res: "res = env_send env ?n kind a"
      and q: "\<exists>es. pool_log q = pool_log p2 @ es \<and> list_all (\<lambda>e. \<not> is_sent e) es" "pool_connections q = pool_connections p2"
        "pool_http1Only q = pool_http1Only p2"
      using assms(2) False by (auto simp: attempt_def Let_def ms_def [symmetric] c p2_def log_event_def split: option.splits)
    obtain es where es: "pool_log q = pool_log p @ Sent ?n kind a ms # es" "list_all (\<lambda>e. \<not> is_sent e) es"
      using q(1) ok by (auto simp: p2_def log_event_def)
    have "pool_ok cfg q" using ok q by (auto simp: pool_ok_def p2_def log_event_def)
    moreover have "sent_ok cfg env deadline {a} (\<lambda>a. target cfg a up url) q (Sent ?n kind a ms)"
      using ok q(3) False by (auto simp: sent_ok_def ms_def p2_def log_event_def split: option.splits)
    moreover have "list_all (sent_ok cfg env deadline {a} (\<lambda>a. target cfg a up url) q) es" "filter is_sent es = []"
      using es(2) by (auto simp: list_all_iff sent_ok_def filter_empty_conv)
    moreover have "answer_of res = Some r \<Longrightarrow> env_send env ?n kind a = Response r" for r
      by (cases res) (simp_all add: res)
    ultimately show ?thesis
      using es(1) ok q(3) by (auto simp: works_def p2_def log_event_def intro!: exI [of _ "Sent ?n kind a ms # es"])
  qed
qed

lemma resend_works:
  assumes again: "\<And>p res q. pool_ok cfg p \<Longrightarrow> again p = (res, q) \<Longrightarrow> works cfg env deadline keyOf A 1 p (answer_of res) q"
    and "works cfg env deadline keyOf A j p0 (answer_of r) p" "resend k again (r, p) = (res, q)"
  shows "works cfg env deadline keyOf A (j + k) p0 (answer_of res) q"
  using assms(2,3)
proof (induction k arbitrary: j r p)
  case (Suc k)
  show ?case
  proof (cases "fails FAIL_CLOSED r")
    case True
    obtain r1 p1 where a: "again p = (r1, p1)" by fastforce
    have "pool_ok cfg p" using Suc.prems(1) by (simp add: works_def)
    then have "works cfg env deadline keyOf A (j + 1) p0 (answer_of r1) p1"
      by (rule works_trans [OF Suc.prems(1) again [OF _ a]]) auto
    from Suc.IH [OF this] Suc.prems(2) True a show ?thesis by simp
  next
    case False
    then show ?thesis using Suc.prems by (auto simp: works_def)
  qed
qed simp

lemma try_address_works:
  assumes "pool_ok cfg p" "try_address cfg env up url deadline a p = (res, q)"
  shows "works cfg env deadline (\<lambda>a. target cfg a up url) {a} 4 p (answer_of res) q"
proof -
  let ?again = "attempt cfg env up url deadline a"
  let ?w = "works cfg env deadline (\<lambda>a. target cfg a up url) {a}"
  obtain r1 p1 where f: "?again (log_event (Query a) p) = (r1, p1)" by fastforce
  have w0: "?w 0 p None (log_event (Query a) p)" using works_log [OF assms(1)] by simp
  have "pool_ok cfg (log_event (Query a) p)" using assms(1) by (simp add: pool_ok_def log_event_def)
  then have w1: "?w 1 p (answer_of r1) p1" by (intro works_trans [OF w0 attempt_works [OF _ f]]) auto
  let ?h = "p1\<lparr>pool_http1Only := target cfg a up url # pool_http1Only p1\<rparr>"
  have "?w 0 p1 None ?h" using w1 by (auto simp: works_def pool_ok_def)
  from works_trans [OF w1 this, of 1 "{a}"] have wh: "?w 1 p None ?h" "pool_ok cfg ?h" by (auto simp: works_def)
  obtain r2 p2 where s: "(if fails FAIL_DOWNGRADE r1 then ?again ?h else (r1, p1)) = (r2, p2)" by fastforce
  have "?w 2 p (answer_of r2) p2"
  proof (cases "fails FAIL_DOWNGRADE r1")
    case True
    then show ?thesis using works_trans [where m = 2 and C = "{a}", OF wh(1) attempt_works [OF wh(2)]] s by auto
  next
    case False
    then show ?thesis using s w1 by (auto simp: works_def)
  qed
  moreover have "resend CLOSED_RETRIES ?again (r2, p2) = (res, q)" using assms(2) f s by (simp add: try_address_def Let_def)
  ultimately have "?w (2 + CLOSED_RETRIES) p (answer_of res) q" by (rule resend_works [rotated]) (rule attempt_works)
  then show ?thesis by (simp add: CLOSED_RETRIES_def)
qed

section \<open>What a query does\<close>

lemma try_addresses_works:
  assumes "pool_ok cfg p" "try_addresses cfg env up url deadline as p = (res, q)"
  shows "works cfg env deadline (\<lambda>a. target cfg a up url) (set as) (4 * length as) p res q"
  using assms
proof (induction as arbitrary: p)
  case Nil
  then show ?case by (simp add: works_refl)
next
  case (Cons a as)
  let ?w = "works cfg env deadline (\<lambda>a. target cfg a up url)"
  obtain r1 p1 where t: "try_address cfg env up url deadline a p = (r1, p1)" by fastforce
  note w = try_address_works [OF Cons.prems(1) t]
  show ?case
  proof (cases r1)
    case (Response r)
    then have e: "res = Some r" "q = p1" using Cons.prems(2) t by auto
    show ?thesis using works_mono [OF w, of "set (a # as)" "4 * length (a # as)"] Response e by simp
  next
    case (Failed f e)
    let ?p2 = "log_event (GaveUp e (Some a)) p1"
    have "pool_ok cfg p1" using w by (simp add: works_def)
    then have "?w {a} 0 p1 None ?p2" by (rule works_log) simp
    from works_trans [OF w this, of 4 "{a}"] have w2: "?w {a} 4 p None ?p2" by simp
    then have ok: "pool_ok cfg ?p2" by (simp add: works_def)
    show ?thesis
    proof (cases "f \<noteq> FAIL_CONNECT \<and> f \<noteq> FAIL_CLOSED")
      case True
      then have "res = None" "q = ?p2" using Cons.prems(2) t Failed by (simp_all add: Let_def)
      then show ?thesis using works_trans [OF w2 works_refl [OF ok, of _ _ _ "{a}" 0], of "4 * length (a # as)" "set (a # as)"] by simp
    next
      case False
      then have "try_addresses cfg env up url deadline as ?p2 = (res, q)" using Cons.prems(2) t Failed by (auto simp: Let_def)
      from works_trans [OF w2 Cons.IH [OF ok this], of "4 * length (a # as)" "set (a # as)"] show ?thesis by auto
    qed
  qed
qed

text \<open>C34. A query of the pool ends after a bounded number of sends, in time, and fails closed. For every
  behaviour of the network and the clock it makes at most four sends to each address of the upstream
  and to no other; each gets a positive time within the per-query timeout and what is left of the
  deadline; they go over DNS over TLS, or over DNS over HTTPS, as configured, and over HTTP/1.1 only
  where the server was found to offer nothing newer. An answer is one a server gave to one of these
  sends.\<close>

theorem pool_query_bounded:
  assumes "pool_ok cfg p" "query parseUrl cfg env up deadline p = (res, q)"
  shows "\<exists>es. pool_log q = pool_log p @ es \<and> length (filter is_sent es) \<le> 4 * length (up_addresses up)
    \<and> (\<forall>n kind a ms. Sent n kind a ms \<in> set es \<longrightarrow>
         a \<in> set (up_addresses up) \<and> 0 < ms \<and> ms \<le> cfg_timeoutMs cfg \<and> (\<forall>d. deadline = Some d \<longrightarrow> ms \<le> d - env_now env n)
       \<and> (cfg_protocol cfg = Dot \<longleftrightarrow> kind = DotConnection)
       \<and> (kind = DohH1Connection \<longrightarrow> target cfg a up (parseUrl (up_doh_url up)) \<in> set (pool_http1Only q)))
    \<and> (\<forall>r. res = Some r \<longrightarrow> (\<exists>n kind a ms. Sent n kind a ms \<in> set es \<and> env_send env n kind a = Response r))
    \<and> pool_ok cfg q"
proof -
  define url where "url = (if cfg_protocol cfg = Doh then parseUrl (up_doh_url up) else None)"
  have "works cfg env deadline (\<lambda>a. target cfg a up url) (set (up_addresses up)) (4 * length (up_addresses up)) p res q"
    using assms try_addresses_works [OF assms(1), of env up url deadline "up_addresses up" res q]
    by (auto simp: query_def url_def [symmetric] split: if_splits intro: works_log)
  then obtain es where es: "pool_ok cfg q" "pool_log q = pool_log p @ es" "length (filter is_sent es) \<le> 4 * length (up_addresses up)"
      "list_all (sent_ok cfg env deadline (set (up_addresses up)) (\<lambda>a. target cfg a up url) q) es"
      "\<forall>r. res = Some r \<longrightarrow> (\<exists>n kind a ms. Sent n kind a ms \<in> set es \<and> env_send env n kind a = Response r)"
    by (auto simp: works_def)
  have "a \<in> set (up_addresses up) \<and> 0 < ms \<and> ms \<le> cfg_timeoutMs cfg \<and> (\<forall>d. deadline = Some d \<longrightarrow> ms \<le> d - env_now env n)
       \<and> (cfg_protocol cfg = Dot \<longleftrightarrow> kind = DotConnection)
       \<and> (kind = DohH1Connection \<longrightarrow> target cfg a up (parseUrl (up_doh_url up)) \<in> set (pool_http1Only q))"
    if "Sent n kind a ms \<in> set es" for n kind a ms
  proof -
    have "sent_ok cfg env deadline (set (up_addresses up)) (\<lambda>a. target cfg a up url) q (Sent n kind a ms)"
      using es(4) that by (simp add: list_all_iff)
    then show ?thesis by (cases "cfg_protocol cfg") (auto simp: sent_ok_def url_def)
  qed
  with es show ?thesis by blast
qed

text \<open>Two resolvers, the first of which refuses connections.\<close>

definition sample_config :: pool_config where
  "sample_config = \<lparr>cfg_protocol = Dot, cfg_timeoutMs = 2000, cfg_port = 853\<rparr>"

definition sample_upstream :: upstream where
  "sample_upstream = \<lparr>up_hostname = Some ''dns.example'', up_addresses = [''9.9.9.9'', ''1.1.1.1''], up_doh_url = []\<rparr>"

definition sample_env :: pool_env where
  "sample_env = \<lparr>env_now = (\<lambda>n. 100), env_usable = (\<lambda>n. True),
     env_send = (\<lambda>n kind a. if a = ''9.9.9.9'' then Failed FAIL_CONNECT ''refused'' else Response [1])\<rparr>"

lemma new_pool_ok: "pool_ok cfg new_pool"
  by (simp add: pool_ok_def new_pool_def)

theorem pool_query_bounded_witness:
  "\<exists>q es. query (\<lambda>_. None) sample_config sample_env sample_upstream (Some 600) new_pool = (Some [1], q) \<and> pool_log q = es
     \<and> length (filter is_sent es) \<le> 8 \<and> (\<forall>n kind a ms. Sent n kind a ms \<in> set es \<longrightarrow> ms \<le> 500)"
proof -
  obtain res q where q: "query (\<lambda>_. None) sample_config sample_env sample_upstream (Some 600) new_pool = (res, q)" by fastforce
  have "fst (query (\<lambda>_. None) sample_config sample_env sample_upstream (Some 600) new_pool) = Some [1]" by code_simp
  then have "res = Some [1]" using q by simp
  moreover have "env_now sample_env n = 100" "length (up_addresses sample_upstream) = 2" "pool_log new_pool = []" for n
    by (simp_all add: sample_env_def sample_upstream_def new_pool_def)
  ultimately show ?thesis using pool_query_bounded [OF new_pool_ok q] q by auto
qed

section \<open>Failover\<close>

text \<open>How the servers at an address behave: every send fails so that the next address is tried; or every
  send is answered, after a downgrade to HTTP/1.1 if the server asks for one; or the first send fails for
  good. A connection that was downgraded has ended, so it is not used again.\<close>

definition gives_way :: "pool_env \<Rightarrow> string \<Rightarrow> bool" where
  "gives_way env a \<longleftrightarrow> (\<forall>n kind. \<exists>f e. env_send env n kind a = Failed f e \<and> (f = FAIL_CONNECT \<or> f = FAIL_CLOSED))"

definition answers :: "pool_env \<Rightarrow> string \<Rightarrow> bool" where
  "answers env a \<longleftrightarrow> (\<forall>n kind. (\<exists>r. env_send env n kind a = Response r)
     \<or> kind = DohH2Connection \<and> (\<exists>e. env_send env n kind a = Failed FAIL_DOWNGRADE e) \<and> \<not> env_usable env (Suc n))"

definition fails_for_good :: "pool_env \<Rightarrow> string \<Rightarrow> bool" where
  "fails_for_good env a \<longleftrightarrow> (\<forall>n kind. \<exists>f e. env_send env n kind a = Failed f e \<and> (f = FAIL_TIMEOUT \<or> f = FAIL_HTTP))"

lemma attempt_no_deadline:
  assumes "0 < cfg_timeoutMs cfg" "connectionFor cfg env a up url p = (kind, p1)"
  shows "fst (attempt cfg env up url None a p) = env_send env (pool_attempts p) kind a
    \<and> pool_attempts (snd (attempt cfg env up url None a p)) = Suc (pool_attempts p)
    \<and> pool_http1Only (snd (attempt cfg env up url None a p)) = pool_http1Only p1"
  using assms by (auto simp: attempt_def Let_def log_event_def split: option.split)

lemma attempt_cases:
  assumes "0 < cfg_timeoutMs cfg"
  obtains n kind where "fst (attempt cfg env up url None a p) = env_send env n kind a"
  using attempt_no_deadline [OF assms] by (metis surj_pair)

definition moves_on :: "send_result \<Rightarrow> bool" where
  "moves_on r \<longleftrightarrow> (\<exists>f e. r = Failed f e \<and> (f = FAIL_CONNECT \<or> f = FAIL_CLOSED))"

lemma resend_keeps:
  assumes "\<And>p. P (fst (again p))" "P (fst rp)"
  shows "P (fst (resend k again rp))"
  using assms(2)
proof (induction k arbitrary: rp)
  case (Suc k)
  obtain r p where "rp = (r, p)" by fastforce
  then show ?case using Suc assms(1) by simp
qed (metis resend.simps(1) surj_pair)

lemma resend_final: "\<not> fails FAIL_CLOSED r \<Longrightarrow> resend k again (r, p) = (r, p)"
  by (cases k) simp_all

lemma gives_way_moves_on:
  assumes "gives_way env a" "0 < cfg_timeoutMs cfg"
  shows "moves_on (fst (try_address cfg env up url None a p))"
proof -
  let ?again = "attempt cfg env up url None a"
  have m: "moves_on (fst (?again p))" for p
    using assms(1) attempt_cases [OF assms(2), of env up url a p] by (metis gives_way_def moves_on_def)
  obtain r1 p1 where f: "?again (log_event (Query a) p) = (r1, p1)" by fastforce
  then have r1: "moves_on r1" using m [of "log_event (Query a) p"] by simp
  then have "\<not> fails FAIL_DOWNGRADE r1" by (auto simp: moves_on_def fails_def)
  then have "try_address cfg env up url None a p = resend CLOSED_RETRIES ?again (r1, p1)"
    by (simp add: try_address_def Let_def f)
  then show ?thesis using resend_keeps [of moves_on ?again "(r1, p1)" CLOSED_RETRIES] m r1 by simp
qed

lemma answers_answer:
  assumes "answers env a" "0 < cfg_timeoutMs cfg" "pool_ok cfg p"
  shows "\<exists>r n kind. fst (try_address cfg env up url None a p) = Response r \<and> env_send env n kind a = Response r"
proof -
  let ?again = "attempt cfg env up url None a"
  define p0 where "p0 = log_event (Query a) p"
  have ok: "pool_ok cfg p0" using assms(3) by (simp add: pool_ok_def p0_def log_event_def)
  obtain kind c where k: "connectionFor cfg env a up url p0 = (kind, c)" by fastforce
  obtain r1 p1 where f: "?again p0 = (r1, p1)" by fastforce
  have r1: "r1 = env_send env (pool_attempts p0) kind a" "pool_attempts p1 = Suc (pool_attempts p0)"
    using attempt_no_deadline [OF assms(2) k] f by auto
  show ?thesis
  proof (cases "\<exists>r. r1 = Response r")
    case True
    then obtain r where "r1 = Response r" by blast
    then have "try_address cfg env up url None a p = (Response r, p1)"
      by (simp add: try_address_def Let_def p0_def [symmetric] f fails_def resend_final)
    with r1(1) \<open>r1 = Response r\<close> show ?thesis by (intro exI [of _ r] exI [of _ "pool_attempts p0"] exI [of _ kind]) simp
  next
    case False
    then have d: "kind = DohH2Connection" "\<exists>e. r1 = Failed FAIL_DOWNGRADE e" "\<not> env_usable env (pool_attempts p1)"
      using assms(1) r1 unfolding answers_def by metis+
    let ?h = "p1\<lparr>pool_http1Only := target cfg a up url # pool_http1Only p1\<rparr>"
    have "cfg_protocol cfg \<noteq> Dot" using connectionFor_ok [OF ok k] d(1) by simp
    then have "fst (connectionFor cfg env a up url ?h) = DohH1Connection"
      using d(3) by (simp add: connectionFor_def Let_def split: option.split)
    then obtain c2 where k2: "connectionFor cfg env a up url ?h = (DohH1Connection, c2)" by (metis prod.collapse)
    obtain r where r: "env_send env (pool_attempts ?h) DohH1Connection a = Response r"
      using assms(1) unfolding answers_def by (metis connection_kind.distinct(5))
    obtain r2 p2 where g: "?again ?h = (r2, p2)" by fastforce
    then have "r2 = Response r" using attempt_no_deadline [OF assms(2) k2] r by simp
    moreover have "fails FAIL_DOWNGRADE r1" using d(2) by (auto simp: fails_def)
    ultimately have "try_address cfg env up url None a p = (Response r, p2)"
      by (simp add: try_address_def Let_def p0_def [symmetric] f g fails_def resend_final)
    with r show ?thesis by (intro exI [of _ r] exI [of _ "pool_attempts ?h"] exI [of _ DohH1Connection]) simp
  qed
qed

lemma fails_for_good_stops:
  assumes "fails_for_good env a" "0 < cfg_timeoutMs cfg"
  shows "try_addresses cfg env up url None (a # post) p = try_addresses cfg env up url None [a] p
    \<and> fst (try_addresses cfg env up url None [a] p) = None"
proof -
  let ?again = "attempt cfg env up url None a"
  obtain r1 p1 where f: "?again (log_event (Query a) p) = (r1, p1)" by fastforce
  then obtain g e where r1: "r1 = Failed g e" "g = FAIL_TIMEOUT \<or> g = FAIL_HTTP"
    using assms(1) attempt_cases [OF assms(2), of env up url a "log_event (Query a) p"] by (metis fails_for_good_def fst_conv)
  then have "try_address cfg env up url None a p = (r1, p1)"
    by (auto simp: try_address_def Let_def f fails_def resend_final)
  then show ?thesis using r1 by auto
qed

lemma try_addresses_skip:
  assumes "pool_ok cfg p" "0 < cfg_timeoutMs cfg" "\<forall>b \<in> set pre. gives_way env b"
  shows "\<exists>p'. pool_ok cfg p' \<and> (\<forall>as. try_addresses cfg env up url None (pre @ as) p = try_addresses cfg env up url None as p')"
  using assms(1,3)
proof (induction pre arbitrary: p)
  case (Cons b pre)
  obtain r1 p1 where t: "try_address cfg env up url None b p = (r1, p1)" by fastforce
  obtain f e where r1: "r1 = Failed f e" "f = FAIL_CONNECT \<or> f = FAIL_CLOSED"
    using gives_way_moves_on [OF _ assms(2), of env b up url p] Cons.prems(2) t by (auto simp: moves_on_def)
  let ?p = "log_event (GaveUp e (Some b)) p1"
  have "pool_ok cfg ?p" using try_address_works [OF Cons.prems(1) t] by (simp add: works_def pool_ok_def log_event_def)
  from Cons.IH [OF this] Cons.prems(2) show ?case using t r1 by (auto simp: Let_def)
qed auto

text \<open>C35. Failover. When no deadline cuts a query short and every address before one keeps failing to
  connect or dropping the query, the pool reaches that address: if its server answers, the query
  returns an answer of that server, also when it first asks to be served over HTTP/1.1; if it times
  out or answers with an error status, the query returns nothing and no later address is contacted.\<close>

theorem pool_failover:
  assumes "pool_ok cfg p" "0 < cfg_timeoutMs cfg" "up_addresses up = pre @ a # post"
    and "cfg_protocol cfg = Doh \<longrightarrow> parseUrl (up_doh_url up) \<noteq> None" and "\<forall>b \<in> set pre. gives_way env b"
  shows "(answers env a \<longrightarrow> (\<exists>r n kind. fst (query parseUrl cfg env up None p) = Some r \<and> env_send env n kind a = Response r))
    \<and> (fails_for_good env a \<longrightarrow> fst (query parseUrl cfg env up None p) = None
         \<and> (\<exists>es. pool_log (snd (query parseUrl cfg env up None p)) = pool_log p @ es
              \<and> (\<forall>n kind b ms. Sent n kind b ms \<in> set es \<longrightarrow> b \<in> set (pre @ [a]))))"
proof -
  define url where "url = (if cfg_protocol cfg = Doh then parseUrl (up_doh_url up) else None)"
  let ?t = "try_addresses cfg env up url None"
  have q: "query parseUrl cfg env up None p = ?t (pre @ a # post) p" using assms(3,4) by (auto simp: query_def url_def Let_def)
  obtain p' where p': "pool_ok cfg p'" "\<And>as. ?t (pre @ as) p = ?t as p'"
    using try_addresses_skip [OF assms(1,2,5), of up url] by blast
  have "\<exists>r n kind. fst (query parseUrl cfg env up None p) = Some r \<and> env_send env n kind a = Response r" if ans: "answers env a"
  proof -
    obtain r n kind where r: "fst (try_address cfg env up url None a p') = Response r" "env_send env n kind a = Response r"
      using answers_answer [OF ans assms(2) p'(1), of up url] by blast
    then have "fst (?t (a # post) p') = Some r" by (cases "try_address cfg env up url None a p'") simp
    with r(2) q p'(2) show ?thesis by metis
  qed
  moreover have "fst (query parseUrl cfg env up None p) = None \<and> (\<exists>es. pool_log (snd (query parseUrl cfg env up None p)) = pool_log p @ es
              \<and> (\<forall>n kind b ms. Sent n kind b ms \<in> set es \<longrightarrow> b \<in> set (pre @ [a])))" if "fails_for_good env a"
  proof -
    note st = fails_for_good_stops [OF that assms(2), of up url post p']
    have eq: "query parseUrl cfg env up None p = ?t (pre @ [a]) p" using st q p'(2) by simp
    have "works cfg env None (\<lambda>a. target cfg a up url) (set (pre @ [a])) (4 * length (pre @ [a])) p
        (fst (?t (pre @ [a]) p)) (snd (?t (pre @ [a]) p))" by (rule try_addresses_works [OF assms(1)]) simp
    then have "\<exists>es. pool_log (snd (?t (pre @ [a]) p)) = pool_log p @ es \<and> (\<forall>n kind b ms. Sent n kind b ms \<in> set es \<longrightarrow> b \<in> set (pre @ [a]))"
      unfolding works_def list_all_iff sent_ok_def by blast
    then show ?thesis using st p'(2) eq by simp
  qed
  ultimately show ?thesis by blast
qed

theorem pool_failover_witness:
  "\<exists>r n kind. fst (query (\<lambda>_. None) sample_config sample_env sample_upstream None new_pool) = Some r
     \<and> env_send sample_env n kind ''1.1.1.1'' = Response r"
proof -
  have "0 < cfg_timeoutMs sample_config" "up_addresses sample_upstream = [''9.9.9.9''] @ ''1.1.1.1'' # []"
    "cfg_protocol sample_config = Doh \<longrightarrow> (\<lambda>_. None :: pool_url option) (up_doh_url sample_upstream) \<noteq> None"
    "\<forall>b \<in> set [''9.9.9.9'']. gives_way sample_env b" "answers sample_env ''1.1.1.1''"
    by (simp_all add: sample_config_def sample_upstream_def sample_env_def gives_way_def answers_def)
  then show ?thesis using pool_failover [OF new_pool_ok] by blast
qed

end
