(* ===== verification/TransformPlan.thy ===== *)
theory TransformPlan
  imports CidrSets ScanCoverage
begin

text \<open>
  Planning the division and the merge of networks (\<open>server/src/services/network-transformation-plan.js\<close>), with
  the gateway rules of \<open>server/src/services/subnet-topology.js\<close> and the default DHCP pools and the moves of
  reservations and leases of \<open>server/src/services/subnet-dhcp-topology.js\<close>. A plan is computed from the tables
  and changes nothing; the move of reservations and leases is a step of its execution. The hash of
  the rows a plan depends on is a parameter; the hash of the plan itself is left out of the plan.
\<close>

section \<open>Dotted quads\<close>

text \<open>\<open>Number(part)\<close> of a part without a dot, cut to its whole part, when it lies between 0 and 255: blanks
  around it are ignored, nothing is zero, and signs, exponents and the prefixes 0x, 0o and 0b are read. The
  value is exact, where the code rounds to 53 bits.\<close>

definition digits_below :: "nat \<Rightarrow> string \<Rightarrow> bool" where
  "digits_below base s = (s \<noteq> [] \<and> list_all (\<lambda>c. is_hex_digit c \<and> digit_val (lower_char c) < base) s)"

definition decimal_octet :: "string \<Rightarrow> nat option" where
  "decimal_octet s =
     (let m = takeWhile is_digit s; e = dropWhile is_digit s in
      if m = [] then None
      else if e = [] then (let n = of_digits 10 m in if n \<le> 255 then Some n else None)
      else if lower_char (hd e) \<noteq> CHR ''e'' then None
      else let neg = (take 1 (tl e) = ''-''); ds = (if take 1 (tl e) \<in> {''-'', ''+''} then tl (tl e) else tl e) in
           if \<not> all_digits ds then None
           else if neg then (let d = 10 ^ of_digits 10 ds in if of_digits 10 m \<le> 255 * d then Some (of_digits 10 m div d) else None)
           else (let n = of_digits 10 m * 10 ^ of_digits 10 ds in if n \<le> 255 then Some n else None))"

definition number_octet :: "string \<Rightarrow> nat option" where
  "number_octet part =
     (let s = trim part; base = (case map lower_char (take 2 s) of
            [z, x] \<Rightarrow> (if z \<noteq> CHR ''0'' then None else if x = CHR ''x'' then Some 16 else if x = CHR ''o'' then Some 8
                       else if x = CHR ''b'' then Some 2 else None)
          | _ \<Rightarrow> None)
      in if s = [] then Some 0
         else case base of
                Some b \<Rightarrow> if digits_below b (drop 2 s) \<and> of_digits b (map lower_char (drop 2 s)) \<le> 255
                          then Some (of_digits b (map lower_char (drop 2 s))) else None
              | None \<Rightarrow> if hd s = CHR ''+'' then decimal_octet (tl s)
                        else if hd s = CHR ''-'' then (case decimal_octet (tl s) of Some 0 \<Rightarrow> (if list_all (\<lambda>c. c = CHR ''0'') (takeWhile is_digit (tl s)) then Some 0 else None) | _ \<Rightarrow> None)
                        else decimal_octet s)"

definition ipToLong :: "string \<Rightarrow> cidr_error + nat" where
  "ipToLong ip =
     (case map number_octet (split_chr CHR ''.'' ip) of
        [Some a, Some b, Some c, Some d] \<Rightarrow> Inr (push_bit 24 a OR push_bit 16 b OR push_bit 8 c OR d)
      | _ \<Rightarrow> Inl InvalidIpAddress)"

definition isIpInSubnet :: "string \<Rightarrow> string \<Rightarrow> cidr_error + bool" where
  "isIpInSubnet ip cidr =
     ebind (parseCidr cidr) (\<lambda>_. ebind (ipToLong ip) (\<lambda>_. networkContains cidr ip))"

section \<open>Gateways\<close>

definition gatewayPolicyForAddress :: "network \<Rightarrow> string option \<Rightarrow> string" where
  "gatewayPolicyForAddress parsed gatewayAddress =
     (case gatewayAddress of
        None \<Rightarrow> ''none''
      | Some a \<Rightarrow>
          if a = [] then ''none''
          else let canonical = (case canonicalizeIp a of Some c \<Rightarrow> c | None \<Rightarrow> a) in
               if canonical = net_firstUsable parsed then ''first''
               else if canonical = net_lastUsable parsed then ''last'' else ''custom'')"

definition resolveGatewayAddress :: "network \<Rightarrow> string \<Rightarrow> string option \<Rightarrow> string option" where
  "resolveGatewayAddress parsed policy customAddress =
     (if policy = ''none'' then None
      else if policy = ''last'' then Some (net_lastUsable parsed)
      else if policy = ''custom''
        then (case customAddress of
                None \<Rightarrow> None
              | Some a \<Rightarrow> if a = [] then Some [] else Some (case canonicalizeIp a of Some c \<Rightarrow> c | None \<Rightarrow> a))
      else Some (net_firstUsable parsed))"

text \<open>A string the code tests for truth.\<close>

definition truthy_text :: "string option \<Rightarrow> string option" where
  "truthy_text s = (case s of Some (c # cs) \<Rightarrow> Some (c # cs) | _ \<Rightarrow> None)"

section \<open>Default pools\<close>

text \<open>\<open>nearestPow2\<close> of a number given in hundredths: the pool sizes are 0.35 and 0.15 of a whole number.\<close>

fun floor_pow2 :: "nat \<Rightarrow> nat" where
  "floor_pow2 n = (if n \<le> 1 then 1 else 2 * floor_pow2 (n div 2))"

declare floor_pow2.simps [simp del]

definition nearestPow2 :: "nat \<Rightarrow> nat" where
  "nearestPow2 hundredths =
     (if hundredths \<le> 100 then 1
      else let lower = floor_pow2 (hundredths div 100); upper = lower * 2 in
           if hundredths - 100 * lower \<le> 100 * upper - hundredths then lower else upper)"

definition defaultDhcpPoolForSubnet :: "network \<Rightarrow> string option \<Rightarrow> cidr_error + (nat \<times> nat) option" where
  "defaultDhcpPoolForSubnet parsed gateway =
     (if net_family parsed \<noteq> 4 then Inr None
      else if net_prefix parsed < 16 \<or> net_prefix parsed > 29 then Inr None
      else
        let size = sizeBig parsed;
            medium = (net_prefix parsed \<ge> 21 \<and> net_prefix parsed \<le> 23);
            poolEnd = (if medium then networkBig parsed + 128 else networkBig parsed + nearestPow2 (size * 35));
            poolSize = (if medium then 64 else max 2 (nearestPow2 (size * 15)));
            startLong = max (poolEnd - poolSize + 1) (networkBig parsed + 1);
            endLong = min poolEnd (lastBig parsed - 1)
        in ebind (case truthy_text gateway of None \<Rightarrow> Inr None | Some g \<Rightarrow> ebind (ipToLong g) (\<lambda>l. Inr (Some l))) (\<lambda>gatewayLong.
             let (startLong, endLong) =
                   (if gatewayLong = Some startLong then (startLong + 1, endLong)
                    else if gatewayLong = Some endLong then (startLong, endLong - 1) else (startLong, endLong))
             in Inr (if startLong \<le> endLong then Some (startLong, endLong) else None)))"

text \<open>The choice of the side of the gateway that is kept.\<close>

definition around_gateway :: "nat option \<Rightarrow> nat \<times> nat \<Rightarrow> nat \<times> nat" where
  "around_gateway gw pool =
     (case gw of
        None \<Rightarrow> pool
      | Some g \<Rightarrow>
          if g \<ge> fst pool \<and> g \<le> snd pool
          then if g = fst pool then (fst pool + 1, snd pool)
               else if g = snd pool then (fst pool, snd pool - 1)
               else if snd pool - g \<ge> g - fst pool then (g + 1, snd pool) else (fst pool, g - 1)
          else pool)"

definition defaultDhcpV6PoolForSubnet :: "network \<Rightarrow> string option \<Rightarrow> cidr_error + (string \<times> string) option" where
  "defaultDhcpV6PoolForSubnet parsed gateway =
     (if net_family parsed \<noteq> 6 then Inr None
      else if net_prefix parsed < 64 \<or> net_prefix parsed \<ge> net_bits parsed - 1 then Inr None
      else
        ebind (addressToBig (if sizeBig parsed > 0x2000 then addressAtOffset parsed 0x1000 else net_firstUsable parsed)) (\<lambda>s.
        ebind (addressToBig (if sizeBig parsed > 0x2000 then addressAtOffset parsed 0x1fff else net_lastUsable parsed)) (\<lambda>e.
        ebind (case truthy_text gateway of
                 None \<Rightarrow> Inr None
               | Some g \<Rightarrow> if addressFamily g = Some 6 then ebind (addressToBig g) (\<lambda>a. Inr (Some (a_value a))) else Inr None) (\<lambda>gw.
          let pool = around_gateway gw (a_value s, a_value e) in
          Inr (if fst pool > snd pool then None
               else Some (bigToAddress (fst pool) 6, bigToAddress (snd pool) 6))))))"

definition defaultV6ScopeForTarget ::
  "string option \<Rightarrow> network \<Rightarrow> string option \<Rightarrow> cidr_error + (string \<times> (string \<times> string)) option" where
  "defaultV6ScopeForTarget sourceMode parsed gateway =
     (case sourceMode of
        None \<Rightarrow> Inr None
      | Some mode \<Rightarrow>
          if mode \<notin> set (dhcpV6ModesFor (int (net_prefix parsed))) then Inr None
          else if mode \<noteq> ''stateful'' then Inr (Some (mode, (net_firstUsable parsed, net_lastUsable parsed)))
          else ebind (defaultDhcpV6PoolForSubnet parsed gateway) (\<lambda>pool.
                 Inr (map_option (\<lambda>p. (''stateful'', p)) pool)))"

section \<open>Plans\<close>

text \<open>The columns of \<open>subnets\<close> the planner reads beside those of the store.\<close>

record plan_subnet = subnet_row +
  sub_gateway_policy :: "string option"
  sub_vlan_id :: "nat option"
  sub_folder_id :: "nat option"
  sub_has_reverse_dns :: "bool option"

text \<open>The columns of a scope that make up its policy, and its options but for mask, router and broadcast.\<close>

record scope_policy =
  pol_scope_id :: nat
  pol_dns_servers :: "string option"
  pol_ntp_servers :: "string option"
  pol_domain_search :: "string option"
  pol_description :: "string option"
  pol_options :: "(nat \<times> string option) list"

record plan_gateway =
  gw_policy :: "string option"
  gw_address :: "string option"

record plan_scope =
  ps_source_scope_id :: nat
  ps_enabled :: bool
  ps_lease_time :: "string option"
  ps_v6_mode :: "string option"
  ps_interval :: "string \<times> string"

record plan_target =
  tg_cidr :: string
  tg_selected :: "bool option"
  tg_gateway :: plan_gateway
  tg_scopes :: "plan_scope list"

datatype plan_values = Numbers "nat option list" | Texts "string option list" | Flags "bool option list"

datatype plan_conflict =
    CustomGatewayPolicyRequired
  | GatewayPolicyConflict
  | NetworkPolicyConflict string plan_values
  | ReservationIdentityConflict string "string option" "nat list"
  | ScopePolicyConflict "nat list" nat
  | GatewayAllocationConflict string string nat alloc_state
  | GatewayReservationConflict string string nat "string option"
  | GatewayLeaseConflict string string nat "string option"

record plan =
  plan_mode :: string
  plan_source_ids :: "nat list"
  plan_source_cidrs :: "string list"
  plan_targets :: "plan_target list"
  plan_conflicts :: "plan_conflict list"
  plan_dependency_token :: string

datatype plan_error =
    PlanAddress cidr_error
  | InvalidSelectedCidrs "string list"
  | GatewayTargetsNotInPlan "string list"
  | InvalidGatewayPolicy string
  | CustomGatewayNotUsable string

record gateway_override =
  ov_cidr :: string
  ov_policy :: string
  ov_address :: "string option"

definition planned :: "cidr_error + 'a \<Rightarrow> plan_error + 'a" where
  "planned r = (case r of Inl e \<Rightarrow> Inl (PlanAddress e) | Inr x \<Rightarrow> Inr x)"

text \<open>\<open>[...new Set(xs)]\<close>: the first occurrence of each value.\<close>

definition unique :: "'a list \<Rightarrow> 'a list" where
  "unique xs = rev (remdups (rev xs))"

text \<open>\<open>stableRows\<close>: the rows of the given networks in the order of their ids.\<close>

definition stableRows :: "('a \<Rightarrow> nat option) \<Rightarrow> ('a \<Rightarrow> nat) \<Rightarrow> 'a list \<Rightarrow> nat list \<Rightarrow> 'a list" where
  "stableRows subnetOf idOf rows ids = sort_key idOf (filter (\<lambda>r. \<exists>i \<in> set ids. subnetOf r = Some i) rows)"

definition targetGateway :: "plan_subnet \<Rightarrow> string \<Rightarrow> gateway_override option \<Rightarrow> plan_error + plan_gateway" where
  "targetGateway parent cidr override =
     ebind (planned (parseNetwork cidr)) (\<lambda>parsed.
       case override of
         Some ov \<Rightarrow>
           if ov_policy ov \<notin> {''first'', ''last'', ''custom'', ''none''} then Inl (InvalidGatewayPolicy cidr)
           else if ov_policy ov = ''custom''
             \<and> (case truthy_text (ov_address ov) of
                  None \<Rightarrow> True
                | Some a \<Rightarrow> \<not> isValidAddress a \<or> \<not> parsedNetworkContains parsed a
                            \<or> (\<exists>t \<in> set (topologyAddresses parsed). canonicalizeIp a = Some t))
             then Inl (CustomGatewayNotUsable cidr)
           else Inr \<lparr>gw_policy = Some (ov_policy ov),
                     gw_address = resolveGatewayAddress parsed (ov_policy ov) (truthy_text (ov_address ov))\<rparr>
       | None \<Rightarrow>
           let policy = (case truthy_text (sub_gateway_policy parent) of Some p \<Rightarrow> p | None \<Rightarrow> ''none'') in
           if policy = ''custom''
           then (case truthy_text (sub_gateway_address parent) of
                   Some g \<Rightarrow> if parsedNetworkContains parsed g
                             then Inr \<lparr>gw_policy = Some ''custom'', gw_address = Some g\<rparr>
                             else Inr \<lparr>gw_policy = None, gw_address = None\<rparr>
                 | None \<Rightarrow> Inr \<lparr>gw_policy = None, gw_address = None\<rparr>)
           else Inr \<lparr>gw_policy = Some policy, gw_address = resolveGatewayAddress parsed policy None\<rparr>)"

definition defaultScopesForTarget :: "db \<Rightarrow> nat list \<Rightarrow> string \<Rightarrow> plan_gateway \<Rightarrow> plan_error + plan_scope list" where
  "defaultScopesForTarget db sourceIds cidr gateway =
     ebind (planned (parseNetwork cidr)) (\<lambda>parsed.
       case stableRows (\<lambda>s. Some (scope_subnet_id s)) scope_id (dhcp_scopes db) sourceIds of
         [] \<Rightarrow> Inr []
       | source # _ \<Rightarrow>
           let scope = (\<lambda>mode interval. \<lparr>ps_source_scope_id = scope_id source, ps_enabled = scope_enabled source,
                          ps_lease_time = scope_lease_time source, ps_v6_mode = mode, ps_interval = interval\<rparr>) in
           if net_family parsed = 6
           then ebind (planned (defaultV6ScopeForTarget (scope_v6_mode source) parsed (gw_address gateway))) (\<lambda>p.
                  Inr (case p of None \<Rightarrow> [] | Some (mode, interval) \<Rightarrow> [scope (Some mode) interval]))
           else ebind (planned (defaultDhcpPoolForSubnet parsed (gw_address gateway))) (\<lambda>p.
                  Inr (case p of None \<Rightarrow> [] | Some (s, e) \<Rightarrow> [scope None (longToIp s, longToIp e)])))"

text \<open>\<open>JSON.stringify\<close> of the columns tells two policies apart exactly when a column differs.\<close>

definition policy_signature :: "scope_policy list \<Rightarrow> scope_row \<Rightarrow>
    bool \<times> string option \<times> string option \<times> scope_policy option" where
  "policy_signature policies s =
     (scope_enabled s, scope_lease_time s, scope_domain_name s,
      map_option (\<lambda>p. p\<lparr>pol_scope_id := 0\<rparr>) (find (\<lambda>p. pol_scope_id p = scope_id s) policies))"

definition dhcpScopePolicyConflicts :: "db \<Rightarrow> scope_policy list \<Rightarrow> nat list \<Rightarrow> plan_conflict list" where
  "dhcpScopePolicyConflicts db policies sourceIds =
     (let scopes = stableRows (\<lambda>s. Some (scope_subnet_id s)) scope_id (dhcp_scopes db) sourceIds;
          signatures = unique (map (policy_signature policies) scopes)
      in if length scopes < 2 \<or> length signatures < 2 then []
         else [ScopePolicyConflict (map scope_id scopes) (length signatures)])"

text \<open>The map from gateway addresses to the targets that claim them; the last one wins.\<close>

definition gateway_claims :: "(string \<times> plan_gateway) list \<Rightarrow> string \<Rightarrow> string option" where
  "gateway_claims targets =
     map_of (rev (List.map_filter (\<lambda>(cidr, g). map_option (\<lambda>a. (a, cidr)) (truthy_text (gw_address g))) targets))"

definition gatewayClaimConflicts :: "db \<Rightarrow> (string \<times> plan_gateway) list \<Rightarrow> nat list \<Rightarrow> plan_conflict list" where
  "gatewayClaimConflicts db targets sourceIds =
     (let gateways = gateway_claims targets in
      List.map_filter (\<lambda>r. map_option (\<lambda>cidr. GatewayAllocationConflict cidr (ip_address r) (ip_id r) (ip_allocation_state r))
          (gateways (ip_address r)))
        (filter (\<lambda>r. (case ip_allocation_source_type r of None \<Rightarrow> False | Some s \<Rightarrow> s \<noteq> TOPOLOGY)
             \<and> ip_allocation_state r \<notin> {UNASSIGNED, STATIC_DNS})
          (stableRows (\<lambda>r. Some (ip_subnet_id r)) ip_id (ip_addresses db) sourceIds))
    @ List.map_filter (\<lambda>r. map_option (\<lambda>cidr. GatewayReservationConflict cidr (rsv_ip_address r) (rsv_id r) (rsv_mac_address r))
          (gateways (rsv_ip_address r)))
        (filter rsv_enabled (stableRows (\<lambda>r. Some (rsv_subnet_id r)) rsv_id (dhcp_reservations db) sourceIds))
    @ List.map_filter (\<lambda>l. map_option (\<lambda>cidr. GatewayLeaseConflict cidr (lease_ip_address l) (lease_id l) (lease_mac_address l))
          (gateways (lease_ip_address l)))
        (filter (activeLeaseSql db) (stableRows lease_subnet_id lease_id (dhcp_leases db) sourceIds)))"

text \<open>The target networks of a division and which of them were asked for.\<close>

definition divide_targets :: "plan_subnet \<Rightarrow> int option \<Rightarrow> string \<Rightarrow> string list \<Rightarrow> plan_error + (string \<times> bool) list" where
  "divide_targets parent newPrefix cidr selectedCidrs =
     (case newPrefix of
        Some p \<Rightarrow>
          ebind (planned (splitNetwork (sub_cidr parent) p 256)) (\<lambda>ns.
            let calculated = map net_cidr ns;
                invalid = filter (\<lambda>v. v \<notin> set calculated) (unique selectedCidrs)
            in if selectedCidrs = [] then Inr (map (\<lambda>v. (v, True)) calculated)
               else if invalid \<noteq> [] then Inl (InvalidSelectedCidrs invalid)
               else Inr (map (\<lambda>v. (v, v \<in> set selectedCidrs)) calculated))
      | None \<Rightarrow>
          ebind (planned (subtractNetwork (sub_cidr parent) cidr)) (\<lambda>others.
            Inr (map (\<lambda>v. (v, v = cidr)) (cidr # others))))"

definition divide_conflicts :: "db \<Rightarrow> scope_policy list \<Rightarrow> nat \<Rightarrow> plan_target list \<Rightarrow> plan_conflict list" where
  "divide_conflicts db policies parentId targets =
     (if \<exists>t \<in> set targets. gw_policy (tg_gateway t) = None then [CustomGatewayPolicyRequired] else [])
     @ dhcpScopePolicyConflicts db policies [parentId]
     @ gatewayClaimConflicts db (map (\<lambda>t. (tg_cidr t, tg_gateway t)) targets) [parentId]"

definition buildDividePlan ::
  "(db \<Rightarrow> nat list \<Rightarrow> string) \<Rightarrow> db \<Rightarrow> scope_policy list \<Rightarrow> plan_subnet \<Rightarrow> int option \<Rightarrow> string \<Rightarrow> string list
     \<Rightarrow> gateway_override list \<Rightarrow> plan_error + plan" where
  "buildDividePlan token db policies parent newPrefix cidr selectedCidrs targetGateways =
     ebind (divide_targets parent newPrefix cidr selectedCidrs) (\<lambda>targets.
     let overrides = map_of (rev (map (\<lambda>o'. (ov_cidr o', o')) targetGateways));
         unknown = filter (\<lambda>v. v \<notin> set (map fst targets)) (unique (map ov_cidr targetGateways))
     in if unknown \<noteq> [] then Inl (GatewayTargetsNotInPlan unknown)
        else
          ebind (emap (\<lambda>(c, sel). ebind (targetGateway parent c (overrides c)) (\<lambda>g. Inr (c, sel, g))) targets) (\<lambda>withGateway.
          ebind (emap (\<lambda>(c, sel, g). ebind (defaultScopesForTarget db [sub_id parent] c g) (\<lambda>sc.
                   Inr \<lparr>tg_cidr = c, tg_selected = Some sel, tg_gateway = g, tg_scopes = sc\<rparr>)) withGateway) (\<lambda>plannedTargets.
            Inr \<lparr>plan_mode = (if newPrefix = None then ''carve'' else ''equal''), plan_source_ids = [sub_id parent],
                 plan_source_cidrs = [sub_cidr parent], plan_targets = plannedTargets,
                 plan_conflicts = divide_conflicts db policies (sub_id parent) plannedTargets,
                 plan_dependency_token = token db [sub_id parent]\<rparr>)))"

text \<open>The fields all allocated sources of a merge must agree on.\<close>

definition network_policy_conflicts :: "plan_subnet list \<Rightarrow> plan_conflict list" where
  "network_policy_conflicts allocated =
     (let number = (\<lambda>field f. let vs = unique (map f allocated) in
                      if length vs > 1 then [NetworkPolicyConflict field (Numbers vs)] else []);
          text = (\<lambda>field f. let vs = unique (map f allocated) in
                      if length vs > 1 then [NetworkPolicyConflict field (Texts vs)] else []);
          flag = (\<lambda>field f. let vs = unique (map f allocated) in
                      if length vs > 1 then [NetworkPolicyConflict field (Flags vs)] else [])
      in number ''vlan_id'' sub_vlan_id @ number ''folder_id'' sub_folder_id @ text ''domain_name'' sub_domain_name
         @ text ''scan_interval'' sub_scan_interval @ flag ''scan_enabled'' sub_scan_enabled
         @ flag ''has_reverse_dns'' sub_has_reverse_dns)"

text \<open>Reservations grouped by one column, in the order the values first appear.\<close>

definition identity_conflicts :: "string \<Rightarrow> (reservation_row \<Rightarrow> string option) \<Rightarrow> reservation_row list \<Rightarrow> plan_conflict list" where
  "identity_conflicts field f rows =
     List.map_filter (\<lambda>v. let group = filter (\<lambda>r. f r = v) rows in
         if length group > 1 then Some (ReservationIdentityConflict field v (map rsv_id group)) else None)
       (unique (map f rows))"

definition merge_gateway :: "network \<Rightarrow> plan_subnet list \<Rightarrow> bool \<times> plan_gateway" where
  "merge_gateway parsed allocated =
     (let policies = unique (map sub_gateway_policy allocated);
          customAddresses = unique (map sub_gateway_address (filter (\<lambda>s. sub_gateway_policy s = Some ''custom'') allocated));
          gatewayConflict = (length policies > 1 \<or> length customAddresses > 1);
          policy = (if gatewayConflict then None
                    else case truthy_text (Option.bind (case policies of [] \<Rightarrow> None | p # _ \<Rightarrow> Some p) id) of
                           Some p \<Rightarrow> Some p | None \<Rightarrow> Some ''none'');
          custom = truthy_text (Option.bind (case customAddresses of [] \<Rightarrow> None | a # _ \<Rightarrow> Some a) id)
      in (gatewayConflict,
          \<lparr>gw_policy = policy, gw_address = Option.bind policy (\<lambda>p. resolveGatewayAddress parsed p custom)\<rparr>))"

definition merge_conflicts ::
  "db \<Rightarrow> scope_policy list \<Rightarrow> plan_subnet list \<Rightarrow> string \<Rightarrow> bool \<Rightarrow> plan_gateway \<Rightarrow> plan_conflict list" where
  "merge_conflicts db policies sources mergedCidr gatewayConflict gateway =
     (let allocated = filter (\<lambda>s. sub_status s = ''allocated'') sources; ids = map sub_id sources;
          reservations = stableRows (\<lambda>r. Some (rsv_subnet_id r)) rsv_id (dhcp_reservations db) ids
      in (if gatewayConflict then [GatewayPolicyConflict] else []) @ network_policy_conflicts allocated
         @ identity_conflicts ''mac_address'' rsv_mac_address reservations
         @ identity_conflicts ''ip_address'' (\<lambda>r. Some (rsv_ip_address r)) reservations
         @ gatewayClaimConflicts db [(mergedCidr, gateway)] ids @ dhcpScopePolicyConflicts db policies ids)"

definition buildMergePlan ::
  "(db \<Rightarrow> nat list \<Rightarrow> string) \<Rightarrow> db \<Rightarrow> scope_policy list \<Rightarrow> plan_subnet list \<Rightarrow> string \<Rightarrow> plan_error + plan" where
  "buildMergePlan token db policies sources mergedCidr =
     (let allocated = filter (\<lambda>s. sub_status s = ''allocated'') sources; ids = map sub_id sources
      in ebind (planned (parseNetwork mergedCidr)) (\<lambda>parsed.
         case merge_gateway parsed allocated of
           (gatewayConflict, gateway) \<Rightarrow>
             ebind (defaultScopesForTarget db ids mergedCidr gateway) (\<lambda>scopes.
               Inr \<lparr>plan_mode = ''merge'', plan_source_ids = ids, plan_source_cidrs = map sub_cidr sources,
                    plan_targets = [\<lparr>tg_cidr = mergedCidr, tg_selected = None, tg_gateway = gateway, tg_scopes = scopes\<rparr>],
                    plan_conflicts = merge_conflicts db policies sources mergedCidr gatewayConflict gateway,
                    plan_dependency_token = token db ids\<rparr>)))"

definition isCurrentTransformationPlan ::
  "(db \<Rightarrow> nat list \<Rightarrow> string) \<Rightarrow> db \<Rightarrow> nat list \<Rightarrow> string option \<Rightarrow> string option \<Rightarrow> string option \<Rightarrow> bool" where
  "isCurrentTransformationPlan token db source_ids dependency_token plan_id current_plan_id =
     (case truthy_text dependency_token of
        None \<Rightarrow> False
      | Some t \<Rightarrow>
          if token db source_ids \<noteq> t then False
          else (case (truthy_text plan_id, current_plan_id) of (Some p, Some c) \<Rightarrow> p = c | _ \<Rightarrow> True))"

section \<open>Moving reservations and leases\<close>

text \<open>The child whose network holds the address; a text that is no address has none.\<close>

definition childContaining :: "(nat \<times> network) list \<Rightarrow> string \<Rightarrow> nat option" where
  "childContaining childRanges ip =
     (case addressToBig ip of
        Inl _ \<Rightarrow> None
      | Inr address \<Rightarrow>
          map_option fst (find (\<lambda>(i, n). net_family n = a_family address
             \<and> a_value address \<ge> networkBig n \<and> a_value address \<le> lastBig n) childRanges))"

definition child_ranges :: "db \<Rightarrow> nat \<Rightarrow> cidr_error + (nat \<times> network) list" where
  "child_ranges db parentId =
     emap (\<lambda>s. ebind (parseNetwork (sub_cidr s)) (\<lambda>n. Inr (sub_id s, n)))
       (filter (\<lambda>s. sub_parent_id s = Some parentId) (subnets db))"

text \<open>The unique keys of \<open>dhcp_reservations\<close>; NULLs are never equal. An UPDATE that breaks one throws.\<close>

definition reservations_unique :: "reservation_row list \<Rightarrow> bool" where
  "reservations_unique rows =
     (distinct (map (\<lambda>r. (rsv_subnet_id r, rsv_ip_address r)) rows)
    \<and> distinct (map (\<lambda>r. (rsv_subnet_id r, rsv_mac_address r)) (filter (\<lambda>r. rsv_mac_address r \<noteq> None) rows))
    \<and> distinct (map (\<lambda>r. (rsv_subnet_id r, rsv_duid r)) (filter (\<lambda>r. rsv_duid r \<noteq> None) rows)))"

definition update_reservations :: "(reservation_row \<Rightarrow> bool) \<Rightarrow> nat \<Rightarrow> db \<Rightarrow> unit outcome" where
  "update_reservations P subnetId db =
     (let rows = map (\<lambda>r. if P r then r\<lparr>rsv_subnet_id := subnetId\<rparr> else r) (dhcp_reservations db) in
      if reservations_unique rows then (db\<lparr>dhcp_reservations := rows\<rparr>, Inr ())
      else (db, Inl (SqliteError ''UNIQUE constraint failed'')))"

definition moveReservationsToChildren :: "db \<Rightarrow> nat \<Rightarrow> unit outcome" where
  "moveReservationsToChildren db parentId =
     (case child_ranges db parentId of
        Inl e \<Rightarrow> (db, Inl (AddressError e))
      | Inr children \<Rightarrow>
          foldOut (\<lambda>db r. case childContaining children (rsv_ip_address r) of
                           None \<Rightarrow> (db, Inr ())
                         | Some c \<Rightarrow> update_reservations (\<lambda>q. rsv_id q = rsv_id r) c db)
            db (filter (\<lambda>r. rsv_subnet_id r = parentId) (dhcp_reservations db)))"

definition moveLeasesToChildren :: "db \<Rightarrow> nat \<Rightarrow> unit outcome" where
  "moveLeasesToChildren db parentId =
     (case child_ranges db parentId of
        Inl e \<Rightarrow> (db, Inl (AddressError e))
      | Inr children \<Rightarrow>
          (db\<lparr>dhcp_leases := map (\<lambda>l. if lease_subnet_id l = Some parentId
                then (case childContaining children (lease_ip_address l) of
                        Some c \<Rightarrow> l\<lparr>lease_subnet_id := Some c\<rparr> | None \<Rightarrow> l)
                else l) (dhcp_leases db)\<rparr>, Inr ()))"

definition deleteReservationsAndLeasesByIps :: "db \<Rightarrow> string list \<Rightarrow> db \<times> nat \<times> nat" where
  "deleteReservationsAndLeasesByIps db ips =
     (let r = filter (\<lambda>r. rsv_ip_address r \<notin> set ips) (dhcp_reservations db);
          l = filter (\<lambda>l. lease_ip_address l \<notin> set ips) (dhcp_leases db)
      in (db\<lparr>dhcp_reservations := r, dhcp_leases := l\<rparr>,
          length (dhcp_reservations db) - length r, length (dhcp_leases db) - length l))"

definition moveReservationsToSubnet :: "db \<Rightarrow> nat list \<Rightarrow> nat \<Rightarrow> unit outcome" where
  "moveReservationsToSubnet db childIds mergedId =
     (if childIds = [] then (db, Inr ()) else update_reservations (\<lambda>r. rsv_subnet_id r \<in> set childIds) mergedId db)"

definition moveLeasesToSubnet :: "db \<Rightarrow> nat list \<Rightarrow> nat \<Rightarrow> db" where
  "moveLeasesToSubnet db childIds mergedId =
     db\<lparr>dhcp_leases := map (\<lambda>l. if \<exists>c \<in> set childIds. lease_subnet_id l = Some c
            then l\<lparr>lease_subnet_id := Some mergedId\<rparr> else l) (dhcp_leases db)\<rparr>"

end
