(* ===== verification/TransformProperties.thy ===== *)
theory TransformProperties
  imports TransformPlan
begin

text \<open>
  Properties of the plans for dividing and merging networks: the targets of a division partition the
  network, gateways are usable addresses of their networks and, without a conflict in the plan, claimed by
  no one; default pools stay inside the network and off the gateway; reservations follow their addresses.
\<close>

section \<open>Default pools\<close>

lemma pool_sizes:
  assumes "3 \<le> k" "k \<le> 16"
  shows "nearestPow2 (2 ^ k * 35) = 2 ^ (k - 2)" "nearestPow2 (2 ^ k * 15) = 2 ^ (k - 3)"
proof -
  have "k = 3 \<or> k = 4 \<or> k = 5 \<or> k = 6 \<or> k = 7 \<or> k = 8 \<or> k = 9 \<or> k = 10 \<or> k = 11 \<or> k = 12 \<or> k = 13 \<or> k = 14 \<or> k = 15 \<or> k = 16"
    using assms by presburger
  then show "nearestPow2 (2 ^ k * 35) = 2 ^ (k - 2)" "nearestPow2 (2 ^ k * 15) = 2 ^ (k - 3)"
    by (elim disjE; simp add: nearestPow2_def Let_def floor_pow2.simps)+
qed

lemma digit_lower: "is_digit c \<Longrightarrow> lower_char c = c"
  by (auto simp: lower_char_def is_digit_def)

lemma number_octet_dec:
  assumes "n \<le> 255"
  shows "number_octet (dec n) = Some n"
proof -
  have d: "list_all is_digit (dec n)" "dec n \<noteq> []" by (simp_all add: dec_chars)
  have t: "trim (dec n) = dec n"
    by (rule trim_id) (use d(1) in \<open>auto simp: list_all_iff is_digit_def is_space_def\<close>)
  have base: "(case map lower_char (take 2 (dec n)) of
            [z, x] \<Rightarrow> (if z \<noteq> CHR ''0'' then None else if x = CHR ''x'' then Some (16 :: nat) else if x = CHR ''o'' then Some 8
                       else if x = CHR ''b'' then Some 2 else None)
          | _ \<Rightarrow> None) = None"
  proof (cases "dec n")
    case (Cons a as)
    then show ?thesis using d(1) by (cases as) (auto simp: digit_lower is_digit_def)
  qed simp
  have "decimal_octet (dec n) = Some n"
    using d assms by (simp add: decimal_octet_def Let_def takeWhile_eq_all_conv [THEN iffD2] dropWhile_eq_Nil_conv [THEN iffD2] list_all_iff js_simps)
  moreover have "hd (dec n) \<noteq> CHR ''+''" "hd (dec n) \<noteq> CHR ''-''"
    using d by (cases "dec n"; auto simp: is_digit_def)+
  ultimately show ?thesis unfolding number_octet_def t Let_def base using d(2) by simp
qed

lemma or_shifted: "x < 2 ^ k \<Longrightarrow> push_bit k a OR x = a * 2 ^ k + (x :: nat)"
proof -
  assume x: "x < 2 ^ k"
  have "\<not> bit (push_bit k a) n \<or> \<not> bit x n" for n
  proof (cases "n < k")
    case False
    then have "(2 :: nat) ^ k \<le> 2 ^ n" by simp
    then have "x < 2 ^ n" using x by linarith
    then show ?thesis by (simp add: bit_iff_odd)
  qed (simp add: bit_push_bit_iff)
  then have "push_bit k a + x = push_bit k a OR x" by (intro disjunctive_add) blast
  then show ?thesis by (simp add: push_bit_eq_mult)
qed

lemma ipToLong_format:
  assumes "v < 2 ^ 32"
  shows "ipToLong (formatIp v 32) = Inr v"
proof -
  define a b c d where "a = v div 2 ^ 24" and "b = v div 2 ^ 16 mod 256" and "c = v div 2 ^ 8 mod 256" and "d = v mod 256"
  have le: "a \<le> 255" "b \<le> 255" "c \<le> 255" "d \<le> 255" using assms by (auto simp: a_def b_def c_def d_def)
  have f: "formatIp v 32 = join ''.'' (map dec [a, b, c, d])"
  proof -
    have "groups_of 256 4 v = [a, b, c, d]"
      using assms unfolding groups_of_def rev_upt_4_8 a_def b_def c_def d_def by simp
    then show ?thesis unfolding formatIp_v4 by (rule arg_cong)
  qed
  have "split_chr CHR ''.'' (formatIp v 32) = map dec [a, b, c, d]"
    unfolding f by (rule split_join) (auto dest: dec_no_special)
  then have "ipToLong (formatIp v 32) = Inr (push_bit 24 a OR push_bit 16 b OR push_bit 8 c OR d)"
    using le by (simp add: ipToLong_def number_octet_dec)
  also have "push_bit 24 a OR push_bit 16 b OR push_bit 8 c OR d = a * 2 ^ 24 + b * 2 ^ 16 + c * 2 ^ 8 + d"
    using le by (simp add: or_shifted or.assoc)
  also have "\<dots> = v"
  proof -
    have d: "v div 65536 = v div 256 div 256" "v div 16777216 = v div 256 div 256 div 256"
      by (simp_all add: div_mult2_eq [symmetric])
    have "v = 256 * (v div 256) + v mod 256" "v div 256 = 256 * (v div 65536) + v div 256 mod 256"
      "v div 65536 = 256 * (v div 16777216) + v div 65536 mod 256"
      by (simp_all add: d)
    moreover have pw: "(2 :: nat) ^ 8 = 256" "(2 :: nat) ^ 16 = 65536" "(2 :: nat) ^ 24 = 16777216" by simp_all
    ultimately show ?thesis unfolding a_def b_def c_def d_def pw by linarith
  qed
  finally show ?thesis by simp
qed

text \<open>Addresses of a network in text.\<close>

lemma usable_texts:
  assumes "net_ok n"
  shows "net_firstUsable n = formatIp (if net_prefix n < net_bits n - 1 then networkBig n + 1 else networkBig n) (net_bits n)"
    "net_lastUsable n = formatIp (if net_prefix n < net_bits n - 1 \<and> net_family n = 4 then lastBig n - 1 else lastBig n) (net_bits n)"
    "net_broadcast n = (if net_family n = 4 then Some (formatIp (lastBig n) (net_bits n)) else None)"
proof -
  obtain v b p where v: "valid_addr v b" "n = build_network (fam b) b p v" using assms by (auto simp: net_ok_def)
  have b: "b = 32 \<or> b = 128" by (rule valid_addr_bits [OF v(1)])
  show "net_firstUsable n = formatIp (if net_prefix n < net_bits n - 1 then networkBig n + 1 else networkBig n) (net_bits n)"
    "net_lastUsable n = formatIp (if net_prefix n < net_bits n - 1 \<and> net_family n = 4 then lastBig n - 1 else lastBig n) (net_bits n)"
    "net_broadcast n = (if net_family n = 4 then Some (formatIp (lastBig n) (net_bits n)) else None)"
    using b unfolding v(2)
    by (elim disjE; simp add: build_network_def Let_def bigToAddress_def IPV4_BITS_def IPV6_BITS_def)+
qed

text \<open>Where the IPv4 pool lies: never on an end of the network, nor on the gateway when that is an end of it.\<close>

lemma default_pool_v4:
  assumes n: "net_ok n" and f: "net_family n = 4" "16 \<le> net_prefix n" "net_prefix n \<le> 29"
  obtains s e where "networkBig n < s" "s < e" "e < lastBig n"
    "\<And>gateway. defaultDhcpPoolForSubnet n gateway =
       ebind (case truthy_text gateway of None \<Rightarrow> Inr None | Some g \<Rightarrow> ebind (ipToLong g) (\<lambda>l. Inr (Some l))) (\<lambda>gw.
         Inr (Some (if gw = Some s then (s + 1, e) else if gw = Some e then (s, e - 1) else (s, e))))"
proof -
  have b: "net_bits n = 32" using net_ok_facts(1,2) [OF n] f(1) by (auto split: if_splits)
  define k where "k = 32 - net_prefix n"
  have k: "3 \<le> k" "k \<le> 16" "sizeBig n = 2 ^ k" using f net_ok_facts(4) [OF n] b by (auto simp: k_def)
  have last: "lastBig n = networkBig n + 2 ^ k - 1" using net_ok_facts(6) [OF n] k(3) by simp
  define medium where "medium = (net_prefix n \<ge> 21 \<and> net_prefix n \<le> 23)"
  define q where "q = (2 ^ (k - 3) :: nat)"
  define top len where "top = (if medium then 128 else 2 * q)" and "len = (if medium then 64 else max 2 q)"
  have q: "1 \<le> q" "2 ^ k = 8 * q" "2 ^ (k - 2) = 2 * q"
  proof -
    obtain j where "k = j + 3" using k(1) by (metis le_add_diff_inverse2)
    then show "1 \<le> q" "2 ^ k = 8 * q" "2 ^ (k - 2) = 2 * q" by (simp_all add: q_def power_add)
  qed
  have bounds: "len \<le> top" "2 \<le> len" "top < 8 * q - 1" if "medium \<longrightarrow> 64 \<le> q"
    using that q(1) by (auto simp: top_def len_def)
  have med: "medium \<longrightarrow> 64 \<le> q"
  proof
    assume medium
    then have "6 \<le> k - 3" by (auto simp: medium_def k_def)
    then have "(2 :: nat) ^ 6 \<le> q" unfolding q_def by (rule power_increasing) simp
    then show "64 \<le> q" by simp
  qed
  note bd = bounds [OF med]
  let ?s = "networkBig n + top - len + 1" and ?e = "networkBig n + top"
  have ends: "max (?e - len + 1) (networkBig n + 1) = ?s" "min ?e (lastBig n - 1) = ?e"
    using bd last q(2) by auto
  have pool: "(if medium then networkBig n + 128 else networkBig n + nearestPow2 (sizeBig n * 35)) = ?e"
    "(if medium then 64 else max 2 (nearestPow2 (sizeBig n * 15))) = len"
    using pool_sizes [OF k(1,2)] k(3) q(3) by (auto simp: top_def len_def q_def)
  show thesis
  proof (rule that [of ?s ?e])
    fix gateway
    show "defaultDhcpPoolForSubnet n gateway =
       ebind (case truthy_text gateway of None \<Rightarrow> Inr None | Some g \<Rightarrow> ebind (ipToLong g) (\<lambda>l. Inr (Some l))) (\<lambda>gw.
         Inr (Some (if gw = Some ?s then (?s + 1, ?e) else if gw = Some ?e then (?s, ?e - 1) else (?s, ?e))))"
      using f bd unfolding defaultDhcpPoolForSubnet_def Let_def medium_def [symmetric] pool ends
      by (auto intro!: arg_cong2 [where f = ebind] simp: fun_eq_iff)
  qed (use bd last q(2) in auto)
qed

lemma parseIp_unscoped: "parseIp_with unscoped s = Some q \<Longrightarrow> parseIp s = Some q"
  unfolding parseIp_def parseIp_with_def unscoped_def default_options_def Let_def
  by (auto split: if_splits option.splits)

lemma family_of_big: "addressToBig s = Inr a \<Longrightarrow> addressFamily s = Some (a_family a) \<and> s \<noteq> []"
  by (auto simp: addressToBig_def addressFamily_def dest: parseIp_unscoped split: option.splits)
     (auto simp: parseIp_with_def trim_def)

lemma around_gateway_avoids:
  assumes "around_gateway gw (s, e) = (s', e')" "s' \<le> e'" "0 < s"
  shows "s \<le> s' \<and> e' \<le> e \<and> (\<forall>g. gw = Some g \<longrightarrow> g < s' \<or> e' < g)"
  using assms by (auto simp: around_gateway_def split: option.splits if_splits)

lemma around_gateway_keeps:
  assumes "s < e"
  shows "fst (around_gateway gw (s, e)) \<le> snd (around_gateway gw (s, e))"
  using assms by (auto simp: around_gateway_def split: option.split)

lemma default_pool_v6:
  assumes n: "net_ok n" "net_plain n" and p: "defaultDhcpV6PoolForSubnet n gateway = Inr (Some (a, b))"
  shows "\<exists>s e. a = formatIp s 128 \<and> b = formatIp e 128 \<and> networkBig n < s \<and> s \<le> e \<and> e \<le> lastBig n
    \<and> (\<forall>g v. gateway = Some g \<and> addressToBig g = Inr v \<and> a_family v = 6 \<longrightarrow> a_value v < s \<or> e < a_value v)"
proof -
  have f: "net_family n = 6" "64 \<le> net_prefix n" "net_prefix n < net_bits n - 1"
    using p by (auto simp: defaultDhcpV6PoolForSubnet_def split: if_splits)
  then have b: "net_bits n = 128" using net_ok_facts(1,2) [OF n(1)] by (auto split: if_splits)
  have last: "lastBig n = networkBig n + sizeBig n - 1" by (rule net_ok_facts(6) [OF n(1)])
  have "(2 :: nat) ^ 2 \<le> 2 ^ (128 - net_prefix n)" using f(3) b by (intro power_increasing) auto
  then have size: "4 \<le> sizeBig n" using net_ok_facts(4) [OF n(1)] b by simp
  define lo hi where "lo = networkBig n + (if sizeBig n > 0x2000 then 0x1000 else 1)"
    and "hi = (if sizeBig n > 0x2000 then networkBig n + 0x1fff else lastBig n)"
  have lohi: "networkBig n < lo" "lo < hi" "hi \<le> lastBig n" using size last by (auto simp: lo_def hi_def)
  then have "lo \<in> net_addrs n" "hi \<in> net_addrs n" by (auto simp: net_addrs_def)
  then have v: "valid_addr lo 128" "valid_addr hi 128" using net_plain_valid [OF n] b by auto
  have "(if sizeBig n > 0x2000 then addressAtOffset n 0x1000 else net_firstUsable n) = formatIp lo 128"
    "(if sizeBig n > 0x2000 then addressAtOffset n 0x1fff else net_lastUsable n) = formatIp hi 128"
    using f b by (simp_all add: usable_texts [OF n(1)] lo_def hi_def addressAtOffset_def bigToAddress_def IPV6_BITS_def)
  note texts = this [THEN arg_cong [where f = addressToBig]]
  obtain gw where gw: "(case truthy_text gateway of None \<Rightarrow> Inr None
      | Some g \<Rightarrow> if addressFamily g = Some 6 then ebind (addressToBig g) (\<lambda>a. Inr (Some (a_value a))) else Inr None) = Inr gw"
    and pool: "fst (around_gateway gw (lo, hi)) \<le> snd (around_gateway gw (lo, hi))"
      "a = bigToAddress (fst (around_gateway gw (lo, hi))) 6" "b = bigToAddress (snd (around_gateway gw (lo, hi))) 6"
    using p f b unfolding defaultDhcpV6PoolForSubnet_def texts addressToBig_format [OF v(1)] addressToBig_format [OF v(2)]
    by (auto simp: ebind_eq_Inr_iff Let_def split: if_splits)
  obtain s e where se: "around_gateway gw (lo, hi) = (s, e)" by fastforce
  note av = around_gateway_avoids [OF se]
  have "gw = Some (a_value x)" if "gateway = Some g" "addressToBig g = Inr x" "a_family x = 6" for g x
    using gw that family_of_big [OF that(2)] by (cases g) (auto simp: truthy_text_def)
  then show ?thesis
    using av pool se lohi by (intro exI [of _ s] exI [of _ e]) (auto simp: bigToAddress_def IPV6_BITS_def)
qed

section \<open>Gateways\<close>

lemma contains_format:
  assumes "net_ok n" "net_plain n" "a \<in> net_addrs n"
  shows "parsedNetworkContains n (formatIp a (net_bits n))"
  using assms net_ok_facts(1,2) [OF assms(1)] parseIp_with_format [OF net_plain_valid [OF assms]]
  by (auto simp: parsedNetworkContains_def net_addrs_def IPV4_BITS_def)

lemma contains_canonical:
  assumes "parsedNetworkContains n a"
  shows "\<exists>v b. canonicalizeIp a = Some (formatIp v b) \<and> parsedNetworkContains n (formatIp v b) \<and> valid_addr v b"
proof -
  obtain q where q: "parseIp_with unscoped a = Some q" using assms by (auto simp: parsedNetworkContains_def split: option.splits)
  note v = parseIp_with_unscoped_valid [OF q]
  have "canonicalizeIp a = Some (formatIp (ip_value q) (ip_bits q))" using parseIp_unscoped [OF q] by (simp add: canonicalizeIp_def)
  moreover have "parsedNetworkContains n (formatIp (ip_value q) (ip_bits q))"
    using assms q parseIp_with_format [OF v, of unscoped] by (auto simp: parsedNetworkContains_def split: if_splits)
  ultimately show ?thesis using v by blast
qed

lemma usable_not_topology:
  assumes "net_ok n" "net_plain n"
  shows "net_firstUsable n \<notin> set (topologyAddresses n)" "net_lastUsable n \<notin> set (topologyAddresses n)"
    "parsedNetworkContains n (net_firstUsable n)" "parsedNetworkContains n (net_lastUsable n)"
proof -
  have sz: "net_prefix n < net_bits n - 1 \<Longrightarrow> 4 \<le> sizeBig n"
  proof -
    assume "net_prefix n < net_bits n - 1"
    then have "(2 :: nat) ^ 2 \<le> 2 ^ (net_bits n - net_prefix n)" by (intro power_increasing) auto
    then show ?thesis using net_ok_facts(4) [OF assms(1)] by simp
  qed
  have last: "lastBig n = networkBig n + sizeBig n - 1" "0 < sizeBig n" using net_ok_facts(6) net_size_pos assms(1) by auto
  define f l where "f = (if net_prefix n < net_bits n - 1 then networkBig n + 1 else networkBig n)"
    and "l = (if net_prefix n < net_bits n - 1 \<and> net_family n = 4 then lastBig n - 1 else lastBig n)"
  have t: "net_firstUsable n = formatIp f (net_bits n)" "net_lastUsable n = formatIp l (net_bits n)"
    using usable_texts [OF assms(1)] by (simp_all add: f_def l_def)
  have A: "f \<in> net_addrs n" "l \<in> net_addrs n" "networkBig n \<in> net_addrs n" "lastBig n \<in> net_addrs n"
    using sz last by (auto simp: f_def l_def net_addrs_def)
  note val = net_plain_valid [OF assms]
  have inj: "x \<in> net_addrs n \<Longrightarrow> y \<in> net_addrs n \<Longrightarrow> formatIp x (net_bits n) = formatIp y (net_bits n) \<Longrightarrow> x = y" for x y
    using val [of x] val [of y] formatIp_inj by blast
  have neq: "net_prefix n < net_bits n - 1 \<Longrightarrow> f \<noteq> networkBig n \<and> f \<noteq> lastBig n \<and> l \<noteq> networkBig n \<and> (net_family n = 4 \<longrightarrow> l \<noteq> lastBig n)"
    using sz last by (auto simp: f_def l_def)
  have top: "x \<in> set (topologyAddresses n) \<Longrightarrow> net_prefix n < net_bits n - 1
      \<and> (x = formatIp (networkBig n) (net_bits n) \<or> net_family n = 4 \<and> x = formatIp (lastBig n) (net_bits n))" for x
    using usable_texts(3) [OF assms(1)] net_ok_facts(9) [OF assms(1)] by (auto simp: topologyAddresses_def split: if_splits)
  show "net_firstUsable n \<notin> set (topologyAddresses n)" using top [of "net_firstUsable n"] neq inj A t by metis
  show "net_lastUsable n \<notin> set (topologyAddresses n)" using top [of "net_lastUsable n"] neq inj A t by metis
  show "parsedNetworkContains n (net_firstUsable n)" "parsedNetworkContains n (net_lastUsable n)"
    using contains_format [OF assms] A t by simp_all
qed

text \<open>The gateway of a target lies in its network; only a gateway inherited from the parent may be a
  network or broadcast address.\<close>

lemma truthy_textD: "truthy_text x = Some c \<Longrightarrow> x = Some c \<and> c \<noteq> []"
  by (auto simp: truthy_text_def split: option.splits list.splits)

lemma targetGateway_sound:
  assumes g: "targetGateway parent cidr ov = Inr g" and n: "parseNetwork cidr = Inr n" "net_plain n" and a: "gw_address g = Some a"
  shows "parsedNetworkContains n a \<and> a \<noteq> [] \<and> (a \<notin> set (topologyAddresses n) \<or> ov = None \<and> sub_gateway_address parent = Some a)"
proof -
  note ok = parseNetwork_ok [OF n(1)]
  note us = usable_not_topology [OF ok n(2)]
  have ne: "parsedNetworkContains n x \<Longrightarrow> x \<noteq> []" for x
    by (auto simp: parsedNetworkContains_def parseIp_with_def trim_def split: option.splits)
  have res: "parsedNetworkContains n a \<and> a \<notin> set (topologyAddresses n)"
    if r: "resolveGatewayAddress n policy custom = Some a"
      and cust: "policy = ''custom'' \<Longrightarrow> \<exists>c. custom = Some c \<and> c \<noteq> [] \<and> parsedNetworkContains n c
           \<and> (\<forall>t \<in> set (topologyAddresses n). canonicalizeIp c \<noteq> Some t)" for policy custom
  proof (cases "policy = ''custom''")
    case True
    then obtain c where c: "custom = Some c" "c \<noteq> []" "parsedNetworkContains n c" "\<forall>t \<in> set (topologyAddresses n). canonicalizeIp c \<noteq> Some t"
      using cust by blast
    with r True contains_canonical [OF c(3)] show ?thesis by (auto simp: resolveGatewayAddress_def)
  next
    case False
    then show ?thesis using r us by (auto simp: resolveGatewayAddress_def split: if_splits)
  qed
  have "parsedNetworkContains n a \<and> (a \<notin> set (topologyAddresses n) \<or> ov = None \<and> sub_gateway_address parent = Some a)"
  proof (cases ov)
    case (Some o')
    define t where "t = truthy_text (ov_address o')"
    have "resolveGatewayAddress n (ov_policy o') t = Some a"
      using g a n(1) Some by (auto simp: targetGateway_def planned_def t_def [symmetric] split: if_splits)
    moreover have "\<exists>c. t = Some c \<and> c \<noteq> [] \<and> parsedNetworkContains n c \<and> (\<forall>t \<in> set (topologyAddresses n). canonicalizeIp c \<noteq> Some t)"
      if "ov_policy o' = ''custom''"
    proof (cases t)
      case None
      then show ?thesis using g n(1) Some that by (simp add: targetGateway_def planned_def t_def [symmetric])
    next
      case (Some c)
      then have "c \<noteq> []" by (auto simp: t_def truthy_text_def split: option.splits list.splits)
      then show ?thesis
        using g n(1) \<open>ov = Some o'\<close> that Some by (auto simp: targetGateway_def planned_def t_def [symmetric] split: if_splits)
    qed
    ultimately show ?thesis using res by blast
  next
    case None
    define p where "p = (case truthy_text (sub_gateway_policy parent) of Some p \<Rightarrow> p | None \<Rightarrow> ''none'')"
    show ?thesis
    proof (cases "p = ''custom''")
      case True
      then show ?thesis
        using g a n(1) None
        by (cases "truthy_text (sub_gateway_address parent)")
           (auto simp: targetGateway_def planned_def p_def [symmetric] Let_def split: if_splits dest: truthy_textD)
    next
      case False
      then have "resolveGatewayAddress n p None = Some a"
        using g a n(1) None by (auto simp: targetGateway_def planned_def p_def [symmetric] Let_def)
      then show ?thesis using res [of p None] False by blast
    qed
  qed
  then show ?thesis using ne by blast
qed

section \<open>Dividing\<close>

lemma planned_Inr [simp]: "planned r = Inr x \<longleftrightarrow> r = Inr x"
  by (auto simp: planned_def split: sum.split)

lemma divide_targets_partition:
  assumes p: "parseNetwork (sub_cidr parent) = Inr p" "net_plain p" and t: "divide_targets parent np cidr sel = Inr ts"
  shows "\<exists>ns. emap parseNetwork (map fst ts) = Inr ns \<and> partitions ns (net_bits p) (net_addrs p)"
proof (cases np)
  case (Some q)
  obtain ns where ns: "splitNetwork (sub_cidr parent) q 256 = Inr ns" and ts: "map fst ts = map net_cidr ns"
    using t Some by (auto simp: divide_targets_def ebind_eq_Inr_iff Let_def comp_def split: if_splits)
  have q: "int (net_prefix p) < q" "q \<le> int (net_bits p)" "(2 :: nat) ^ (nat q - net_prefix p) \<le> 256"
    using ns p(1) by (auto simp: splitNetwork_def Let_def push_bit_eq_mult split: if_splits)
  then have "int (nat q) = q" "net_prefix p < nat q" "nat q \<le> net_bits p" by linarith+
  then have pt: "partitions ns (net_bits p) (net_addrs p)"
    using split_parts [OF p, of "nat q" 256] q ns by auto
  then have "\<forall>n \<in> set ns. net_ok n" by (simp add: partitions_def)
  then show ?thesis using pt emap_parse_cidrs ts by auto
next
  case None
  obtain others where others: "subtractNetwork (sub_cidr parent) cidr = Inr others" and ts: "map fst ts = cidr # others"
    using t None by (auto simp: divide_targets_def ebind_eq_Inr_iff comp_def)
  obtain child where c: "parseNetwork cidr = Inr child" using others p(1) by (auto simp: subtractNetwork_def ebind_eq_Inr_iff)
  have w: "isNetworkWithin cidr (sub_cidr parent) = Inr True"
    using others p(1) c by (auto simp: subtractNetwork_def isNetworkWithin_def split: if_split_asm)
  obtain ns where ns: "emap parseNetwork others = Inr ns" "partitions ns (net_bits p) (net_addrs p - net_addrs child)"
    using carve_parts [OF p(1) c p(2) w] others by auto
  have sub: "net_addrs child \<subset> net_addrs p" "net_bits child = net_bits p"
    using w network_relations [OF c p(1)] same_family_bits [OF parseNetwork_ok [OF c] parseNetwork_ok [OF p(1)]] by auto
  have "partitions (child # ns) (net_bits p) (net_addrs child \<union> (net_addrs p - net_addrs child))"
    using parseNetwork_ok [OF c] sub(2) ns(2) by (intro partitions_Cons) auto
  moreover have "net_addrs child \<union> (net_addrs p - net_addrs child) = net_addrs p" using sub by blast
  ultimately show ?thesis using ts c ns(1) by auto
qed

lemma plain_within:
  assumes "net_plain p" "net_ok p" "net_ok n" "net_bits n = net_bits p" "net_addrs n \<subseteq> net_addrs p"
  shows "net_plain n"
proof -
  have "networkBig p \<le> networkBig n" "lastBig n \<le> lastBig p"
    using assms(5) net_base_le_last [OF assms(3)] by (auto simp: net_addrs_def)
  moreover have "net_family n = net_family p" using same_family_bits [OF assms(3,2)] assms(4) by simp
  ultimately show ?thesis using assms(1) by (auto simp: net_plain_def)
qed

text \<open>Who claims an address in the given networks, apart from DNS and the topology.\<close>

definition claimed :: "db \<Rightarrow> nat list \<Rightarrow> string \<Rightarrow> bool" where
  "claimed db ids a \<longleftrightarrow>
     (\<exists>r \<in> set (ip_addresses db). ip_subnet_id r \<in> set ids \<and> ip_address r = a \<and> ip_allocation_state r \<notin> {UNASSIGNED, STATIC_DNS}
        \<and> ip_allocation_source_type r \<noteq> None \<and> ip_allocation_source_type r \<noteq> Some TOPOLOGY)
   \<or> (\<exists>r \<in> set (dhcp_reservations db). rsv_subnet_id r \<in> set ids \<and> rsv_ip_address r = a \<and> rsv_enabled r)
   \<or> (\<exists>l \<in> set (dhcp_leases db). (\<exists>i \<in> set ids. lease_subnet_id l = Some i) \<and> lease_ip_address l = a \<and> activeLeaseSql db l)"

lemma set_stableRows: "set (stableRows f g rows ids) = {r \<in> set rows. \<exists>i \<in> set ids. f r = Some i}"
  by (auto simp: stableRows_def)

lemma map_filter_Nil: "List.map_filter f xs = [] \<longleftrightarrow> (\<forall>x \<in> set xs. f x = None)"
  by (auto simp: map_filter_def filter_empty_conv)

lemma gateway_claims_Some:
  assumes "(c, g) \<in> set ts" "gw_address g = Some a" "a \<noteq> []"
  shows "gateway_claims ts a \<noteq> None"
proof -
  have "truthy_text (gw_address g) = Some a" using assms(2,3) by (cases a) (simp_all add: truthy_text_def)
  then have "(a, c) \<in> set (List.map_filter (\<lambda>(cidr, g). map_option (\<lambda>a. (a, cidr)) (truthy_text (gw_address g))) ts)"
    using assms(1) by (force simp: map_filter_def)
  then show ?thesis unfolding gateway_claims_def map_of_eq_None_iff by (force simp: image_iff)
qed

lemma no_claim_conflicts:
  assumes "gatewayClaimConflicts db ts ids = []" "(c, g) \<in> set ts" "gw_address g = Some a" "a \<noteq> []"
  shows "\<not> claimed db ids a"
proof
  note some = gateway_claims_Some [OF assms(2-4)]
  assume "claimed db ids a"
  then show False
    using assms(1) some
    by (auto simp: claimed_def gatewayClaimConflicts_def Let_def map_filter_Nil set_stableRows split: option.splits)
qed

lemma emap_member: "emap f xs = Inr ys \<Longrightarrow> x \<in> set xs \<Longrightarrow> f x = Inr y \<Longrightarrow> y \<in> set ys"
  by (induction xs arbitrary: ys) (auto simp: ebind_eq_Inr_iff)

lemma emap_parses: "emap f xs = Inr ys \<Longrightarrow> x \<in> set xs \<Longrightarrow> \<exists>y. f x = Inr y"
  by (induction xs arbitrary: ys) (auto simp: ebind_eq_Inr_iff)

lemma buildDividePlan_parts:
  assumes "buildDividePlan token db policies parent np cidr sel ovs = Inr plan"
  obtains ts ov where "divide_targets parent np cidr sel = Inr ts" "map tg_cidr (plan_targets plan) = map fst ts"
    "\<And>t. t \<in> set (plan_targets plan) \<Longrightarrow> targetGateway parent (tg_cidr t) (ov (tg_cidr t)) = Inr (tg_gateway t)"
    "plan_conflicts plan = divide_conflicts db policies (sub_id parent) (plan_targets plan)"
proof -
  define ov where "ov = map_of (rev (map (\<lambda>o'. (ov_cidr o', o')) ovs))"
  obtain ts wg pts where ts: "divide_targets parent np cidr sel = Inr ts"
    and wg: "emap (\<lambda>(c, sel). ebind (targetGateway parent c (ov c)) (\<lambda>g. Inr (c, sel, g))) ts = Inr wg"
    and pts: "emap (\<lambda>(c, sel, g). ebind (defaultScopesForTarget db [sub_id parent] c g) (\<lambda>sc.
        Inr \<lparr>tg_cidr = c, tg_selected = Some sel, tg_gateway = g, tg_scopes = sc\<rparr>)) wg = Inr pts"
    and plan: "plan_targets plan = pts" "plan_conflicts plan = divide_conflicts db policies (sub_id parent) pts"
    using assms by (auto simp: buildDividePlan_def ebind_eq_Inr_iff Let_def ov_def [symmetric] split: if_splits)
  have 1: "list_all2 (\<lambda>x w. fst w = fst x \<and> targetGateway parent (fst x) (ov (fst x)) = Inr (snd (snd w))) ts wg"
    using emap_Inr_list_all2 [OF wg] by (rule list_all2_mono) (auto simp: ebind_eq_Inr_iff)
  have 2: "list_all2 (\<lambda>w t. tg_cidr t = fst w \<and> tg_gateway t = snd (snd w)) wg pts"
    using emap_Inr_list_all2 [OF pts] by (rule list_all2_mono) (auto simp: ebind_eq_Inr_iff)
  have 3: "list_all2 (\<lambda>x t. tg_cidr t = fst x \<and> targetGateway parent (tg_cidr t) (ov (tg_cidr t)) = Inr (tg_gateway t)) ts pts"
    by (rule list_all2_trans [OF _ 1 2]) auto
  have "map tg_cidr pts = map fst ts" using 3 by (induction rule: list_all2_induct) auto
  moreover have "targetGateway parent (tg_cidr t) (ov (tg_cidr t)) = Inr (tg_gateway t)" if "t \<in> set pts" for t
    using 3 that by (induction rule: list_all2_induct) auto
  ultimately show thesis using that ts plan by auto
qed

text \<open>C10. A plan to divide a network is sound. Its targets partition the addresses of the network, in an
  equal split and in a carve, whatever was selected. Every planned gateway is an address of its
  target, and neither its network nor its broadcast address unless it is the custom gateway the parent
  had. If the plan reports no conflict, every target has a gateway policy and no planned gateway is
  reserved, leased or allocated to anyone but DNS and the topology in the network.\<close>

theorem divide_plan_sound:
  assumes "parseNetwork (sub_cidr parent) = Inr p" "net_plain p"
    and "buildDividePlan token db policies parent np cidr sel ovs = Inr plan"
  shows "(\<exists>ns. emap parseNetwork (map tg_cidr (plan_targets plan)) = Inr ns \<and> partitions ns (net_bits p) (net_addrs p))
    \<and> (\<forall>t \<in> set (plan_targets plan). \<forall>n a. parseNetwork (tg_cidr t) = Inr n \<and> gw_address (tg_gateway t) = Some a \<longrightarrow>
         parsedNetworkContains n a \<and> (a \<notin> set (topologyAddresses n) \<or> sub_gateway_address parent = Some a))
    \<and> (plan_conflicts plan = [] \<longrightarrow> (\<forall>t \<in> set (plan_targets plan). gw_policy (tg_gateway t) \<noteq> None
         \<and> (\<forall>a. gw_address (tg_gateway t) = Some a \<longrightarrow> \<not> claimed db [sub_id parent] a)))"
proof -
  obtain ts ov where parts: "divide_targets parent np cidr sel = Inr ts" "map tg_cidr (plan_targets plan) = map fst ts"
    "\<And>t. t \<in> set (plan_targets plan) \<Longrightarrow> targetGateway parent (tg_cidr t) (ov (tg_cidr t)) = Inr (tg_gateway t)"
    "plan_conflicts plan = divide_conflicts db policies (sub_id parent) (plan_targets plan)"
    by (rule buildDividePlan_parts [OF assms(3)], rule that)
  obtain ns where ns: "emap parseNetwork (map tg_cidr (plan_targets plan)) = Inr ns" "partitions ns (net_bits p) (net_addrs p)"
    using divide_targets_partition [OF assms(1,2) parts(1)] parts(2) by auto
  have gateway: "parsedNetworkContains n a \<and> a \<noteq> [] \<and> (a \<notin> set (topologyAddresses n) \<or> sub_gateway_address parent = Some a)"
    if t: "t \<in> set (plan_targets plan)" "parseNetwork (tg_cidr t) = Inr n" "gw_address (tg_gateway t) = Some a" for t n a
  proof -
    have "n \<in> set ns" using emap_member [OF ns(1)] t(1,2) by auto
    then have "net_ok n" "net_bits n = net_bits p" "net_addrs n \<subseteq> net_addrs p" using ns(2) by (auto simp: partitions_def)
    then have "net_plain n" using plain_within [OF assms(2) parseNetwork_ok [OF assms(1)]] by blast
    then show ?thesis using targetGateway_sound [OF parts(3) [OF t(1)] t(2) _ t(3)] by blast
  qed
  have "gw_policy (tg_gateway t) \<noteq> None \<and> (\<forall>a. gw_address (tg_gateway t) = Some a \<longrightarrow> \<not> claimed db [sub_id parent] a)"
    if c: "plan_conflicts plan = []" and t: "t \<in> set (plan_targets plan)" for t
  proof -
    obtain n where n: "parseNetwork (tg_cidr t) = Inr n" using emap_parses [OF ns(1)] t by auto
    have "gatewayClaimConflicts db (map (\<lambda>t. (tg_cidr t, tg_gateway t)) (plan_targets plan)) [sub_id parent] = []"
      using c parts(4) by (simp add: divide_conflicts_def)
    then have "\<not> claimed db [sub_id parent] a" if "gw_address (tg_gateway t) = Some a" for a
      using no_claim_conflicts [of db "map (\<lambda>t. (tg_cidr t, tg_gateway t)) (plan_targets plan)" "[sub_id parent]" "tg_cidr t" "tg_gateway t" a]
        gateway [OF t n that] t that by auto
    then show ?thesis using c parts(4) t by (auto simp: divide_conflicts_def split: if_splits)
  qed
  with ns gateway show ?thesis by blast
qed

text \<open>A network without a gateway, divided in two.\<close>

definition sample_parent :: plan_subnet where
  "sample_parent = \<lparr>sub_id = 1, sub_cidr = ''10.0.0.0/8'', sub_parent_id = None, sub_prefix_length = 8, sub_address_family = 4,
     sub_status = ''allocated'', sub_gateway_address = None, sub_domain_name = None, sub_scan_enabled = None,
     sub_scan_interval = None, sub_total_addresses = None, sub_gateway_policy = Some ''none'', sub_vlan_id = None,
     sub_folder_id = None, sub_has_reverse_dns = None\<rparr>"

lemma sample_divides: "\<exists>plan. buildDividePlan (\<lambda>_ _. []) empty_db [] sample_parent (Some 9) [] [] [] = Inr plan \<and> plan_conflicts plan = []"
proof -
  have p: "parseNetwork (sub_cidr sample_parent) = Inr (build_network (fam 32) 32 8 0x0a000000)"
    using reserved_v4(1) by (simp add: sample_parent_def)
  obtain ns where ns: "splitNetwork (sub_cidr sample_parent) 9 256 = Inr ns" "partitions ns 32 (net_addrs (build_network (fam 32) 32 8 0x0a000000))"
    using split_parts [OF p, of 9 256] by (auto simp: net_plain_def)
  have parse: "parseNetwork (net_cidr n) = Inr n" if "n \<in> set ns" for n
    using ns(2) that by (auto simp: partitions_def parseNetwork_cidr)
  let ?g = "\<lparr>gw_policy = Some ''none'', gw_address = None\<rparr>"
  have "targetGateway sample_parent (net_cidr n) None = Inr ?g" if "n \<in> set ns" for n
    using parse [OF that] by (simp add: targetGateway_def planned_def truthy_text_def sample_parent_def resolveGatewayAddress_def)
  moreover have "defaultScopesForTarget empty_db [sub_id sample_parent] (net_cidr n) ?g = Inr []" if "n \<in> set ns" for n
    using parse [OF that] by (simp add: defaultScopesForTarget_def planned_def empty_db_def stableRows_def)
  ultimately have "emap (\<lambda>(c, sel). ebind (targetGateway sample_parent c None) (\<lambda>g. Inr (c, sel, g))) (map (\<lambda>n. (net_cidr n, True)) ns)
      = Inr (map (\<lambda>x. (fst x, True, ?g)) (map (\<lambda>n. (net_cidr n, True)) ns))"
    and "emap (\<lambda>(c, sel, g). ebind (defaultScopesForTarget empty_db [sub_id sample_parent] c g) (\<lambda>sc.
           Inr \<lparr>tg_cidr = c, tg_selected = Some sel, tg_gateway = g, tg_scopes = sc\<rparr>)) (map (\<lambda>x. (fst x, True, ?g)) (map (\<lambda>n. (net_cidr n, True)) ns))
      = Inr (map (\<lambda>w. \<lparr>tg_cidr = fst w, tg_selected = Some True, tg_gateway = ?g, tg_scopes = []\<rparr>)
               (map (\<lambda>x. (fst x, True, ?g)) (map (\<lambda>n. (net_cidr n, True)) ns)))"
    by (intro emap_all_Inr; auto)+
  moreover have "divide_targets sample_parent (Some 9) [] [] = Inr (map (\<lambda>n. (net_cidr n, True)) ns)"
    using ns(1) by (simp add: divide_targets_def planned_def comp_def)
  ultimately show ?thesis
    by (simp add: buildDividePlan_def unique_def divide_conflicts_def dhcpScopePolicyConflicts_def gatewayClaimConflicts_def
        stableRows_def empty_db_def map_filter_def)
qed

theorem divide_plan_sound_witness:
  "\<exists>plan ns. buildDividePlan (\<lambda>_ _. []) empty_db [] sample_parent (Some 9) [] [] [] = Inr plan \<and> plan_conflicts plan = []
     \<and> emap parseNetwork (map tg_cidr (plan_targets plan)) = Inr ns
     \<and> partitions ns 32 (net_addrs (build_network (fam 32) 32 8 0x0a000000))"
proof -
  have p: "parseNetwork (sub_cidr sample_parent) = Inr (build_network (fam 32) 32 8 0x0a000000)"
    using reserved_v4(1) by (simp add: sample_parent_def)
  obtain plan where plan: "buildDividePlan (\<lambda>_ _. []) empty_db [] sample_parent (Some 9) [] [] [] = Inr plan" "plan_conflicts plan = []"
    using sample_divides by blast
  from divide_plan_sound [OF p _ plan(1)] plan show ?thesis by (auto simp: net_plain_def)
qed

text \<open>C38. Default pools stay inside the network. Every IPv4 network from /16 to /29 gets a pool, whatever
  its gateway, strictly between the network and the broadcast address and not starting or ending at
  the gateway. A default DHCPv6 pool lies in the network, above its first address, and does not hold
  the gateway at all.\<close>

theorem default_pool_sound:
  assumes "parseNetwork cidr = Inr n" "net_plain n" "v < 2 ^ 32"
  shows "(net_family n = 4 \<and> 16 \<le> net_prefix n \<and> net_prefix n \<le> 29 \<longrightarrow>
           (\<exists>s e. defaultDhcpPoolForSubnet n (Some (formatIp v 32)) = Inr (Some (s, e))
              \<and> networkBig n < s \<and> s \<le> e \<and> e < lastBig n \<and> v \<noteq> s \<and> v \<noteq> e))
    \<and> (\<forall>gateway a b. defaultDhcpV6PoolForSubnet n gateway = Inr (Some (a, b)) \<longrightarrow>
         (\<exists>s e. a = formatIp s 128 \<and> b = formatIp e 128 \<and> networkBig n < s \<and> s \<le> e \<and> e \<le> lastBig n
            \<and> (\<forall>g x. gateway = Some g \<and> addressToBig g = Inr x \<and> a_family x = 6 \<longrightarrow> a_value x < s \<or> e < a_value x)))"
proof -
  note ok = parseNetwork_ok [OF assms(1)]
  have t: "truthy_text (Some (formatIp v 32)) = Some (formatIp v 32)"
    using formatIp_v4_not_Nil [of v] by (cases "formatIp v 32") (simp_all add: truthy_text_def)
  have "\<exists>s e. defaultDhcpPoolForSubnet n (Some (formatIp v 32)) = Inr (Some (s, e))
      \<and> networkBig n < s \<and> s \<le> e \<and> e < lastBig n \<and> v \<noteq> s \<and> v \<noteq> e"
    if f: "net_family n = 4" "16 \<le> net_prefix n" "net_prefix n \<le> 29"
  proof (rule default_pool_v4 [OF ok f])
    fix s e assume se: "networkBig n < s" "s < e" "e < lastBig n"
      and pool: "\<And>gateway. defaultDhcpPoolForSubnet n gateway =
       ebind (case truthy_text gateway of None \<Rightarrow> Inr None | Some g \<Rightarrow> ebind (ipToLong g) (\<lambda>l. Inr (Some l))) (\<lambda>gw.
         Inr (Some (if gw = Some s then (s + 1, e) else if gw = Some e then (s, e - 1) else (s, e))))"
    have "defaultDhcpPoolForSubnet n (Some (formatIp v 32)) = Inr (Some (if v = s then (s + 1, e) else if v = e then (s, e - 1) else (s, e)))"
      unfolding pool t using ipToLong_format [OF assms(3)] by simp
    with se show ?thesis by (cases "v = s"; cases "v = e") auto
  qed
  then show ?thesis using default_pool_v6 [OF ok assms(2)] by blast
qed

theorem default_pool_sound_witness:
  "\<exists>s e. defaultDhcpPoolForSubnet (build_network 4 32 16 0xc0a80000) (Some (formatIp 0xc0a82001 32)) = Inr (Some (s, e))
     \<and> 0xc0a80000 < s \<and> s \<le> e \<and> e < 0xc0a8ffff \<and> 0xc0a82001 \<noteq> s \<and> 0xc0a82001 \<noteq> e"
proof -
  have p: "parseNetwork ''192.168.0.0/16'' = Inr (build_network 4 32 16 0xc0a80000)" using reserved_v4(3) by simp
  have "networkBig (build_network 4 32 16 0xc0a80000) = 0xc0a80000" "lastBig (build_network 4 32 16 0xc0a80000) = 0xc0a8ffff"
    by (simp_all add: build_network_big)
  then show ?thesis using default_pool_sound [where v = "0xc0a82001", OF p] by (simp add: net_plain_def)
qed

section \<open>Merging\<close>

lemma set_unique [simp]: "set (unique xs) = set xs" and distinct_unique: "distinct (unique xs)"
  by (simp_all add: unique_def)

lemma unique_agree: "\<not> 1 < length (unique xs) \<Longrightarrow> x \<in> set xs \<Longrightarrow> y \<in> set xs \<Longrightarrow> x = y"
  using distinct_unique [of xs] set_unique [of xs]
  by (metis One_nat_def card_le_Suc0_iff_eq distinct_card finite_set not_le_imp_less not_less)

lemma unique_map_agree: "\<not> 1 < length (unique (map f xs)) \<Longrightarrow> x \<in> set xs \<Longrightarrow> y \<in> set xs \<Longrightarrow> f x = f y"
  by (rule unique_agree) auto

lemma groups_distinct:
  assumes "\<forall>v \<in> set (map f rows). \<not> 1 < length (filter (\<lambda>r. f r = v) rows)"
  shows "distinct (map f rows)"
  using assms
proof (induction rows)
  case (Cons r rows)
  have "f r \<notin> set (map f rows)"
  proof
    assume "f r \<in> set (map f rows)"
    then have "filter (\<lambda>q. f q = f r) rows \<noteq> []" by (auto simp: filter_empty_conv)
    then show False using Cons.prems by (auto simp: Suc_le_eq)
  qed
  moreover have "\<forall>v \<in> set (map f rows). \<not> 1 < length (filter (\<lambda>q. f q = v) rows)"
  proof
    fix v assume "v \<in> set (map f rows)"
    then have "v \<in> set (map f (r # rows))" by simp
    then have "\<not> 1 < length (filter (\<lambda>q. f q = v) (r # rows))" by (rule Cons.prems [rule_format])
    then show "\<not> 1 < length (filter (\<lambda>q. f q = v) rows)" by (simp split: if_splits)
  qed
  ultimately show ?case using Cons.IH by simp
qed simp

lemma identity_conflicts_Nil: "identity_conflicts field f rows = [] \<Longrightarrow> distinct (map f rows)"
  by (rule groups_distinct) (auto simp: identity_conflicts_def map_filter_Nil Let_def split: if_splits)

lemma distinct_stableRows:
  "distinct (map f (stableRows g k rows ids)) \<longleftrightarrow> distinct (map f (filter (\<lambda>r. \<exists>i \<in> set ids. g r = Some i) rows))"
  unfolding stableRows_def by (intro mset_eq_imp_distinct_iff) simp

lemma moved_distinct:
  assumes "distinct (map (\<lambda>r. (sub r, g r)) rows)" "distinct (map g (filter P rows))" "\<forall>r \<in> set rows. \<not> P r \<longrightarrow> sub r \<noteq> m"
  shows "distinct (map (\<lambda>r. (if P r then m else sub r, g r)) rows)"
  using assms by (induction rows) (auto simp: image_iff)

lemma move_succeeds:
  assumes u: "reservations_unique (dhcp_reservations db)"
    and ip: "distinct (map rsv_ip_address (filter P (dhcp_reservations db)))"
    and mac: "distinct (map rsv_mac_address (filter P (filter (\<lambda>r. rsv_mac_address r \<noteq> None) (dhcp_reservations db))))"
    and duid: "distinct (map rsv_duid (filter P (filter (\<lambda>r. rsv_duid r \<noteq> None) (dhcp_reservations db))))"
    and out: "\<forall>r \<in> set (dhcp_reservations db). \<not> P r \<longrightarrow> rsv_subnet_id r \<noteq> m"
  shows "update_reservations P m db =
    (db\<lparr>dhcp_reservations := map (\<lambda>r. if P r then r\<lparr>rsv_subnet_id := m\<rparr> else r) (dhcp_reservations db)\<rparr>, Inr ())"
proof -
  let ?f = "\<lambda>r. if P r then r\<lparr>rsv_subnet_id := m\<rparr> else r"
  have row: "(rsv_subnet_id (?f r), rsv_ip_address (?f r)) = (if P r then m else rsv_subnet_id r, rsv_ip_address r)"
    "(rsv_subnet_id (?f r), rsv_mac_address (?f r)) = (if P r then m else rsv_subnet_id r, rsv_mac_address r)"
    "(rsv_subnet_id (?f r), rsv_duid (?f r)) = (if P r then m else rsv_subnet_id r, rsv_duid r)"
    "rsv_subnet_id (?f r) = (if P r then m else rsv_subnet_id r)" "rsv_ip_address (?f r) = rsv_ip_address r" "rsv_mac_address (?f r) = rsv_mac_address r" "rsv_duid (?f r) = rsv_duid r" for r by simp_all
  have "reservations_unique (map ?f (dhcp_reservations db))"
    using u out moved_distinct [OF _ ip, of rsv_subnet_id m] moved_distinct [OF _ mac, of rsv_subnet_id m]
      moved_distinct [OF _ duid, of rsv_subnet_id m]
    by (simp add: reservations_unique_def filter_map comp_def row del: filter_filter split del: if_split)
  then show ?thesis by (simp add: update_reservations_def)
qed

lemma buildMergePlan_parts:
  assumes "buildMergePlan token db policies sources mergedCidr = Inr plan"
  obtains n gc g scopes where "merge_gateway n (filter (\<lambda>s. sub_status s = ''allocated'') sources) = (gc, g)"
    "plan_source_ids plan = map sub_id sources"
    "plan_targets plan = [\<lparr>tg_cidr = mergedCidr, tg_selected = None, tg_gateway = g, tg_scopes = scopes\<rparr>]"
    "plan_conflicts plan = merge_conflicts db policies sources mergedCidr gc g"
proof -
  obtain n where n: "parseNetwork mergedCidr = Inr n" using assms by (auto simp: buildMergePlan_def ebind_eq_Inr_iff Let_def)
  obtain gc g where g: "merge_gateway n (filter (\<lambda>s. sub_status s = ''allocated'') sources) = (gc, g)" by fastforce
  show thesis using assms n g that [OF g] by (auto simp: buildMergePlan_def ebind_eq_Inr_iff Let_def planned_def)
qed

text \<open>Without identity conflicts among their reservations, moving those of the sources breaks no unique key.\<close>

lemma merged_reservations_move:
  assumes "identity_conflicts ''mac_address'' rsv_mac_address (stableRows (\<lambda>r. Some (rsv_subnet_id r)) rsv_id (dhcp_reservations db) ids) = []"
    and "identity_conflicts ''ip_address'' (\<lambda>r. Some (rsv_ip_address r)) (stableRows (\<lambda>r. Some (rsv_subnet_id r)) rsv_id (dhcp_reservations db) ids) = []"
    and "reservations_unique (dhcp_reservations db)" "ids \<noteq> []"
    and "distinct (map rsv_duid (filter (\<lambda>r. rsv_duid r \<noteq> None \<and> rsv_subnet_id r \<in> set ids) (dhcp_reservations db)))"
    and "\<forall>r \<in> set (dhcp_reservations db). rsv_subnet_id r \<notin> set ids \<longrightarrow> rsv_subnet_id r \<noteq> m"
  shows "moveReservationsToSubnet db ids m
      = (db\<lparr>dhcp_reservations := map (\<lambda>r. if rsv_subnet_id r \<in> set ids then r\<lparr>rsv_subnet_id := m\<rparr> else r) (dhcp_reservations db)\<rparr>, Inr ())"
proof -
  let ?P = "\<lambda>r. rsv_subnet_id r \<in> set ids"
  have in_ids: "(\<exists>i \<in> set ids. Some (rsv_subnet_id r) = Some i) \<longleftrightarrow> ?P r" for r by auto
  have "distinct (map rsv_mac_address (filter ?P (dhcp_reservations db)))" "distinct (map (\<lambda>r. Some (rsv_ip_address r)) (filter ?P (dhcp_reservations db)))"
    using assms(1,2) [THEN identity_conflicts_Nil] unfolding distinct_stableRows in_ids .
  then have "distinct (map rsv_ip_address (filter ?P (dhcp_reservations db)))"
    "distinct (map rsv_mac_address (filter (\<lambda>r. rsv_mac_address r \<noteq> None) (filter ?P (dhcp_reservations db))))"
    by (simp_all add: distinct_map inj_on_def del: filter_filter)
  then have "distinct (map rsv_ip_address (filter ?P (dhcp_reservations db)))"
    "distinct (map rsv_mac_address (filter ?P (filter (\<lambda>r. rsv_mac_address r \<noteq> None) (dhcp_reservations db))))"
    by (simp_all add: conj_commute)
  moreover have "distinct (map rsv_duid (filter ?P (filter (\<lambda>r. rsv_duid r \<noteq> None) (dhcp_reservations db))))"
    using assms(5) by (simp add: conj_commute)
  ultimately show ?thesis
    using move_succeeds [OF assms(3), of ?P m] assms(4,6) by (simp add: moveReservationsToSubnet_def)
qed

text \<open>C11. A merge plan without a conflict can be carried out. The allocated networks it merges agree on
  their gateway policy, VLAN, folder, domain, scanning and reverse DNS; the gateway planned for the
  merged network is claimed by no one; and moving the reservations of the merged networks to the new
  one breaks no unique key, as long as no two of them share a DUID, which the plan does not check.\<close>

theorem merge_plan_sound:
  assumes "buildMergePlan token db policies sources mergedCidr = Inr plan" "plan_conflicts plan = []"
    and "reservations_unique (dhcp_reservations db)" "sources \<noteq> []"
    and "distinct (map rsv_duid (filter (\<lambda>r. rsv_duid r \<noteq> None \<and> rsv_subnet_id r \<in> set (plan_source_ids plan)) (dhcp_reservations db)))"
    and "\<forall>r \<in> set (dhcp_reservations db). rsv_subnet_id r \<notin> set (plan_source_ids plan) \<longrightarrow> rsv_subnet_id r \<noteq> m"
  shows "(\<forall>s \<in> set sources. \<forall>t \<in> set sources. sub_status s = ''allocated'' \<and> sub_status t = ''allocated'' \<longrightarrow>
            sub_gateway_policy s = sub_gateway_policy t \<and> sub_vlan_id s = sub_vlan_id t \<and> sub_folder_id s = sub_folder_id t
          \<and> sub_domain_name s = sub_domain_name t \<and> sub_scan_interval s = sub_scan_interval t
          \<and> sub_scan_enabled s = sub_scan_enabled t \<and> sub_has_reverse_dns s = sub_has_reverse_dns t)
    \<and> (\<forall>t \<in> set (plan_targets plan). \<forall>a. gw_address (tg_gateway t) = Some a \<and> a \<noteq> [] \<longrightarrow> \<not> claimed db (plan_source_ids plan) a)
    \<and> moveReservationsToSubnet db (plan_source_ids plan) m
        = (db\<lparr>dhcp_reservations := map (\<lambda>r. if rsv_subnet_id r \<in> set (plan_source_ids plan) then r\<lparr>rsv_subnet_id := m\<rparr> else r)
              (dhcp_reservations db)\<rparr>, Inr ())"
proof -
  define allocated where "allocated = filter (\<lambda>s. sub_status s = ''allocated'') sources"
  define rows where "rows = stableRows (\<lambda>r. Some (rsv_subnet_id r)) rsv_id (dhcp_reservations db) (map sub_id sources)"
  obtain n gc g scopes where n: "merge_gateway n allocated = (gc, g)"
    and plan: "plan_source_ids plan = map sub_id sources" "plan_targets plan = [\<lparr>tg_cidr = mergedCidr, tg_selected = None, tg_gateway = g, tg_scopes = scopes\<rparr>]"
      "plan_conflicts plan = merge_conflicts db policies sources mergedCidr gc g"
    using buildMergePlan_parts [OF assms(1)] unfolding allocated_def by metis
  have none: "\<not> gc" "network_policy_conflicts allocated = []" "identity_conflicts ''mac_address'' rsv_mac_address rows = []"
      "identity_conflicts ''ip_address'' (\<lambda>r. Some (rsv_ip_address r)) rows = []" "gatewayClaimConflicts db [(mergedCidr, g)] (map sub_id sources) = []"
    using assms(2) plan(3) by (simp_all add: merge_conflicts_def allocated_def rows_def Let_def split: if_splits)
  have policy: "\<not> 1 < length (unique (map sub_gateway_policy allocated))" using n none(1) by (auto simp: merge_gateway_def Let_def)
  have "\<not> 1 < length (unique (map sub_vlan_id allocated))" "\<not> 1 < length (unique (map sub_folder_id allocated))"
    "\<not> 1 < length (unique (map sub_domain_name allocated))" "\<not> 1 < length (unique (map sub_scan_interval allocated))"
    "\<not> 1 < length (unique (map sub_scan_enabled allocated))" "\<not> 1 < length (unique (map sub_has_reverse_dns allocated))"
    using none(2) by (simp_all add: network_policy_conflicts_def Let_def split: if_splits)
  note agree = policy [THEN unique_map_agree] this [THEN unique_map_agree]
  have "sub_gateway_policy s = sub_gateway_policy t \<and> sub_vlan_id s = sub_vlan_id t \<and> sub_folder_id s = sub_folder_id t
          \<and> sub_domain_name s = sub_domain_name t \<and> sub_scan_interval s = sub_scan_interval t
          \<and> sub_scan_enabled s = sub_scan_enabled t \<and> sub_has_reverse_dns s = sub_has_reverse_dns t"
    if "s \<in> set sources" "t \<in> set sources" "sub_status s = ''allocated''" "sub_status t = ''allocated''" for s t
  proof -
    have "s \<in> set allocated" "t \<in> set allocated" using that by (simp_all add: allocated_def)
    then show ?thesis by (intro conjI agree)
  qed
  moreover have "\<not> claimed db (plan_source_ids plan) a" if "t \<in> set (plan_targets plan)" "gw_address (tg_gateway t) = Some a" "a \<noteq> []" for t a
    using no_claim_conflicts [OF none(5), of mergedCidr g a] that plan by auto
  moreover have "moveReservationsToSubnet db (plan_source_ids plan) m
        = (db\<lparr>dhcp_reservations := map (\<lambda>r. if rsv_subnet_id r \<in> set (plan_source_ids plan) then r\<lparr>rsv_subnet_id := m\<rparr> else r)
              (dhcp_reservations db)\<rparr>, Inr ())"
    using merged_reservations_move [OF none(3) [unfolded rows_def] none(4) [unfolded rows_def] assms(3)] assms(4-6) plan(1) by simp
  ultimately show ?thesis by blast
qed

definition sample_half :: "nat \<Rightarrow> string \<Rightarrow> plan_subnet" where
  "sample_half i cidr = sample_parent\<lparr>sub_id := i, sub_cidr := cidr, sub_prefix_length := 9\<rparr>"

lemma sample_merges:
  "\<exists>plan. buildMergePlan (\<lambda>_ _. []) empty_db [] [sample_half 1 ''10.0.0.0/9'', sample_half 2 ''10.128.0.0/9''] ''10.0.0.0/8'' = Inr plan
     \<and> plan_conflicts plan = [] \<and> plan_source_ids plan = [1, 2]"
  using reserved_v4(1)
  by (simp add: buildMergePlan_def sample_half_def sample_parent_def planned_def merge_gateway_def unique_def truthy_text_def
      resolveGatewayAddress_def defaultScopesForTarget_def empty_db_def stableRows_def merge_conflicts_def
      network_policy_conflicts_def identity_conflicts_def gatewayClaimConflicts_def dhcpScopePolicyConflicts_def map_filter_def Let_def)

theorem merge_plan_sound_witness:
  "\<exists>plan. buildMergePlan (\<lambda>_ _. []) empty_db [] [sample_half 1 ''10.0.0.0/9'', sample_half 2 ''10.128.0.0/9''] ''10.0.0.0/8'' = Inr plan
     \<and> moveReservationsToSubnet empty_db (plan_source_ids plan) 3 = (empty_db, Inr ())"
proof -
  obtain plan where plan: "buildMergePlan (\<lambda>_ _. []) empty_db [] [sample_half 1 ''10.0.0.0/9'', sample_half 2 ''10.128.0.0/9''] ''10.0.0.0/8'' = Inr plan"
      "plan_conflicts plan = []" using sample_merges by blast
  have "reservations_unique (dhcp_reservations empty_db)" by (simp add: reservations_unique_def empty_db_def)
  from merge_plan_sound [where m = 3, OF plan this] plan show ?thesis by (simp add: empty_db_def)
qed

text \<open>Reservations without a MAC, as DHCPv6 clients have, share the value NULL: two of them block every merge.\<close>

lemma merge_refuses_macless:
  assumes "buildMergePlan token db policies sources mergedCidr = Inr plan" "r \<in> set (dhcp_reservations db)" "q \<in> set (dhcp_reservations db)"
    and "r \<noteq> q" "rsv_mac_address r = None" "rsv_mac_address q = None" "rsv_subnet_id r \<in> sub_id ` set sources" "rsv_subnet_id q \<in> sub_id ` set sources"
  shows "plan_conflicts plan \<noteq> []"
proof
  let ?rows = "stableRows (\<lambda>r. Some (rsv_subnet_id r)) rsv_id (dhcp_reservations db) (map sub_id sources)"
  assume none: "plan_conflicts plan = []"
  have "identity_conflicts ''mac_address'' rsv_mac_address ?rows = []"
    by (rule buildMergePlan_parts [OF assms(1)]) (use none in \<open>simp add: merge_conflicts_def Let_def\<close>)
  then have "inj_on rsv_mac_address (set ?rows)" using identity_conflicts_Nil distinct_map by blast
  moreover have "r \<in> set ?rows" "q \<in> set ?rows" using assms by (auto simp: stableRows_def)
  ultimately show False using assms(4-6) by (metis inj_onD)
qed

section \<open>Moving reservations to the children\<close>

definition moved_to_child :: "(nat \<times> network) list \<Rightarrow> reservation_row \<Rightarrow> reservation_row" where
  "moved_to_child children r =
     (case childContaining children (rsv_ip_address r) of Some c \<Rightarrow> r\<lparr>rsv_subnet_id := c\<rparr> | None \<Rightarrow> r)"

lemma moved_to_child_simps [simp]:
  "rsv_id (moved_to_child cs r) = rsv_id r" "rsv_ip_address (moved_to_child cs r) = rsv_ip_address r"
  "rsv_mac_address (moved_to_child cs r) = rsv_mac_address r" "rsv_duid (moved_to_child cs r) = rsv_duid r"
  by (auto simp: moved_to_child_def split: option.split)

lemma childContaining_Some:
  "childContaining cs ip = Some c \<Longrightarrow> \<exists>n a. (c, n) \<in> set cs \<and> addressToBig ip = Inr a \<and> net_family n = a_family a
     \<and> networkBig n \<le> a_value a \<and> a_value a \<le> lastBig n"
  by (auto simp: childContaining_def find_Some_iff split: sum.splits) (metis nth_mem)

lemma childContaining_total:
  "(c, n) \<in> set cs \<Longrightarrow> addressToBig ip = Inr a \<Longrightarrow> net_family n = a_family a \<Longrightarrow> networkBig n \<le> a_value a \<Longrightarrow> a_value a \<le> lastBig n
     \<Longrightarrow> \<exists>d. childContaining cs ip = Some d"
  by (cases "find (\<lambda>(i, n). net_family n = a_family a \<and> a_value a \<ge> networkBig n \<and> a_value a \<le> lastBig n) cs")
     (auto simp: childContaining_def find_None_iff)

lemma moved_key_distinct:
  assumes "distinct (map (\<lambda>r. (rsv_subnet_id r, g r)) rows)" "\<forall>r \<in> set rows. M r \<longrightarrow> rsv_subnet_id r = parent"
    and "\<forall>r \<in> set rows. rsv_subnet_id r \<notin> fst ` set cs" "\<And>r. g (moved_to_child cs r) = g r"
  shows "distinct (map (\<lambda>r. (rsv_subnet_id r, g r)) (map (\<lambda>r. if M r then moved_to_child cs r else r) rows))"
proof -
  let ?m = "\<lambda>r. if M r then moved_to_child cs r else r"
  have sub: "rsv_subnet_id (?m r) \<in> fst ` set cs \<and> rsv_subnet_id r = parent \<or> rsv_subnet_id (?m r) = rsv_subnet_id r" if "r \<in> set rows" for r
    using assms(2) that by (auto simp: moved_to_child_def image_iff split: option.split) (metis childContaining_Some fst_conv)
  have "inj_on (\<lambda>r. (rsv_subnet_id r, g r)) (set rows)" "distinct rows" using assms(1) by (simp_all add: distinct_map)
  moreover have "rsv_subnet_id r = rsv_subnet_id q" if "r \<in> set rows" "q \<in> set rows" "rsv_subnet_id (?m r) = rsv_subnet_id (?m q)" for r q
    using sub [OF that(1)] sub [OF that(2)] assms(3) that by (metis (lifting))
  moreover have "g (?m r) = g r" for r using assms(4) by simp
  ultimately have "inj_on (\<lambda>r. (rsv_subnet_id (?m r), g (?m r))) (set rows)"
    unfolding inj_on_def by (metis prod.inject)
  with \<open>distinct rows\<close> show ?thesis by (simp add: distinct_map comp_def)
qed

lemma moved_unique:
  assumes "reservations_unique rows" "\<forall>r \<in> set rows. M r \<longrightarrow> rsv_subnet_id r = parent"
    and "\<forall>r \<in> set rows. rsv_subnet_id r \<notin> fst ` set cs"
  shows "reservations_unique (map (\<lambda>r. if M r then moved_to_child cs r else r) rows)"
proof -
  let ?m = "\<lambda>r. if M r then moved_to_child cs r else r"
  have part: "filter (\<lambda>r. f r \<noteq> None) (map ?m rows) = map ?m (filter (\<lambda>r. f r \<noteq> None) rows)"
    if "\<And>r. f (moved_to_child cs r) = f r" for f :: "reservation_row \<Rightarrow> string option"
  proof -
    have "f (?m r) = f r" for r using that by simp
    then show ?thesis by (simp only: filter_map comp_def)
  qed
  have mac: "filter (\<lambda>r. rsv_mac_address r \<noteq> None) (map ?m rows) = map ?m (filter (\<lambda>r. rsv_mac_address r \<noteq> None) rows)"
    and duid: "filter (\<lambda>r. rsv_duid r \<noteq> None) (map ?m rows) = map ?m (filter (\<lambda>r. rsv_duid r \<noteq> None) rows)"
    by (rule part; simp)+
  show ?thesis
    unfolding reservations_unique_def mac duid
    by (intro conjI moved_key_distinct [where parent = parent]; use assms in \<open>simp add: reservations_unique_def\<close>)
qed

lemma move_rows:
  assumes "reservations_unique (dhcp_reservations db)" "distinct (map rsv_id (dhcp_reservations db))"
    and "\<forall>r \<in> set (dhcp_reservations db). rsv_subnet_id r \<notin> fst ` set cs"
    and "\<forall>r \<in> set (dhcp_reservations db). rsv_id r \<in> D \<longrightarrow> rsv_subnet_id r = parent"
    and "set xs \<subseteq> set (dhcp_reservations db)" "\<forall>r \<in> set xs. rsv_subnet_id r = parent"
  shows "foldOut (\<lambda>db r. case childContaining cs (rsv_ip_address r) of None \<Rightarrow> (db, Inr ())
                        | Some c \<Rightarrow> update_reservations (\<lambda>q. rsv_id q = rsv_id r) c db)
      (db\<lparr>dhcp_reservations := map (\<lambda>r. if rsv_id r \<in> D then moved_to_child cs r else r) (dhcp_reservations db)\<rparr>) xs
    = (db\<lparr>dhcp_reservations := map (\<lambda>r. if rsv_id r \<in> D \<union> rsv_id ` set xs then moved_to_child cs r else r) (dhcp_reservations db)\<rparr>, Inr ())"
  using assms(4-6)
proof (induction xs arbitrary: D)
  case (Cons x xs)
  let ?rows = "\<lambda>D. map (\<lambda>r. if rsv_id r \<in> D then moved_to_child cs r else r) (dhcp_reservations db)"
  have same: "q = x" if "q \<in> set (dhcp_reservations db)" "rsv_id q = rsv_id x" for q
    using that Cons.prems(2) assms(2) by (auto simp: distinct_map dest: inj_onD)
  have D: "\<forall>r \<in> set (dhcp_reservations db). rsv_id r \<in> insert (rsv_id x) D \<longrightarrow> rsv_subnet_id r = parent"
    using Cons.prems same by auto
  have step: "(case childContaining cs (rsv_ip_address x) of None \<Rightarrow> (db\<lparr>dhcp_reservations := ?rows D\<rparr>, Inr ())
      | Some c \<Rightarrow> update_reservations (\<lambda>q. rsv_id q = rsv_id x) c (db\<lparr>dhcp_reservations := ?rows D\<rparr>))
      = (db\<lparr>dhcp_reservations := ?rows (insert (rsv_id x) D)\<rparr>, Inr ())"
  proof (cases "childContaining cs (rsv_ip_address x)")
    case None
    then have "moved_to_child cs x = x" by (simp add: moved_to_child_def)
    then have "?rows D = ?rows (insert (rsv_id x) D)" using same by (intro map_cong) (auto, metis+)
    with None show ?thesis by simp
  next
    case (Some c)
    then have mv: "moved_to_child cs x = x\<lparr>rsv_subnet_id := c\<rparr>" by (simp add: moved_to_child_def)
    have "map (\<lambda>q. if rsv_id q = rsv_id x then q\<lparr>rsv_subnet_id := c\<rparr> else q) (?rows D) = ?rows (insert (rsv_id x) D)"
      unfolding map_map
    proof (rule map_cong [OF refl])
      fix q assume q: "q \<in> set (dhcp_reservations db)"
      show "((\<lambda>q. if rsv_id q = rsv_id x then q\<lparr>rsv_subnet_id := c\<rparr> else q) \<circ> (\<lambda>r. if rsv_id r \<in> D then moved_to_child cs r else r)) q
          = (if rsv_id q \<in> insert (rsv_id x) D then moved_to_child cs q else q)"
      proof (cases "q = x")
        case False
        with same [OF q] show ?thesis by auto
      qed (simp add: mv)
    qed
    moreover have "reservations_unique (?rows (insert (rsv_id x) D))" by (rule moved_unique [OF assms(1) D assms(3)])
    ultimately show ?thesis using Some by (simp add: update_reservations_def del: map_map)
  qed
  have "D \<union> rsv_id ` set (x # xs) = insert (rsv_id x) D \<union> rsv_id ` set xs" by auto
  then show ?case using Cons.IH [OF D] Cons.prems(2,3) by (simp only: foldOut.simps step andThen_simps) simp
qed simp

text \<open>C37. Reservations follow their addresses into the children. When the new children hold no reservations
  yet, moving those of the parent never breaks a unique key and never fails: each reservation whose
  address lies in a child is moved to a child that contains it, every other row and column is left as
  it was, and what remains on the parent lies in no child.\<close>

theorem reservations_follow_children:
  assumes "child_ranges db parent = Inr children" "reservations_unique (dhcp_reservations db)"
    and "distinct (map rsv_id (dhcp_reservations db))" "\<forall>r \<in> set (dhcp_reservations db). rsv_subnet_id r \<notin> fst ` set children"
  shows "moveReservationsToChildren db parent
      = (db\<lparr>dhcp_reservations := map (\<lambda>r. if rsv_subnet_id r = parent then moved_to_child children r else r) (dhcp_reservations db)\<rparr>, Inr ())
    \<and> (\<forall>r \<in> set (dhcp_reservations db). \<forall>a. addressToBig (rsv_ip_address r) = Inr a \<longrightarrow>
         (rsv_subnet_id (moved_to_child children r) = rsv_subnet_id r
            \<longleftrightarrow> \<not> (\<exists>(i, n) \<in> set children. net_family n = a_family a \<and> networkBig n \<le> a_value a \<and> a_value a \<le> lastBig n))
       \<and> (rsv_subnet_id (moved_to_child children r) \<noteq> rsv_subnet_id r \<longrightarrow>
            (\<exists>n. (rsv_subnet_id (moved_to_child children r), n) \<in> set children
               \<and> net_family n = a_family a \<and> networkBig n \<le> a_value a \<and> a_value a \<le> lastBig n)))"
proof -
  let ?own = "filter (\<lambda>r. rsv_subnet_id r = parent) (dhcp_reservations db)"
  have "rsv_id r \<in> rsv_id ` set ?own \<longleftrightarrow> rsv_subnet_id r = parent" if "r \<in> set (dhcp_reservations db)" for r
    using assms(3) that by (auto simp: distinct_map dest: inj_onD)
  then have own: "map (\<lambda>r. if rsv_id r \<in> {} \<union> rsv_id ` set ?own then moved_to_child children r else r) (dhcp_reservations db)
      = map (\<lambda>r. if rsv_subnet_id r = parent then moved_to_child children r else r) (dhcp_reservations db)"
    by (intro map_cong) (simp_all only: Un_empty_left)
  have start: "db\<lparr>dhcp_reservations := map (\<lambda>r. if rsv_id r \<in> {} then moved_to_child children r else r) (dhcp_reservations db)\<rparr> = db"
    by simp
  have moved: "moveReservationsToChildren db parent
      = (db\<lparr>dhcp_reservations := map (\<lambda>r. if rsv_subnet_id r = parent then moved_to_child children r else r) (dhcp_reservations db)\<rparr>, Inr ())"
    unfolding moveReservationsToChildren_def assms(1) sum.case
    by (rule move_rows [OF assms(2-4), of "{}" parent ?own, unfolded own start]) auto
  have "(rsv_subnet_id (moved_to_child children r) = rsv_subnet_id r
            \<longleftrightarrow> \<not> (\<exists>(i, n) \<in> set children. net_family n = a_family a \<and> networkBig n \<le> a_value a \<and> a_value a \<le> lastBig n))
       \<and> (rsv_subnet_id (moved_to_child children r) \<noteq> rsv_subnet_id r \<longrightarrow>
            (\<exists>n. (rsv_subnet_id (moved_to_child children r), n) \<in> set children
               \<and> net_family n = a_family a \<and> networkBig n \<le> a_value a \<and> a_value a \<le> lastBig n))"
    if r: "r \<in> set (dhcp_reservations db)" and a: "addressToBig (rsv_ip_address r) = Inr a" for r a
  proof (cases "childContaining children (rsv_ip_address r)")
    case None
    then have "\<not> (\<exists>(i, n) \<in> set children. net_family n = a_family a \<and> networkBig n \<le> a_value a \<and> a_value a \<le> lastBig n)"
      using childContaining_total [OF _ a] by fastforce
    then show ?thesis using None by (simp add: moved_to_child_def)
  next
    case (Some c)
    from childContaining_Some [OF this] a obtain n where n: "(c, n) \<in> set children" "net_family n = a_family a"
      "networkBig n \<le> a_value a" "a_value a \<le> lastBig n" by auto
    then have "c \<noteq> rsv_subnet_id r" using assms(4) r by force
    then show ?thesis using n Some by (auto simp: moved_to_child_def)
  qed
  then show ?thesis using moved by blast
qed

text \<open>A parent 1 with one child 2 and a reservation still on the parent.\<close>

definition sample_divided :: db where
  "sample_divided = empty_db\<lparr>subnets := [\<lparr>sub_id = 2, sub_cidr = ''10.0.0.0/8'', sub_parent_id = Some 1, sub_prefix_length = 8,
       sub_address_family = 4, sub_status = ''allocated'', sub_gateway_address = None, sub_domain_name = None, sub_scan_enabled = None,
       sub_scan_interval = None, sub_total_addresses = None\<rparr>],
     dhcp_reservations := [\<lparr>rsv_id = 7, rsv_subnet_id = 1, rsv_ip_address = formatIp 0x0a000005 32, rsv_mac_address = None,
       rsv_duid = None, rsv_hostname = None, rsv_enabled = True\<rparr>]\<rparr>"

lemma sample_children: "child_ranges sample_divided 1 = Inr [(2, build_network (fam 32) 32 8 0x0a000000)]"
  using reserved_v4(1) by (simp add: child_ranges_def sample_divided_def)

theorem reservations_follow_children_witness:
  "map rsv_subnet_id (dhcp_reservations (fst (moveReservationsToChildren sample_divided 1))) = [2]"
proof -
  have a: "addressToBig (formatIp 0x0a000005 32) = Inr \<lparr>a_value = 0x0a000005, a_bits = 32, a_family = 4\<rparr>"
    using addressToBig_format [of "0x0a000005" 32] by (simp add: valid_addr_def)
  have "childContaining [(2, build_network (fam 32) 32 8 0x0a000000)] (formatIp 0x0a000005 32) = Some 2"
    by (simp add: childContaining_def a build_network_big)
  moreover have "reservations_unique (dhcp_reservations sample_divided)" "distinct (map rsv_id (dhcp_reservations sample_divided))"
      "\<forall>r \<in> set (dhcp_reservations sample_divided). rsv_subnet_id r \<notin> fst ` set [(2, build_network (fam 32) 32 8 0x0a000000)]"
    by (simp_all add: reservations_unique_def sample_divided_def)
  ultimately show ?thesis
    using reservations_follow_children [OF sample_children]
    by (simp add: sample_divided_def moved_to_child_def)
qed

end
