(* ===== verification/LeaseSync.thy ===== *)
theory LeaseSync
  imports Prelude
begin

text \<open>
  When the leases of the DHCP server are synced (\<open>server/src/services/dhcp-lease-sync.js\<close>): one sync at a
  time, a change seen meanwhile synced once after it, and no sync while the switch to another server
  holds it. The module's variables are a record, the two functions that read and write them return it
  updated with a flag that says whether a sync starts. Everything between two awaits is one step. What
  a sync itself does enters only through its end: errors are caught there.
\<close>

section \<open>The module's state and operations\<close>

text \<open>\<open>running\<close> is told from null, \<open>syncDb\<close> likewise.\<close>

record lease_sync =
  running :: bool
  sync_again :: bool
  holds :: nat
  skipped_while_held :: bool
  sync_db :: bool

definition initial_sync :: lease_sync where
  "initial_sync = \<lparr>running = False, sync_again = False, holds = 0, skipped_while_held = False, sync_db = False\<rparr>"

definition runLeaseSync :: "lease_sync \<Rightarrow> lease_sync \<times> bool" where
  "runLeaseSync s =
     (if holds s > 0 then (s\<lparr>skipped_while_held := True\<rparr>, False)
      else if running s then (s\<lparr>sync_again := True\<rparr>, False)
      else (s\<lparr>running := True, sync_again := False\<rparr>, True))"

text \<open>The end of a sync, whether it failed or not: the loop's condition, and what follows the loop.\<close>

definition sync_ends :: "lease_sync \<Rightarrow> lease_sync \<times> bool" where
  "sync_ends s =
     (if sync_again s \<and> holds s = 0 then (s\<lparr>sync_again := False\<rparr>, True)
      else ((if sync_again s then s\<lparr>sync_again := False, skipped_while_held := True, running := False\<rparr>
             else s\<lparr>running := False\<rparr>), False))"

definition holdLeaseSync :: "lease_sync \<Rightarrow> lease_sync" where
  "holdLeaseSync s = s\<lparr>holds := holds s + 1\<rparr>"

text \<open>The first call of the function a hold returns; later calls do nothing.\<close>

definition release_hold :: "lease_sync \<Rightarrow> lease_sync \<times> bool" where
  "release_hold s =
     (let s1 = s\<lparr>holds := holds s - 1\<rparr> in
      if holds s1 = 0 \<and> skipped_while_held s1
      then (let s2 = s1\<lparr>skipped_while_held := False\<rparr> in if sync_db s2 then runLeaseSync s2 else (s2, False))
      else (s1, False))"

definition startLeaseSync :: "lease_sync \<Rightarrow> lease_sync \<times> bool" where
  "startLeaseSync s = runLeaseSync (s\<lparr>sync_db := True\<rparr>)"

section \<open>Interleavings\<close>

text \<open>A caller of \<open>holdLeaseSync\<close> waits for the sync under way, then has its release, then used it.\<close>

datatype hold_state = Waiting | Granted | Released

datatype sync_event = Start | Change | SyncEnd | Hold nat | Grant nat | Release nat

text \<open>Beside the module's state: the callers' holds, how many changes were seen, how many of them when the
  last sync started, and how many syncs are under way.\<close>

record sync_run =
  module :: lease_sync
  callers :: "nat \<rightharpoonup> hold_state"
  seen :: nat
  fetched :: nat
  in_flight :: nat

definition initial_run :: sync_run where
  "initial_run = \<lparr>module = initial_sync, callers = Map.empty, seen = 0, fetched = 0, in_flight = 0\<rparr>"

text \<open>A sync that starts reads every change seen so far.\<close>

definition put :: "lease_sync \<times> bool \<Rightarrow> sync_run \<Rightarrow> sync_run" where
  "put r w = (if snd r then w\<lparr>module := fst r, fetched := seen w, in_flight := in_flight w + 1\<rparr> else w\<lparr>module := fst r\<rparr>)"

definition sync_enabled :: "sync_event \<Rightarrow> sync_run \<Rightarrow> bool" where
  "sync_enabled e w =
     (case e of
        Start \<Rightarrow> True
      | Change \<Rightarrow> sync_db (module w)
      | SyncEnd \<Rightarrow> in_flight w > 0
      | Hold h \<Rightarrow> callers w h = None
      | Grant h \<Rightarrow> callers w h = Some Waiting \<and> \<not> running (module w)
      | Release h \<Rightarrow> callers w h = Some Granted \<or> callers w h = Some Released)"

definition sync_effect :: "sync_event \<Rightarrow> sync_run \<Rightarrow> sync_run" where
  "sync_effect e w =
     (case e of
        Start \<Rightarrow> (let w1 = w\<lparr>seen := seen w + 1\<rparr> in put (startLeaseSync (module w)) w1)
      | Change \<Rightarrow> (let w1 = w\<lparr>seen := seen w + 1\<rparr> in put (runLeaseSync (module w)) w1)
      | SyncEnd \<Rightarrow> (let w1 = w\<lparr>in_flight := in_flight w - 1\<rparr> in put (sync_ends (module w)) w1)
      | Hold h \<Rightarrow> w\<lparr>module := holdLeaseSync (module w),
                     callers := (callers w)(h \<mapsto> if running (module w) then Waiting else Granted)\<rparr>
      | Grant h \<Rightarrow> w\<lparr>callers := (callers w)(h \<mapsto> Granted)\<rparr>
      | Release h \<Rightarrow> if callers w h = Some Released then w
                      else put (release_hold (module w)) (w\<lparr>callers := (callers w)(h \<mapsto> Released)\<rparr>))"

inductive sync_step :: "sync_run \<Rightarrow> sync_event \<Rightarrow> sync_run \<Rightarrow> bool" where
  "sync_enabled e w \<Longrightarrow> sync_step w e (sync_effect e w)"

inductive sync_reachable :: "sync_run \<Rightarrow> bool" where
  start: "sync_reachable initial_run"
| step: "sync_reachable w \<Longrightarrow> sync_step w e w' \<Longrightarrow> sync_reachable w'"

inductive_cases sync_stepE: "sync_step w e w'"

section \<open>What is never lost\<close>

definition open_holds :: "(nat \<rightharpoonup> hold_state) \<Rightarrow> nat set" where
  "open_holds c = {h. c h = Some Waiting \<or> c h = Some Granted}"

definition sync_ok :: "sync_run \<Rightarrow> bool" where
  "sync_ok w =
     (finite (open_holds (callers w)) \<and> holds (module w) = card (open_holds (callers w))
    \<and> in_flight w = (if running (module w) then 1 else 0)
    \<and> (\<forall>h. callers w h = Some Granted \<longrightarrow> \<not> running (module w))
    \<and> (sync_again (module w) \<longrightarrow> running (module w))
    \<and> (skipped_while_held (module w) \<longrightarrow> holds (module w) > 0)
    \<and> (running (module w) \<or> skipped_while_held (module w) \<longrightarrow> sync_db (module w))
    \<and> fetched w \<le> seen w
    \<and> (fetched w < seen w \<longrightarrow> sync_again (module w) \<or> skipped_while_held (module w)))"

lemma open_holds_upd [simp]:
  "open_holds (c(h \<mapsto> st)) = (if st = Released then open_holds c - {h} else insert h (open_holds c))"
  by (cases st) (auto simp: open_holds_def)

lemma put_simps [simp]:
  "module (put r w) = fst r" "callers (put r w) = callers w" "seen (put r w) = seen w"
  "fetched (put r w) = (if snd r then seen w else fetched w)"
  "in_flight (put r w) = (if snd r then in_flight w + 1 else in_flight w)"
  by (simp_all add: put_def)

lemmas sync_defs = runLeaseSync_def sync_ends_def holdLeaseSync_def release_hold_def startLeaseSync_def

lemma Granted_open: "callers w h = Some Granted \<Longrightarrow> h \<in> open_holds (callers w)" "callers w h = Some Waiting \<Longrightarrow> h \<in> open_holds (callers w)"
  by (simp_all add: open_holds_def)

lemma no_holds: "open_holds (callers w) = {} \<Longrightarrow> callers w h = Some Granted \<longleftrightarrow> False"
  by (auto simp: open_holds_def)

lemma last_hold:
  "finite (open_holds c) \<Longrightarrow> card (open_holds c) \<le> Suc 0 \<Longrightarrow> c h = Some Granted \<Longrightarrow> c g = Some Granted \<Longrightarrow> g = h"
  by (simp add: card_le_Suc0_iff_eq open_holds_def)

lemma sync_ok_step:
  assumes ok: "sync_ok w" and en: "sync_enabled e w"
  shows "sync_ok (sync_effect e w)"
proof (cases e)
  case Start
  then show ?thesis using ok by (auto simp: sync_ok_def sync_effect_def sync_defs no_holds)
next
  case Change
  then show ?thesis using ok en by (auto simp: sync_ok_def sync_effect_def sync_enabled_def sync_defs no_holds)
next
  case SyncEnd
  then show ?thesis using ok en by (auto simp: sync_ok_def sync_effect_def sync_enabled_def sync_defs no_holds)
next
  case (Hold h)
  then have "h \<notin> open_holds (callers w)" using en by (simp add: sync_enabled_def open_holds_def)
  then show ?thesis using ok en Hold
    by (auto simp: sync_ok_def sync_effect_def sync_enabled_def sync_defs)
next
  case (Grant h)
  then show ?thesis using ok en by (auto simp: sync_ok_def sync_effect_def sync_enabled_def insert_absorb Granted_open)
next
  case (Release h)
  show ?thesis
  proof (cases "callers w h = Some Released")
    case True
    then show ?thesis using ok Release by (simp add: sync_effect_def)
  next
    case False
    then have "callers w h = Some Granted" using en Release by (simp add: sync_enabled_def)
    moreover from this have "h \<in> open_holds (callers w)" by (rule Granted_open)
    ultimately show ?thesis using ok Release False
      by (auto simp: sync_ok_def sync_effect_def sync_defs card_Diff_singleton Let_def dest: last_hold)
  qed
qed

lemma sync_reachable_ok: "sync_reachable w \<Longrightarrow> sync_ok w"
proof (induction rule: sync_reachable.induct)
  case start
  then show ?case by (simp add: sync_ok_def initial_run_def initial_sync_def open_holds_def)
next
  case (step w e w')
  then show ?case by (auto elim!: sync_stepE intro: sync_ok_step)
qed

text \<open>C16. However changes, ends of syncs, holds and their releases interleave, at most one sync is under way,
  and none from the moment a hold is granted until it is released. No change is lost: whenever no sync
  is under way and no hold is open, the last sync started after every change seen so far; until then a
  flag says that another sync is due.\<close>

theorem lease_sync_invariant:
  assumes "sync_reachable w"
  shows "in_flight w \<le> 1
    \<and> ((\<exists>h. callers w h = Some Granted) \<longrightarrow> in_flight w = 0)
    \<and> (in_flight w = 0 \<and> open_holds (callers w) = {} \<longrightarrow> fetched w = seen w)
    \<and> (fetched w < seen w \<longrightarrow> sync_again (module w) \<and> in_flight w = 1
         \<or> skipped_while_held (module w) \<and> open_holds (callers w) \<noteq> {})"
  using sync_reachable_ok [OF assms] by (auto simp: sync_ok_def split: if_splits)

text \<open>What happens without new changes or holds: syncs end, holds are granted and released.\<close>

definition own_step :: "sync_event \<Rightarrow> sync_run \<Rightarrow> bool" where
  "own_step e w = (sync_enabled e w \<and> (case e of SyncEnd \<Rightarrow> True | Grant h \<Rightarrow> True | Release h \<Rightarrow> callers w h = Some Granted | _ \<Rightarrow> False))"

fun own_run :: "sync_event list \<Rightarrow> sync_run \<Rightarrow> sync_run option" where
  "own_run [] w = Some w"
| "own_run (e # es) w = (if own_step e w then own_run es (sync_effect e w) else None)"

definition waiting :: "(nat \<rightharpoonup> hold_state) \<Rightarrow> nat set" where
  "waiting c = {h. c h = Some Waiting}"

definition work_left :: "sync_run \<Rightarrow> nat" where
  "work_left w = card (open_holds (callers w)) + card (waiting (callers w)) + (if running (module w) then 1 else 0)
     + (if sync_again (module w) \<or> skipped_while_held (module w) then 2 else 0)"

lemma waiting_upd [simp]: "waiting (c(h \<mapsto> st)) = (if st = Waiting then insert h (waiting c) else waiting c - {h})"
  by (cases st) (auto simp: waiting_def)

lemma waiting_open: "waiting c \<subseteq> open_holds c" by (auto simp: waiting_def open_holds_def)

lemma own_step_decreases:
  assumes ok: "sync_ok w" and own: "own_step e w"
  shows "work_left (sync_effect e w) < work_left w \<and> seen (sync_effect e w) = seen w"
proof -
  have fin: "finite (open_holds (callers w))" "finite (waiting (callers w))"
    using ok finite_subset [OF waiting_open] by (auto simp: sync_ok_def)
  show ?thesis
  proof (cases e)
    case SyncEnd
    then show ?thesis using ok own
      by (auto simp: sync_ok_def sync_effect_def sync_defs own_step_def sync_enabled_def work_left_def split: if_splits)
  next
    case (Grant h)
    then have "h \<in> waiting (callers w)" "h \<in> open_holds (callers w)"
      using own by (auto simp: own_step_def sync_enabled_def waiting_def open_holds_def)
    moreover from this have "card (waiting (callers w) - {h}) < card (waiting (callers w))" by (intro card_Diff1_less fin)
    ultimately show ?thesis using Grant by (simp add: sync_effect_def work_left_def insert_absorb del: card_Diff_insert card_Diff_singleton_if)
  next
    case (Release h)
    then have h: "callers w h = Some Granted" "h \<in> open_holds (callers w)" "h \<notin> waiting (callers w)"
      using own by (auto simp: own_step_def waiting_def open_holds_def)
    moreover have "card (open_holds (callers w) - {h}) < card (open_holds (callers w))"
      by (intro card_Diff1_less fin h)
    ultimately show ?thesis using ok Release
      by (auto simp: sync_ok_def sync_effect_def sync_defs work_left_def Let_def)
  qed (use own in \<open>auto simp: own_step_def\<close>)
qed

lemma own_run_bounded:
  "sync_ok w \<Longrightarrow> own_run es w = Some w' \<Longrightarrow> sync_ok w' \<and> seen w' = seen w \<and> length es + work_left w' \<le> work_left w"
proof (induction es arbitrary: w)
  case (Cons e es)
  then have "own_step e w" and run: "own_run es (sync_effect e w) = Some w'" by (auto split: if_splits)
  moreover from this have "sync_ok (sync_effect e w)" using Cons.prems sync_ok_step by (auto simp: own_step_def)
  ultimately show ?case using Cons.IH own_step_decreases [OF Cons.prems(1)] by fastforce
qed simp

lemma own_step_possible:
  assumes "sync_ok w" "in_flight w > 0 \<or> open_holds (callers w) \<noteq> {}"
  shows "\<exists>e. own_step e w"
proof (cases "in_flight w > 0")
  case True
  then show ?thesis by (intro exI [of _ SyncEnd]) (simp add: own_step_def sync_enabled_def)
next
  case False
  then have idle: "\<not> running (module w)" using assms(1) by (auto simp: sync_ok_def split: if_splits)
  from False assms(2) obtain h where "callers w h = Some Waiting \<or> callers w h = Some Granted" by (auto simp: open_holds_def)
  then have "own_step (Grant h) w \<or> own_step (Release h) w" using idle by (auto simp: own_step_def sync_enabled_def)
  then show ?thesis by blast
qed

text \<open>C39. The syncs catch up. From every reachable state, once no more changes and holds arrive, at most three
  steps and two for each open hold remain, and when nothing is left to do every hold is released, no
  sync is under way and the last one started after the last change.\<close>

theorem lease_sync_settles:
  assumes "sync_reachable w" "own_run es w = Some w'"
  shows "length es \<le> 3 + 2 * holds (module w) \<and> seen w' = seen w
    \<and> ((\<forall>e. \<not> own_step e w') \<longrightarrow> open_holds (callers w') = {} \<and> in_flight w' = 0 \<and> fetched w' = seen w)"
proof -
  note ok = sync_reachable_ok [OF assms(1)]
  from own_run_bounded [OF ok assms(2)] have ok': "sync_ok w'" and run: "seen w' = seen w" "length es \<le> work_left w" by auto
  have "card (waiting (callers w)) \<le> card (open_holds (callers w))"
    using ok waiting_open by (intro card_mono) (auto simp: sync_ok_def)
  then have "work_left w \<le> 3 + 2 * holds (module w)" using ok by (auto simp: work_left_def sync_ok_def)
  moreover have "fetched w' = seen w'" if "open_holds (callers w') = {}" "in_flight w' = 0"
    using ok' that by (auto simp: sync_ok_def split: if_splits)
  ultimately show ?thesis using run own_step_possible [OF ok'] by (metis gr0I le_trans)
qed

text \<open>A server started, a hold taken during its first sync, a change seen meanwhile.\<close>

definition sample_events :: "sync_event list" where
  "sample_events = [Start, Change, Hold 1, Change]"

lemma run_reachable: "sync_reachable w \<Longrightarrow> sync_enabled e w \<Longrightarrow> sync_reachable (sync_effect e w)"
  by (auto intro: sync_reachable.step sync_step.intros)

lemma sample_reachable: "sync_reachable (fold sync_effect sample_events initial_run)"
  unfolding sample_events_def fold.simps comp_def id_apply
  by (intro run_reachable sync_reachable.start)
     (simp_all add: sync_enabled_def sync_effect_def sync_defs initial_run_def initial_sync_def put_def)

theorem lease_sync_invariant_witness:
  "fetched (fold sync_effect sample_events initial_run) < seen (fold sync_effect sample_events initial_run)
   \<and> (sync_again (module (fold sync_effect sample_events initial_run)) \<and> in_flight (fold sync_effect sample_events initial_run) = 1
      \<or> skipped_while_held (module (fold sync_effect sample_events initial_run)) \<and> open_holds (callers (fold sync_effect sample_events initial_run)) \<noteq> {})"
proof -
  have "fetched (fold sync_effect sample_events initial_run) < seen (fold sync_effect sample_events initial_run)"
    by (simp add: sample_events_def sync_effect_def sync_defs initial_run_def initial_sync_def put_def)
  with lease_sync_invariant [OF sample_reachable] show ?thesis by blast
qed

theorem lease_sync_settles_witness:
  "\<exists>w'. own_run [SyncEnd, Grant 1, Release 1, SyncEnd] (fold sync_effect sample_events initial_run) = Some w'
     \<and> fetched w' = 3 \<and> in_flight w' = 0"
proof -
  obtain w' where w': "own_run [SyncEnd, Grant 1, Release 1, SyncEnd] (fold sync_effect sample_events initial_run) = Some w'"
      "\<forall>e. \<not> own_step e w'" "seen (fold sync_effect sample_events initial_run) = 3"
    by (auto simp: sample_events_def own_step_def sync_enabled_def sync_effect_def sync_defs initial_run_def initial_sync_def put_def
        split: sync_event.splits)
  with lease_sync_settles [OF sample_reachable w'(1)] show ?thesis by auto
qed

end
