(* ===== verification/ScopeOptions.thy ===== *)
theory ScopeOptions
  imports DhcpScope TransformPlan "HOL-Library.AList"
begin

text \<open>
  The options of DHCP scopes: what a scope serves and where each value comes from, how the options a
  user sets are stored (\<open>server/src/models/dhcp-scope.js\<close>), the defaults (\<open>server/src/models/dhcp-option.js\<close>),
  what a scope takes from its network (\<open>server/src/utils/dhcp-network-options.js\<close>, filling and writing in
  \<open>server/src/services/subnet-dhcp-topology.js\<close>) and the change of many scopes at once
  (\<open>server/src/models/dhcp-bulk-options.js\<close>).
\<close>

section \<open>Tables\<close>

text \<open>A row of \<open>dhcp_scopes\<close> joined with its network. The two list columns hold JSON: the model has the list
  the code reads from them, None for a text it cannot read and for null.\<close>

record option_scope =
  os_id :: nat
  os_subnet_id :: nat
  os_enabled :: bool
  os_address_family :: "nat option"
  os_v6_mode :: "string option"
  os_lease_time :: "string option"
  os_domain_name :: "string option"
  os_gateway :: "string option"
  os_dns_servers :: "string list option"
  os_ntp_servers :: "string list option"
  os_domain_search :: "string option"
  os_subnet_cidr :: "string option"
  os_subnet_gateway :: "string option"
  os_subnet_domain_name :: "string option"

record option_row =
  opt_scope_id :: nat
  opt_code :: nat
  opt_value :: "string option"
  opt_family :: nat

record default_row =
  def_code :: nat
  def_value :: "string option"
  def_enabled :: bool
  def_family :: nat

record option_db =
  option_scopes :: "option_scope list"
  scope_options :: "option_row list"
  option_defaults :: "default_row list"

datatype option_error = OptionAddress cidr_error | LeaseTimeOption | OptionNotUnique

text \<open>Inserting, with the unique keys of the two tables.\<close>

definition insert_option :: "option_row \<Rightarrow> option_row list \<Rightarrow> option_error + option_row list" where
  "insert_option r rows =
     (if \<exists>q \<in> set rows. opt_scope_id q = opt_scope_id r \<and> opt_family q = opt_family r \<and> opt_code q = opt_code r
      then Inl OptionNotUnique else Inr (rows @ [r]))"

definition insert_default :: "default_row \<Rightarrow> default_row list \<Rightarrow> option_error + default_row list" where
  "insert_default r rows =
     (if \<exists>q \<in> set rows. def_family q = def_family r \<and> def_code q = def_code r
      then Inl OptionNotUnique else Inr (rows @ [r]))"

definition from_cidr :: "cidr_error + 'a \<Rightarrow> option_error + 'a" where
  "from_cidr r = (case r of Inl e \<Rightarrow> Inl (OptionAddress e) | Inr x \<Rightarrow> Inr x)"

section \<open>What a scope serves\<close>

definition scopeAddressFamily :: "nat option \<Rightarrow> string option \<Rightarrow> nat" where
  "scopeAddressFamily address_family cidr =
     (if address_family = Some 6 then 6
      else if or_null_num address_family \<noteq> None then 4
      else if \<not> truthy cidr then 4
      else case parseNetwork (coalesce cidr) of Inr p \<Rightarrow> net_family p | Inl _ \<Rightarrow> 4)"

definition legacyListValue :: "string list option \<Rightarrow> string option" where
  "legacyListValue json =
     (case json of Some (v # vs) \<Rightarrow> Some (join '','' (v # vs)) | _ \<Rightarrow> None)"

datatype option_source = FromDefault | FromScope | FromLegacy | FromNetwork | NetworkNone

text \<open>The two Maps \<open>values\<close> and \<open>provenance\<close>, in insertion order.\<close>

record served =
  sv_values :: "(nat \<times> string) list"
  sv_source :: "(nat \<times> option_source) list"

definition set_option :: "nat \<Rightarrow> string option \<Rightarrow> option_source \<Rightarrow> served \<Rightarrow> served" where
  "set_option opt value source s =
     (case value of
        None \<Rightarrow> s
      | Some v \<Rightarrow> if v = [] then s
                  else s\<lparr>sv_values := AList.update opt v (sv_values s), sv_source := AList.update opt source (sv_source s)\<rparr>)"

definition isLinkedOption :: "option_row \<Rightarrow> bool" where
  "isLinkedOption r = (opt_value r = None)"

definition option_default :: "option_db \<Rightarrow> nat \<Rightarrow> nat \<Rightarrow> string option" where
  "option_default odb family =
     map_of (rev (List.map_filter (\<lambda>d. if def_family d = family then map_option (Pair (def_code d)) (def_value d) else None)
       (option_defaults odb)))"

record effective =
  eff_lease_time :: "string option"
  eff_router_suppressed :: bool
  eff_options :: "(nat \<times> string \<times> option_source option) list"

definition served_options :: "served \<Rightarrow> (nat \<times> string \<times> option_source option) list" where
  "served_options s = sort_key fst (map (\<lambda>(c, v). (c, v, map_of (sv_source s) c)) (sv_values s))"

definition linked_options :: "option_db \<Rightarrow> nat \<Rightarrow> option_row list \<Rightarrow> served" where
  "linked_options odb family rows =
     fold (\<lambda>r s. if family = 4 \<and> opt_code r = 51 then s
                 else set_option (opt_code r) (option_default odb family (opt_code r)) FromDefault s)
       (filter isLinkedOption rows) \<lparr>sv_values = [], sv_source = []\<rparr>"

definition resolveEffectiveScopeOptions :: "option_db \<Rightarrow> option_scope \<Rightarrow> cidr_error + effective" where
  "resolveEffectiveScopeOptions odb scope =
     (let family = scopeAddressFamily (os_address_family scope) (os_subnet_cidr scope);
          rows = filter (\<lambda>r. opt_scope_id r = os_id scope) (scope_options odb);
          s0 = linked_options odb family rows;
          explicit = filter (\<lambda>r. \<not> isLinkedOption r) rows
      in if family = 6
         then
           (let s1 = set_option 23 (legacyListValue (os_dns_servers scope)) FromLegacy s0;
                s2 = set_option 24 (os_domain_search scope) FromLegacy s1;
                s3 = set_option 56 (legacyListValue (os_ntp_servers scope)) FromLegacy s2;
                s4 = fold (\<lambda>r. set_option (opt_code r) (opt_value r) FromScope) explicit s3;
                s5 = (if map_of (sv_values s4) 24 = None
                      then set_option 24 (if truthy (os_domain_name scope) then os_domain_name scope
                                          else os_subnet_domain_name scope) FromNetwork s4
                      else s4)
            in Inr \<lparr>eff_lease_time = os_lease_time scope, eff_router_suppressed = False, eff_options = served_options s5\<rparr>)
         else
           (let s1 = fold (\<lambda>r s. if opt_code r \<noteq> 51 then set_option (opt_code r) (opt_value r) FromScope s else s) explicit s0;
                s2 = (if explicit = []
                      then set_option 119 (os_domain_search scope) FromLegacy
                        (set_option 42 (legacyListValue (os_ntp_servers scope)) FromLegacy
                          (set_option 15 (os_domain_name scope) FromLegacy
                            (set_option 3 (os_gateway scope) FromLegacy s1)))
                      else s1)
            in ebind (if truthy (os_subnet_cidr scope)
                      then ebind (parseNetwork (coalesce (os_subnet_cidr scope))) (\<lambda>parsed.
                             Inr (if net_family parsed = 4
                                  then set_option 28 (net_broadcast parsed) FromNetwork (set_option 1 (Some (net_mask parsed)) FromNetwork s2)
                                  else s2))
                      else Inr s2) (\<lambda>s3.
               let s4 = (if truthy (os_subnet_gateway scope) then set_option 3 (os_subnet_gateway scope) FromNetwork s3
                         else s3\<lparr>sv_values := AList.delete 3 (sv_values s3), sv_source := AList.update 3 NetworkNone (sv_source s3)\<rparr>);
                   s5 = (if map_of (sv_values s4) 15 = None then set_option 15 (os_subnet_domain_name scope) FromNetwork s4 else s4);
                   s6 = (if map_of (sv_values s5) 119 = None then set_option 119 (os_subnet_domain_name scope) FromNetwork s5 else s5)
               in Inr \<lparr>eff_lease_time = os_lease_time scope, eff_router_suppressed = (\<not> truthy (os_subnet_gateway scope)),
                       eff_options = served_options s6\<rparr>)))"

section \<open>Storing what a user sets\<close>

record option_input =
  oi_code :: nat
  oi_value :: "string option"
  oi_use_default :: bool

text \<open>\<open>parseInt(text, 10)\<close> where it is a number of at least 0.\<close>

definition prefix_int :: "string \<Rightarrow> nat option" where
  "prefix_int s =
     (let t = trim s; u = (if take 1 t = ''+'' then tl t else t); ds = takeWhile is_digit u in
      if ds = [] then None else Some (of_digits 10 ds))"

definition mask_text :: "nat \<Rightarrow> string" where
  "mask_text pfx =
     (let m = (if pfx = 0 then 0 else 2 ^ 32 - 2 ^ (32 - pfx)) :: nat in
      join ''.'' (map (\<lambda>k. dec (drop_bit k m mod 256)) [24, 16, 8, 0]))"

definition computeInheritedOptions :: "subnet_row \<Rightarrow> cidr_error + (nat \<rightharpoonup> string)" where
  "computeInheritedOptions subnet =
     (if sub_address_family subnet = 6 \<or> CHR '':'' \<in> set (sub_cidr subnet)
      then Inr (if truthy (sub_domain_name subnet) then [24 \<mapsto> coalesce (sub_domain_name subnet)] else Map.empty)
      else
        let m0 = (if truthy (sub_gateway_address subnet) then [3 \<mapsto> coalesce (sub_gateway_address subnet)] else Map.empty)
        in ebind
             (if sub_cidr subnet \<noteq> []
              then case (case split_chr (CHR ''/'') (sub_cidr subnet) of _ # p # _ \<Rightarrow> prefix_int p | _ \<Rightarrow> None) of
                     None \<Rightarrow> Inr m0
                   | Some pfx \<Rightarrow>
                       if pfx \<le> 32
                       then ebind (parseNetwork (sub_cidr subnet)) (\<lambda>p.
                              Inr (case net_broadcast p of
                                     Some b \<Rightarrow> m0(1 \<mapsto> mask_text pfx, 28 \<mapsto> b) | None \<Rightarrow> m0(1 \<mapsto> mask_text pfx)))
                       else Inr m0
              else Inr m0) (\<lambda>m1.
             Inr (if truthy (sub_domain_name subnet)
                  then m1(15 \<mapsto> coalesce (sub_domain_name subnet), 119 \<mapsto> coalesce (sub_domain_name subnet)) else m1)))"

fun save_options :: "nat \<Rightarrow> nat \<Rightarrow> (nat \<rightharpoonup> string) \<Rightarrow> option_input list \<Rightarrow> option_row list \<Rightarrow> option_error + option_row list" where
  "save_options scopeId family inherited [] rows = Inr rows"
| "save_options scopeId family inherited (o' # os) rows =
     (if oi_code o' = 0 \<or> \<not> oi_use_default o' \<and> \<not> truthy (oi_value o')
      then save_options scopeId family inherited os rows
      else if family = 4 \<and> oi_code o' = 51 then Inl LeaseTimeOption
      else if oi_use_default o'
      then ebind (insert_option \<lparr>opt_scope_id = scopeId, opt_code = oi_code o', opt_value = None, opt_family = family\<rparr> rows)
             (save_options scopeId family inherited os)
      else if truthy (inherited (oi_code o')) \<and> oi_value o' = inherited (oi_code o')
      then save_options scopeId family inherited os rows
      else ebind (insert_option \<lparr>opt_scope_id = scopeId, opt_code = oi_code o', opt_value = oi_value o', opt_family = family\<rparr> rows)
             (save_options scopeId family inherited os))"

definition saveScopeOptions ::
  "option_db \<Rightarrow> nat \<Rightarrow> subnet_row \<Rightarrow> option_input list option \<Rightarrow> bool \<Rightarrow> option_error + option_db" where
  "saveScopeOptions odb scopeId subnet options replace =
     (case options of
        None \<Rightarrow> Inr odb
      | Some os \<Rightarrow>
          let rows = (if replace then filter (\<lambda>r. opt_scope_id r \<noteq> scopeId) (scope_options odb) else scope_options odb);
              family = scopeAddressFamily (Some (sub_address_family subnet)) (Some (sub_cidr subnet))
          in ebind (from_cidr (computeInheritedOptions subnet)) (\<lambda>inherited.
             ebind (save_options scopeId family inherited os rows) (\<lambda>rows'. Inr (odb\<lparr>scope_options := rows'\<rparr>))))"

section \<open>Defaults\<close>

definition familyOf :: "nat \<Rightarrow> nat" where
  "familyOf value = (if value = 6 then 6 else 4)"

text \<open>The \<open>set_*\<close> of one insert after another.\<close>

fun insert_all_defaults :: "default_row list \<Rightarrow> default_row list \<Rightarrow> option_error + default_row list" where
  "insert_all_defaults [] rows = Inr rows"
| "insert_all_defaults (r # rs) rows = ebind (insert_default r rows) (insert_all_defaults rs)"

definition replaceDefaultOptions ::
  "option_db \<Rightarrow> (nat \<times> string option) list \<Rightarrow> nat list \<Rightarrow> nat \<Rightarrow> option_error + option_db" where
  "replaceDefaultOptions odb options enabledDefaults family =
     (let fam = familyOf family; enabledSet = unique enabledDefaults;
          given = filter (\<lambda>(c, v). c \<noteq> 0 \<and> truthy v) options;
          blank = filter (\<lambda>c. c \<notin> fst ` set given) enabledSet;
          inserts = map (\<lambda>(c, v). \<lparr>def_code = c, def_value = v, def_enabled = (c \<in> set enabledSet), def_family = fam\<rparr>) given
                  @ map (\<lambda>c. \<lparr>def_code = c, def_value = None, def_enabled = True, def_family = fam\<rparr>) blank
      in ebind (insert_all_defaults inserts (filter (\<lambda>d. def_family d \<noteq> fam) (option_defaults odb))) (\<lambda>rows.
           Inr (odb\<lparr>option_defaults := rows\<rparr>)))"

definition getDefaultOptions :: "option_db \<Rightarrow> nat \<Rightarrow> (nat \<times> string) list \<times> nat list" where
  "getDefaultOptions odb family =
     (let rows = filter (\<lambda>d. def_family d = familyOf family) (option_defaults odb) in
      (List.map_filter (\<lambda>d. map_option (Pair (def_code d)) (def_value d)) rows, map def_code (filter def_enabled rows)))"

section \<open>What a scope takes from its network\<close>

definition networkOptionFills ::
  "nat \<Rightarrow> string option \<Rightarrow> string option \<Rightarrow> string option \<Rightarrow> string option \<Rightarrow> string option \<Rightarrow> (nat \<times> string \<times> bool) list" where
  "networkOptionFills family netmask broadcast gateway domain serverIp =
     List.map_filter (\<lambda>(opt, value, overwrite). if truthy value then Some (opt, coalesce value, overwrite) else None)
       (if family = 6 then [(24, domain, False), (23, serverIp, False)]
        else [(3, gateway, True), (1, netmask, True), (28, broadcast, True), (15, domain, False), (119, domain, False), (6, serverIp, False)])"

text \<open>A value of the Map \<open>optionValues\<close>.\<close>

datatype option_fill = Blank | UseDefault | Own string

definition fillScopeOptions ::
  "(nat \<times> option_fill) list \<Rightarrow> network \<Rightarrow> string option \<Rightarrow> string option \<Rightarrow> string option \<Rightarrow> (nat \<times> option_fill) list" where
  "fillScopeOptions enabled parsed gateway domain serverIp =
     (let given = fold (\<lambda>(opt, v). AList.update opt (if v = Own [] then Blank else v)) enabled [];
          fills = networkOptionFills (if net_family parsed = 6 then 6 else 4) (Some (net_mask parsed)) (net_broadcast parsed)
                    gateway domain serverIp
      in fold (\<lambda>(opt, value, overwrite) m.
                 if overwrite \<or> map_of m opt = None \<or> map_of m opt = Some Blank then AList.update opt (Own value) m else m)
           fills given)"

fun writeScopeOptionRows :: "nat \<Rightarrow> nat \<Rightarrow> (nat \<times> option_fill) list \<Rightarrow> option_row list \<Rightarrow> option_error + option_row list" where
  "writeScopeOptionRows scopeId family [] rows = Inr rows"
| "writeScopeOptionRows scopeId family ((opt, v) # vs) rows =
     (case v of
        Blank \<Rightarrow> writeScopeOptionRows scopeId family vs rows
      | UseDefault \<Rightarrow> ebind (insert_option \<lparr>opt_scope_id = scopeId, opt_code = opt, opt_value = None, opt_family = family\<rparr> rows)
                        (writeScopeOptionRows scopeId family vs)
      | Own s \<Rightarrow> if s = [] then writeScopeOptionRows scopeId family vs rows
                 else ebind (insert_option \<lparr>opt_scope_id = scopeId, opt_code = opt, opt_value = Some s, opt_family = family\<rparr> rows)
                        (writeScopeOptionRows scopeId family vs))"

definition insertScopeOptionsFromDefaults ::
  "iface_addr list \<Rightarrow> option_db \<Rightarrow> nat \<Rightarrow> network \<Rightarrow> string option \<Rightarrow> string option \<Rightarrow> string \<Rightarrow> option_error + option_db" where
  "insertScopeOptionsFromDefaults ifaces odb scopeId parsed gateway domain cidr =
     (let family = (if net_family parsed = 6 then 6 else 4);
          enabledRows = filter (\<lambda>d. def_enabled d \<and> def_family d = family) (option_defaults odb);
          optionValues = fillScopeOptions (map (\<lambda>d. (def_code d, if truthy (def_value d) then UseDefault else Blank)) enabledRows)
                           parsed gateway domain (getServerIpForSubnet ifaces cidr)
      in ebind (writeScopeOptionRows scopeId family optionValues (scope_options odb)) (\<lambda>rows.
           Inr (odb\<lparr>scope_options := rows\<rparr>)))"

section \<open>Changing many scopes\<close>

definition bulkChangeSkipReason :: "option_scope \<Rightarrow> string option" where
  "bulkChangeSkipReason scope =
     (if scopeAddressFamily (os_address_family scope) (os_subnet_cidr scope) = 6 \<and> os_v6_mode scope = Some ''slaac''
      then Some ''SLAAC only, sends no options'' else None)"

definition familyScopes :: "option_db \<Rightarrow> nat \<Rightarrow> option_scope list" where
  "familyScopes odb family =
     filter (\<lambda>s. scopeAddressFamily (os_address_family s) (os_subnet_cidr s) = family) (option_scopes odb)"

definition effectiveMap :: "option_db \<Rightarrow> option_scope \<Rightarrow> option_error + (nat \<times> string \<times> bool) list" where
  "effectiveMap odb scope =
     (let fresh = (case find (\<lambda>s. os_id s = os_id scope) (option_scopes odb) of Some s \<Rightarrow> s | None \<Rightarrow> scope) in
      ebind (from_cidr (resolveEffectiveScopeOptions odb fresh)) (\<lambda>e.
        Inr (map (\<lambda>(c, v, src). (c, v, src = Some FromDefault)) (eff_options e))))"

record option_change =
  ch_code :: nat
  ch_before :: "string option"
  ch_after :: "string option"
  ch_before_default :: bool
  ch_after_default :: bool

definition option_diff :: "(nat \<times> string \<times> bool) list \<Rightarrow> (nat \<times> string \<times> bool) list \<Rightarrow> option_change list" where
  "option_diff before after =
     (let value = (\<lambda>m c. map_option fst (map_of m c)); linked = (\<lambda>m c. (case map_of m c of Some (_, l) \<Rightarrow> l | None \<Rightarrow> False))
      in map (\<lambda>c. \<lparr>ch_code = c, ch_before = value before c, ch_after = value after c,
                   ch_before_default = linked before c, ch_after_default = linked after c\<rparr>)
           (filter (\<lambda>c. value before c \<noteq> value after c \<or> linked before c \<noteq> linked after c)
              (sort (unique (map fst before @ map fst after)))))"

definition replaceScopeOptions ::
  "iface_addr list \<Rightarrow> option_scope \<Rightarrow> nat \<Rightarrow> (nat \<times> option_fill) list \<Rightarrow> option_db \<Rightarrow> option_error + option_db" where
  "replaceScopeOptions ifaces scope family enabled odb =
     ebind (from_cidr (parseNetwork (coalesce (os_subnet_cidr scope)))) (\<lambda>parsed.
     let filled = fillScopeOptions enabled parsed (os_subnet_gateway scope) (os_subnet_domain_name scope)
                    (getServerIpForSubnet ifaces (coalesce (os_subnet_cidr scope)));
         optionValues = (if family = 4 then AList.delete 51 filled else filled)
     in ebind (writeScopeOptionRows (os_id scope) family optionValues
                 (filter (\<lambda>r. opt_scope_id r \<noteq> os_id scope) (scope_options odb))) (\<lambda>rows.
          Inr (odb\<lparr>scope_options := rows,
                   option_scopes := map (\<lambda>s. if os_id s = os_id scope
                     then s\<lparr>os_dns_servers := None, os_ntp_servers := None, os_domain_search := None\<rparr> else s) (option_scopes odb)\<rparr>)))"

record bulk_request =
  bulk_family :: nat
  bulk_options :: "(nat \<times> string option) list"
  bulk_enabled :: "nat list"
  bulk_scope_ids :: "nat list option"
  bulk_save_defaults :: bool

record bulk_scope =
  bs_id :: nat
  bs_skip_reason :: "string option"
  bs_changes :: "option_change list"

fun change_scopes ::
  "iface_addr list \<Rightarrow> nat \<Rightarrow> (nat \<times> option_fill) list \<Rightarrow> option_scope list \<Rightarrow> option_db \<Rightarrow> option_error + option_db" where
  "change_scopes ifaces family enabled [] odb = Inr odb"
| "change_scopes ifaces family enabled (s # ss) odb =
     ebind (replaceScopeOptions ifaces s family enabled odb) (change_scopes ifaces family enabled ss)"

definition enabled_options :: "bulk_request \<Rightarrow> (nat \<times> option_fill) list" where
  "enabled_options req =
     (let values = map_of (rev (bulk_options req)); value = (\<lambda>c. (case values c of Some v \<Rightarrow> v | None \<Rightarrow> None)) in
      map (\<lambda>c. (c, if bulk_save_defaults req \<and> truthy (value c) then UseDefault
                   else case value c of Some v \<Rightarrow> Own v | None \<Rightarrow> Blank)) (unique (bulk_enabled req)))"

definition touched_scopes :: "bulk_request \<Rightarrow> option_scope list \<Rightarrow> option_scope list" where
  "touched_scopes req scopes =
     filter (\<lambda>s. bulkChangeSkipReason s = None
               \<and> (case bulk_scope_ids req of None \<Rightarrow> True | Some ids \<Rightarrow> os_id s \<in> set ids)) scopes"

text \<open>The transaction: what it leaves behind and what it answers. A preview rolls it back at the end.\<close>

definition bulk_run :: "iface_addr list \<Rightarrow> bulk_request \<Rightarrow> option_db \<Rightarrow> option_error + option_db \<times> nat list \<times> bulk_scope list" where
  "bulk_run ifaces req odb =
     (let scopes = familyScopes odb (bulk_family req); touched = touched_scopes req scopes
      in ebind (emap (effectiveMap odb) scopes) (\<lambda>before.
         ebind (if bulk_save_defaults req
                then replaceDefaultOptions odb (bulk_options req) (unique (bulk_enabled req)) (bulk_family req) else Inr odb) (\<lambda>odb1.
         ebind (change_scopes ifaces (bulk_family req) (enabled_options req) touched odb1) (\<lambda>odb2.
         ebind (emap (effectiveMap odb2) scopes) (\<lambda>after.
           Inr (odb2, map os_id touched,
                map2 (\<lambda>s (b, a). \<lparr>bs_id = os_id s, bs_skip_reason = bulkChangeSkipReason s, bs_changes = option_diff b a\<rparr>)
                  scopes (zip before after)))))))"

definition bulkChangeScopeOptions ::
  "iface_addr list \<Rightarrow> bulk_request \<Rightarrow> bool \<Rightarrow> option_db \<Rightarrow> option_db \<times> (option_error + nat list \<times> bulk_scope list)" where
  "bulkChangeScopeOptions ifaces req preview odb =
     (case bulk_run ifaces req odb of
        Inl e \<Rightarrow> (odb, Inl e)
      | Inr (odb', result) \<Rightarrow> ((if preview then odb else odb'), Inr result))"

section \<open>Lists\<close>

lemma in_map_filter: "y \<in> set (List.map_filter f xs) \<longleftrightarrow> (\<exists>x \<in> set xs. f x = Some y)"
  by (induction xs) (auto simp: map_filter_def split: option.split)

lemma find_in: "find P xs = Some x \<Longrightarrow> x \<in> set xs \<and> P x"
  by (induction xs) (auto split: if_splits)

end
