(* ===== verification/OptionProperties.thy ===== *)
theory OptionProperties
  imports ScopeOptions
begin

text \<open>
  What the options of a scope come to: each served value is that of the highest layer that has one; what
  a user sets is what is served; a change of many scopes writes exactly the enabled options and those the
  network gives; and its preview shows what applying it does.
\<close>

section \<open>Layers\<close>

definition look :: "served \<Rightarrow> nat \<Rightarrow> (string \<times> option_source option) option" where
  "look s c = map_option (\<lambda>v. (v, map_of (sv_source s) c)) (map_of (sv_values s) c)"

lemma look_set_option:
  "look (set_option c v src s) d = (if truthy v \<and> d = c then Some (coalesce v, Some src) else look s d)"
  by (cases v) (auto simp: look_def set_option_def update_conv' coalesce_def)

lemma values_set_option: "map_of (sv_values (set_option c v src s)) d = None \<longleftrightarrow> \<not> (truthy v \<and> d = c) \<and> map_of (sv_values s) d = None"
  by (cases v) (auto simp: set_option_def update_conv')

lemma look_None: "map_of (sv_values s) d = None \<longleftrightarrow> look s d = None"
  by (simp add: look_def)

lemma distinct_set_option: "distinct (map fst (sv_values s)) \<Longrightarrow> distinct (map fst (sv_values (set_option c v src s)))"
  by (cases v) (auto simp: set_option_def distinct_update)

lemma look_fold_set:
  assumes "distinct (map opt_code rows)"
  shows "look (fold (\<lambda>r. set_option (opt_code r) (f r) src) rows s) c =
    (case find (\<lambda>r. opt_code r = c) rows of
       Some r \<Rightarrow> if truthy (f r) then Some (coalesce (f r), Some src) else look s c
     | None \<Rightarrow> look s c)"
  using assms
proof (induction rows arbitrary: s)
  case (Cons r rows)
  have "find (\<lambda>q. opt_code q = c) rows = None" if "opt_code r = c"
    using Cons.prems that by (auto simp: find_None_iff image_iff)
  then show ?case using Cons by (auto simp: look_set_option split: option.split)
qed simp

lemma distinct_fold_set: "distinct (map fst (sv_values s)) \<Longrightarrow> distinct (map fst (sv_values (fold (\<lambda>r. set_option (k r) (f r) src) rows s)))"
  by (induction rows arbitrary: s) (simp_all add: distinct_set_option)

lemma map_of_annotated: "map_of (map (\<lambda>(c, v). (c, v, f c)) xs) c = map_option (\<lambda>v. (v, f c)) (map_of xs c)"
  by (induction xs) auto

lemma served_options_lookup:
  assumes "distinct (map fst (sv_values s))"
  shows "map_of (served_options s) c = look s c" "sorted (map fst (served_options s))" "distinct (map fst (served_options s))"
proof -
  let ?xs = "map (\<lambda>(c, v). (c, v, map_of (sv_source s) c)) (sv_values s)"
  have fst: "map fst ?xs = map fst (sv_values s)" by (simp add: case_prod_beta comp_def)
  have "mset (map fst (sort_key fst ?xs)) = mset (map fst ?xs)" by (simp only: mset_map mset_sort)
  then have d: "distinct (map fst (sort_key fst ?xs))" 
    by (rule mset_eq_imp_distinct_iff [THEN iffD2]) (simp only: fst assms)
  have "map_of (sort_key fst ?xs) = map_of ?xs" by (rule map_of_inject_set [OF d, THEN iffD2]) (simp_all only: fst assms set_sort)
  then show "map_of (served_options s) c = look s c" by (simp add: served_options_def map_of_annotated look_def)
  show "sorted (map fst (served_options s))" by (simp add: served_options_def)
  show "distinct (map fst (served_options s))" using d by (simp add: served_options_def)
qed

text \<open>The reference: which layer gives the value of an option.\<close>

definition tag :: "option_source \<Rightarrow> string option \<Rightarrow> (string \<times> option_source) option" where
  "tag src v = (if truthy v then Some (coalesce v, src) else None)"

fun first_of :: "'a option list \<Rightarrow> 'a option" where
  "first_of [] = None"
| "first_of (v # vs) = (case v of None \<Rightarrow> first_of vs | Some x \<Rightarrow> Some x)"

definition stored_option :: "option_db \<Rightarrow> option_scope \<Rightarrow> nat \<Rightarrow> option_row option" where
  "stored_option odb s c = find (\<lambda>r. opt_scope_id r = os_id s \<and> opt_code r = c) (scope_options odb)"

definition scope_family :: "option_scope \<Rightarrow> nat" where
  "scope_family s = scopeAddressFamily (os_address_family s) (os_subnet_cidr s)"

definition own_value :: "option_db \<Rightarrow> option_scope \<Rightarrow> nat \<Rightarrow> (string \<times> option_source) option" where
  "own_value odb s c = (case stored_option odb s c of None \<Rightarrow> None | Some r \<Rightarrow> tag FromScope (opt_value r))"

definition linked_value :: "option_db \<Rightarrow> option_scope \<Rightarrow> nat \<Rightarrow> (string \<times> option_source) option" where
  "linked_value odb s c =
     (case stored_option odb s c of
        None \<Rightarrow> None
      | Some r \<Rightarrow> if opt_value r = None then tag FromDefault (option_default odb (scope_family s) c) else None)"

definition legacy_value :: "option_scope \<Rightarrow> nat \<Rightarrow> (string \<times> option_source) option" where
  "legacy_value s c =
     tag FromLegacy (if scope_family s = 6
       then (if c = 23 then legacyListValue (os_dns_servers s) else if c = 24 then os_domain_search s
             else if c = 56 then legacyListValue (os_ntp_servers s) else None)
       else (if c = 3 then os_gateway s else if c = 15 then os_domain_name s
             else if c = 42 then legacyListValue (os_ntp_servers s) else if c = 119 then os_domain_search s else None))"

definition network_value :: "option_scope \<Rightarrow> nat \<Rightarrow> (string \<times> option_source) option" where
  "network_value s c =
     (if \<not> truthy (os_subnet_cidr s) then None
      else case parseNetwork (coalesce (os_subnet_cidr s)) of
             Inl _ \<Rightarrow> None
           | Inr p \<Rightarrow> if net_family p \<noteq> 4 then None
                      else tag FromNetwork (if c = 1 then Some (net_mask p) else if c = 28 then net_broadcast p else None))"

definition served_value :: "option_db \<Rightarrow> option_scope \<Rightarrow> nat \<Rightarrow> (string \<times> option_source) option" where
  "served_value odb s c =
     (if scope_family s = 6
      then first_of [own_value odb s c, legacy_value s c, linked_value odb s c,
                     if c = 24 then tag FromNetwork (if truthy (os_domain_name s) then os_domain_name s else os_subnet_domain_name s) else None]
      else if c = 51 then None
      else if c = 3 then tag FromNetwork (os_subnet_gateway s)
      else first_of [network_value s c, own_value odb s c,
                     if \<exists>r \<in> set (scope_options odb). opt_scope_id r = os_id s \<and> opt_value r \<noteq> None then None else legacy_value s c,
                     linked_value odb s c,
                     if c \<in> {15, 119} then tag FromNetwork (os_subnet_domain_name s) else None])"

lemma find_filter: "find P (filter Q xs) = find (\<lambda>x. Q x \<and> P x) xs"
  by (induction xs) simp_all

lemma find_unique:
  assumes "distinct (map opt_code rows)"
  shows "find (\<lambda>r. Q r \<and> opt_code r = c) rows =
    (case find (\<lambda>r. opt_code r = c) rows of None \<Rightarrow> None | Some r \<Rightarrow> if Q r then Some r else None)"
  using assms
proof (induction rows)
  case (Cons r rows)
  have "find (\<lambda>q. Q q \<and> opt_code q = c) rows = None" if "opt_code r = c"
    using Cons.prems that by (auto simp: find_None_iff image_iff)
  then show ?case using Cons by auto
qed simp

lemma conditional_set:
  "(\<lambda>r s. if P r then s else set_option (k r) (f r) src s) = (\<lambda>r. set_option (k r) (if P r then None else f r) src)"
  "(\<lambda>r s. if P r then set_option (k r) (f r) src s else s) = (\<lambda>r. set_option (k r) (if P r then f r else None) src)"
  by (auto simp: fun_eq_iff set_option_def)

lemma look_empty: "look \<lparr>sv_values = [], sv_source = src\<rparr> c = None"
  by (simp add: look_def)

lemma found: "find (\<lambda>r. opt_code r = c) rows = Some r \<Longrightarrow> opt_code r = c"
  by (auto simp: find_Some_iff)

lemma look_linked:
  assumes "distinct (map opt_code rows)"
  shows "look (linked_options odb fm rows) c =
    (case find (\<lambda>r. opt_code r = c) rows of
       None \<Rightarrow> None
     | Some r \<Rightarrow> if opt_value r = None \<and> \<not> (fm = 4 \<and> c = 51)
                 then map_option (\<lambda>(v, s). (v, Some s)) (tag FromDefault (option_default odb fm c)) else None)"
proof -
  have "distinct (map opt_code (filter isLinkedOption rows))" using assms by (rule distinct_map_filter)
  then show ?thesis
    unfolding linked_options_def conditional_set
    by (auto simp: look_fold_set find_filter find_unique [OF assms] isLinkedOption_def tag_def look_empty split: option.split dest: found)
qed

lemma look_explicit:
  assumes "distinct (map opt_code rows)"
  shows "look (fold (\<lambda>r. set_option (opt_code r) (f r) src) (filter (\<lambda>r. \<not> isLinkedOption r) rows) s) c =
    (case find (\<lambda>r. opt_code r = c) rows of
       Some r \<Rightarrow> if opt_value r \<noteq> None \<and> truthy (f r) then Some (coalesce (f r), Some src) else look s c
     | None \<Rightarrow> look s c)"
  using distinct_map_filter [OF assms, of "\<lambda>r. \<not> isLinkedOption r"]
  by (auto simp: look_fold_set find_filter find_unique [OF assms] isLinkedOption_def split: option.split)

abbreviation with_source :: "(string \<times> option_source) option \<Rightarrow> (string \<times> option_source option) option" where
  "with_source \<equiv> map_option (\<lambda>(v, s). (v, Some s))"

lemma stored_option_rows: "find (\<lambda>r. opt_code r = c) (filter (\<lambda>r. opt_scope_id r = os_id s) (scope_options odb)) = stored_option odb s c"
  by (simp add: stored_option_def find_filter)

lemma with_source_tag: "with_source (tag src v) = (if truthy v then Some (coalesce v, Some src) else None)"
  by (simp add: tag_def)

lemma distinct_linked: "distinct (map fst (sv_values (linked_options odb fm rows)))"
  by (simp add: linked_options_def conditional_set distinct_fold_set)

lemma served_v6:
  assumes "scope_family s = 6" "distinct (map opt_code (filter (\<lambda>r. opt_scope_id r = os_id s) (scope_options odb)))"
    and "resolveEffectiveScopeOptions odb s = Inr e"
  shows "\<exists>st. eff_options e = served_options st \<and> distinct (map fst (sv_values st)) \<and> (\<forall>c. look st c = with_source (served_value odb s c))"
proof -
  let ?rows = "filter (\<lambda>r. opt_scope_id r = os_id s) (scope_options odb)"
  define s3 where "s3 = set_option 56 (legacyListValue (os_ntp_servers s)) FromLegacy
      (set_option 24 (os_domain_search s) FromLegacy (set_option 23 (legacyListValue (os_dns_servers s)) FromLegacy (linked_options odb 6 ?rows)))"
  define s4 where "s4 = fold (\<lambda>r. set_option (opt_code r) (opt_value r) FromScope) (filter (\<lambda>r. \<not> isLinkedOption r) ?rows) s3"
  define s5 where "s5 = (if map_of (sv_values s4) 24 = None then set_option 24 (if truthy (os_domain_name s) then os_domain_name s
                                          else os_subnet_domain_name s) FromNetwork s4 else s4)"
  have e: "eff_options e = served_options s5"
    using assms(3) assms(1) by (auto simp: resolveEffectiveScopeOptions_def scope_family_def s3_def s4_def s5_def Let_def)
  have d: "distinct (map fst (sv_values s5))"
    unfolding s5_def s4_def s3_def by (simp add: distinct_set_option distinct_fold_set distinct_linked)
  have l3: "look s3 c = with_source (first_of [legacy_value s c, linked_value odb s c])" for c
    unfolding s3_def look_set_option look_linked [OF assms(2)] stored_option_rows legacy_value_def linked_value_def assms(1)
    by (auto simp: with_source_tag tag_def split: option.split)
  have l4: "look s4 c = with_source (first_of [own_value odb s c, legacy_value s c, linked_value odb s c])" for c
    unfolding s4_def look_explicit [OF assms(2)] stored_option_rows l3 own_value_def
    by (auto simp: with_source_tag tag_def split: option.split)
  have "look s5 c = with_source (served_value odb s c)" for c
    unfolding s5_def look_None served_value_def
    by (auto simp: look_set_option l4 assms(1) tag_def split: option.split)
  with e d show ?thesis by blast
qed

lemma look_delete:
  "look (s\<lparr>sv_values := AList.delete c (sv_values s), sv_source := AList.update c src (sv_source s)\<rparr>) d = (if d = c then None else look s d)"
  by (simp add: look_def delete_conv' update_conv')

lemma no_explicit:
  "filter (\<lambda>r. \<not> isLinkedOption r) (filter (\<lambda>r. opt_scope_id r = os_id s) (scope_options odb)) = []
     \<longleftrightarrow> \<not> (\<exists>r \<in> set (scope_options odb). opt_scope_id r = os_id s \<and> opt_value r \<noteq> None)"
  by (auto simp: filter_empty_conv isLinkedOption_def)

lemma served_v4:
  assumes "scope_family s \<noteq> 6" "scope_family s = 4" "distinct (map opt_code (filter (\<lambda>r. opt_scope_id r = os_id s) (scope_options odb)))"
    and "resolveEffectiveScopeOptions odb s = Inr e"
  shows "\<exists>st. eff_options e = served_options st \<and> distinct (map fst (sv_values st)) \<and> (\<forall>c. look st c = with_source (served_value odb s c))"
proof -
  let ?rows = "filter (\<lambda>r. opt_scope_id r = os_id s) (scope_options odb)"
  let ?explicit = "filter (\<lambda>r. \<not> isLinkedOption r) ?rows"
  let ?own = "\<exists>r \<in> set (scope_options odb). opt_scope_id r = os_id s \<and> opt_value r \<noteq> None"
  define s1 where "s1 = fold (\<lambda>r s. if opt_code r \<noteq> 51 then set_option (opt_code r) (opt_value r) FromScope s else s) ?explicit (linked_options odb 4 ?rows)"
  define s2 where "s2 = (if ?explicit = [] then set_option 119 (os_domain_search s) FromLegacy
        (set_option 42 (legacyListValue (os_ntp_servers s)) FromLegacy
          (set_option 15 (os_domain_name s) FromLegacy (set_option 3 (os_gateway s) FromLegacy s1))) else s1)"
  define net where "net = (\<lambda>(p :: network) st. if net_family p = 4
        then set_option 28 (net_broadcast p) FromNetwork (set_option 1 (Some (net_mask p)) FromNetwork st) else st)"
  define s4 where "s4 = (\<lambda>s3. if truthy (os_subnet_gateway s) then set_option 3 (os_subnet_gateway s) FromNetwork s3
         else s3\<lparr>sv_values := AList.delete 3 (sv_values s3), sv_source := AList.update 3 NetworkNone (sv_source s3)\<rparr>)"
  define s5 where "s5 = (\<lambda>s4. if map_of (sv_values s4) 15 = None then set_option 15 (os_subnet_domain_name s) FromNetwork s4 else s4)"
  define s6 where "s6 = (\<lambda>s5. if map_of (sv_values s5) 119 = None then set_option 119 (os_subnet_domain_name s) FromNetwork s5 else s5)"
  have fam: "scopeAddressFamily (os_address_family s) (os_subnet_cidr s) = 4" "((4::nat) = 6) = False"
    using assms(2) by (simp_all add: scope_family_def)
  have "resolveEffectiveScopeOptions odb s =
      ebind (if truthy (os_subnet_cidr s) then ebind (parseNetwork (coalesce (os_subnet_cidr s))) (\<lambda>p. Inr (net p s2)) else Inr s2) (\<lambda>s3.
        Inr \<lparr>eff_lease_time = os_lease_time s, eff_router_suppressed = (\<not> truthy (os_subnet_gateway s)), eff_options = served_options (s6 (s5 (s4 s3)))\<rparr>)"
    by (simp only: resolveEffectiveScopeOptions_def Let_def fam if_False s1_def s2_def net_def s4_def s5_def s6_def)
  with assms(4) obtain s3 where e: "eff_options e = served_options (s6 (s5 (s4 s3)))"
    and s3: "s3 = (if truthy (os_subnet_cidr s) then (case parseNetwork (coalesce (os_subnet_cidr s)) of Inr p \<Rightarrow> net p s2 | Inl _ \<Rightarrow> s2) else s2)"
    by (auto simp only: ebind_eq_Inr_iff effective.ext_inject effective.select_convs sum.inject if_True if_False sum.case split: if_splits)
  have "distinct (map fst (sv_values s1))" unfolding s1_def conditional_set by (intro distinct_fold_set distinct_linked)
  then have "distinct (map fst (sv_values s2))" unfolding s2_def by (simp add: distinct_set_option)
  then have "distinct (map fst (sv_values s3))"
    unfolding s3 net_def by (cases "parseNetwork (coalesce (os_subnet_cidr s))") (simp_all add: distinct_set_option)
  moreover have "distinct (map fst (sv_values (s4 st)))" if "distinct (map fst (sv_values st))" for st
    using that by (simp add: s4_def distinct_set_option distinct_delete)
  moreover have "distinct (map fst (sv_values (s5 st)))" "distinct (map fst (sv_values (s6 st)))" if "distinct (map fst (sv_values st))" for st
    using that by (simp_all add: s5_def s6_def distinct_set_option)
  ultimately have d: "distinct (map fst (sv_values (s6 (s5 (s4 s3)))))" by simp
  have l1: "look s1 c = with_source (if c = 51 then None else first_of [own_value odb s c, linked_value odb s c])" for c
  proof (cases "stored_option odb s c")
    case None
    then show ?thesis
      unfolding s1_def conditional_set look_explicit [OF assms(3)] look_linked [OF assms(3)] stored_option_rows
      by (simp add: own_value_def linked_value_def)
  next
    case (Some r)
    then have "opt_code r = c" by (auto simp: stored_option_def find_Some_iff)
    with Some show ?thesis
      unfolding s1_def conditional_set look_explicit [OF assms(3)] look_linked [OF assms(3)] stored_option_rows
      by (cases "opt_value r") (simp_all add: own_value_def linked_value_def tag_def assms(2))
  qed
  have l2: "look s2 c = with_source (if c = 51 then None else first_of [own_value odb s c, if ?own then None else legacy_value s c, linked_value odb s c])" for c
  proof (cases ?own)
    case True
    then show ?thesis using l1 [of c] unfolding s2_def no_explicit by (simp split: option.split)
  next
    case False
    then have "own_value odb s c = None"
      by (auto simp: own_value_def tag_def stored_option_def find_Some_iff split: option.split)
    moreover from False have "s2 = set_option 119 (os_domain_search s) FromLegacy
        (set_option 42 (legacyListValue (os_ntp_servers s)) FromLegacy
          (set_option 15 (os_domain_name s) FromLegacy (set_option 3 (os_gateway s) FromLegacy s1)))"
      unfolding s2_def no_explicit by (simp only: if_True not_False_eq_True)
    ultimately show ?thesis using False
      by (simp only: look_set_option l1 legacy_value_def assms(2) if_False) (simp add: tag_def)
  qed
  define low where "low = (\<lambda>c. if c = 51 then None else first_of [network_value s c, own_value odb s c, if ?own then None else legacy_value s c, linked_value odb s c])"
  define local where "local = (\<lambda>c. first_of [own_value odb s c, if ?own then None else legacy_value s c, linked_value odb s c])"
  have low: "low c = (if c = 51 then None else case network_value s c of None \<Rightarrow> local c | Some x \<Rightarrow> Some x)" for c
    by (simp only: low_def local_def first_of.simps(2) [of "network_value s c"])
  have l2': "look s2 c = with_source (if c = 51 then None else local c)" for c using l2 by (simp only: local_def)
  have l3: "look s3 c = with_source (low c)" for c
    unfolding s3 low network_value_def
    by (cases "parseNetwork (coalesce (os_subnet_cidr s))")
       (simp_all add: net_def look_set_option l2' tag_def)
  have l4: "look (s4 s3) c = with_source (if c = 3 then tag FromNetwork (os_subnet_gateway s) else low c)" for c
    by (simp add: s4_def look_set_option look_delete l3 tag_def)
  have dom: "first_of [network_value s c, own_value odb s c, if ?own then None else legacy_value s c, linked_value odb s c, d]
      = (if low c = None then d else low c)" if "c \<noteq> 51" for c d
    using that by (simp add: low_def split: option.split)
  have served: "served_value odb s c = (if c = 51 then None else if c = 3 then tag FromNetwork (os_subnet_gateway s)
      else if low c = None then if c \<in> {15, 119} then tag FromNetwork (os_subnet_domain_name s) else None else low c)" for c
    unfolding served_value_def using assms(1) dom [of c] by (cases "c = 51") (simp_all only: if_True if_False simp_thms)
  have "look (s6 (s5 (s4 s3))) c = with_source (served_value odb s c)" for c
    unfolding s6_def s5_def look_None served by (simp add: look_set_option l4 tag_def low [of 51])
  with e d show ?thesis by blast
qed

lemma scope_family_cases: "scope_family s = 4 \<or> scope_family s = 6"
proof -
  have "net_family p = 4 \<or> net_family p = 6" if "parseNetwork c = Inr p" for c p
    using parseNetwork_ok [OF that] by (auto simp: net_ok_def split: if_splits)
  then show ?thesis by (auto simp: scope_family_def scopeAddressFamily_def split: sum.split)
qed

lemma effective_options:
  assumes "resolveEffectiveScopeOptions odb s = Inr e"
    and "distinct (map opt_code (filter (\<lambda>r. opt_scope_id r = os_id s) (scope_options odb)))"
  shows "map_of (eff_options e) c = with_source (served_value odb s c)" "sorted (map fst (eff_options e))" "distinct (map fst (eff_options e))"
proof -
  obtain st where "eff_options e = served_options st" "distinct (map fst (sv_values st))" "\<And>c. look st c = with_source (served_value odb s c)"
    using scope_family_cases [of s] served_v6 [OF _ assms(2,1)] served_v4 [OF _ _ assms(2,1)] by fastforce
  then show "map_of (eff_options e) c = with_source (served_value odb s c)" "sorted (map fst (eff_options e))" "distinct (map fst (eff_options e))"
    using served_options_lookup by metis+
qed

text \<open>C19. Layers of scope options. When no code is stored twice for a scope, the options it serves, in the
  order of their codes and each once, are those of the highest layer with a value, whatever the order
  of the rows. DHCPv4: the mask, broadcast and router are the network's, and without a gateway there
  is no router; then the scope's own value, the old columns where the scope has no value of its own,
  the default where the option is linked to it, and the network's domain; 51 is never an option.
  DHCPv6: the scope's own value, the old columns, the linked default, the domain.\<close>

theorem effective_options_layers:
  assumes "resolveEffectiveScopeOptions odb s = Inr e"
    and "distinct (map opt_code (filter (\<lambda>r. opt_scope_id r = os_id s) (scope_options odb)))"
  shows "(\<forall>c. map_of (eff_options e) c = with_source (served_value odb s c))
    \<and> sorted (map fst (eff_options e)) \<and> distinct (map fst (eff_options e))"
  using effective_options [OF assms] by blast

definition sample_option_scope :: option_scope where
  "sample_option_scope = \<lparr>os_id = 1, os_subnet_id = 1, os_enabled = True, os_address_family = Some 4, os_v6_mode = None, os_lease_time = Some ''1h'',
     os_domain_name = None, os_gateway = None, os_dns_servers = None, os_ntp_servers = None, os_domain_search = None,
     os_subnet_cidr = Some ''10.0.0.0/8'', os_subnet_gateway = Some ''10.0.0.1'', os_subnet_domain_name = Some ''lan''\<rparr>"

definition sample_options :: option_db where
  "sample_options = \<lparr>option_scopes = [sample_option_scope],
     scope_options = [\<lparr>opt_scope_id = 1, opt_code = 15, opt_value = Some ''home'', opt_family = 4\<rparr>,
                      \<lparr>opt_scope_id = 1, opt_code = 42, opt_value = None, opt_family = 4\<rparr>],
     option_defaults = [\<lparr>def_code = 42, def_value = Some ''10.0.0.2'', def_enabled = True, def_family = 4\<rparr>]\<rparr>"

theorem effective_options_layers_witness:
  "\<exists>e. resolveEffectiveScopeOptions sample_options sample_option_scope = Inr e
     \<and> map_of (eff_options e) 15 = Some (''home'', Some FromScope) \<and> map_of (eff_options e) 42 = Some (''10.0.0.2'', Some FromDefault)
     \<and> map_of (eff_options e) 119 = Some (''lan'', Some FromNetwork) \<and> map_of (eff_options e) 3 = Some (''10.0.0.1'', Some FromNetwork)"
proof -
  have fm: "scope_family sample_option_scope = 4" by (simp add: scope_family_def scopeAddressFamily_def sample_option_scope_def or_null_num_def)
  obtain e where e: "resolveEffectiveScopeOptions sample_options sample_option_scope = Inr e"
    using reserved_v4(1) fm
    by (simp add: resolveEffectiveScopeOptions_def Let_def scope_family_def sample_option_scope_def coalesce_def)
  have "distinct (map opt_code (filter (\<lambda>r. opt_scope_id r = os_id sample_option_scope) (scope_options sample_options)))"
    by (simp add: sample_options_def sample_option_scope_def)
  note layers = effective_options_layers [OF e this]
  have v: "served_value sample_options sample_option_scope 15 = Some (''home'', FromScope)"
    "served_value sample_options sample_option_scope 42 = Some (''10.0.0.2'', FromDefault)"
    "served_value sample_options sample_option_scope 119 = Some (''lan'', FromNetwork)"
    "served_value sample_options sample_option_scope 3 = Some (''10.0.0.1'', FromNetwork)"
    using reserved_v4(1) unfolding served_value_def legacy_value_def linked_value_def fm
    by (simp_all add: own_value_def network_value_def stored_option_def
        sample_options_def sample_option_scope_def tag_def coalesce_def option_default_def map_filter_def)
  with layers e show ?thesis by simp
qed

section \<open>Saving options\<close>

definition rows_of :: "nat \<Rightarrow> option_row list \<Rightarrow> option_row list" where
  "rows_of i rows = filter (\<lambda>r. opt_scope_id r = i) rows"

lemma rows_of_simps [simp]:
  "rows_of i [] = []" "rows_of i (rows @ rows') = rows_of i rows @ rows_of i rows'"
  "rows_of i (r # rows) = (if opt_scope_id r = i then r # rows_of i rows else rows_of i rows)"
  by (simp_all add: rows_of_def)

text \<open>The rows of one scope, of one family and each code once.\<close>

definition scope_rows_ok :: "nat \<Rightarrow> nat \<Rightarrow> option_row list \<Rightarrow> bool" where
  "scope_rows_ok i fm rows = (distinct (map opt_code (rows_of i rows)) \<and> (\<forall>r \<in> set (rows_of i rows). opt_family r = fm))"

lemma insert_option_Inr:
  assumes "insert_option r rows = Inr rows'" "scope_rows_ok (opt_scope_id r) (opt_family r) rows"
  shows "rows' = rows @ [r]" "scope_rows_ok (opt_scope_id r) (opt_family r) rows'"
proof -
  have new: "\<not> (\<exists>q \<in> set rows. opt_scope_id q = opt_scope_id r \<and> opt_family q = opt_family r \<and> opt_code q = opt_code r)"
    and rows': "rows' = rows @ [r]" using assms(1) by (auto simp: insert_option_def split: if_splits)
  then show "scope_rows_ok (opt_scope_id r) (opt_family r) rows'"
    using assms(2) by (auto simp: scope_rows_ok_def rows_of_def)
  show "rows' = rows @ [r]" by (rule rows')
qed

definition saved_row :: "nat \<Rightarrow> nat \<Rightarrow> (nat \<rightharpoonup> string) \<Rightarrow> option_input \<Rightarrow> option_row option" where
  "saved_row i fm inherited o' =
     (if oi_code o' = 0 \<or> \<not> oi_use_default o' \<and> (\<not> truthy (oi_value o') \<or> oi_value o' = inherited (oi_code o')) then None
      else Some \<lparr>opt_scope_id = i, opt_code = oi_code o', opt_value = (if oi_use_default o' then None else oi_value o'), opt_family = fm\<rparr>)"

lemma save_options_Inr:
  "save_options i fm inh os rows = Inr rows' \<Longrightarrow> scope_rows_ok i fm rows
     \<Longrightarrow> rows' = rows @ List.map_filter (saved_row i fm inh) os \<and> scope_rows_ok i fm rows'
       \<and> (fm = 4 \<longrightarrow> (\<forall>x \<in> set os. oi_code x = 51 \<longrightarrow> saved_row i fm inh x = None))"
proof (induction os arbitrary: rows)
  case (Cons x os)
  show ?case
  proof (cases "saved_row i fm inh x")
    case None
    then have "save_options i fm inh os rows = Inr rows'"
      using Cons.prems(1) by (auto simp: saved_row_def truthy_def split: if_splits option.splits)
    then show ?thesis using Cons None by (auto simp: map_filter_def)
  next
    case (Some r)
    then have r: "opt_scope_id r = i" "opt_family r = fm" by (auto simp: saved_row_def split: if_splits)
    obtain rows1 where ins: "insert_option r rows = Inr rows1" "save_options i fm inh os rows1 = Inr rows'" "\<not> (fm = 4 \<and> oi_code x = 51)"
      using Cons.prems(1) Some by (auto simp: saved_row_def ebind_eq_Inr_iff split: if_splits)
    have one: "rows1 = rows @ [r]" "scope_rows_ok i fm rows1"
      using insert_option_Inr [OF ins(1)] Cons.prems(2) r by auto
    show ?thesis using Cons.IH [OF ins(2) one(2)] one(1) Some ins(3) by (auto simp: map_filter_def)
  qed
qed (simp add: map_filter_def)

lemma find_saved:
  "distinct (map oi_code os) \<Longrightarrow> x \<in> set os \<Longrightarrow>
     find (\<lambda>r. opt_code r = oi_code x) (List.map_filter (saved_row i fm inh) os) = saved_row i fm inh x"
proof (induction os)
  case (Cons y os)
  have "find (\<lambda>r. opt_code r = oi_code x) (List.map_filter (saved_row i fm inh) os) = None" if "oi_code x \<notin> oi_code ` set os"
    using that by (auto simp: find_None_iff map_filter_def saved_row_def image_iff split: if_splits)
  moreover have "opt_code r = oi_code y" if "saved_row i fm inh y = Some r" for r
    using that by (auto simp: saved_row_def split: if_splits)
  ultimately show ?case using Cons by (auto simp: map_filter_def split: option.split)
qed simp

lemma saved_scope: "r \<in> set (List.map_filter (saved_row i fm inh) os) \<Longrightarrow> opt_scope_id r = i"
  by (auto simp: map_filter_def saved_row_def split: if_splits)

lemma saveScopeOptions_stored:
  assumes "saveScopeOptions odb (os_id s) subnet (Some os) True = Inr odb'" "distinct (map oi_code os)"
    and fm: "scopeAddressFamily (Some (sub_address_family subnet)) (Some (sub_cidr subnet)) = fm"
  obtains inh where "computeInheritedOptions subnet = Inr inh" "option_defaults odb' = option_defaults odb"
    "distinct (map opt_code (filter (\<lambda>r. opt_scope_id r = os_id s) (scope_options odb')))"
    "\<And>x. x \<in> set os \<Longrightarrow> stored_option odb' s (oi_code x) = saved_row (os_id s) fm inh x"
    "\<And>x. x \<in> set os \<Longrightarrow> fm = 4 \<Longrightarrow> oi_code x = 51 \<Longrightarrow> saved_row (os_id s) fm inh x = None"
proof -
  let ?old = "filter (\<lambda>r. opt_scope_id r \<noteq> os_id s) (scope_options odb)"
  obtain inh rows' where inh: "computeInheritedOptions subnet = Inr inh" and rows': "save_options (os_id s) fm inh os ?old = Inr rows'"
    and odb': "odb' = odb\<lparr>scope_options := rows'\<rparr>"
    using assms(1) fm by (auto simp: saveScopeOptions_def ebind_eq_Inr_iff from_cidr_def split: sum.splits)
  have old: "rows_of (os_id s) ?old = []" by (simp add: rows_of_def filter_empty_conv)
  then have "scope_rows_ok (os_id s) fm ?old" by (simp add: scope_rows_ok_def)
  note all = save_options_Inr [OF rows' this]
  note saved = all [THEN conjunct1] all [THEN conjunct2, THEN conjunct1] all [THEN conjunct2, THEN conjunct2]
  have rows: "filter (\<lambda>r. opt_scope_id r = os_id s) rows' = List.map_filter (saved_row (os_id s) fm inh) os"
  proof -
    have "filter (\<lambda>r. opt_scope_id r = os_id s) (List.map_filter (saved_row (os_id s) fm inh) os) = List.map_filter (saved_row (os_id s) fm inh) os"
      by (rule filter_True) (blast dest: saved_scope)
    then show ?thesis using old by (simp only: saved(1) filter_append rows_of_def append_Nil)
  qed
  show thesis
  proof (rule that [OF inh])
    show "stored_option odb' s (oi_code x) = saved_row (os_id s) fm inh x" if "x \<in> set os" for x
      using find_saved [OF assms(2) that] rows by (simp add: stored_option_def odb' flip: find_filter)
  qed (use saved(2,3) odb' in \<open>auto simp: scope_rows_ok_def rows_of_def\<close>)
qed

lemma computeInherited_other:
  assumes "computeInheritedOptions subnet = Inr inh" "c \<notin> {1, 3, 28}" "\<not> (sub_address_family subnet = 6 \<or> CHR '':'' \<in> set (sub_cidr subnet))"
  shows "inh c = (if c \<in> {15, 119} \<and> truthy (sub_domain_name subnet) then sub_domain_name subnet else None)"
proof -
  define m0 :: "nat \<rightharpoonup> string" where "m0 = (if truthy (sub_gateway_address subnet) then [3 \<mapsto> coalesce (sub_gateway_address subnet)] else (Map.empty :: nat \<rightharpoonup> string))"
  have m0: "m0 c = None" using assms(2) by (simp add: m0_def)
  define topology where "topology = (if sub_cidr subnet \<noteq> []
      then case (case split_chr (CHR ''/'') (sub_cidr subnet) of _ # p # _ \<Rightarrow> prefix_int p | _ \<Rightarrow> None) of
             None \<Rightarrow> Inr m0
           | Some pfx \<Rightarrow> if pfx \<le> 32
               then ebind (parseNetwork (sub_cidr subnet)) (\<lambda>p. Inr (case net_broadcast p of
                      Some b \<Rightarrow> m0(1 \<mapsto> mask_text pfx, 28 \<mapsto> b) | None \<Rightarrow> m0(1 \<mapsto> mask_text pfx)))
               else Inr m0
      else Inr m0)"
  have "computeInheritedOptions subnet = ebind topology (\<lambda>m1. Inr (if truthy (sub_domain_name subnet)
      then m1(15 \<mapsto> coalesce (sub_domain_name subnet), 119 \<mapsto> coalesce (sub_domain_name subnet)) else m1))"
    unfolding computeInheritedOptions_def Let_def topology_def m0_def if_not_P [OF assms(3)] by (rule refl)
  with assms(1) obtain m1 where m1: "topology = Inr m1" and inh: "inh = (if truthy (sub_domain_name subnet)
      then m1(15 \<mapsto> coalesce (sub_domain_name subnet), 119 \<mapsto> coalesce (sub_domain_name subnet)) else m1)"
    by (simp only: ebind_eq_Inr_iff sum.inject) blast
  have "m1 = m0 \<or> (\<exists>k b. m1 = m0(1 \<mapsto> k, 28 \<mapsto> b)) \<or> (\<exists>k. m1 = m0(1 \<mapsto> k))"
    using m1 unfolding topology_def
    by (auto simp: ebind_eq_Inr_iff split: if_split_asm option.split_asm)
  then have "m1 c = None" using m0 assms(2) by auto
  moreover have "truthy d \<Longrightarrow> Some (coalesce d) = d" for d by (cases d) (simp_all add: coalesce_def)
  ultimately show ?thesis using assms(2) unfolding inh by auto
qed

lemma computeInherited_v6:
  "sub_address_family subnet = 6 \<Longrightarrow> computeInheritedOptions subnet = Inr inh
     \<Longrightarrow> inh c = (if c = 24 \<and> truthy (sub_domain_name subnet) then sub_domain_name subnet else None)"
  by (cases "sub_domain_name subnet") (auto simp: computeInheritedOptions_def coalesce_def)

lemma network_value_other: "c \<notin> {1, 28} \<Longrightarrow> network_value s c = None"
  by (auto simp: network_value_def tag_def split: sum.split)

text \<open>A scope whose old columns are empty.\<close>

definition no_columns :: "option_scope \<Rightarrow> bool" where
  "no_columns s = (os_domain_name s = None \<and> os_gateway s = None \<and> os_dns_servers s = None \<and> os_ntp_servers s = None \<and> os_domain_search s = None)"

lemma no_columns_legacy: "no_columns s \<Longrightarrow> legacy_value s c = None"
  by (simp add: no_columns_def legacy_value_def tag_def legacyListValue_def)

text \<open>What an option given by the user is served as, once its row is stored.\<close>

lemma saved_value:
  assumes "oi_code x \<noteq> 0" "no_columns s" "scope_family s = sub_address_family subnet" "os_subnet_domain_name s = sub_domain_name subnet"
    and "sub_address_family subnet = 6 \<or> CHR '':'' \<notin> set (sub_cidr subnet)" "sub_address_family subnet = 6 \<or> oi_code x \<notin> {1, 3, 28}"
    and inh: "computeInheritedOptions subnet = Inr inh" and d: "option_defaults odb' = option_defaults odb"
    and stored: "stored_option odb' s (oi_code x) = saved_row (os_id s) (scope_family s) inh x"
    and no51: "scope_family s = 4 \<Longrightarrow> oi_code x = 51 \<Longrightarrow> saved_row (os_id s) (scope_family s) inh x = None"
  shows "served_value odb' s (oi_code x) = (if oi_use_default x then
        (case tag FromDefault (option_default odb (scope_family s) (oi_code x)) of Some v \<Rightarrow> Some v | None \<Rightarrow> served_value odb' s (oi_code x))
      else if truthy (oi_value x) then Some (coalesce (oi_value x), if oi_value x = inh (oi_code x) then FromNetwork else FromScope)
      else served_value odb' s (oi_code x))"
proof -
  have repeated: "inh (oi_code x) = (if (if scope_family s = 6 then oi_code x = 24 else oi_code x \<in> {15, 119}) \<and> truthy (sub_domain_name subnet)
      then sub_domain_name subnet else None)"
    using computeInherited_v6 [OF _ inh, of "oi_code x"] computeInherited_other [OF inh, of "oi_code x"] assms(3,5,6) by auto
  show ?thesis
  proof (cases "oi_use_default x")
    case True
    then have row: "saved_row (os_id s) (scope_family s) inh x
        = Some \<lparr>opt_scope_id = os_id s, opt_code = oi_code x, opt_value = None, opt_family = scope_family s\<rparr>"
      using assms(1) by (simp add: saved_row_def)
    then have "scope_family s = 6 \<or> oi_code x \<notin> {51, 3, 28, 1}" using no51 scope_family_cases [of s] assms(3,6) by auto
    moreover have "own_value odb' s (oi_code x) = None" "linked_value odb' s (oi_code x) = tag FromDefault (option_default odb (scope_family s) (oi_code x))"
      using row d by (simp_all add: own_value_def linked_value_def stored tag_def option_default_def)
    ultimately have "served_value odb' s (oi_code x) = Some v" if "tag FromDefault (option_default odb (scope_family s) (oi_code x)) = Some v" for v
      using that by (auto simp: served_value_def no_columns_legacy [OF assms(2)] network_value_other)
    then show ?thesis using True by (auto split: option.split)
  next
    case False
    show ?thesis
    proof (cases "truthy (oi_value x) \<and> oi_value x \<noteq> inh (oi_code x)")
      case True
      with False have row: "saved_row (os_id s) (scope_family s) inh x
          = Some \<lparr>opt_scope_id = os_id s, opt_code = oi_code x, opt_value = oi_value x, opt_family = scope_family s\<rparr>"
        using assms(1) by (simp add: saved_row_def)
      then have "scope_family s = 6 \<or> oi_code x \<notin> {51, 3, 28, 1}" using no51 scope_family_cases [of s] assms(3,6) by auto
      moreover have "own_value odb' s (oi_code x) = Some (coalesce (oi_value x), FromScope)"
        using row True by (simp add: own_value_def stored tag_def)
      ultimately show ?thesis using True False by (auto simp: served_value_def network_value_other)
    next
      case same: False
      show ?thesis
      proof (cases "truthy (oi_value x)")
        case True
        with same False have "saved_row (os_id s) (scope_family s) inh x = None" by (simp add: saved_row_def)
        then have "own_value odb' s (oi_code x) = None" "linked_value odb' s (oi_code x) = None"
          by (simp_all add: own_value_def linked_value_def stored)
        moreover have "(if scope_family s = 6 then oi_code x = 24 else oi_code x \<in> {15, 119})" "oi_value x = os_subnet_domain_name s"
          using repeated same True assms(4) by (auto split: if_splits)
        moreover have "os_domain_name s = None" using assms(2) by (simp add: no_columns_def)
        ultimately show ?thesis
          using True False same by (auto simp: served_value_def no_columns_legacy [OF assms(2)] network_value_other tag_def split: if_splits)
      qed (use False in simp)
    qed
  qed
qed

text \<open>C40. What a user saves is what the scope serves, for a scope without old columns. After its options
  are replaced, every option given with a value is served with that value, also the ones not stored since
  they repeat what the network gives, and every option set to use the default is served with the
  default, if there is one. The exceptions are the router, mask and broadcast of DHCPv4 (3, 1 and 28): whatever was
  saved, the router served is the network's gateway, or none, and mask and broadcast are those of the network where it has
  them.\<close>

theorem saved_options_served:
  assumes "saveScopeOptions odb (os_id s) subnet (Some os) True = Inr odb'" "resolveEffectiveScopeOptions odb' s = Inr e"
    and "distinct (map oi_code os)" "x \<in> set os" "oi_code x \<noteq> 0" "no_columns s"
    and "scope_family s = sub_address_family subnet" "os_subnet_domain_name s = sub_domain_name subnet"
    and "sub_address_family subnet = 6 \<or> CHR '':'' \<notin> set (sub_cidr subnet)"
  shows "(sub_address_family subnet = 6 \<or> oi_code x \<notin> {1, 3, 28} \<longrightarrow>
        (\<not> oi_use_default x \<and> truthy (oi_value x) \<longrightarrow> (\<exists>src. map_of (eff_options e) (oi_code x) = Some (coalesce (oi_value x), src)))
      \<and> (oi_use_default x \<and> truthy (option_default odb (scope_family s) (oi_code x)) \<longrightarrow>
           map_of (eff_options e) (oi_code x) = Some (coalesce (option_default odb (scope_family s) (oi_code x)), Some FromDefault)))
    \<and> (scope_family s = 4 \<longrightarrow> map_of (eff_options e) 3 = with_source (tag FromNetwork (os_subnet_gateway s))
      \<and> (\<forall>c v. c \<in> {1, 28} \<and> network_value s c = Some v \<longrightarrow> map_of (eff_options e) c = with_source (Some v)))"
proof -
  have fm: "scopeAddressFamily (Some (sub_address_family subnet)) (Some (sub_cidr subnet)) = scope_family s"
    using scope_family_cases [of s] assms(7) by (auto simp: scopeAddressFamily_def or_null_num_def)
  obtain inh where inh: "computeInheritedOptions subnet = Inr inh" and d: "option_defaults odb' = option_defaults odb"
    and u: "distinct (map opt_code (filter (\<lambda>r. opt_scope_id r = os_id s) (scope_options odb')))"
    and stored: "stored_option odb' s (oi_code x) = saved_row (os_id s) (scope_family s) inh x"
    and no51: "scope_family s = 4 \<Longrightarrow> oi_code x = 51 \<Longrightarrow> saved_row (os_id s) (scope_family s) inh x = None"
    using saveScopeOptions_stored [OF assms(1,3) fm] assms(4) by metis
  have "served_value odb' s (oi_code x) = (if oi_use_default x then
        (case tag FromDefault (option_default odb (scope_family s) (oi_code x)) of Some v \<Rightarrow> Some v | None \<Rightarrow> served_value odb' s (oi_code x))
      else if truthy (oi_value x) then Some (coalesce (oi_value x), if oi_value x = inh (oi_code x) then FromNetwork else FromScope)
      else served_value odb' s (oi_code x))"
    if "sub_address_family subnet = 6 \<or> oi_code x \<notin> {1, 3, 28}" using saved_value [OF assms(5-9) that inh d stored no51] .
  then have "(\<not> oi_use_default x \<and> truthy (oi_value x) \<longrightarrow> (\<exists>src. map_of (eff_options e) (oi_code x) = Some (coalesce (oi_value x), src)))
      \<and> (oi_use_default x \<and> truthy (option_default odb (scope_family s) (oi_code x)) \<longrightarrow>
           map_of (eff_options e) (oi_code x) = Some (coalesce (option_default odb (scope_family s) (oi_code x)), Some FromDefault))"
    if "sub_address_family subnet = 6 \<or> oi_code x \<notin> {1, 3, 28}"
    using effective_options(1) [OF assms(2) u] that by (auto simp: tag_def split: if_splits)
  moreover have "map_of (eff_options e) 3 = with_source (tag FromNetwork (os_subnet_gateway s))" if "scope_family s = 4"
    using effective_options(1) [OF assms(2) u, of 3] that by (simp add: served_value_def)
  moreover have "map_of (eff_options e) c = with_source (Some v)" if "scope_family s = 4" "c \<in> {1, 28}" "network_value s c = Some v" for c v
    using effective_options(1) [OF assms(2) u, of c] that by (cases v) (auto simp: served_value_def)
  ultimately show ?thesis by blast
qed

definition sample_subnet :: subnet_row where
  "sample_subnet = \<lparr>sub_id = 1, sub_cidr = ''10.0.0.0/8'', sub_parent_id = None, sub_prefix_length = 8, sub_address_family = 4,
     sub_status = ''allocated'', sub_gateway_address = Some ''10.0.0.1'', sub_domain_name = Some ''lan'', sub_scan_enabled = None,
     sub_scan_interval = None, sub_total_addresses = None\<rparr>"

definition sample_input :: "option_input list" where
  "sample_input = [\<lparr>oi_code = 15, oi_value = Some ''lan'', oi_use_default = False\<rparr>, \<lparr>oi_code = 6, oi_value = Some ''10.0.0.3'', oi_use_default = False\<rparr>]"

lemma sample_inherited:
  "\<exists>inh. computeInheritedOptions sample_subnet = Inr inh \<and> inh 15 = Some ''lan'' \<and> inh 6 = None"
proof -
  have "split_chr (CHR ''/'') ''10.0.0.0/8'' = [''10.0.0.0'', ''8'']" "prefix_int ''8'' = Some 8" by code_simp+
  then show ?thesis using reserved_v4(1)
    by (auto simp: computeInheritedOptions_def sample_subnet_def coalesce_def ebind_def Let_def split: option.split)
qed

theorem saved_options_served_witness:
  "\<exists>odb' e src. saveScopeOptions sample_options 1 sample_subnet (Some sample_input) True = Inr odb'
     \<and> resolveEffectiveScopeOptions odb' sample_option_scope = Inr e \<and> map_of (eff_options e) 15 = Some (''lan'', src)"
proof -
  obtain inh where inh: "computeInheritedOptions sample_subnet = Inr inh" "inh 15 = Some ''lan''" "inh 6 = None" using sample_inherited by blast
  obtain odb' where odb': "saveScopeOptions sample_options (os_id sample_option_scope) sample_subnet (Some sample_input) True = Inr odb'"
    using inh by (simp add: saveScopeOptions_def from_cidr_def sample_input_def sample_options_def sample_option_scope_def sample_subnet_def
        scopeAddressFamily_def insert_option_def or_null_num_def)
  have fm: "scope_family sample_option_scope = 4" by (simp add: scope_family_def scopeAddressFamily_def sample_option_scope_def or_null_num_def)
  obtain e where e: "resolveEffectiveScopeOptions odb' sample_option_scope = Inr e"
    using reserved_v4(1) fm
    by (simp add: resolveEffectiveScopeOptions_def Let_def scope_family_def sample_option_scope_def coalesce_def)
  have "\<exists>src. map_of (eff_options e) 15 = Some (''lan'', src)"
    using saved_options_served [OF odb' e, of "hd sample_input"]
    by (simp add: sample_input_def fm) (simp add: no_columns_def sample_option_scope_def sample_subnet_def coalesce_def)
  then show ?thesis using odb' e by (auto simp: sample_option_scope_def)
qed

end
