(* ===== verification/BulkProperties.thy ===== *)
theory BulkProperties
  imports OptionProperties
begin

text \<open>
  Changing the options of many scopes at once: which option rows a changed scope ends up with, that the
  other scopes keep theirs, that the change fails only where a network or the defaults cannot be read or
  stored, and that the preview of all scopes shows what applying to some of them does.
\<close>

section \<open>Writing the rows of one scope\<close>

definition filled_row :: "nat \<Rightarrow> nat \<Rightarrow> nat \<times> option_fill \<Rightarrow> option_row option" where
  "filled_row i fm cv =
     (case snd cv of
        Blank \<Rightarrow> None
      | UseDefault \<Rightarrow> Some \<lparr>opt_scope_id = i, opt_code = fst cv, opt_value = None, opt_family = fm\<rparr>
      | Own s \<Rightarrow> if s = [] then None else Some \<lparr>opt_scope_id = i, opt_code = fst cv, opt_value = Some s, opt_family = fm\<rparr>)"

lemma filled_row_Some: "filled_row i fm cv = Some r \<Longrightarrow> opt_scope_id r = i \<and> opt_code r = fst cv \<and> opt_family r = fm"
  by (auto simp: filled_row_def split: option_fill.splits if_splits)

lemma writeScopeOptionRows_eq:
  "distinct (map fst vs) \<Longrightarrow> \<forall>r \<in> set rows. opt_scope_id r = i \<longrightarrow> opt_code r \<notin> fst ` set vs
     \<Longrightarrow> writeScopeOptionRows i fm vs rows = Inr (rows @ List.map_filter (filled_row i fm) vs)"
proof (induction vs arbitrary: rows)
  case (Cons cv vs)
  obtain c v where cv: "cv = (c, v)" by fastforce
  have ins: "insert_option \<lparr>opt_scope_id = i, opt_code = c, opt_value = x, opt_family = fm\<rparr> rows
      = Inr (rows @ [\<lparr>opt_scope_id = i, opt_code = c, opt_value = x, opt_family = fm\<rparr>])" for x
    using Cons.prems(2) cv by (auto simp: insert_option_def)
  have "writeScopeOptionRows i fm vs (rows @ [\<lparr>opt_scope_id = i, opt_code = c, opt_value = x, opt_family = fm\<rparr>])
      = Inr ((rows @ [\<lparr>opt_scope_id = i, opt_code = c, opt_value = x, opt_family = fm\<rparr>]) @ List.map_filter (filled_row i fm) vs)" for x
    using Cons.prems cv by (intro Cons.IH) auto
  moreover have "writeScopeOptionRows i fm vs rows = Inr (rows @ List.map_filter (filled_row i fm) vs)"
    using Cons.prems by (intro Cons.IH) auto
  ultimately show ?case
    by (cases v) (simp_all add: cv ins map_filter_def filled_row_def)
qed (simp add: map_filter_def)

lemma filled_in: "r \<in> set (List.map_filter (filled_row i fm) vs) \<Longrightarrow> opt_scope_id r = i \<and> opt_family r = fm \<and> opt_code r \<in> fst ` set vs"
  by (auto simp: in_map_filter dest!: filled_row_Some)

lemma find_filled:
  "distinct (map fst vs) \<Longrightarrow> find (\<lambda>r. opt_code r = c) (List.map_filter (filled_row i fm) vs)
     = (case map_of vs c of None \<Rightarrow> None | Some v \<Rightarrow> filled_row i fm (c, v))"
proof (induction vs)
  case (Cons cv vs)
  have "find (\<lambda>r. opt_code r = c) (List.map_filter (filled_row i fm) vs) = None" if "c \<notin> fst ` set vs"
    using that filled_in by (fastforce simp: find_None_iff)
  then show ?case using Cons filled_row_Some [of i fm cv]
    by (cases cv) (auto simp: map_filter_def split: option.split)
qed (simp add: map_filter_def)

section \<open>Filling from the network\<close>

lemma distinct_fold_update: "distinct (map fst m) \<Longrightarrow> distinct (map fst (fold (\<lambda>(c, v). AList.update c (f c v)) xs m))"
  by (induction xs arbitrary: m) (auto simp: distinct_update)

lemma map_of_fold_update:
  "distinct (map fst xs) \<Longrightarrow> map_of (fold (\<lambda>(c, v). AList.update c (f v)) xs m) d
     = (case map_of xs d of None \<Rightarrow> map_of m d | Some v \<Rightarrow> Some (f v))"
proof (induction xs arbitrary: m)
  case (Cons x xs)
  moreover have "map_of xs (fst x) = None" using Cons.prems by (simp add: map_of_eq_None_iff)
  ultimately show ?case by (cases x) (auto simp: update_conv' split: option.split)
qed simp

definition fill :: "nat \<times> string \<times> bool \<Rightarrow> (nat \<times> option_fill) list \<Rightarrow> (nat \<times> option_fill) list" where
  "fill = (\<lambda>(c, value, overwrite) m.
     if overwrite \<or> map_of m c = None \<or> map_of m c = Some Blank then AList.update c (Own value) m else m)"

lemma distinct_fill: "distinct (map fst m) \<Longrightarrow> distinct (map fst (fold fill fs m))"
  by (induction fs arbitrary: m) (auto simp: fill_def distinct_update split: prod.split)

lemma map_of_fill:
  "distinct (map fst fs) \<Longrightarrow> map_of (fold fill fs m) d
     = (case map_of fs d of None \<Rightarrow> map_of m d
        | Some (v, ow) \<Rightarrow> if ow \<or> map_of m d = None \<or> map_of m d = Some Blank then Some (Own v) else map_of m d)"
proof (induction fs arbitrary: m)
  case (Cons f fs)
  obtain c v ow where f: "f = (c, v, ow)" by (cases f) auto
  have "map_of fs c = None" using Cons.prems f by (simp add: map_of_eq_None_iff)
  then show ?case using Cons f by (auto simp: fill_def update_conv' split: option.split)
qed simp

lemma distinct_fills: "distinct (map fst (networkOptionFills fm m b g d sv))"
  by (cases "fm = 6"; cases "truthy m"; cases "truthy b"; cases "truthy g"; cases "truthy d"; cases "truthy sv")
     (simp_all add: networkOptionFills_def map_filter_def)

lemma fillScopeOptions_fill:
  "fillScopeOptions enabled parsed gateway domain serverIp =
     fold fill (networkOptionFills (if net_family parsed = 6 then 6 else 4) (Some (net_mask parsed)) (net_broadcast parsed) gateway domain serverIp)
       (fold (\<lambda>(c, v). AList.update c (if v = Own [] then Blank else v)) enabled [])"
  by (simp only: fillScopeOptions_def Let_def fill_def)

lemma distinct_fillScopeOptions: "distinct (map fst (fillScopeOptions enabled parsed gateway domain serverIp))"
  unfolding fillScopeOptions_fill by (intro distinct_fill distinct_fold_update) simp

section \<open>Changing scopes\<close>

definition scope_fills :: "iface_addr list \<Rightarrow> option_scope \<Rightarrow> network \<Rightarrow> (nat \<times> string \<times> bool) list" where
  "scope_fills ifaces s p =
     networkOptionFills (if net_family p = 6 then 6 else 4) (Some (net_mask p)) (net_broadcast p) (os_subnet_gateway s)
       (os_subnet_domain_name s) (getServerIpForSubnet ifaces (coalesce (os_subnet_cidr s)))"

definition bulk_values :: "iface_addr list \<Rightarrow> nat \<Rightarrow> (nat \<times> option_fill) list \<Rightarrow> option_scope \<Rightarrow> network \<Rightarrow> (nat \<times> option_fill) list" where
  "bulk_values ifaces fm enabled s p =
     (let filled = fillScopeOptions enabled p (os_subnet_gateway s) (os_subnet_domain_name s)
                     (getServerIpForSubnet ifaces (coalesce (os_subnet_cidr s)))
      in if fm = 4 then AList.delete 51 filled else filled)"

definition cleared :: "option_scope \<Rightarrow> option_scope" where
  "cleared s = s\<lparr>os_dns_servers := None, os_ntp_servers := None, os_domain_search := None\<rparr>"

lemma distinct_bulk_values: "distinct (map fst (bulk_values ifaces fm enabled s p))"
  by (simp add: bulk_values_def Let_def distinct_fillScopeOptions distinct_delete)

lemma replaceScopeOptions_eq:
  "replaceScopeOptions ifaces s fm enabled odb =
     (case parseNetwork (coalesce (os_subnet_cidr s)) of
        Inl e \<Rightarrow> Inl (OptionAddress e)
      | Inr p \<Rightarrow> Inr (odb\<lparr>scope_options := filter (\<lambda>r. opt_scope_id r \<noteq> os_id s) (scope_options odb)
                                   @ List.map_filter (filled_row (os_id s) fm) (bulk_values ifaces fm enabled s p),
                         option_scopes := map (\<lambda>t. if os_id t = os_id s then cleared t else t) (option_scopes odb)\<rparr>))"
proof -
  have "writeScopeOptionRows (os_id s) fm (bulk_values ifaces fm enabled s p) (filter (\<lambda>r. opt_scope_id r \<noteq> os_id s) (scope_options odb))
      = Inr (filter (\<lambda>r. opt_scope_id r \<noteq> os_id s) (scope_options odb) @ List.map_filter (filled_row (os_id s) fm) (bulk_values ifaces fm enabled s p))" for p
    by (rule writeScopeOptionRows_eq [OF distinct_bulk_values]) auto
  then show ?thesis
    unfolding replaceScopeOptions_def bulk_values_def Let_def cleared_def
    by (cases "parseNetwork (coalesce (os_subnet_cidr s))") (simp_all add: from_cidr_def)
qed

lemma rows_of_written:
  "rows_of j (List.map_filter (filled_row i fm) vs) = (if j = i then List.map_filter (filled_row i fm) vs else [])"
  using filled_in by (fastforce simp: rows_of_def filter_empty_conv intro: filter_True)

lemma rows_of_filter: "rows_of j (filter (\<lambda>r. opt_scope_id r \<noteq> i) rows) = (if j = i then [] else rows_of j rows)"
  by (auto simp: rows_of_def filter_empty_conv intro!: filter_cong)

lemma change_scopes_effect:
  assumes "change_scopes ifaces fm enabled ss odb = Inr odb'" "distinct (map os_id ss)"
  shows "option_defaults odb' = option_defaults odb
    \<and> option_scopes odb' = map (\<lambda>t. if os_id t \<in> os_id ` set ss then cleared t else t) (option_scopes odb)
    \<and> (\<forall>i. i \<notin> os_id ` set ss \<longrightarrow> rows_of i (scope_options odb') = rows_of i (scope_options odb))
    \<and> (\<forall>s \<in> set ss. \<exists>p. parseNetwork (coalesce (os_subnet_cidr s)) = Inr p
         \<and> rows_of (os_id s) (scope_options odb') = List.map_filter (filled_row (os_id s) fm) (bulk_values ifaces fm enabled s p))"
  using assms
proof (induction ss arbitrary: odb)
  case (Cons s ss)
  obtain p where p: "parseNetwork (coalesce (os_subnet_cidr s)) = Inr p"
    using Cons.prems(1) by (cases "parseNetwork (coalesce (os_subnet_cidr s))") (simp_all add: replaceScopeOptions_eq)
  let ?odb1 = "odb\<lparr>scope_options := filter (\<lambda>r. opt_scope_id r \<noteq> os_id s) (scope_options odb)
                                   @ List.map_filter (filled_row (os_id s) fm) (bulk_values ifaces fm enabled s p),
                         option_scopes := map (\<lambda>t. if os_id t = os_id s then cleared t else t) (option_scopes odb)\<rparr>"
  have "change_scopes ifaces fm enabled ss ?odb1 = Inr odb'" using Cons.prems(1) p by (simp add: replaceScopeOptions_eq)
  note IH = Cons.IH [OF this]
  have clear: "(\<lambda>t. if os_id t \<in> os_id ` set ss then cleared t else t) \<circ> (\<lambda>t. if os_id t = os_id s then cleared t else t)
      = (\<lambda>t. if os_id t \<in> os_id ` set (s # ss) then cleared t else t)"
    using Cons.prems(2) by (auto simp: fun_eq_iff cleared_def)
  show ?case using IH Cons.prems(2) p clear
    by (auto simp: rows_of_written rows_of_filter)
qed simp

text \<open>The reference for one option of a changed scope: a topology value of the network replaces it, an enabled
  option keeps its value, and what is still blank, enabled or not, is filled from the network.\<close>

definition bulk_option :: "iface_addr list \<Rightarrow> bulk_request \<Rightarrow> option_scope \<Rightarrow> network \<Rightarrow> nat \<Rightarrow> option_fill option" where
  "bulk_option ifaces req s p c =
     (if bulk_family req = 4 \<and> c = 51 then None
      else let given = (case map_of (enabled_options req) c of
                          Some v \<Rightarrow> if v = Own [] \<or> v = Blank then None else Some v | None \<Rightarrow> None)
           in case map_of (scope_fills ifaces s p) c of
                Some (v, True) \<Rightarrow> Some (Own v)
              | Some (v, False) \<Rightarrow> (case given of Some x \<Rightarrow> Some x | None \<Rightarrow> Some (Own v))
              | None \<Rightarrow> given)"

lemma distinct_enabled_options: "distinct (map fst (enabled_options req))"
  by (simp add: enabled_options_def Let_def comp_def unique_def)

lemma bulk_values_lookup:
  "(case map_of (bulk_values ifaces (bulk_family req) (enabled_options req) s p) c of None \<Rightarrow> None | Some v \<Rightarrow> filled_row i fm (c, v))
     = (case bulk_option ifaces req s p c of None \<Rightarrow> None | Some v \<Rightarrow> filled_row i fm (c, v))"
proof -
  have fills: "distinct (map fst (scope_fills ifaces s p))" by (simp add: scope_fills_def distinct_fills)
  have given: "map_of (fold (\<lambda>(c, v). AList.update c (if v = Own [] then Blank else v)) (enabled_options req) []) c
      = map_option (\<lambda>v. if v = Own [] then Blank else v) (map_of (enabled_options req) c)"
    using map_of_fold_update [where f = "\<lambda>v. if v = Own [] then Blank else v", OF distinct_enabled_options, of req "[]" c]
    by (cases "map_of (enabled_options req) c") simp_all
  have "map_of (fillScopeOptions (enabled_options req) p (os_subnet_gateway s) (os_subnet_domain_name s)
            (getServerIpForSubnet ifaces (coalesce (os_subnet_cidr s)))) c =
      (let m = map_option (\<lambda>v. if v = Own [] then Blank else v) (map_of (enabled_options req) c) in
       case map_of (scope_fills ifaces s p) c of None \<Rightarrow> m
       | Some (v, ow) \<Rightarrow> if ow \<or> m = None \<or> m = Some Blank then Some (Own v) else m)"
    unfolding fillScopeOptions_fill scope_fills_def [symmetric] map_of_fill [OF fills] given Let_def by (rule refl)
  then show ?thesis
    by (auto simp: bulk_values_def bulk_option_def Let_def delete_conv' filled_row_def split: option.splits bool.splits if_splits)
qed

lemma resolve_cong:
  assumes "rows_of (os_id s) (scope_options odb) = rows_of (os_id s) (scope_options odb')" "option_defaults odb = option_defaults odb'"
  shows "resolveEffectiveScopeOptions odb s = resolveEffectiveScopeOptions odb' s"
proof -
  have "linked_options odb = linked_options odb'"
    unfolding linked_options_def option_default_def assms(2) by (rule refl)
  then show ?thesis unfolding resolveEffectiveScopeOptions_def assms(1) [unfolded rows_of_def] by (rule arg_cong)
qed

lemma find_by_id:
  "distinct (map os_id ss) \<Longrightarrow> s \<in> set ss \<Longrightarrow> (\<And>t. os_id (f t) = os_id t) \<Longrightarrow> find (\<lambda>t. os_id t = os_id s) (map f ss) = Some (f s)"
  by (induction ss) auto

lemma bulk_run_parts:
  assumes "bulk_run ifaces req odb = Inr (odb', t, res)"
  obtains odb1 before after where
    "(if bulk_save_defaults req then replaceDefaultOptions odb (bulk_options req) (unique (bulk_enabled req)) (bulk_family req) else Inr odb) = Inr odb1"
    "change_scopes ifaces (bulk_family req) (enabled_options req) (touched_scopes req (familyScopes odb (bulk_family req))) odb1 = Inr odb'"
    "t = map os_id (touched_scopes req (familyScopes odb (bulk_family req)))"
    "emap (effectiveMap odb) (familyScopes odb (bulk_family req)) = Inr before"
    "emap (effectiveMap odb') (familyScopes odb (bulk_family req)) = Inr after"
    "res = map2 (\<lambda>s (b, a). \<lparr>bs_id = os_id s, bs_skip_reason = bulkChangeSkipReason s, bs_changes = option_diff b a\<rparr>)
             (familyScopes odb (bulk_family req)) (zip before after)"
  using assms unfolding bulk_run_def Let_def by (auto simp: ebind_eq_Inr_iff)

lemma replaceDefaultOptions_frame:
  "replaceDefaultOptions odb opts en fm = Inr odb1 \<Longrightarrow> scope_options odb1 = scope_options odb \<and> option_scopes odb1 = option_scopes odb"
  by (auto simp: replaceDefaultOptions_def Let_def ebind_eq_Inr_iff)

lemma touched_distinct:
  "distinct (map os_id (option_scopes odb)) \<Longrightarrow> distinct (map os_id (touched_scopes req (familyScopes odb fm)))"
  by (simp add: touched_scopes_def familyScopes_def distinct_map_filter)

lemma touched_in: "set (touched_scopes req (familyScopes odb fm)) \<subseteq> set (option_scopes odb)"
  by (auto simp: touched_scopes_def familyScopes_def)

text \<open>C17. Bulk change, exactly. When it succeeds, the scopes it answers as changed are those of the family
  that are selected and send options at all. Each of them has, for every option code, exactly the row the
  reference gives, whatever it had before: the network's topology value, else the enabled option's own
  value or its link to the default, else the network's value, else nothing. Their old list columns are
  empty. The rows of every other scope and all other columns are as before.\<close>

theorem bulk_change_exact:
  assumes "bulkChangeScopeOptions ifaces req False odb = (odb', Inr (t, res))" "distinct (map os_id (option_scopes odb))"
  shows "(\<forall>i. i \<in> set t \<longleftrightarrow> (\<exists>s \<in> set (option_scopes odb). os_id s = i \<and> scope_family s = bulk_family req \<and> bulkChangeSkipReason s = None
            \<and> (case bulk_scope_ids req of None \<Rightarrow> True | Some ids \<Rightarrow> i \<in> set ids)))
    \<and> (\<forall>s \<in> set (option_scopes odb). os_id s \<in> set t \<longrightarrow> (\<exists>p. parseNetwork (coalesce (os_subnet_cidr s)) = Inr p
         \<and> (\<forall>c. stored_option odb' s c = (case bulk_option ifaces req s p c of None \<Rightarrow> None | Some v \<Rightarrow> filled_row (os_id s) (bulk_family req) (c, v)))))
    \<and> (\<forall>i. i \<notin> set t \<longrightarrow> rows_of i (scope_options odb') = rows_of i (scope_options odb))
    \<and> option_scopes odb' = map (\<lambda>s. if os_id s \<in> set t then cleared s else s) (option_scopes odb)"
proof -
  have run: "bulk_run ifaces req odb = Inr (odb', t, res)"
    using assms(1) by (auto simp: bulkChangeScopeOptions_def split: sum.splits prod.splits)
  let ?touched = "touched_scopes req (familyScopes odb (bulk_family req))"
  obtain odb1 where odb1: "scope_options odb1 = scope_options odb" "option_scopes odb1 = option_scopes odb"
    and ch: "change_scopes ifaces (bulk_family req) (enabled_options req) ?touched odb1 = Inr odb'" and t: "t = map os_id ?touched"
    by (rule bulk_run_parts [OF run]) (auto dest: replaceDefaultOptions_frame split: if_splits)
  note effect = change_scopes_effect [OF ch touched_distinct [OF assms(2)]]
  have st: "set t = os_id ` set ?touched" by (simp add: t)
  have "i \<in> set t \<longleftrightarrow> (\<exists>s \<in> set (option_scopes odb). os_id s = i \<and> scope_family s = bulk_family req \<and> bulkChangeSkipReason s = None
            \<and> (case bulk_scope_ids req of None \<Rightarrow> True | Some ids \<Rightarrow> i \<in> set ids))" for i
    by (auto simp: st touched_scopes_def familyScopes_def scope_family_def split: option.split)
  moreover have "\<exists>p. parseNetwork (coalesce (os_subnet_cidr s)) = Inr p
         \<and> (\<forall>c. stored_option odb' s c = (case bulk_option ifaces req s p c of None \<Rightarrow> None | Some v \<Rightarrow> filled_row (os_id s) (bulk_family req) (c, v)))"
    if s: "s \<in> set (option_scopes odb)" "os_id s \<in> set t" for s
  proof -
    obtain u where "u \<in> set ?touched" "os_id u = os_id s" using s st by auto
    moreover from this have "u = s"
      using assms(2) s(1) touched_in [of req odb "bulk_family req"] by (meson distinct_map inj_onD subsetD)
    ultimately obtain p where p: "parseNetwork (coalesce (os_subnet_cidr s)) = Inr p"
      "rows_of (os_id s) (scope_options odb') = List.map_filter (filled_row (os_id s) (bulk_family req))
         (bulk_values ifaces (bulk_family req) (enabled_options req) s p)"
      using effect by auto
    have "stored_option odb' s c = find (\<lambda>r. opt_code r = c) (rows_of (os_id s) (scope_options odb'))" for c
      by (simp add: stored_option_def rows_of_def find_filter)
    then have "stored_option odb' s c = (case bulk_option ifaces req s p c of None \<Rightarrow> None | Some v \<Rightarrow> filled_row (os_id s) (bulk_family req) (c, v))" for c
      unfolding p(2) find_filled [OF distinct_bulk_values] bulk_values_lookup .
    with p(1) show ?thesis by blast
  qed
  ultimately show ?thesis using effect odb1 st by auto
qed

lemma emap_nth: "emap f xs = Inr ys \<Longrightarrow> i < length xs \<Longrightarrow> f (xs ! i) = Inr (ys ! i)"
  by (simp add: emap_eq_Inr_iff)

lemma effectiveMap_changed:
  assumes "change_scopes ifaces fm enabled ss odb = Inr odb1" "change_scopes ifaces fm enabled ss' odb = Inr odb2"
    and "distinct (map os_id ss)" "distinct (map os_id ss')" "distinct (map os_id (option_scopes odb))"
    and "s \<in> set ss" "s \<in> set ss'" "s \<in> set (option_scopes odb)"
  shows "effectiveMap odb1 s = effectiveMap odb2 s"
proof -
  have fresh: "find (\<lambda>t. os_id t = os_id s) (option_scopes odb1) = Some (cleared s)" "find (\<lambda>t. os_id t = os_id s) (option_scopes odb2) = Some (cleared s)"
    using change_scopes_effect [OF assms(1,3)] change_scopes_effect [OF assms(2,4)] assms(6,7)
      find_by_id [OF assms(5,8), of "\<lambda>t. if os_id t \<in> os_id ` set ss then cleared t else t"]
      find_by_id [OF assms(5,8), of "\<lambda>t. if os_id t \<in> os_id ` set ss' then cleared t else t"]
    by (auto simp: cleared_def)
  have "rows_of (os_id (cleared s)) (scope_options odb1) = rows_of (os_id (cleared s)) (scope_options odb2)"
    using change_scopes_effect [OF assms(1,3)] change_scopes_effect [OF assms(2,4)] assms(6,7) by (fastforce simp: cleared_def)
  then have "resolveEffectiveScopeOptions odb1 (cleared s) = resolveEffectiveScopeOptions odb2 (cleared s)"
    using change_scopes_effect [OF assms(1,3)] change_scopes_effect [OF assms(2,4)] by (intro resolve_cong) auto
  then show ?thesis by (simp add: effectiveMap_def fresh)
qed

lemma same_after:
  assumes "change_scopes ifaces fm enabled (touched_scopes r1 scopes) d = Inr o1" "change_scopes ifaces fm enabled (touched_scopes r2 scopes) d = Inr o2"
    and "emap (effectiveMap o1) scopes = Inr after1" "emap (effectiveMap o2) scopes = Inr after2"
    and scopes: "scopes = familyScopes odb fm" and frame: "option_scopes d = option_scopes odb" and ids: "distinct (map os_id (option_scopes odb))"
    and all: "bulk_scope_ids r1 = None" and i: "i < length scopes" and sel: "os_id (scopes ! i) \<in> os_id ` set (touched_scopes r2 scopes)"
  shows "after1 ! i = after2 ! i"
proof -
  let ?s = "scopes ! i"
  obtain u where u: "u \<in> set (touched_scopes r2 scopes)" "os_id u = os_id ?s" using sel by auto
  have "?s \<in> set scopes" using i by (rule nth_mem)
  then have s: "?s \<in> set scopes" "?s \<in> set (option_scopes odb)" by (auto simp: scopes familyScopes_def)
  have "u \<in> set (option_scopes odb)" using u(1) touched_in unfolding scopes by blast
  moreover have "inj_on os_id (set (option_scopes odb))" using ids by (simp add: distinct_map)
  ultimately have "u = ?s" using u(2) s(2) by (simp add: inj_on_eq_iff)
  with u all have "?s \<in> set (touched_scopes r2 scopes)" "?s \<in> set (touched_scopes r1 scopes)" by (auto simp: touched_scopes_def)
  moreover have "distinct (map os_id (touched_scopes r scopes))" for r unfolding scopes by (rule touched_distinct [OF ids])
  ultimately have "effectiveMap o1 ?s = effectiveMap o2 ?s"
    using effectiveMap_changed [OF assms(1,2)] ids s(2) frame by simp
  then show ?thesis using emap_nth [OF assms(3) i] emap_nth [OF assms(4) i] by simp
qed

text \<open>C18. A preview shows what applying does. Previewing all scopes of a family leaves the tables as they
  were, and lists the same scopes as applying the same change to some of them; what it shows for a scope
  is what applying it does to that scope, whichever other scopes are selected. The scopes an apply
  changes are the selected ones of those the preview would change.\<close>

theorem preview_shows_apply:
  assumes "bulkChangeScopeOptions ifaces (req\<lparr>bulk_scope_ids := None\<rparr>) True odb = (odb0, Inr (all, shown))"
    and "bulkChangeScopeOptions ifaces (req\<lparr>bulk_scope_ids := Some sel\<rparr>) False odb = (odb', Inr (t, made))"
    and "distinct (map os_id (option_scopes odb))"
  shows "odb0 = odb \<and> map bs_id shown = map bs_id made \<and> t = filter (\<lambda>i. i \<in> set sel) all
    \<and> (\<forall>b \<in> set shown. bs_id b \<in> set t \<longrightarrow> b \<in> set made)"
proof -
  let ?scopes = "familyScopes odb (bulk_family req)"
  let ?r1 = "req\<lparr>bulk_scope_ids := None\<rparr>" and ?r2 = "req\<lparr>bulk_scope_ids := Some sel\<rparr>"
  let ?row = "\<lambda>s (b, a). \<lparr>bs_id = os_id s, bs_skip_reason = bulkChangeSkipReason s, bs_changes = option_diff b a\<rparr>"
  have fields: "enabled_options ?r1 = enabled_options req" "enabled_options ?r2 = enabled_options req"
    "bulk_family ?r1 = bulk_family req" "bulk_family ?r2 = bulk_family req" "bulk_save_defaults ?r1 = bulk_save_defaults req" "bulk_save_defaults ?r2 = bulk_save_defaults req"
    "bulk_options ?r1 = bulk_options req" "bulk_options ?r2 = bulk_options req" "bulk_enabled ?r1 = bulk_enabled req" "bulk_enabled ?r2 = bulk_enabled req"
    by (simp_all add: enabled_options_def)
  obtain o1 where run1: "bulk_run ifaces ?r1 odb = Inr (o1, all, shown)" and keep: "odb0 = odb"
    using assms(1) by (auto simp: bulkChangeScopeOptions_def split: sum.splits prod.splits)
  have run2: "bulk_run ifaces ?r2 odb = Inr (odb', t, made)"
    using assms(2) by (auto simp: bulkChangeScopeOptions_def split: sum.splits prod.splits)
  obtain d1 before after1 where p1: "(if bulk_save_defaults req then replaceDefaultOptions odb (bulk_options req) (unique (bulk_enabled req)) (bulk_family req) else Inr odb) = Inr d1"
    "change_scopes ifaces (bulk_family req) (enabled_options req) (touched_scopes ?r1 ?scopes) d1 = Inr o1" "all = map os_id (touched_scopes ?r1 ?scopes)"
    "emap (effectiveMap odb) ?scopes = Inr before" "emap (effectiveMap o1) ?scopes = Inr after1" "shown = map2 ?row ?scopes (zip before after1)"
    using bulk_run_parts [OF run1, unfolded fields] .
  obtain d2 before2 after2 where q: "(if bulk_save_defaults req then replaceDefaultOptions odb (bulk_options req) (unique (bulk_enabled req)) (bulk_family req) else Inr odb) = Inr d2"
    "change_scopes ifaces (bulk_family req) (enabled_options req) (touched_scopes ?r2 ?scopes) d2 = Inr odb'" "t = map os_id (touched_scopes ?r2 ?scopes)"
    "emap (effectiveMap odb) ?scopes = Inr before2" "emap (effectiveMap odb') ?scopes = Inr after2" "made = map2 ?row ?scopes (zip before2 after2)"
    using bulk_run_parts [OF run2, unfolded fields] .
  have same: "d2 = d1" "before2 = before" using q(1) p1(1) q(4) p1(4) by simp_all
  note p2 = q(2) [unfolded same] q(3) q(5) q(6) [unfolded same]
  have frame: "option_scopes d1 = option_scopes odb" using p1(1) replaceDefaultOptions_frame by (auto split: if_splits)
  note len = emap_length [OF p1(4)] emap_length [OF p1(5)] emap_length [OF p2(3)]
  have ids: "map bs_id (map2 ?row xs (zip bs as)) = map os_id xs" if "length xs = length bs" "length xs = length as" for xs bs as
    using that by (intro nth_equalityI) auto
  have "b \<in> set made" if b: "b \<in> set shown" "bs_id b \<in> set t" for b
  proof -
    obtain i where i: "i < length ?scopes" "b = ?row (?scopes ! i) (before ! i, after1 ! i)"
      using b(1) len unfolding p1(6) by (auto simp: in_set_conv_nth)
    have "after1 ! i = after2 ! i"
      using b(2) i by (intro same_after [OF p1(2) p2(1) p1(5) p2(3) refl frame assms(3)]) (simp_all add: p2(2))
    then have "made ! i = b" "i < length made" using i len by (simp_all add: p2(4))
    then show ?thesis by (metis nth_mem)
  qed
  moreover have "t = filter (\<lambda>i. i \<in> set sel) all"
    unfolding p1(3) p2(2) touched_scopes_def by (simp add: filter_map comp_def conj_commute)
  ultimately show ?thesis using keep ids len by (simp add: p1(6) p2(4))
qed

lemma ebind_total: "\<exists>x. r = Inr x \<Longrightarrow> (\<And>x. \<exists>y. f x = Inr y) \<Longrightarrow> \<exists>y. ebind r f = Inr y"
  by auto

lemma resolve_Inr:
  assumes "parseNetwork (coalesce (os_subnet_cidr s)) = Inr p"
  shows "\<exists>e. resolveEffectiveScopeOptions odb s = Inr e"
proof (cases "scopeAddressFamily (os_address_family s) (os_subnet_cidr s) = 6")
  case True
  show ?thesis unfolding resolveEffectiveScopeOptions_def Let_def if_P [OF True] by (rule exI, rule refl)
next
  case False
  show ?thesis
    unfolding resolveEffectiveScopeOptions_def Let_def if_not_P [OF False]
    by (rule ebind_total, cases "truthy (os_subnet_cidr s)", simp add: assms, simp, rule exI, rule refl)
qed

lemma effectiveMap_Inr:
  assumes "os_subnet_cidr s = Some ''10.0.0.0/8''" "\<And>t. t \<in> set (option_scopes odb) \<Longrightarrow> os_subnet_cidr t = Some ''10.0.0.0/8''"
  shows "\<exists>m. effectiveMap odb s = Inr m"
proof -
  define fresh where "fresh = (case find (\<lambda>t. os_id t = os_id s) (option_scopes odb) of Some t \<Rightarrow> t | None \<Rightarrow> s)"
  have "os_subnet_cidr fresh = Some ''10.0.0.0/8''"
    using assms by (auto simp: fresh_def find_Some_iff split: option.split)
  then obtain e where "resolveEffectiveScopeOptions odb fresh = Inr e"
    using resolve_Inr [of fresh _ odb] reserved_v4(1) by (auto simp: coalesce_def)
  then show ?thesis by (simp add: effectiveMap_def fresh_def [symmetric] from_cidr_def Let_def)
qed

lemma fills_codes: "fst ` set (networkOptionFills fm m b g d sv) \<subseteq> {24, 23, 3, 1, 28, 15, 119, 6}"
  by (auto simp: networkOptionFills_def in_map_filter split: if_splits)

definition sample_request :: bulk_request where
  "sample_request = \<lparr>bulk_family = 4, bulk_options = [(42, Some ''10.0.0.9'')], bulk_enabled = [42], bulk_scope_ids = Some [1], bulk_save_defaults = False\<rparr>"

lemma sample_bulk:
  assumes "ids = None \<or> ids = Some [1]"
  shows "\<exists>odb' res. bulkChangeScopeOptions [] (sample_request\<lparr>bulk_scope_ids := ids\<rparr>) preview sample_options = (odb', Inr ([1], res))"
proof -
  let ?req = "sample_request\<lparr>bulk_scope_ids := ids\<rparr>"
  have cidr: "os_subnet_cidr sample_option_scope = Some ''10.0.0.0/8''" "os_id sample_option_scope = 1" "os_v6_mode sample_option_scope = None"
    by (simp_all add: sample_option_scope_def)
  have fm: "scopeAddressFamily (os_address_family sample_option_scope) (os_subnet_cidr sample_option_scope) = 4"
    by (simp add: scopeAddressFamily_def sample_option_scope_def or_null_num_def)
  have scopes: "familyScopes sample_options (bulk_family sample_request) = [sample_option_scope]"
    by (simp add: familyScopes_def sample_options_def sample_request_def fm)
  have touched: "touched_scopes ?req [sample_option_scope] = [sample_option_scope]"
    using assms by (auto simp: touched_scopes_def bulkChangeSkipReason_def cidr sample_request_def)
  have replaced: "\<exists>odb'. change_scopes [] (bulk_family sample_request) (enabled_options sample_request) [sample_option_scope] sample_options = Inr odb'"
    using reserved_v4(1) by (simp add: replaceScopeOptions_eq cidr coalesce_def)
  then obtain odb' where odb': "change_scopes [] (bulk_family sample_request) (enabled_options sample_request) [sample_option_scope] sample_options = Inr odb'" by blast
  have "\<forall>t \<in> set (option_scopes odb'). os_subnet_cidr t = Some ''10.0.0.0/8''"
    using change_scopes_effect [OF odb'] cidr by (auto simp: sample_options_def cleared_def)
  then obtain a where a: "effectiveMap odb' sample_option_scope = Inr a" using effectiveMap_Inr cidr by blast
  obtain b where b: "effectiveMap sample_options sample_option_scope = Inr b"
    using effectiveMap_Inr [OF cidr(1), of sample_options] cidr by (auto simp: sample_options_def)
  have same: "enabled_options ?req = enabled_options sample_request" by (simp add: enabled_options_def)
  have save: "\<not> bulk_save_defaults sample_request" by (simp add: sample_request_def)
  have "\<exists>res. bulk_run [] ?req sample_options = Inr (odb', [1], res)"
    by (simp add: bulk_run_def scopes touched b a odb' save same cidr Let_def del: change_scopes.simps)
  then show ?thesis by (auto simp: bulkChangeScopeOptions_def)
qed

theorem bulk_change_exact_witness:
  "\<exists>odb'. fst (bulkChangeScopeOptions [] sample_request False sample_options) = odb'
     \<and> stored_option odb' sample_option_scope 42 = Some \<lparr>opt_scope_id = 1, opt_code = 42, opt_value = Some ''10.0.0.9'', opt_family = 4\<rparr>"
proof -
  have "sample_request\<lparr>bulk_scope_ids := Some [1]\<rparr> = sample_request" by (simp add: sample_request_def)
  with sample_bulk [of "Some [1]" False] obtain odb' res where
    run: "bulkChangeScopeOptions [] sample_request False sample_options = (odb', Inr ([1], res))" by auto
  have d: "distinct (map os_id (option_scopes sample_options))" by (simp add: sample_options_def)
  have s: "sample_option_scope \<in> set (option_scopes sample_options)" "os_id sample_option_scope = 1"
    by (simp_all add: sample_options_def sample_option_scope_def)
  obtain p where "\<forall>c. stored_option odb' sample_option_scope c
      = (case bulk_option [] sample_request sample_option_scope p c of None \<Rightarrow> None | Some v \<Rightarrow> filled_row (os_id sample_option_scope) (bulk_family sample_request) (c, v))"
    using bulk_change_exact [OF run d, THEN conjunct2, THEN conjunct1, rule_format, OF s(1)] s(2) by auto
  moreover have "map_of (scope_fills [] sample_option_scope p) 42 = None"
    using fills_codes by (fastforce simp: scope_fills_def map_of_eq_None_iff)
  then have "bulk_option [] sample_request sample_option_scope p 42 = Some (Own ''10.0.0.9'')"
    by (simp add: bulk_option_def sample_request_def enabled_options_def unique_def)
  ultimately show ?thesis using run s(2) by (simp add: filled_row_def sample_request_def)
qed

theorem preview_shows_apply_witness:
  "\<exists>odb' t shown made. bulkChangeScopeOptions [] (sample_request\<lparr>bulk_scope_ids := None\<rparr>) True sample_options = (sample_options, Inr ([1], shown))
     \<and> bulkChangeScopeOptions [] (sample_request\<lparr>bulk_scope_ids := Some [1]\<rparr>) False sample_options = (odb', Inr (t, made))
     \<and> map bs_id shown = map bs_id made"
proof -
  obtain odb0 shown where p: "bulkChangeScopeOptions [] (sample_request\<lparr>bulk_scope_ids := None\<rparr>) True sample_options = (odb0, Inr ([1], shown))"
    using sample_bulk [of None True] by auto
  obtain odb' made where a: "bulkChangeScopeOptions [] (sample_request\<lparr>bulk_scope_ids := Some [1]\<rparr>) False sample_options = (odb', Inr ([1], made))"
    using sample_bulk [of "Some [1]" False] by auto
  have "distinct (map os_id (option_scopes sample_options))" by (simp add: sample_options_def)
  from preview_shows_apply [OF p a this] p a show ?thesis by auto
qed

end
