(* ===== verification/LeaseNames.thy ===== *)
theory LeaseNames
  imports IpSync ScopeOptions
begin

text \<open>
  The names of DHCP leases (\<open>dhcpZoneResolver\<close> and \<open>assignLeaseNames\<close> of \<open>server/src/models/dhcp-lease.js\<close>): the
  forward zone of a leased address, and the one name each lease gets in it. The MAC of a DUID
  (\<open>server/src/utils/duid.js\<close>) serves to find a vendor name.
\<close>

section \<open>DUIDs\<close>

definition hex_pair :: "string \<Rightarrow> bool" where
  "hex_pair b = (length b = 2 \<and> list_all is_lower_hex b)"

definition normalizeDuid :: "string \<Rightarrow> string option" where
  "normalizeDuid value =
     (let duid = toLowerCase (trim value); bytes = split_chr (CHR '':'') duid in
      if 2 \<le> length bytes \<and> length bytes \<le> 130 \<and> list_all hex_pair bytes then Some duid else None)"

definition macFromDuid :: "string \<Rightarrow> string option" where
  "macFromDuid value =
     (case normalizeDuid value of
        None \<Rightarrow> None
      | Some duid \<Rightarrow>
          let bytes = split_chr (CHR '':'') duid;
              kind = of_digits 16 (bytes ! 0 @ bytes ! 1);
              offset = (if kind = 1 then Some 8 else if kind = 3 then Some 4 else None)
          in case offset of
               None \<Rightarrow> None
             | Some off \<Rightarrow>
                 if length bytes \<noteq> off + 6 \<or> of_digits 16 (bytes ! 2 @ bytes ! 3) \<noteq> 1 then None
                 else Some (join '':'' (drop off bytes)))"

definition duidFromBytes :: "nat list option \<Rightarrow> string option" where
  "duidFromBytes bytes =
     (case bytes of Some (b # bs) \<Rightarrow> Some (join '':'' (map (\<lambda>b. padStart 2 (CHR ''0'') (hex b)) (b # bs))) | _ \<Rightarrow> None)"

section \<open>The zone of an address\<close>

text \<open>The pools of a scope in the order of \<open>sort_order\<close>, as the table is listed.\<close>

definition pools_of :: "db \<Rightarrow> option_scope \<Rightarrow> scope_pool_row list" where
  "pools_of db s = filter (\<lambda>p. sp_scope_id p = os_id s) (dhcp_scope_pools db)"

definition effective_domain :: "option_db \<Rightarrow> option_scope \<Rightarrow> cidr_error + string option" where
  "effective_domain odb s =
     ebind (resolveEffectiveScopeOptions odb s) (\<lambda>e.
       let domainOption = (if os_address_family s = Some 6 then 24 else 15);
           first = (case map_of (eff_options e) domainOption of
                      None \<Rightarrow> None | Some (v, _) \<Rightarrow> Some (trim (hd (split_chr (CHR '','') v))))
       in Inr (if truthy first then first else or_null (os_subnet_domain_name s)))"

definition scope_domains :: "option_db \<Rightarrow> cidr_error + (option_scope \<times> string option) list" where
  "scope_domains odb = emap (\<lambda>s. ebind (effective_domain odb s) (\<lambda>d. Inr (s, d))) (filter os_enabled (option_scopes odb))"

definition subnet_domain :: "db \<Rightarrow> nat \<Rightarrow> string option" where
  "subnet_domain db subnetId =
     map_of (rev (List.map_filter (\<lambda>s. if truthy (sub_domain_name s) then Some (sub_id s, coalesce (sub_domain_name s)) else None)
       (subnets db))) subnetId"

definition allDomains :: "db \<Rightarrow> (option_scope \<times> string option) list \<Rightarrow> string list" where
  "allDomains db scoped =
     unique (List.map_filter snd scoped
       @ List.map_filter (\<lambda>s. if truthy (sub_domain_name s) then sub_domain_name s else None) (subnets db))"

text \<open>\<open>some\<close> with a test that may throw.\<close>

fun eany :: "('a \<Rightarrow> 'e + bool) \<Rightarrow> 'a list \<Rightarrow> 'e + bool" where
  "eany f [] = Inr False"
| "eany f (x # xs) = ebind (f x) (\<lambda>b. if b then Inr True else eany f xs)"

definition domainFor :: "db \<Rightarrow> (option_scope \<times> string option) list \<Rightarrow> nat \<Rightarrow> string \<Rightarrow> cidr_error + string option" where
  "domainFor db scoped subnetId ip =
     ebind (if isValidAddress ip
            then efind (\<lambda>sd. eany (\<lambda>p. addressInRange ip (sp_start_ip p) (sp_end_ip p)) (pools_of db (fst sd)))
                   (filter (\<lambda>sd. os_subnet_id (fst sd) = subnetId) scoped)
            else Inr None) (\<lambda>scope.
       Inr (case scope of Some (_, Some d) \<Rightarrow> Some d | _ \<Rightarrow> subnet_domain db subnetId))"

definition zoneByName :: "db \<Rightarrow> string \<Rightarrow> zone_row option" where
  "zoneByName db name = find (\<lambda>z. zone_name z = name) (rev (filter (\<lambda>z. zone_type z = FORWARD \<and> zone_enabled z) (dns_zones db)))"

definition zoneFor :: "db \<Rightarrow> (option_scope \<times> string option) list \<Rightarrow> nat option \<Rightarrow> string \<Rightarrow> cidr_error + zone_row option" where
  "zoneFor db scoped subnetId ip =
     (case or_null_num subnetId of
        None \<Rightarrow> Inr None
      | Some sn \<Rightarrow> ebind (domainFor db scoped sn ip) (\<lambda>d. Inr (Option.bind d (zoneByName db))))"

definition recordTypeFor :: "string \<Rightarrow> string" where
  "recordTypeFor ip = (if addressFamily ip = Some 6 then ''AAAA'' else ''A'')"

section \<open>Names\<close>

definition hex_upper :: "nat \<Rightarrow> string" where
  "hex_upper n = toUpperCase (hex n)"

definition NAME_SUFFIXES :: "string list" where
  "NAME_SUFFIXES = map (\<lambda>i. ''-'' @ padStart 2 (CHR ''0'') (hex_upper i)) [0..<256]"

definition MAX_LABEL :: nat where "MAX_LABEL = 63"

definition vendorMac :: "observed_lease \<Rightarrow> string option" where
  "vendorMac lease =
     (if truthy (ol_mac lease) then ol_mac lease
      else if truthy (ol_duid lease) then macFromDuid (coalesce (ol_duid lease)) else None)"

definition previousNames :: "db \<Rightarrow> string \<Rightarrow> string option" where
  "previousNames db ip = map_of (rev (List.map_filter (\<lambda>l. map_option (Pair (lease_ip_address l)) (lease_hostname l)) (dhcp_leases db))) ip"

text \<open>The address records of a zone, their names in lower case.\<close>

definition recordsIn :: "db \<Rightarrow> zone_row \<Rightarrow> record_row list" where
  "recordsIn db zone =
     map (\<lambda>r. r\<lparr>rec_name := toLowerCase (rec_name r)\<rparr>)
       (filter (\<lambda>r. rec_zone_id r = zone_id zone \<and> rec_type r \<in> {''A'', ''AAAA'', ''CNAME''}) (dns_records db))"

definition holder_mac :: "db \<Rightarrow> record_row \<Rightarrow> string option" where
  "holder_mac db r =
     (case find (\<lambda>a. ip_address a = rec_value r \<and> ip_mac_address a \<noteq> None) (ip_addresses db) of
        None \<Rightarrow> None | Some a \<Rightarrow> map_option toLowerCase (ip_mac_address a))"

text \<open>The names settled in this batch: zone, name, record type and address of each.\<close>

type_synonym claims = "(nat \<times> string \<times> string \<times> string) list"

definition ownLapsedName :: "db \<Rightarrow> string list \<Rightarrow> string option \<Rightarrow> record_row \<Rightarrow> bool" where
  "ownLapsedName db leasedIps mac r =
     (rec_source r = Some ''dhcp'' \<and> rec_value r \<notin> set leasedIps \<and> truthy mac
      \<and> holder_mac db r = Some (toLowerCase (coalesce mac)))"

definition isFree :: "db \<Rightarrow> string list \<Rightarrow> claims \<Rightarrow> zone_row \<Rightarrow> string \<Rightarrow> string \<Rightarrow> string option \<Rightarrow> bool" where
  "isFree db leasedIps claimed zone name ip mac =
     (\<not> list_ex (\<lambda>r. rec_name r = name
           \<and> (rec_type r = ''CNAME''
              \<or> rec_type r = recordTypeFor ip \<and> rec_value r \<noteq> ip \<and> \<not> ownLapsedName db leasedIps mac r)) (recordsIn db zone)
      \<and> \<not> list_ex (\<lambda>(z, n, type, value). z = zone_id zone \<and> n = name \<and> (type = ''CNAME'' \<or> type = recordTypeFor ip \<and> value \<noteq> ip)) claimed)"

definition claim :: "zone_row \<Rightarrow> string \<Rightarrow> string option \<Rightarrow> claims \<Rightarrow> claims" where
  "claim zone ip hostname claimed =
     (if truthy hostname
      then claimed @ [(zone_id zone, normalizeRecordNameForZone (coalesce hostname) (zone_name zone), recordTypeFor ip, ip)]
      else claimed)"

text \<open>What the first pass decides for a lease: no zone, the held name, or to be named in the second pass.\<close>

datatype decision = Unzoned "string option" | Keeps zone_row string | Pending zone_row "string option"

definition held_name :: "db \<Rightarrow> zone_row \<Rightarrow> string \<Rightarrow> string option" where
  "held_name db zone ip =
     map_option rec_name
       (find (\<lambda>r. rec_source r = Some ''dhcp'' \<and> rec_value r = ip \<and> rec_type r = recordTypeFor ip) (recordsIn db zone))"

text \<open>The pattern is the wanted name, a hyphen and two hexadecimal digits.\<close>

definition keepsHeld :: "string option \<Rightarrow> string option \<Rightarrow> bool" where
  "keepsHeld held wanted =
     (truthy held
      \<and> (\<not> truthy wanted \<or> held = wanted
         \<or> (let w = coalesce wanted; s = drop (length w) (coalesce held) in
              coalesce held = w @ s \<and> length s = 3 \<and> hd s = CHR ''-'' \<and> list_all is_lower_hex (tl s))))"

definition wanted_name :: "observed_lease \<Rightarrow> zone_row \<Rightarrow> string option" where
  "wanted_name lease z =
     (if truthy (ol_hostname lease) then Some (normalizeRecordNameForZone (coalesce (ol_hostname lease)) (zone_name z)) else None)"

text \<open>The spelling of a kept name: the one the lease was stored with, the client's, or the record's.\<close>

definition kept_spelling :: "db \<Rightarrow> observed_lease \<Rightarrow> zone_row \<Rightarrow> string option \<Rightarrow> string" where
  "kept_spelling db lease z held =
     (let previous = previousNames db (ol_ip lease) in
      if truthy previous \<and> Some (normalizeRecordNameForZone (coalesce previous) (zone_name z)) = held then coalesce previous
      else if held = wanted_name lease z then coalesce (ol_hostname lease) else coalesce held)"

definition decide ::
  "(string \<Rightarrow> string option) \<Rightarrow> db \<Rightarrow> (option_scope \<times> string option) list \<Rightarrow> observed_lease \<Rightarrow> cidr_error + decision" where
  "decide fallbackName db scoped lease =
     ebind (zoneFor db scoped (ol_subnetId lease) (ol_ip lease)) (\<lambda>zone.
       case zone of
         None \<Rightarrow>
           Inr (Unzoned (if \<not> truthy (ol_hostname lease) \<and> truthy (vendorMac lease)
                         then or_null (fallbackName (coalesce (vendorMac lease))) else ol_hostname lease))
       | Some z \<Rightarrow>
           let held = held_name db z (ol_ip lease); vendor = vendorMac lease in
           if keepsHeld held (wanted_name lease z) then Inr (Keeps z (kept_spelling db lease z held))
           else Inr (Pending z (if truthy (ol_hostname lease) then ol_hostname lease
                                else if truthy vendor then or_null (fallbackName (coalesce vendor)) else None)))"

definition name_options :: "string \<Rightarrow> string list" where
  "name_options candidate = candidate # map (\<lambda>suffix. take (MAX_LABEL - 3) candidate @ suffix) NAME_SUFFIXES"

text \<open>A pending lease: its position, zone and candidate.\<close>

type_synonym pending = "nat \<times> zone_row \<times> string option"

definition settle ::
  "db \<Rightarrow> observed_lease list \<Rightarrow> pending \<Rightarrow> claims \<times> (nat \<times> string option) list \<Rightarrow> claims \<times> (nat \<times> string option) list" where
  "settle db leases p st =
     (case p of (i, zone, candidate) \<Rightarrow>
        let lease = leases ! i in
        case candidate of
          None \<Rightarrow> (fst st, (i, None) # snd st)
        | Some c \<Rightarrow>
            let free = find (\<lambda>opt. isFree db (map ol_ip leases) (fst st) zone (normalizeRecordNameForZone opt (zone_name zone))
                                    (ol_ip lease) (vendorMac lease)) (name_options c)
            in (claim zone (ol_ip lease) free (fst st), (i, free) # snd st))"

definition first_claims :: "observed_lease list \<Rightarrow> decision list \<Rightarrow> claims" where
  "first_claims leases ds =
     fold (\<lambda>(lease, d) claimed. case d of Keeps z h \<Rightarrow> claim z (ol_ip lease) (Some h) claimed | _ \<Rightarrow> claimed) (zip leases ds) []"

definition pending_leases :: "observed_lease list \<Rightarrow> decision list \<Rightarrow> pending list" where
  "pending_leases leases ds =
     sort_key (\<lambda>(i, _). coalesce (sortKey (ol_ip (leases ! i))))
       (List.map_filter (\<lambda>(i, d). case d of Pending z c \<Rightarrow> Some (i, z, c) | _ \<Rightarrow> None) (enumerate 0 ds))"

text \<open>Every lease that gets here has a valid address, so the sort keys exist; the model refuses others.\<close>

definition assignLeaseNames ::
  "(string \<Rightarrow> string option) \<Rightarrow> option_db \<Rightarrow> db \<Rightarrow> observed_lease list \<Rightarrow> cidr_error + observed_lease list" where
  "assignLeaseNames fallbackName odb db leases =
     ebind (scope_domains odb) (\<lambda>scoped.
     ebind (emap (decide fallbackName db scoped) leases) (\<lambda>ds.
       if \<exists>l \<in> set leases. sortKey (ol_ip l) = None then Inl InvalidIpAddress
       else
         let names = snd (fold (settle db leases) (pending_leases leases ds) (first_claims leases ds, []))
         in Inr (map (\<lambda>(i, lease, d). lease\<lparr>ol_hostname :=
                   (case d of Unzoned h \<Rightarrow> h | Keeps z h \<Rightarrow> Some h
                    | Pending z c \<Rightarrow> (case map_of names i of Some h \<Rightarrow> h | None \<Rightarrow> None))\<rparr>)
              (enumerate 0 (zip leases ds)))))"

end
