(* ===== verification/LeaseNamesProperties.thy ===== *)
theory LeaseNamesProperties
  imports LeaseNames
begin

text \<open>
  Names of leases are unique in their zone and stick to the address that holds them: an invariant of the
  claims made so far, kept by every name settled, from which the names handed out follow.
\<close>

section \<open>Claims\<close>

definition claim_of :: "zone_row \<Rightarrow> string \<Rightarrow> string \<Rightarrow> nat \<times> string \<times> string \<times> string" where
  "claim_of z ip h = (zone_id z, normalizeRecordNameForZone h (zone_name z), recordTypeFor ip, ip)"

lemma claim_eq: "claim z ip h claimed = (if truthy h then claimed @ [claim_of z ip (coalesce h)] else claimed)"
  by (simp add: claim_def claim_of_def)

text \<open>No claim of a name by another address of the family.\<close>

definition exclusive :: "claims \<Rightarrow> zone_row \<Rightarrow> string \<Rightarrow> string \<Rightarrow> bool" where
  "exclusive claimed z ip h = (\<forall>(z', n, t, v) \<in> set claimed. z' = zone_id z \<and> n = normalizeRecordNameForZone h (zone_name z)
     \<and> t = recordTypeFor ip \<longrightarrow> v = ip)"

text \<open>What a settled name may meet among the records.\<close>

definition record_free :: "db \<Rightarrow> string list \<Rightarrow> zone_row \<Rightarrow> string \<Rightarrow> string \<Rightarrow> string option \<Rightarrow> bool" where
  "record_free db leasedIps z name ip mac =
     (\<forall>r \<in> set (recordsIn db z). rec_name r = name \<longrightarrow> rec_type r \<noteq> ''CNAME''
        \<and> (rec_type r = recordTypeFor ip \<and> rec_value r \<noteq> ip \<longrightarrow> ownLapsedName db leasedIps mac r))"

lemma isFree_parts:
  assumes "isFree db ips claimed z (normalizeRecordNameForZone h (zone_name z)) ip mac"
  shows "record_free db ips z (normalizeRecordNameForZone h (zone_name z)) ip mac" "exclusive claimed z ip h"
  using assms by (auto simp: isFree_def record_free_def exclusive_def list_ex_iff)

text \<open>A name settled in the second pass: claimed by its address alone.\<close>

definition settled_at :: "db \<Rightarrow> observed_lease list \<Rightarrow> claims \<Rightarrow> zone_row \<Rightarrow> observed_lease \<Rightarrow> string \<Rightarrow> bool" where
  "settled_at db leases claimed z lease h =
     (claim_of z (ol_ip lease) h \<in> set claimed \<and> exclusive claimed z (ol_ip lease) h
      \<and> record_free db (map ol_ip leases) z (normalizeRecordNameForZone h (zone_name z)) (ol_ip lease) (vendorMac lease))"

text \<open>It stays so when another name is claimed that is free.\<close>

lemma settled_claim:
  assumes "settled_at db leases claimed z lease h" "exclusive claimed z' ip h'"
  shows "settled_at db leases (claimed @ [claim_of z' ip h']) z lease h"
proof -
  have "ip = ol_ip lease" if "zone_id z' = zone_id z" "normalizeRecordNameForZone h' (zone_name z') = normalizeRecordNameForZone h (zone_name z)"
      "recordTypeFor ip = recordTypeFor (ol_ip lease)"
    using assms that unfolding settled_at_def exclusive_def claim_of_def by fastforce
  then show ?thesis using assms(1) unfolding settled_at_def exclusive_def claim_of_def by auto
qed

section \<open>The second pass\<close>

definition batch_ok :: "db \<Rightarrow> observed_lease list \<Rightarrow> claims \<times> (nat \<times> string option) list \<Rightarrow> pending list \<Rightarrow> bool" where
  "batch_ok db leases st past =
     (\<forall>i h. (i, h) \<in> set (snd st) \<longrightarrow> (\<exists>z c. (i, z, c) \<in> set past \<and> (truthy h \<longrightarrow> settled_at db leases (fst st) z (leases ! i) (coalesce h))))"

lemma settle_ok:
  assumes "batch_ok db leases st past"
  shows "batch_ok db leases (settle db leases p st) (p # past) \<and> set (fst st) \<subseteq> set (fst (settle db leases p st))"
proof -
  obtain i z c where p: "p = (i, z, c)" by (cases p) auto
  let ?lease = "leases ! i"
  define free where "free = (case c of None \<Rightarrow> None | Some c' \<Rightarrow> find (\<lambda>opt. isFree db (map ol_ip leases) (fst st) z (normalizeRecordNameForZone opt (zone_name z))
      (ol_ip ?lease) (vendorMac ?lease)) (name_options c'))"
  have st': "settle db leases p st = (claim z (ol_ip ?lease) free (fst st), (i, free) # snd st)"
    by (cases c) (simp_all add: settle_def p free_def claim_def Let_def)
  show ?thesis
  proof (cases "truthy free")
    case True
    then obtain h where h: "free = Some h" by (cases free) auto
    let ?claims = "fst st @ [claim_of z (ol_ip ?lease) h]"
    have claims: "claim z (ol_ip ?lease) free (fst st) = ?claims" using True h by (simp add: claim_eq coalesce_def)
    have "isFree db (map ol_ip leases) (fst st) z (normalizeRecordNameForZone h (zone_name z)) (ol_ip ?lease) (vendorMac ?lease)"
      using h by (auto simp: free_def dest!: find_in split: option.splits)
    note f = isFree_parts [OF this]
    have "exclusive ?claims z (ol_ip ?lease) h" using f(2) by (auto simp: exclusive_def claim_of_def)
    then have new: "settled_at db leases ?claims z ?lease h" using f(1) by (simp add: settled_at_def)
    have old: "settled_at db leases ?claims y (leases ! j) n" if "settled_at db leases (fst st) y (leases ! j) n" for y j n
      by (rule settled_claim [OF that f(2)])
    have "batch_ok db leases (?claims, (i, free) # snd st) (p # past)"
      using assms new old h unfolding batch_ok_def p by (fastforce simp: coalesce_def)
    then show ?thesis unfolding st' claims by auto
  next
    case False
    then show ?thesis using assms unfolding st' unfolding batch_ok_def p by (fastforce simp: claim_eq)
  qed
qed

lemma settle_all:
  "batch_ok db leases st past \<Longrightarrow>
     batch_ok db leases (fold (settle db leases) ps st) (rev ps @ past) \<and> set (fst st) \<subseteq> set (fst (fold (settle db leases) ps st))"
proof (induction ps arbitrary: st past)
  case (Cons p ps)
  from settle_ok [OF Cons.prems, of p] show ?case using Cons.IH [of "settle db leases p st" "p # past"] by auto
qed simp

section \<open>The whole batch\<close>

text \<open>Whether a lease keeps the name its address holds.\<close>

definition keeps_name :: "db \<Rightarrow> zone_row \<Rightarrow> observed_lease \<Rightarrow> bool" where
  "keeps_name db z lease = keepsHeld (held_name db z (ol_ip lease)) (wanted_name lease z)"

lemma first_claims_set:
  "set (fold (\<lambda>(lease, d) claimed. case d of Keeps z h \<Rightarrow> claim z (ol_ip lease) (Some h) claimed | _ \<Rightarrow> claimed) lds claimed0)
     = set claimed0 \<union> {claim_of z (ol_ip lease) h | lease z h. (lease, Keeps z h) \<in> set lds \<and> h \<noteq> []}"
  by (induction lds arbitrary: claimed0) (auto simp: claim_eq coalesce_def split: decision.splits prod.splits)

lemma decide_zoned:
  assumes "decide fb db scoped lease = Inr d" "zoneFor db scoped (ol_subnetId lease) (ol_ip lease) = Inr (Some z)"
  shows "if keeps_name db z lease
         then d = Keeps z (kept_spelling db lease z (held_name db z (ol_ip lease))) else (\<exists>c. d = Pending z c)"
  using assms by (auto simp: decide_def Let_def keeps_name_def)

text \<open>A kept name is the held one, or a spelling that normalises to it.\<close>

lemma kept_name:
  assumes "keeps_name db z lease"
  obtains h where "held_name db z (ol_ip lease) = Some h"
    "kept_spelling db lease z (Some h) = h \<or> normalizeRecordNameForZone (kept_spelling db lease z (Some h)) (zone_name z) = h"
proof -
  obtain h where h: "held_name db z (ol_ip lease) = Some h"
    using assms by (cases "held_name db z (ol_ip lease)") (auto simp: keeps_name_def keepsHeld_def)
  show ?thesis
    by (rule that [OF h]) (auto simp: kept_spelling_def wanted_name_def Let_def coalesce_def split: if_splits option.splits)
qed

lemma assignLeaseNames_parts:
  assumes "assignLeaseNames fb odb db leases = Inr named" "scope_domains odb = Inr scoped"
  obtains ds where "emap (decide fb db scoped) leases = Inr ds" "length ds = length leases" "length named = length leases"
    "\<And>i. i < length leases \<Longrightarrow> decide fb db scoped (leases ! i) = Inr (ds ! i)"
    "\<And>i. i < length leases \<Longrightarrow> ol_hostname (named ! i) = (case ds ! i of Unzoned h \<Rightarrow> h | Keeps z h \<Rightarrow> Some h
        | Pending z c \<Rightarrow> (case map_of (snd (fold (settle db leases) (pending_leases leases ds) (first_claims leases ds, []))) i of Some h \<Rightarrow> h | None \<Rightarrow> None))"
proof -
  obtain ds where ds: "emap (decide fb db scoped) leases = Inr ds"
    and named: "named = map (\<lambda>(i, lease, d). lease\<lparr>ol_hostname := (case d of Unzoned h \<Rightarrow> h | Keeps z h \<Rightarrow> Some h
        | Pending z c \<Rightarrow> (case map_of (snd (fold (settle db leases) (pending_leases leases ds) (first_claims leases ds, []))) i of Some h \<Rightarrow> h | None \<Rightarrow> None))\<rparr>)
              (enumerate 0 (zip leases ds))"
    using assms by (auto simp: assignLeaseNames_def ebind_eq_Inr_iff Let_def split: if_splits)
  have len: "length ds = length leases" "\<And>i. i < length leases \<Longrightarrow> decide fb db scoped (leases ! i) = Inr (ds ! i)"
    using ds by (auto simp: emap_eq_Inr_iff)
  show thesis by (rule that [OF ds len(1) _ len(2)]) (simp_all add: named len(1) nth_enumerate_eq)
qed

text \<open>Every name given in a zone is claimed there, and a name not kept is claimed by its address alone.\<close>

lemma names_settled:
  assumes a: "assignLeaseNames fb odb db leases = Inr named" "scope_domains odb = Inr scoped"
  obtains claimed where "\<And>i z. i < length leases \<Longrightarrow> zoneFor db scoped (ol_subnetId (leases ! i)) (ol_ip (leases ! i)) = Inr (Some z)
      \<Longrightarrow> truthy (ol_hostname (named ! i)) \<Longrightarrow> claim_of z (ol_ip (leases ! i)) (coalesce (ol_hostname (named ! i))) \<in> set claimed
        \<and> (keeps_name db z (leases ! i) \<or> settled_at db leases claimed z (leases ! i) (coalesce (ol_hostname (named ! i))))"
proof -
  obtain ds where ds: "length ds = length leases" "\<And>i. i < length leases \<Longrightarrow> decide fb db scoped (leases ! i) = Inr (ds ! i)"
    and name: "\<And>i. i < length leases \<Longrightarrow> ol_hostname (named ! i) = (case ds ! i of Unzoned h \<Rightarrow> h | Keeps z h \<Rightarrow> Some h
        | Pending z c \<Rightarrow> (case map_of (snd (fold (settle db leases) (pending_leases leases ds) (first_claims leases ds, []))) i of Some h \<Rightarrow> h | None \<Rightarrow> None))"
    by (rule assignLeaseNames_parts [OF a], rule that)
  let ?ps = "pending_leases leases ds"
  let ?st = "fold (settle db leases) ?ps (first_claims leases ds, [])"
  have claims: "set (first_claims leases ds) = {claim_of z (ol_ip lease) h | lease z h. (lease, Keeps z h) \<in> set (zip leases ds) \<and> h \<noteq> []}"
    by (simp add: first_claims_def first_claims_set)
  have "batch_ok db leases (first_claims leases ds, []) []" by (simp add: batch_ok_def)
  from settle_all [OF this, of ?ps] have ok: "batch_ok db leases ?st (rev ?ps)" and mono: "set (first_claims leases ds) \<subseteq> set (fst ?st)" by auto
  show ?thesis
  proof (rule that [of "fst ?st"])
    fix i z
    assume i: "i < length leases" and z: "zoneFor db scoped (ol_subnetId (leases ! i)) (ol_ip (leases ! i)) = Inr (Some z)"
      and h: "truthy (ol_hostname (named ! i))"
    let ?goal = "claim_of z (ol_ip (leases ! i)) (coalesce (ol_hostname (named ! i))) \<in> set (fst ?st)
        \<and> (keeps_name db z (leases ! i) \<or> settled_at db leases (fst ?st) z (leases ! i) (coalesce (ol_hostname (named ! i))))"
    show ?goal
    proof (cases "keeps_name db z (leases ! i)")
      case True
      let ?h = "kept_spelling db (leases ! i) z (held_name db z (ol_ip (leases ! i)))"
      have d: "ds ! i = Keeps z ?h" using decide_zoned [OF ds(2) [OF i] z] True by simp
      have n: "ol_hostname (named ! i) = Some ?h" using name [OF i] d by simp
      have "(leases ! i, Keeps z ?h) \<in> set (zip leases ds)" using i ds(1) d by (metis in_set_zip fst_conv snd_conv)
      moreover have "?h \<noteq> []" using h n by simp
      ultimately have "claim_of z (ol_ip (leases ! i)) ?h \<in> set (fst ?st)" using mono claims by blast
      then show ?thesis using True n by (simp add: coalesce_def)
    next
      case False
      then obtain c where d: "ds ! i = Pending z c" using decide_zoned [OF ds(2) [OF i] z] by auto
      with name [OF i] h obtain n where n: "map_of (snd ?st) i = Some n" "ol_hostname (named ! i) = n" "truthy n"
        by (auto split: option.splits)
      obtain y c' where y: "(i, y, c') \<in> set ?ps" "settled_at db leases (fst ?st) y (leases ! i) (coalesce n)"
        using ok map_of_SomeD [OF n(1)] n(3) unfolding batch_ok_def by (metis set_rev)
      have "ds ! i = Pending y c'"
        using y(1) by (auto simp: pending_leases_def in_map_filter in_set_enumerate_eq split: decision.splits)
      then show ?thesis using y(2) n(2) d by (simp add: settled_at_def)
    qed
  qed
qed

text \<open>C15. Lease names, for leases whose address has a forward zone. A lease keeps the name a DHCP record
  already gives its address when its client sends no name, that name, or the name without the suffix: the name
  it gets is then the held one, or a spelling that normalises to it. A lease that does not keep a name gets one that is
  no alias and not the name of an address record of its type at another address, unless that record is left over
  from a lapsed lease of the same client; and no other address of the batch gets it, in the same zone
  and address family. So two leases end with one name only where both keep what their addresses already held.\<close>

theorem lease_names_unique:
  assumes "assignLeaseNames fb odb db leases = Inr named" "scope_domains odb = Inr scoped"
    and "i < length leases" "zoneFor db scoped (ol_subnetId (leases ! i)) (ol_ip (leases ! i)) = Inr (Some z)"
    and "j < length leases" "zoneFor db scoped (ol_subnetId (leases ! j)) (ol_ip (leases ! j)) = Inr (Some z)"
  shows "(truthy (ol_hostname (named ! i)) \<and> truthy (ol_hostname (named ! j)) \<and> recordTypeFor (ol_ip (leases ! i)) = recordTypeFor (ol_ip (leases ! j))
        \<and> normalizeRecordNameForZone (coalesce (ol_hostname (named ! i))) (zone_name z)
          = normalizeRecordNameForZone (coalesce (ol_hostname (named ! j))) (zone_name z)
        \<longrightarrow> ol_ip (leases ! i) = ol_ip (leases ! j) \<or> keeps_name db z (leases ! i) \<and> keeps_name db z (leases ! j))
    \<and> (truthy (ol_hostname (named ! i)) \<and> \<not> keeps_name db z (leases ! i) \<longrightarrow>
        record_free db (map ol_ip leases) z (normalizeRecordNameForZone (coalesce (ol_hostname (named ! i))) (zone_name z))
          (ol_ip (leases ! i)) (vendorMac (leases ! i)))
    \<and> (keeps_name db z (leases ! i) \<longrightarrow> (\<exists>h s. held_name db z (ol_ip (leases ! i)) = Some h \<and> ol_hostname (named ! i) = Some s
          \<and> (s = h \<or> normalizeRecordNameForZone s (zone_name z) = h)))"
proof -
  obtain claimed where claimed: "\<And>i z. i < length leases \<Longrightarrow> zoneFor db scoped (ol_subnetId (leases ! i)) (ol_ip (leases ! i)) = Inr (Some z)
      \<Longrightarrow> truthy (ol_hostname (named ! i)) \<Longrightarrow> claim_of z (ol_ip (leases ! i)) (coalesce (ol_hostname (named ! i))) \<in> set claimed
        \<and> (keeps_name db z (leases ! i) \<or> settled_at db leases claimed z (leases ! i) (coalesce (ol_hostname (named ! i))))"
    by (rule names_settled [OF assms(1,2)], rule that)
  have kept: "\<exists>h s. held_name db z (ol_ip (leases ! i)) = Some h \<and> ol_hostname (named ! i) = Some s
          \<and> (s = h \<or> normalizeRecordNameForZone s (zone_name z) = h)" if "keeps_name db z (leases ! i)"
  proof -
    have "ol_hostname (named ! i) = Some (kept_spelling db (leases ! i) z (held_name db z (ol_ip (leases ! i))))"
      by (rule assignLeaseNames_parts [OF assms(1,2)]) (use decide_zoned [OF _ assms(4)] that assms(3) in fastforce)
    then show ?thesis using kept_name [OF that] by metis
  qed
  have "ol_ip (leases ! i) = ol_ip (leases ! j) \<or> keeps_name db z (leases ! i) \<and> keeps_name db z (leases ! j)"
    if "truthy (ol_hostname (named ! i))" "truthy (ol_hostname (named ! j))" "recordTypeFor (ol_ip (leases ! i)) = recordTypeFor (ol_ip (leases ! j))"
      "normalizeRecordNameForZone (coalesce (ol_hostname (named ! i))) (zone_name z)
          = normalizeRecordNameForZone (coalesce (ol_hostname (named ! j))) (zone_name z)"
    using claimed [OF assms(3,4) that(1)] claimed [OF assms(5,6) that(2)] that(3,4)
    unfolding settled_at_def exclusive_def claim_of_def by fastforce
  then show ?thesis using claimed [OF assms(3,4)] kept unfolding settled_at_def by blast
qed

text \<open>Two clients that send one name, in a network whose domain is a zone.\<close>

definition sample_zone :: zone_row where
  "sample_zone = \<lparr>zone_id = 1, zone_name = ''lan'', zone_type = FORWARD, zone_enabled = True, zone_soa_serial = 1, zone_updated_at = 0\<rparr>"

definition sample_named_db :: db where
  "sample_named_db = empty_db\<lparr>subnets := [\<lparr>sub_id = 1, sub_cidr = ''10.0.0.0/8'', sub_parent_id = None, sub_prefix_length = 8,
       sub_address_family = 4, sub_status = ''allocated'', sub_gateway_address = None, sub_domain_name = Some ''lan'', sub_scan_enabled = None,
       sub_scan_interval = None, sub_total_addresses = None\<rparr>], dns_zones := [sample_zone]\<rparr>"

definition sample_lease :: "string \<Rightarrow> observed_lease" where
  "sample_lease ip = \<lparr>ol_subnetId = Some 1, ol_ip = ip, ol_mac = Some ''02:00:00:00:00:01'', ol_hostname = Some ''pc'', ol_expiresAt = None,
     ol_dhcpVersion = 4, ol_duid = None, ol_iaid = None, ol_observedActivity = True, ol_newLease = None\<rparr>"

theorem lease_names_unique_witness:
  "\<exists>named. assignLeaseNames (\<lambda>_. None) \<lparr>option_scopes = [], scope_options = [], option_defaults = []\<rparr> sample_named_db
       [sample_lease ''10.0.0.2'', sample_lease ''10.0.0.3''] = Inr named
     \<and> \<not> (truthy (ol_hostname (named ! 0)) \<and> truthy (ol_hostname (named ! 1))
          \<and> normalizeRecordNameForZone (coalesce (ol_hostname (named ! 0))) ''lan'' = normalizeRecordNameForZone (coalesce (ol_hostname (named ! 1))) ''lan'')"
proof -
  let ?odb = "\<lparr>option_scopes = [], scope_options = [], option_defaults = []\<rparr> :: option_db"
  let ?leases = "[sample_lease ''10.0.0.2'', sample_lease ''10.0.0.3'']"
  have scoped: "scope_domains ?odb = Inr []" by (simp add: scope_domains_def)
  have zone: "zoneFor sample_named_db [] (Some 1) ip = Inr (Some sample_zone)" for ip
    by (simp add: zoneFor_def domainFor_def subnet_domain_def zoneByName_def sample_named_db_def sample_zone_def or_null_num_def map_filter_def coalesce_def)
  have keys: "sortKey ''10.0.0.2'' \<noteq> None" "sortKey ''10.0.0.3'' \<noteq> None" by code_simp+
  have types: "recordTypeFor ''10.0.0.2'' = recordTypeFor ''10.0.0.3''" by code_simp
  have fresh: "\<not> keeps_name sample_named_db sample_zone l" for l
    by (simp add: keeps_name_def keepsHeld_def held_name_def recordsIn_def sample_named_db_def empty_db_def)
  have "\<exists>d. decide (\<lambda>_. None) sample_named_db [] (sample_lease ip) = Inr d" for ip
    using zone [of ip] by (simp add: decide_def sample_lease_def Let_def)
  then obtain d e where "decide (\<lambda>_. None) sample_named_db [] (sample_lease ''10.0.0.2'') = Inr d"
      "decide (\<lambda>_. None) sample_named_db [] (sample_lease ''10.0.0.3'') = Inr e" by blast
  then obtain named where named: "assignLeaseNames (\<lambda>_. None) ?odb sample_named_db ?leases = Inr named"
    using keys scoped by (simp add: assignLeaseNames_def sample_lease_def Let_def)
  from lease_names_unique [OF named scoped, of 0 sample_zone 1] zone types fresh show ?thesis
    using named by (auto simp: sample_lease_def sample_zone_def)
qed

end
