(* ===== verification/LeaseTable.thy ===== *)
theory LeaseTable
  imports LeaseNames LifecycleService
begin

text \<open>
  Storing the lease set a DHCP server reports (\<open>replaceLeases\<close> and \<open>syncDhcpDnsRecords\<close> of
  \<open>server/src/models/dhcp-lease.js\<close>, \<open>ingestLeases\<close> and \<open>releaseBlockingLeases\<close> of
  \<open>server/src/services/dhcp-lease-sync.js\<close>): which leases are accepted, the rows of the lease table, the
  records of the leased addresses, and the leases to release at the server.
\<close>

section \<open>The lease table\<close>

text \<open>A lease as a backend reports it. Two spellings of one instant are one expiry. The next key of the
  table, an AUTOINCREMENT column, is a parameter, and \<open>now\<close> the argument of that name.\<close>

record reported_lease = observed_lease +
  rl_clientId :: "string option"

type_synonym lease_key = "nat option \<times> string"

definition key_of :: "lease_row \<Rightarrow> lease_key" where
  "key_of l = (lease_subnet_id l, lease_ip_address l)"

definition reported_key :: "reported_lease \<Rightarrow> lease_key" where
  "reported_key l = (ol_subnetId l, ol_ip l)"

text \<open>The Map \<open>previous\<close>: where two rows share a key, the last row at the place of the first.\<close>

definition previous_leases :: "db \<Rightarrow> (lease_key \<times> lease_row) list" where
  "previous_leases db = fold (\<lambda>l. AList.update (key_of l) l) (dhcp_leases db) []"

definition reservation_keys :: "db \<Rightarrow> lease_key list" where
  "reservation_keys db = map (\<lambda>r. (Some (rsv_subnet_id r), rsv_ip_address r)) (filter rsv_enabled (dhcp_reservations db))"

definition clientOf :: "string option \<Rightarrow> string option \<Rightarrow> string" where
  "clientOf mac duid = toLowerCase (if truthy duid then coalesce duid else coalesce mac)"

definition expiry_of :: "instant option \<Rightarrow> expiry" where
  "expiry_of e = (case e of None \<Rightarrow> INFINITE | Some t \<Rightarrow> EXPIRES t)"

definition with_activity :: "instant \<Rightarrow> (lease_key \<times> lease_row) list \<Rightarrow> reported_lease \<Rightarrow> reported_lease" where
  "with_activity now previous lease =
     (case map_of previous (reported_key lease) of
        None \<Rightarrow> lease\<lparr>ol_observedActivity := True, ol_newLease := Some True\<rparr>
      | Some old \<Rightarrow>
          let newLease = (clientOf (lease_mac_address old) (lease_duid old) \<noteq> clientOf (ol_mac lease) (ol_duid lease)
                          \<or> \<not> isLeaseActive (lease_expires_at old) now)
          in lease\<lparr>ol_observedActivity := newLease \<or> lease_expires_at old \<noteq> expiry_of (ol_expiresAt lease),
                   ol_newLease := Some newLease\<rparr>)"

definition version_or_4 :: "nat \<Rightarrow> nat" where
  "version_or_4 v = (if v = 0 then 4 else v)"

definition inserted_lease :: "nat \<Rightarrow> reported_lease \<Rightarrow> lease_row" where
  "inserted_lease i l =
     \<lparr>lease_id = i, lease_subnet_id = ol_subnetId l, lease_ip_address = ol_ip l, lease_mac_address = or_null (ol_mac l),
      lease_hostname = ol_hostname l, lease_client_id = rl_clientId l, lease_expires_at = expiry_of (ol_expiresAt l),
      lease_dhcp_version = version_or_4 (ol_dhcpVersion l), lease_duid = or_null (ol_duid l), lease_iaid = ol_iaid l\<rparr>"

definition expired_at :: "instant \<Rightarrow> expiry \<Rightarrow> expiry" where
  "expired_at now e =
     (case e of INFINITE \<Rightarrow> EXPIRES now | EXPIRES t \<Rightarrow> if t > now then EXPIRES now else EXPIRES t | UNREADABLE \<Rightarrow> UNREADABLE)"

definition retained_lease :: "instant \<Rightarrow> nat \<Rightarrow> lease_row \<Rightarrow> lease_row" where
  "retained_lease now i old =
     old\<lparr>lease_id := i, lease_expires_at := expired_at now (lease_expires_at old),
         lease_dhcp_version := version_or_4 (lease_dhcp_version old)\<rparr>"

text \<open>\<open>leaseExpiryMs(old.expires_at) < keepSince\<close>; an unreadable expiry compares to nothing.\<close>

definition lapsed :: "instant \<Rightarrow> expiry \<Rightarrow> bool" where
  "lapsed now e = (case e of EXPIRES t \<Rightarrow> t + OFFLINE_RETIREMENT_S < now | _ \<Rightarrow> False)"

definition kept_leases :: "instant \<Rightarrow> lease_key list \<Rightarrow> lease_key list \<Rightarrow> (lease_key \<times> lease_row) list \<Rightarrow> lease_row list" where
  "kept_leases now currentKeys reservationKeys previous =
     map snd (filter (\<lambda>(key, old). key \<notin> set currentKeys \<and> key \<notin> set reservationKeys \<and> \<not> lapsed now (lease_expires_at old)) previous)"

definition new_lease_table :: "nat \<Rightarrow> instant \<Rightarrow> reported_lease list \<Rightarrow> db \<Rightarrow> lease_row list" where
  "new_lease_table nextId now leases db =
     (let kept = kept_leases now (map reported_key leases) (reservation_keys db) (previous_leases db)
      in map2 inserted_lease [nextId..<nextId + length leases] leases
       @ map2 (retained_lease (clock db)) [nextId + length leases..<nextId + length leases + length kept] kept)"

definition replaceLeases :: "nat \<Rightarrow> instant \<Rightarrow> bool \<Rightarrow> reported_lease list \<Rightarrow> db \<Rightarrow> unit outcome" where
  "replaceLeases nextId now lifecycleValidated leases db =
     (let observed = map (with_activity (clock db) (previous_leases db)) leases in
      case observeDhcpLeases (db\<lparr>dhcp_leases := new_lease_table nextId now observed db\<rparr>)
             (map observed_lease.truncate observed) lifecycleValidated of
        (db', Inl e) \<Rightarrow> (db, Inl e)
      | (db', Inr _) \<Rightarrow> (db', Inr ()))"

section \<open>The records of leases and reservations\<close>

record dns_entry =
  de_ip :: string
  de_hostname :: "string option"
  de_subnetId :: "nat option"
  de_source :: string

text \<open>Reservations take the place of the leases at their addresses.\<close>

definition dns_entries :: "db \<Rightarrow> observed_lease list \<Rightarrow> dns_entry list" where
  "dns_entries db leases =
     (let reservations = filter (\<lambda>r. rsv_enabled r \<and> truthy (rsv_hostname r)) (dhcp_reservations db);
          reservationIps = map rsv_ip_address reservations
      in map (\<lambda>l. \<lparr>de_ip = ol_ip l, de_hostname = ol_hostname l, de_subnetId = ol_subnetId l, de_source = ''dhcp''\<rparr>)
           (filter (\<lambda>l. ol_ip l \<notin> set reservationIps) leases)
       @ map (\<lambda>r. \<lparr>de_ip = rsv_ip_address r, de_hostname = rsv_hostname r, de_subnetId = Some (rsv_subnet_id r),
                    de_source = ''reservation''\<rparr>) reservations)"

text \<open>The sets the loop fills: \<open>activeRecordIds\<close>, \<open>activeIps\<close>, \<open>activeNames\<close> and \<open>processedZoneIds\<close>.\<close>

record dns_sync =
  ds_db :: db
  ds_records :: "nat list"
  ds_ips :: "string list"
  ds_names :: "(nat \<times> string \<times> string) list"
  ds_zones :: "nat list"

definition find_lease_record :: "db \<Rightarrow> zone_row \<Rightarrow> string \<Rightarrow> string \<Rightarrow> record_row option" where
  "find_lease_record db zone name ip =
     find (\<lambda>r. rec_zone_id r = zone_id zone \<and> rec_name r = name \<and> rec_type r = recordTypeFor ip \<and> rec_value r = ip) (dns_records db)"

definition lease_record :: "zone_row \<Rightarrow> string \<Rightarrow> string \<Rightarrow> string \<Rightarrow> instant \<Rightarrow> record_row" where
  "lease_record zone name ip source now =
     \<lparr>rec_id = 0, rec_zone_id = zone_id zone, rec_name = name, rec_type = recordTypeFor ip, rec_value = ip,
      rec_priority = None, rec_weight = None, rec_port = None, rec_ttl = None,
      rec_source = Some source, rec_enabled = True, rec_updated_at = now\<rparr>"

definition sync_record :: "zone_row \<Rightarrow> string \<Rightarrow> dns_entry \<Rightarrow> dns_sync \<Rightarrow> dns_sync" where
  "sync_record zone name e st =
     (let db = ds_db st; ip = de_ip e; source = de_source e;
          ptr = (\<lambda>db. fst (syncPtrForARecord db name ip (zone_name zone) False source))
      in case find_lease_record db zone name ip of
           Some existing \<Rightarrow>
             if rec_source existing \<in> {Some ''dhcp'', Some ''reservation''}
             then st\<lparr>ds_db := ptr (update_records (\<lambda>r. rec_id r = rec_id existing)
                       (\<lambda>r. r\<lparr>rec_source := Some source, rec_updated_at := clock db\<rparr>) db),
                     ds_records := rec_id existing # ds_records st, ds_ips := ip # ds_ips st\<rparr>
             else st
         | None \<Rightarrow>
             st\<lparr>ds_db := ptr (insert_record (lease_record zone name ip source (clock db)) db),
                ds_records := next_record_id db # ds_records st, ds_ips := ip # ds_ips st\<rparr>)"

text \<open>Zones and domains are those read before the loop, from \<open>db0\<close>.\<close>

definition sync_entry :: "db \<Rightarrow> (option_scope \<times> string option) list \<Rightarrow> dns_entry \<Rightarrow> dns_sync \<Rightarrow> cidr_error + dns_sync" where
  "sync_entry db0 scoped e st =
     (case (if truthy (de_hostname e) then or_null_num (de_subnetId e) else None) of
        None \<Rightarrow> Inr st
      | Some sn \<Rightarrow> ebind (domainFor db0 scoped sn (de_ip e)) (\<lambda>domain.
          Inr (case Option.bind domain (zoneByName db0) of
                 None \<Rightarrow> st
               | Some zone \<Rightarrow>
                   let name = normalizeRecordNameForZone (coalesce (de_hostname e)) (coalesce domain)
                   in sync_record zone name e
                        (st\<lparr>ds_zones := zone_id zone # ds_zones st,
                            ds_names := (zone_id zone, name, recordTypeFor (de_ip e)) # ds_names st\<rparr>))))"

text \<open>What was written before a throw stays: the function is no transaction.\<close>

fun sync_entries ::
  "db \<Rightarrow> (option_scope \<times> string option) list \<Rightarrow> dns_entry list \<Rightarrow> dns_sync \<Rightarrow> dns_sync \<times> (cidr_error + unit)" where
  "sync_entries db0 scoped [] st = (st, Inr ())"
| "sync_entries db0 scoped (e # es) st =
     (case sync_entry db0 scoped e st of Inl err \<Rightarrow> (st, Inl err) | Inr st' \<Rightarrow> sync_entries db0 scoped es st')"

definition stale_records :: "nat list \<Rightarrow> db \<Rightarrow> (record_row \<times> string) list" where
  "stale_records zones db =
     List.map_filter (\<lambda>r. if rec_source r \<in> {Some ''dhcp'', Some ''reservation''} \<and> rec_zone_id r \<in> set zones
                          then map_option (\<lambda>z. (r, zone_name z)) (find_zone db (rec_zone_id r)) else None) (dns_records db)"

text \<open>Whether a record goes: a lease's record stays while nothing answers its address or its name.\<close>

definition is_stale :: "dns_sync \<Rightarrow> record_row \<Rightarrow> bool" where
  "is_stale st r =
     (rec_id r \<notin> set (ds_records st)
      \<and> \<not> (rec_source r = Some ''dhcp'' \<and> rec_value r \<notin> set (ds_ips st)
           \<and> (rec_zone_id r, rec_name r, rec_type r) \<notin> set (ds_names st)))"

definition drop_stale :: "dns_sync \<Rightarrow> record_row \<times> string \<Rightarrow> db \<Rightarrow> db" where
  "drop_stale st rz db =
     (case rz of (r, zoneName) \<Rightarrow>
        if \<not> is_stale st r then db
        else delete_record (rec_id r)
               (if rec_value r \<notin> set (ds_ips st) then fst (clearPtrForARecord db (rec_name r) (rec_value r) zoneName) else db))"

definition syncDhcpDnsRecords :: "option_db \<Rightarrow> observed_lease list \<Rightarrow> db \<Rightarrow> unit outcome" where
  "syncDhcpDnsRecords odb leases db =
     andThen (throws db (scope_domains odb)) (\<lambda>db scoped.
       let start = \<lparr>ds_db = db, ds_records = [], ds_ips = [], ds_names = [],
                    ds_zones = map zone_id (List.map_filter (zoneByName db) (allDomains db scoped))\<rparr>
       in case sync_entries db scoped (dns_entries db leases) start of
            (st, Inl e) \<Rightarrow> (ds_db st, Inl (AddressError e))
          | (st, Inr _) \<Rightarrow> (fold (drop_stale st) (stale_records (ds_zones st) (ds_db st)) (ds_db st), Inr ()))"

section \<open>Ingesting a report\<close>

definition locate_lease :: "db \<Rightarrow> reported_lease \<Rightarrow> reported_lease option" where
  "locate_lease db lease =
     (if ol_dhcpVersion lease = 6 \<and> \<not> truthy (ol_duid lease) then None
      else Some (lease\<lparr>ol_subnetId :=
             (case findSubnetForIp db (ol_ip lease) of
                Inr (Some s) \<Rightarrow> if sub_status s = ''allocated'' then Some (sub_id s) else None
              | _ \<Rightarrow> None)\<rparr>))"

text \<open>Each lease with whether it is accepted and whether it blocks a reservation.\<close>

definition judge_lease :: "db \<Rightarrow> reported_lease \<Rightarrow> lc_error + reported_lease \<times> bool \<times> bool" where
  "judge_lease db lease =
     ebind (dhcpLeaseRejectionReason db (observed_lease.truncate lease)) (\<lambda>rejection.
       Inr (lease, rejection = None, rejection \<noteq> None \<and> holdsAnotherClientsReservation db (observed_lease.truncate lease)))"

record ingest_result =
  ir_synced :: nat
  ir_rejected :: nat
  ir_blocking :: "reported_lease list"

definition ingestLeases ::
  "vendor_row list \<Rightarrow> option_db \<Rightarrow> nat \<Rightarrow> instant \<Rightarrow> reported_lease list \<Rightarrow> db \<Rightarrow> ingest_result outcome" where
  "ingestLeases vs odb nextId now leases db =
     andThen (db, emap (judge_lease db) (List.map_filter (locate_lease db) leases)) (\<lambda>db judged.
       let accepted = map fst (filter (\<lambda>(l, ok, blocks). ok) judged);
           blocking = map fst (filter (\<lambda>(l, ok, blocks). blocks) judged)
       in andThen (throws db (assignLeaseNames (\<lambda>mac. generateFallbackHostname vs (Some mac)) odb db (map observed_lease.truncate accepted))) (\<lambda>db named.
          let leases = map2 (\<lambda>l n. l\<lparr>ol_hostname := ol_hostname n\<rparr>) accepted named
          in andThen (replaceLeases nextId now True leases db) (\<lambda>db _.
             andThen (syncDhcpDnsRecords odb (map observed_lease.truncate leases) db) (\<lambda>db _.
               (db, Inr \<lparr>ir_synced = length accepted, ir_rejected = length judged - length accepted, ir_blocking = blocking\<rparr>)))))"

text \<open>\<open>release\<close> is what the backend answers: whether the lease was released.\<close>

definition releaseBlockingLeases :: "(reported_lease \<Rightarrow> bool) \<Rightarrow> reported_lease list \<Rightarrow> nat" where
  "releaseBlockingLeases release leases = length (filter release leases)"

text \<open>\<open>read\<close> is what the backend read: None while its leases are not settled. The result is None then, else
  the ingest with the number of leases released, where any were to be.\<close>

definition syncLeasesNow ::
  "vendor_row list \<Rightarrow> option_db \<Rightarrow> nat \<Rightarrow> instant \<Rightarrow> reported_lease list option \<Rightarrow> (reported_lease \<Rightarrow> bool) \<Rightarrow> db
     \<Rightarrow> (ingest_result \<times> nat option) option outcome" where
  "syncLeasesNow vs odb nextId now read release db =
     (case read of
        None \<Rightarrow> (db, Inr None)
      | Some leases \<Rightarrow>
          andThen (ingestLeases vs odb nextId now leases db) (\<lambda>db result.
            (db, Inr (Some (result, if ir_blocking result = [] then None
                                    else Some (releaseBlockingLeases release (ir_blocking result)))))))"

end
