(* ===== verification/LeaseTableProperties.thy ===== *)
theory LeaseTableProperties
  imports LeaseTable LifecycleInvariant
begin

text \<open>
  What a reported lease set leaves behind: the lease table holds the reported leases and, expired, the
  recent ones no longer reported; the records of leased addresses are exactly those the leases and
  reservations call for; and the claims on addresses stay consistent.
\<close>

section \<open>Writes that leave the lease tables alone\<close>

definition same_tables :: "db \<Rightarrow> db \<Rightarrow> bool" where
  "same_tables db db' \<longleftrightarrow> dhcp_leases db' = dhcp_leases db \<and> dhcp_reservations db' = dhcp_reservations db \<and> clock db' = clock db"

lemma same_tables_refl: "same_tables db db"
  by (simp add: same_tables_def)

lemma same_tables_trans: "same_tables a b \<Longrightarrow> same_tables b c \<Longrightarrow> same_tables a c"
  by (simp add: same_tables_def)

lemma same_tables_keeps: "keeps db db' \<Longrightarrow> same_tables db db'"
  by (auto simp: keeps_def model_frame_def same_tables_def dest: env_projections)

lemma same_tables_rest: "rest db' = rest db \<Longrightarrow> same_tables db db'"
  using rest_projections [of db' db] by (simp add: same_tables_def)

lemma same_tables_set: "same_tables db (fst (setCanonicalAllocation db sn ip s t i f))"
  unfolding setCanonicalAllocation_def
proof (rule andThen_fst_cases)
  show up: "same_tables db (fst (upsert db sn ip (allocation_fields s t i f)))" by (rule same_tables_keeps [OF keeps_upsert])
  have "same_tables d (fst (dropUnallocatedIpv6Ptr d ip))" for d
    using ptr_write_drop [of d ip] by (intro same_tables_rest) (simp add: ptr_write_def)
  then show "same_tables db (fst (if s = UNASSIGNED then fst (dropUnallocatedIpv6Ptr (fst (upsert db sn ip (allocation_fields s t i f))) ip)
      else fst (upsert db sn ip (allocation_fields s t i f)), Inr x))" for x :: nat
    using up same_tables_trans by simp
qed

interpretation tables: lease_frame same_tables
proof unfold_locales
  show "same_tables db (removeOtherRowsForMac db sn ip mac)" for db sn ip mac
    by (simp add: removeOtherRowsForMac_def delete_ips_def same_tables_def)
  show "same_tables a c" if "same_tables a b" "same_tables b c" for a b c using that by (rule same_tables_trans)
qed (simp_all add: same_tables_refl same_tables_keeps keeps_upsert keeps_clearRogue keeps_only_events same_tables_rest same_tables_set)

section \<open>The lease table\<close>

text \<open>The last row of a network's address.\<close>

definition latest :: "db \<Rightarrow> lease_key \<Rightarrow> lease_row option" where
  "latest db k = find (\<lambda>l. key_of l = k) (rev (dhcp_leases db))"

lemma previous_leases_keys:
  "distinct (map fst (previous_leases db)) \<and> (\<forall>(k, old) \<in> set (previous_leases db). key_of old = k)
   \<and> (\<forall>k. map_of (previous_leases db) k = latest db k)"
proof -
  have "distinct (map fst m) \<and> (\<forall>(k, old) \<in> set m. key_of old = k) \<and> (\<forall>k. map_of m k = find (\<lambda>l. key_of l = k) (rev ls))"
    if "m = fold (\<lambda>l. AList.update (key_of l) l) ls []" for m ls
    using that
  proof (induction ls arbitrary: m rule: rev_induct)
    case (snoc l ls)
    let ?n = "fold (\<lambda>l. AList.update (key_of l) l) ls []"
    have "distinct (map fst m)" using snoc by (simp add: distinct_update)
    moreover have "\<forall>k. map_of m k = find (\<lambda>l. key_of l = k) (rev (ls @ [l]))"
      using snoc by (simp add: update_conv')
    moreover have "key_of old = k" if "(k, old) \<in> set m" for k old
    proof -
      have "find (\<lambda>l. key_of l = k) (rev (ls @ [l])) = Some old"
        using calculation that by (metis map_of_is_SomeI)
      from find_in [OF this] show ?thesis by simp
    qed
    ultimately show ?case by blast
  qed simp
  from this [OF refl, of "dhcp_leases db"] show ?thesis by (simp add: previous_leases_def latest_def)
qed

lemma filter_key:
  "distinct (map fst m) \<Longrightarrow> filter (\<lambda>p. fst p = k \<and> P p) m
     = (case map_of m k of None \<Rightarrow> [] | Some v \<Rightarrow> if P (k, v) then [(k, v)] else [])"
  by (induction m) (auto simp: filter_empty_conv rev_image_eqI split: option.split)

lemma rows_of_map2:
  assumes "length is = length xs" "\<And>i x. x \<in> set xs \<Longrightarrow> Q (f i x) = P x" "\<And>i x. (f i x)\<lparr>lease_id := 0\<rparr> = f 0 x"
  shows "map (\<lambda>row. row\<lparr>lease_id := 0\<rparr>) (filter Q (map2 f is xs)) = map (f 0) (filter P xs)"
  using assms(1,2) by (induction "is" xs rule: list_induct2) (simp_all add: assms(3))

lemma lease_ids_map2:
  "length is = length xs \<Longrightarrow> (\<And>i x. lease_id (f i x) = i) \<Longrightarrow> map lease_id (map2 f is xs) = is"
  by (induction "is" xs rule: list_induct2) simp_all

lemma lease_row_simps [simp]:
  "lease_id (inserted_lease i l) = i" "lease_id (retained_lease now i old) = i"
  "key_of (inserted_lease i l) = reported_key l" "key_of (retained_lease now i old) = key_of old"
  "(inserted_lease i l)\<lparr>lease_id := 0\<rparr> = inserted_lease 0 l" "(retained_lease now i old)\<lparr>lease_id := 0\<rparr> = retained_lease now 0 old"
  "reported_key (with_activity now previous l) = reported_key l" "inserted_lease i (with_activity now previous l) = inserted_lease i l"
  by (simp_all add: inserted_lease_def retained_lease_def key_of_def reported_key_def with_activity_def Let_def split: option.split)

lemma new_lease_table_ids: "distinct (map lease_id (new_lease_table nextId now leases db))"
  unfolding new_lease_table_def Let_def map_append
  by (subst (1 2) lease_ids_map2) (auto simp: distinct_append)

lemma new_lease_table_rows:
  "map (\<lambda>row. row\<lparr>lease_id := 0\<rparr>) (filter (\<lambda>row. key_of row = k) (new_lease_table nextId now leases db))
   = map (inserted_lease 0) (filter (\<lambda>l. reported_key l = k) leases)
     @ (case latest db k of
          None \<Rightarrow> []
        | Some old \<Rightarrow> if k \<in> reported_key ` set leases \<or> k \<in> set (reservation_keys db) \<or> lapsed now (lease_expires_at old) then []
                      else [retained_lease (clock db) 0 old])"
proof -
  let ?prev = "previous_leases db" and ?ok = "\<lambda>(key, old). key \<notin> reported_key ` set leases \<and> key \<notin> set (reservation_keys db) \<and> \<not> lapsed now (lease_expires_at old)"
  note keys = previous_leases_keys [of db]
  have prev: "distinct (map fst ?prev)" "map_of ?prev k = latest db k" using keys by blast+
  have row: "key_of (snd p) = fst p" if "p \<in> set ?prev" for p using keys that by (cases p) auto
  have "filter (\<lambda>old. key_of old = k) (kept_leases now (map reported_key leases) (reservation_keys db) ?prev)
      = map snd (filter (\<lambda>p. key_of (snd p) = k \<and> ?ok p) ?prev)"
    by (simp add: kept_leases_def filter_map comp_def conj_commute)
  also have "filter (\<lambda>p. key_of (snd p) = k \<and> ?ok p) ?prev = filter (\<lambda>p. fst p = k \<and> ?ok p) ?prev"
    using row by (intro filter_cong) auto
  finally have kept: "filter (\<lambda>old. key_of old = k) (kept_leases now (map reported_key leases) (reservation_keys db) ?prev)
      = (case latest db k of None \<Rightarrow> [] | Some old \<Rightarrow> if ?ok (k, old) then [old] else [])"
    unfolding filter_key [OF prev(1)] prev(2) by (simp split: option.split)
  show ?thesis
    by (simp add: new_lease_table_def Let_def rows_of_map2 [where P = "\<lambda>l. reported_key l = k"] rows_of_map2 [where P = "\<lambda>old. key_of old = k"] kept
        split: option.split)
qed

lemma retained_inactive: "lease_expires_at (retained_lease now i old) \<noteq> INFINITE
    \<and> (\<forall>t. lease_expires_at (retained_lease now i old) = EXPIRES t \<longrightarrow> t \<le> now)"
  by (auto simp: retained_lease_def expired_at_def split: expiry.split)

lemma reported_active:
  assumes "row \<in> set (new_lease_table nextId now leases db)" "activeLeaseSql d row" "clock d = clock db"
  shows "key_of row \<in> reported_key ` set leases"
proof -
  have "\<not> activeLeaseSql d (retained_lease (clock db) i old)" for i old
    using retained_inactive [of "clock db" i old] assms(3) by (auto simp: activeLeaseSql_def split: expiry.split)
  then show ?thesis using assms(1,2) by (auto simp: new_lease_table_def Let_def dest: set_zip_rightD)
qed

text \<open>What storing a report comes to.\<close>

lemma replaceLeases_cases:
  assumes "replaceLeases nextId now validated leases db = (db', r)"
  obtains (error) e where "r = Inl e" "db' = db"
    | (ok) "r = Inr ()" "dhcp_leases db' = new_lease_table nextId now (map (with_activity (clock db) (previous_leases db)) leases) db"
        "clock db' = clock db" "service_ok db \<Longrightarrow> service_ok db'"
proof -
  define observed where "observed = map (with_activity (clock db) (previous_leases db)) leases"
  define db1 where "db1 = db\<lparr>dhcp_leases := new_lease_table nextId now observed db\<rparr>"
  define res where "res = observeDhcpLeases db1 (map observed_lease.truncate observed) validated"
  have same: "same_tables db1 (fst res)" and safe: "safe db1 (fst res)"
    unfolding res_def by (rule tables.R_observeDhcpLeases, rule leases.R_observeDhcpLeases)
  have run: "(db', r) = (case snd res of Inl e \<Rightarrow> (db, Inl e) | Inr _ \<Rightarrow> (fst res, Inr ()))"
    using assms by (cases res) (simp add: replaceLeases_def Let_def res_def db1_def observed_def split: sum.splits)
  have "service_ok db \<longrightarrow> service_ok (fst res)"
    using safe safe_rows [of db1 db] by (simp add: safe_def db1_def)
  with run same show ?thesis
    by (cases "snd res") (auto simp: same_tables_def db1_def observed_def intro: error ok)
qed

lemma observed_keys: "reported_key ` set (map (with_activity now previous) leases) = reported_key ` set leases"
  by (auto simp: image_image)

lemma stored_leases:
  assumes "replaceLeases nextId now validated leases db = (db', Inr ())"
  shows "\<forall>row \<in> set (dhcp_leases db'). activeLeaseSql db' row \<longrightarrow> key_of row \<in> reported_key ` set leases"
    and "service_ok db \<longrightarrow> service_ok db'"
proof -
  have "(\<forall>row \<in> set (dhcp_leases db'). activeLeaseSql db' row \<longrightarrow> key_of row \<in> reported_key ` set leases) \<and> (service_ok db \<longrightarrow> service_ok db')"
  proof (rule replaceLeases_cases [OF assms])
    assume table: "dhcp_leases db' = new_lease_table nextId now (map (with_activity (clock db) (previous_leases db)) leases) db"
      and clock: "clock db' = clock db" and ok: "service_ok db \<Longrightarrow> service_ok db'"
    have "key_of row \<in> reported_key ` set leases" if "row \<in> set (dhcp_leases db')" "activeLeaseSql db' row" for row
      using reported_active [OF that(1) [unfolded table] that(2) clock] unfolding observed_keys .
    with ok show ?thesis by blast
  qed simp
  then show "\<forall>row \<in> set (dhcp_leases db'). activeLeaseSql db' row \<longrightarrow> key_of row \<in> reported_key ` set leases"
    "service_ok db \<longrightarrow> service_ok db'" by simp_all
qed

text \<open>C13. The lease table after a report. When storing a report fails, nothing is changed. When it succeeds,
  an address that is reported has exactly the reported rows; an address that is not reported keeps its last
  row, with the expiry cut to the present, unless it is reserved or the lease ended before the offline
  window; nothing else is in the table, and row keys stay unique. So only reported leases are active, and the
  claims on addresses stay consistent.\<close>

theorem replaceLeases_exact:
  assumes "replaceLeases nextId now validated leases db = (db', r)"
  shows "(\<forall>e. r = Inl e \<longrightarrow> db' = db)
    \<and> (r = Inr () \<longrightarrow>
         (\<forall>k. map (\<lambda>row. row\<lparr>lease_id := 0\<rparr>) (filter (\<lambda>row. key_of row = k) (dhcp_leases db'))
            = (if k \<in> reported_key ` set leases then map (inserted_lease 0) (filter (\<lambda>l. reported_key l = k) leases)
               else case latest db k of
                      None \<Rightarrow> []
                    | Some old \<Rightarrow> if k \<in> set (reservation_keys db) \<or> lapsed now (lease_expires_at old) then []
                                  else [retained_lease (clock db) 0 old]))
       \<and> distinct (map lease_id (dhcp_leases db'))
       \<and> (\<forall>row \<in> set (dhcp_leases db'). activeLeaseSql db' row \<longrightarrow> key_of row \<in> reported_key ` set leases))
    \<and> (service_ok db \<longrightarrow> service_ok db')"
proof (rule replaceLeases_cases [OF assms])
  let ?observed = "map (with_activity (clock db) (previous_leases db)) leases"
  assume r: "r = Inr ()" and table: "dhcp_leases db' = new_lease_table nextId now ?observed db" "clock db' = clock db"
    and ok: "service_ok db \<Longrightarrow> service_ok db'"
  have "map (inserted_lease 0) (filter (\<lambda>l. reported_key l = k) ?observed) = map (inserted_lease 0) (filter (\<lambda>l. reported_key l = k) leases)" for k
    by (simp add: filter_map comp_def)
  then have "map (\<lambda>row. row\<lparr>lease_id := 0\<rparr>) (filter (\<lambda>row. key_of row = k) (dhcp_leases db'))
      = (if k \<in> reported_key ` set leases then map (inserted_lease 0) (filter (\<lambda>l. reported_key l = k) leases)
         else case latest db k of None \<Rightarrow> []
              | Some old \<Rightarrow> if k \<in> set (reservation_keys db) \<or> lapsed now (lease_expires_at old) then [] else [retained_lease (clock db) 0 old])" for k
    unfolding table(1) new_lease_table_rows observed_keys by (auto simp: filter_empty_conv split: option.split)
  moreover have "distinct (map lease_id (dhcp_leases db'))" unfolding table(1) by (rule new_lease_table_ids)
  moreover have "\<forall>row \<in> set (dhcp_leases db'). activeLeaseSql db' row \<longrightarrow> key_of row \<in> reported_key ` set leases"
    using stored_leases(1) assms r by blast
  ultimately show ?thesis using r ok by simp
qed simp

text \<open>A lease reported outside all networks; an address of a network had an endless lease that is reported no
  more.\<close>

definition sample_report :: reported_lease where
  "sample_report = \<lparr>ol_subnetId = None, ol_ip = ''10.0.0.9'', ol_mac = Some ''02:00:00:00:00:09'', ol_hostname = Some ''laptop'',
     ol_expiresAt = Some 900, ol_dhcpVersion = 4, ol_duid = None, ol_iaid = None, ol_observedActivity = False, ol_newLease = None,
     rl_clientId = None\<rparr>"

definition sample_old_lease :: lease_row where
  "sample_old_lease = \<lparr>lease_id = 3, lease_subnet_id = Some 1, lease_ip_address = ''10.0.0.7'', lease_mac_address = Some ''02:00:00:00:00:07'',
     lease_hostname = None, lease_client_id = None, lease_expires_at = INFINITE, lease_dhcp_version = 4, lease_duid = None, lease_iaid = None\<rparr>"

definition sample_leased :: db where
  "sample_leased = empty_db\<lparr>dhcp_leases := [sample_old_lease], clock := 500\<rparr>"

lemma observe_unmanaged:
  "ip_addresses db = [] \<Longrightarrow> ol_subnetId l = None \<Longrightarrow> observeDhcpLeases db [l] True = (db, Inr 0)"
  by (simp add: observeDhcpLeases_def syncLeasesToIps_def syncLeaseToIp_def observe_lease_def guarded_def
      reconcileExpiredDhcpAllocations_def or_null_num_def)

lemma sample_replaced: "snd (replaceLeases 4 500 True [sample_report] sample_leased) = Inr ()"
proof -
  have "ol_subnetId (observed_lease.truncate (with_activity now previous sample_report)) = None" for now previous
    by (auto simp: with_activity_def sample_report_def observed_lease.truncate_def Let_def split: option.split)
  then have "observeDhcpLeases (sample_leased\<lparr>dhcp_leases := ls\<rparr>) [observed_lease.truncate (with_activity now previous sample_report)] True
      = (sample_leased\<lparr>dhcp_leases := ls\<rparr>, Inr 0)" for ls now previous
    by (intro observe_unmanaged) (simp add: sample_leased_def empty_db_def)
  then show ?thesis by (simp add: replaceLeases_def Let_def)
qed

theorem replaceLeases_exact_witness:
  "map (\<lambda>row. row\<lparr>lease_id := 0\<rparr>) (filter (\<lambda>row. key_of row = (Some 1, ''10.0.0.7''))
      (dhcp_leases (fst (replaceLeases 4 500 True [sample_report] sample_leased)))) = [retained_lease 500 0 sample_old_lease]
   \<and> map (\<lambda>row. row\<lparr>lease_id := 0\<rparr>) (filter (\<lambda>row. key_of row = (None, ''10.0.0.9''))
      (dhcp_leases (fst (replaceLeases 4 500 True [sample_report] sample_leased)))) = [inserted_lease 0 sample_report]"
proof -
  have run: "replaceLeases 4 500 True [sample_report] sample_leased = (fst (replaceLeases 4 500 True [sample_report] sample_leased), Inr ())"
    using sample_replaced by (metis prod.collapse)
  have keys: "reported_key sample_report = (None, ''10.0.0.9'')" "reservation_keys sample_leased = []" "clock sample_leased = 500"
    by (simp_all add: reported_key_def sample_report_def reservation_keys_def sample_leased_def empty_db_def)
  have old: "latest sample_leased (Some 1, ''10.0.0.7'') = Some sample_old_lease" "\<not> lapsed 500 (lease_expires_at sample_old_lease)"
    by (simp_all add: latest_def sample_leased_def sample_old_lease_def key_of_def lapsed_def)
  show ?thesis using replaceLeases_exact [OF run] keys old by simp
qed

end
