(* ===== verification/LeaseRecords.thy ===== *)
theory LeaseRecords
  imports LeaseTableProperties
begin

text \<open>
  The records of leased and reserved addresses: an invariant of the loop of \<open>syncDhcpDnsRecords\<close> over
  the leases and reservations, what its last part deletes, and what the whole report leaves behind.
\<close>

section \<open>The records called for\<close>

text \<open>Zone, name, type and address of a record.\<close>

type_synonym record_key = "nat \<times> string \<times> string \<times> string"

definition record_key :: "record_row \<Rightarrow> record_key" where
  "record_key r = (rec_zone_id r, rec_name r, rec_type r, rec_value r)"

definition key_name :: "record_key \<Rightarrow> nat \<times> string \<times> string" where
  "key_name k = (case k of (z, n, t, v) \<Rightarrow> (z, n, t))"

definition key_ip :: "record_key \<Rightarrow> string" where
  "key_ip k = (case k of (z, n, t, v) \<Rightarrow> v)"

definition generated :: "record_row \<Rightarrow> bool" where
  "generated r \<longleftrightarrow> rec_source r \<in> {Some ''dhcp'', Some ''reservation''}"

text \<open>The record a lease or reservation calls for: its normalised name in the zone of its address.\<close>

definition entry_key :: "db \<Rightarrow> (option_scope \<times> string option) list \<Rightarrow> dns_entry \<Rightarrow> record_key option" where
  "entry_key db scoped e =
     (case (if truthy (de_hostname e) then or_null_num (de_subnetId e) else None) of
        None \<Rightarrow> None
      | Some sn \<Rightarrow>
          (case domainFor db scoped sn (de_ip e) of
             Inl _ \<Rightarrow> None
           | Inr domain \<Rightarrow> map_option (\<lambda>z. (zone_id z, normalizeRecordNameForZone (coalesce (de_hostname e)) (coalesce domain),
                              recordTypeFor (de_ip e), de_ip e)) (Option.bind domain (zoneByName db))))"

definition lease_zones :: "db \<Rightarrow> (option_scope \<times> string option) list \<Rightarrow> nat list" where
  "lease_zones db scoped = map zone_id (List.map_filter (zoneByName db) (allDomains db scoped))"

lemma recordTypeFor_not_ptr: "recordTypeFor ip \<noteq> ''PTR''"
  by (simp add: recordTypeFor_def)

lemma efind_in: "efind f xs = Inr (Some x) \<Longrightarrow> x \<in> set xs"
  by (induction xs) (auto simp: ebind_eq_Inr_iff split: if_splits)

lemma domainFor_in: "domainFor db scoped sn ip = Inr (Some d) \<Longrightarrow> d \<in> set (allDomains db scoped)"
proof -
  assume d: "domainFor db scoped sn ip = Inr (Some d)"
  then obtain x where x: "(if isValidAddress ip
      then efind (\<lambda>sd. eany (\<lambda>p. addressInRange ip (sp_start_ip p) (sp_end_ip p)) (pools_of db (fst sd)))
             (filter (\<lambda>sd. os_subnet_id (fst sd) = sn) scoped) else Inr None) = Inr x"
    and y: "(case x of Some (_, Some d) \<Rightarrow> Some d | _ \<Rightarrow> subnet_domain db sn) = Some d"
    unfolding domainFor_def ebind_eq_Inr_iff by auto
  have "(\<exists>s. (s, Some d) \<in> set scoped) \<or> subnet_domain db sn = Some d"
    using x y by (auto split: if_splits option.splits dest!: efind_in)
  then show ?thesis
    by (force simp: allDomains_def unique_def in_map_filter subnet_domain_def truthy_def dest!: map_of_SomeD split: if_splits option.splits)
qed

lemma entry_key_zone: "entry_key db scoped e = Some k \<Longrightarrow> fst k \<in> set (lease_zones db scoped) \<and> fst (snd (snd k)) \<noteq> ''PTR''"
  by (auto simp: entry_key_def lease_zones_def recordTypeFor_not_ptr split: option.splits sum.splits bind_splits if_splits
      intro!: imageI dest!: domainFor_in) (auto simp: in_map_filter)

section \<open>One entry\<close>

lemma nonptr_insert: "rec_type r \<noteq> ''PTR'' \<Longrightarrow> nonptr (insert_record r db) = nonptr db @ [r\<lparr>rec_id := next_record_id db\<rparr>]"
  by (simp add: nonptr_def insert_record_def)

lemma nonptr_update:
  "(\<And>r. rec_type (f r) = rec_type r) \<Longrightarrow> nonptr (update_records P f db) = map (\<lambda>r. if P r then f r else r) (nonptr db)"
  by (simp add: nonptr_def update_records_simps filter_map comp_def if_distrib [of rec_type] cong: if_cong)

lemma records_ok_update: "(\<And>r. rec_id (f r) = rec_id r) \<Longrightarrow> records_ok db \<Longrightarrow> records_ok (update_records P f db)"
  by (auto simp: records_ok_def update_records_simps comp_def if_distrib [of rec_id] cong: if_cong)

lemma records_ok_insert: "records_ok db \<Longrightarrow> records_ok (insert_record r db)"
  by (auto simp: records_ok_def insert_record_def less_Suc_eq)

lemma rest_record_writes: "rest (update_records P f db) = rest db" "rest (insert_record r db) = rest db"
  "zone_keys (update_records P f db) = zone_keys db" "zone_keys (insert_record r db) = zone_keys db"
  by (simp_all add: rest_def update_records_def insert_record_def zone_keys_def)

text \<open>The rows no lease owns, and those of other zones.\<close>

definition foreign :: "nat set \<Rightarrow> db \<Rightarrow> record_row list" where
  "foreign zs db = filter (\<lambda>r. \<not> generated r \<or> rec_zone_id r \<notin> zs) (nonptr db)"

definition sync_inv :: "db \<Rightarrow> nat set \<Rightarrow> record_key set \<Rightarrow> dns_sync \<Rightarrow> bool" where
  "sync_inv db0 zs keys st \<longleftrightarrow>
     records_ok (ds_db st) \<and> rest (ds_db st) = rest db0 \<and> zone_keys (ds_db st) = zone_keys db0 \<and> foreign zs (ds_db st) = foreign zs db0
   \<and> (\<forall>k \<in> keys. \<exists>r \<in> set (nonptr (ds_db st)). record_key r = k
        \<and> (generated r \<longrightarrow> rec_id r \<in> set (ds_records st) \<and> key_ip k \<in> set (ds_ips st)))
   \<and> (\<forall>i \<in> set (ds_records st). \<exists>r \<in> set (nonptr (ds_db st)). rec_id r = i \<and> record_key r \<in> keys)
   \<and> set (ds_names st) = key_name ` keys \<and> set (ds_zones st) = zs"

lemma sync_inv_ptr:
  "sync_inv db0 zs keys st \<Longrightarrow> ptr_write (ds_db st) (ds_db st') \<Longrightarrow> ds_records st' = ds_records st \<Longrightarrow> ds_ips st' = ds_ips st
     \<Longrightarrow> ds_names st' = ds_names st \<Longrightarrow> ds_zones st' = ds_zones st \<Longrightarrow> sync_inv db0 zs keys st'"
  by (simp add: sync_inv_def ptr_write_def foreign_def)

text \<open>Updating a generated row of a zone of leases, and adding one.\<close>

lemma sync_inv_update:
  assumes inv: "sync_inv db0 zs keys st" and x: "x \<in> set (nonptr (ds_db st))" "record_key x = k" "generated x" "rec_zone_id x \<in> zs"
    and f: "\<And>r. rec_id (f r) = rec_id r \<and> record_key (f r) = record_key r \<and> generated (f r)"
    and st': "ds_db st' = update_records (\<lambda>r. rec_id r = rec_id x) f (ds_db st)" "ds_records st' = rec_id x # ds_records st"
      "ds_ips st' = key_ip k # ds_ips st" "ds_names st' = key_name k # ds_names st" "ds_zones st' = ds_zones st"
  shows "sync_inv db0 zs (insert k keys) st'"
proof -
  have f_type: "rec_type (f r) = rec_type r" "rec_zone_id (f r) = rec_zone_id r" for r using f [of r] by (simp_all add: record_key_def)
  have ok: "records_ok (ds_db st)" using inv by (simp add: sync_inv_def)
  let ?g = "\<lambda>r. if rec_id r = rec_id x then f r else r"
  have rows: "nonptr (ds_db st') = map ?g (nonptr (ds_db st))" by (simp add: st' nonptr_update f_type)
  have only: "?g r = f x" if "r \<in> set (nonptr (ds_db st))" "rec_id r = rec_id x" for r
    using unique_record [OF ok, of x r] that x(1) by (simp add: nonptr_def)
  have foreign: "foreign zs (ds_db st') = foreign zs (ds_db st)"
  proof -
    have "filter P (map ?g rs) = filter P rs" if "set rs \<subseteq> set (nonptr (ds_db st))" "P = (\<lambda>r. \<not> generated r \<or> rec_zone_id r \<notin> zs)" for rs P
      using that
    proof (induction rs)
      case (Cons r rs)
      show ?case
      proof (cases "rec_id r = rec_id x")
        case True
        then have "r = x" using unique_record [OF ok, of x r] Cons.prems x(1) by (simp add: nonptr_def)
        then have "\<not> P r" "\<not> P (f r)" using f [of r] f_type [of r] x(3,4) Cons.prems(2) by simp_all
        then show ?thesis using Cons True by simp
      qed (use Cons in simp)
    qed simp
    then show ?thesis by (simp add: foreign_def rows)
  qed
  have key: "record_key (?g r) = record_key r" "rec_id (?g r) = rec_id r" for r using f [of r] by simp_all
  have "\<exists>r \<in> set (nonptr (ds_db st')). record_key r = j \<and> (generated r \<longrightarrow> rec_id r \<in> set (ds_records st') \<and> key_ip j \<in> set (ds_ips st'))"
    if "j \<in> insert k keys" for j
  proof (cases "j = k")
    case True
    have "?g x \<in> set (nonptr (ds_db st'))" unfolding rows set_map using x(1) by (rule imageI)
    then show ?thesis using True key [of x] x(2) by (intro bexI [of _ "?g x"]) (simp_all add: st')
  next
    case False
    then obtain r where r: "r \<in> set (nonptr (ds_db st))" "record_key r = j"
      "generated r \<longrightarrow> rec_id r \<in> set (ds_records st) \<and> key_ip j \<in> set (ds_ips st)" using inv \<open>j \<in> insert k keys\<close> by (auto simp: sync_inv_def)
    have "rec_id r \<noteq> rec_id x" using unique_record [OF ok, of x r] r(1,2) x(1,2) False by (auto simp: nonptr_def)
    then have same: "?g r = r" by simp
    from imageI [OF r(1), of ?g] have "r \<in> set (nonptr (ds_db st'))" unfolding same rows set_map .
    then show ?thesis using r by (intro bexI [of _ r]) (auto simp: st')
  qed
  moreover have "\<exists>r \<in> set (nonptr (ds_db st')). rec_id r = i \<and> record_key r \<in> insert k keys" if "i \<in> set (ds_records st')" for i
  proof -
    have "\<exists>r \<in> set (nonptr (ds_db st)). rec_id r = i \<and> record_key r \<in> insert k keys"
    proof (cases "i = rec_id x")
      case False
      then show ?thesis using that inv by (fastforce simp: st' sync_inv_def)
    qed (use x(1,2) in blast)
    then obtain r where "r \<in> set (nonptr (ds_db st))" "rec_id r = i" "record_key r \<in> insert k keys" by blast
    then show ?thesis using key [of r] by (intro bexI [of _ "?g r"]) (simp_all add: rows)
  qed
  ultimately show ?thesis
    using inv foreign records_ok_update [OF _ ok, of f "\<lambda>r. rec_id r = rec_id x"] f unfolding sync_inv_def by (simp add: st' rest_record_writes)
qed

lemma sync_inv_insert:
  assumes inv: "sync_inv db0 zs keys st" and x: "record_key x = k" "generated x" "rec_zone_id x \<in> zs" "rec_type x \<noteq> ''PTR''"
    and st': "ds_db st' = insert_record x (ds_db st)" "ds_records st' = next_record_id (ds_db st) # ds_records st"
      "ds_ips st' = key_ip k # ds_ips st" "ds_names st' = key_name k # ds_names st" "ds_zones st' = ds_zones st"
  shows "sync_inv db0 zs (insert k keys) st'"
proof -
  let ?new = "x\<lparr>rec_id := next_record_id (ds_db st)\<rparr>"
  have new: "record_key ?new = k" "generated ?new" "rec_zone_id ?new \<in> zs" using x by (simp_all add: record_key_def generated_def)
  have rows: "nonptr (ds_db st') = nonptr (ds_db st) @ [?new]" by (simp add: st' nonptr_insert x(4))
  have foreign: "foreign zs (ds_db st') = foreign zs (ds_db st)" using new(2,3) by (simp add: foreign_def rows del: record_row.update_convs)
  show ?thesis
    using inv foreign new(1) records_ok_insert [of "ds_db st" x] unfolding sync_inv_def rows by (fastforce simp: st' rest_record_writes)
qed

text \<open>The effect of one entry on the sets and the tables.\<close>

lemma sync_inv_manual:
  assumes inv: "sync_inv db0 zs keys st" and x: "x \<in> set (nonptr (ds_db st))" "record_key x = k" "\<not> generated x"
  shows "sync_inv db0 zs (insert k keys) (st\<lparr>ds_names := key_name k # ds_names st\<rparr>)"
  using assms unfolding sync_inv_def by fastforce

lemma sync_record_inv:
  assumes inv: "sync_inv db0 zs keys st" and k: "k = (zone_id zone, name, recordTypeFor (de_ip e), de_ip e)"
    and zone: "zone_id zone \<in> zs" and source: "de_source e \<in> {''dhcp'', ''reservation''}"
  shows "sync_inv db0 zs (insert k keys)
    (sync_record zone name e (st\<lparr>ds_zones := zone_id zone # ds_zones st, ds_names := key_name k # ds_names st\<rparr>))"
proof -
  let ?st = "st\<lparr>ds_zones := zone_id zone # ds_zones st\<rparr>" and ?named = "st\<lparr>ds_zones := zone_id zone # ds_zones st, ds_names := key_name k # ds_names st\<rparr>"
  have inv': "sync_inv db0 zs keys ?st" using inv zone by (auto simp: sync_inv_def)
  have ip: "key_ip k = de_ip e" by (simp add: k key_ip_def)
  show ?thesis
  proof (cases "find_lease_record (ds_db st) zone name (de_ip e)")
    case (Some x)
    then have x: "x \<in> set (nonptr (ds_db st))" "record_key x = k" "rec_zone_id x = zone_id zone"
      using find_in [OF Some [unfolded find_lease_record_def]] by (auto simp: nonptr_def record_key_def k recordTypeFor_not_ptr)
    show ?thesis
    proof (cases "generated x")
      case True
      let ?db = "update_records (\<lambda>r. rec_id r = rec_id x) (\<lambda>r. r\<lparr>rec_source := Some (de_source e), rec_updated_at := clock (ds_db st)\<rparr>) (ds_db st)"
      have "sync_inv db0 zs (insert k keys) (?named\<lparr>ds_db := ?db, ds_records := rec_id x # ds_records st, ds_ips := de_ip e # ds_ips st\<rparr>)"
        using source zone x True
        by (intro sync_inv_update [OF inv', where x = x and f = "\<lambda>r. r\<lparr>rec_source := Some (de_source e), rec_updated_at := clock (ds_db st)\<rparr>"])
           (simp_all add: ip record_key_def generated_def)
      then show ?thesis using Some True by (elim sync_inv_ptr) (simp_all add: sync_record_def Let_def generated_def)
    next
      case False
      from sync_inv_manual [OF inv', of x k] show ?thesis using Some False x by (simp add: sync_record_def Let_def generated_def)
    qed
  next
    case None
    let ?row = "lease_record zone name (de_ip e) (de_source e) (clock (ds_db st))"
    let ?db = "insert_record ?row (ds_db st)"
    have "sync_inv db0 zs (insert k keys)
        (?named\<lparr>ds_db := ?db, ds_records := next_record_id (ds_db st) # ds_records st, ds_ips := de_ip e # ds_ips st\<rparr>)"
      using source zone
      by (intro sync_inv_insert [OF inv', where x = ?row]) (simp_all add: ip [unfolded k] k record_key_def generated_def lease_record_def recordTypeFor_not_ptr)
    then show ?thesis using None by (elim sync_inv_ptr) (simp_all add: sync_record_def Let_def)
  qed
qed

lemma sync_entry_inv:
  assumes "sync_entry db scoped e st = Inr st'" "sync_inv db0 zs keys st" "de_source e \<in> {''dhcp'', ''reservation''}"
    and "set (lease_zones db scoped) \<subseteq> zs"
  shows "sync_inv db0 zs ({k. entry_key db scoped e = Some k} \<union> keys) st'"
proof (cases "entry_key db scoped e")
  case None
  then show ?thesis using assms(1,2)
    by (auto simp: sync_entry_def entry_key_def ebind_eq_Inr_iff split: option.splits)
next
  case (Some k)
  then obtain sn d z where "(if truthy (de_hostname e) then or_null_num (de_subnetId e) else None) = Some sn"
    "domainFor db scoped sn (de_ip e) = Inr (Some d)" "zoneByName db d = Some z"
    and k: "k = (zone_id z, normalizeRecordNameForZone (coalesce (de_hostname e)) d, recordTypeFor (de_ip e), de_ip e)"
    by (auto simp: entry_key_def split: option.splits sum.splits bind_splits)
  then have "st' = sync_record z (normalizeRecordNameForZone (coalesce (de_hostname e)) d) e
      (st\<lparr>ds_zones := zone_id z # ds_zones st, ds_names := key_name k # ds_names st\<rparr>)"
    using assms(1) by (simp add: sync_entry_def Let_def key_name_def)
  moreover have "zone_id z \<in> zs" using entry_key_zone [OF Some] assms(4) k by auto
  ultimately show ?thesis using sync_record_inv [OF assms(2) k _ assms(3)] Some by simp
qed

lemma sync_entries_inv:
  assumes "sync_entries db scoped es st = (st', Inr x)" "sync_inv db0 zs keys st" "\<forall>e \<in> set es. de_source e \<in> {''dhcp'', ''reservation''}"
    and "set (lease_zones db scoped) \<subseteq> zs"
  shows "sync_inv db0 zs ({k. \<exists>e \<in> set es. entry_key db scoped e = Some k} \<union> keys) st'"
  using assms(1-3)
proof (induction es arbitrary: st keys)
  case (Cons e es)
  then obtain st1 where st1: "sync_entry db scoped e st = Inr st1" "sync_entries db scoped es st1 = (st', Inr x)"
    by (auto split: sum.splits)
  have "sync_inv db0 zs ({k. entry_key db scoped e = Some k} \<union> keys) st1"
    using sync_entry_inv [OF st1(1) Cons.prems(2) _ assms(4)] Cons.prems(3) by simp
  from Cons.IH [OF st1(2) this] Cons.prems(3)
  have "sync_inv db0 zs ({k. \<exists>e \<in> set es. entry_key db scoped e = Some k} \<union> ({k. entry_key db scoped e = Some k} \<union> keys)) st'" by simp
  moreover have "{k. \<exists>e \<in> set es. entry_key db scoped e = Some k} \<union> ({k. entry_key db scoped e = Some k} \<union> keys)
      = {k. \<exists>e \<in> set (e # es). entry_key db scoped e = Some k} \<union> keys" by auto
  ultimately show ?case by simp
qed simp

section \<open>The PTR records the entries write\<close>

text \<open>A PTR that gives way to a record called for, and one that names it.\<close>

definition entry_ptr_old :: "db \<Rightarrow> record_key set \<Rightarrow> record_row \<Rightarrow> bool" where
  "entry_ptr_old db keys p \<longleftrightarrow> (\<exists>k \<in> keys. \<exists>z \<in> set (dns_zones db). zone_id z = fst k \<and> at_place db (key_ip k) p
     \<and> gives_way (fst (snd k)) (key_ip k) (zone_name z) p)"

definition entry_ptr_new :: "db \<Rightarrow> record_key set \<Rightarrow> record_row \<Rightarrow> bool" where
  "entry_ptr_new db keys q \<longleftrightarrow> (\<exists>k \<in> keys. \<exists>z \<in> set (dns_zones db). zone_id z = fst k \<and> at_place db (key_ip k) q
     \<and> rec_value q = fqdnForRecordName (fst (snd k)) (zone_name z))"

lemma entry_ptr_mono:
  "entry_ptr_old db keys p \<Longrightarrow> keys \<subseteq> keys' \<Longrightarrow> entry_ptr_old db keys' p"
  "entry_ptr_new db keys p \<Longrightarrow> keys \<subseteq> keys' \<Longrightarrow> entry_ptr_new db keys' p"
  by (auto simp: entry_ptr_old_def entry_ptr_new_def)

definition sync_frame :: "db \<Rightarrow> record_key set \<Rightarrow> dns_sync \<Rightarrow> bool" where
  "sync_frame db0 keys st \<longleftrightarrow> ptr_frame (entry_ptr_old db0 keys) (entry_ptr_new db0 keys) db0 (ds_db st)
     \<and> (\<forall>r \<in> set (nonptr (ds_db st)). rec_id r \<in> set (ds_records st) \<or> r \<in> set (nonptr db0))"

lemma sync_frame_mono: "sync_frame db0 keys st \<Longrightarrow> ds_db st' = ds_db st \<Longrightarrow> ds_records st' = ds_records st \<Longrightarrow> sync_frame db0 (insert k keys) st'"
  by (auto simp: sync_frame_def intro: entry_ptr_mono elim!: ptr_frame_mono)

lemma ptrs_update_nonptr:
  assumes "records_ok db" "x \<in> set (nonptr db)" "\<And>r. rec_type (f r) = rec_type r"
  shows "ptrs (update_records (\<lambda>r. rec_id r = rec_id x) f db) = ptrs db"
proof -
  have "rec_type r \<noteq> ''PTR''" if "r \<in> set (dns_records db)" "rec_id r = rec_id x" for r
    using that assms(2) unique_record [OF assms(1), of x r] by (simp add: nonptr_def)
  then show ?thesis by (auto simp: ptrs_def update_records_simps assms(3) image_iff split: if_splits)
qed

lemma sync_ptr_step:
  assumes "ptr_frame (entry_ptr_old db0 keys) (entry_ptr_new db0 keys) db0 db" "ptrs db1 = ptrs db"
    and "zone_keys db1 = zone_keys db0" "records_ok db1" "zone \<in> set (dns_zones db0)"
  shows "ptr_frame (entry_ptr_old db0 (insert (zone_id zone, name, t, ip) keys)) (entry_ptr_new db0 (insert (zone_id zone, name, t, ip) keys)) db0
    (fst (syncPtrForARecord db1 name ip (zone_name zone) False src))"
proof -
  let ?keys = "insert (zone_id zone, name, t, ip) keys"
  have "entry_ptr_old db0 ?keys p" if "at_place db1 ip p \<and> gives_way name ip (zone_name zone) p" for p
    using that assms(5) at_place_keys [OF assms(3), of ip p] by (auto simp: entry_ptr_old_def key_ip_def)
  moreover have "entry_ptr_new db0 ?keys q" if "at_place db1 ip q \<and> rec_value q = fqdnForRecordName name (zone_name zone) \<and> rec_source q = Some src" for q
    using that assms(5) at_place_keys [OF assms(3), of ip q] by (auto simp: entry_ptr_new_def key_ip_def)
  ultimately have "ptr_frame (entry_ptr_old db0 ?keys) (entry_ptr_new db0 ?keys) db1 (fst (syncPtrForARecord db1 name ip (zone_name zone) False src))"
    using frame_sync [OF assms(4), of ip name "zone_name zone" src] by (elim ptr_frame_mono) blast+
  moreover have "ptr_frame (entry_ptr_old db0 ?keys) (entry_ptr_new db0 ?keys) db0 db1"
    using assms(1,2) entry_ptr_mono [of db0 keys _ ?keys, OF _ subset_insertI] unfolding ptr_frame_def by blast
  ultimately show ?thesis using ptr_frame_trans by blast
qed

lemma sync_record_frame:
  assumes inv: "sync_inv db0 zs keys st" and frame: "sync_frame db0 keys st" and zone: "zone \<in> set (dns_zones db0)"
    and st': "ds_db st' = ds_db st" "ds_records st' = ds_records st"
  shows "sync_frame db0 (insert (zone_id zone, name, recordTypeFor (de_ip e), de_ip e) keys) (sync_record zone name e st')"
proof -
  let ?db = "ds_db st" and ?ip = "de_ip e"
  have ok: "records_ok ?db" and keys: "zone_keys ?db = zone_keys db0" using inv by (simp_all add: sync_inv_def)
  have old: "rec_id r \<in> set (ds_records st) \<or> r \<in> set (nonptr db0)" if "r \<in> set (nonptr ?db)" for r
    using frame that by (simp add: sync_frame_def)
  have ptrs: "ptr_frame (entry_ptr_old db0 keys) (entry_ptr_new db0 keys) db0 ?db" using frame by (simp add: sync_frame_def)
  have np: "nonptr (fst (syncPtrForARecord d name ?ip (zone_name zone) False (de_source e))) = nonptr d" if "records_ok d" for d
    using ptr_write_sync [of d name ?ip "zone_name zone" False "de_source e"] that by (simp add: ptr_write_def)
  show ?thesis
  proof (cases "find_lease_record ?db zone name ?ip")
    case None
    let ?row = "lease_record zone name ?ip (de_source e) (clock ?db)"
    let ?db1 = "insert_record ?row ?db"
    have row: "rec_type ?row \<noteq> ''PTR''" by (simp add: lease_record_def recordTypeFor_not_ptr)
    have d1: "ptrs ?db1 = ptrs ?db" "zone_keys ?db1 = zone_keys db0" "records_ok ?db1"
      using row keys records_ok_insert [OF ok] by (simp_all add: rest_record_writes)
    show ?thesis
      using sync_ptr_step [OF ptrs d1 zone] np [OF d1(3)] old nonptr_insert [OF row, of ?db]
      by (auto simp: sync_frame_def sync_record_def st' None Let_def)
  next
    case (Some x)
    have x: "x \<in> set (nonptr ?db)" using find_in [OF Some [unfolded find_lease_record_def]] by (auto simp: nonptr_def recordTypeFor_not_ptr)
    show ?thesis
    proof (cases "generated x")
      case True
      let ?f = "\<lambda>r. r\<lparr>rec_source := Some (de_source e), rec_updated_at := clock ?db\<rparr>"
      let ?db1 = "update_records (\<lambda>r. rec_id r = rec_id x) ?f ?db"
      have d1: "ptrs ?db1 = ptrs ?db" "zone_keys ?db1 = zone_keys db0" "records_ok ?db1"
        using ptrs_update_nonptr [OF ok x] keys records_ok_update [OF _ ok] by (simp_all add: rest_record_writes)
      have "nonptr ?db1 = map (\<lambda>r. if rec_id r = rec_id x then ?f r else r) (nonptr ?db)" by (rule nonptr_update) simp
      then have "rec_id r = rec_id x \<or> r \<in> set (nonptr ?db)" if "r \<in> set (nonptr ?db1)" for r
        using that by (auto split: if_splits)
      then have rows: "rec_id r \<in> set (rec_id x # ds_records st) \<or> r \<in> set (nonptr db0)" if "r \<in> set (nonptr ?db1)" for r
        using old that by fastforce
      have "sync_record zone name e st' = st'\<lparr>ds_db := fst (syncPtrForARecord ?db1 name ?ip (zone_name zone) False (de_source e)),
          ds_records := rec_id x # ds_records st', ds_ips := ?ip # ds_ips st'\<rparr>"
        using Some True by (simp add: sync_record_def st' Let_def generated_def)
      then show ?thesis
        using sync_ptr_step [OF ptrs d1 zone] np [OF d1(3)] rows by (simp add: sync_frame_def st')
    next
      case False
      then have "sync_record zone name e st' = st'" using Some by (simp add: sync_record_def st' Let_def generated_def)
      then show ?thesis using sync_frame_mono [OF frame st'] by simp
    qed
  qed
qed

lemma zoneByName_in: "zoneByName db d = Some z \<Longrightarrow> z \<in> set (dns_zones db) \<and> zone_type z = FORWARD"
  by (auto simp: zoneByName_def dest!: find_in)

lemma sync_entry_frame:
  assumes "sync_entry db scoped e st = Inr st'" "sync_inv db zs keys st" "sync_frame db keys st"
  shows "sync_frame db ({k. entry_key db scoped e = Some k} \<union> keys) st'"
proof (cases "entry_key db scoped e")
  case None
  then show ?thesis using assms(1,3) by (auto simp: sync_entry_def entry_key_def ebind_eq_Inr_iff split: option.splits)
next
  case (Some k)
  then obtain sn d z where z: "(if truthy (de_hostname e) then or_null_num (de_subnetId e) else None) = Some sn"
    "domainFor db scoped sn (de_ip e) = Inr (Some d)" "zoneByName db d = Some z"
    and k: "k = (zone_id z, normalizeRecordNameForZone (coalesce (de_hostname e)) d, recordTypeFor (de_ip e), de_ip e)"
    by (auto simp: entry_key_def split: option.splits sum.splits bind_splits)
  then have "st' = sync_record z (normalizeRecordNameForZone (coalesce (de_hostname e)) d) e
      (st\<lparr>ds_zones := zone_id z # ds_zones st, ds_names := key_name k # ds_names st\<rparr>)"
    using assms(1) by (simp add: sync_entry_def Let_def key_name_def)
  then show ?thesis
    using sync_record_frame [OF assms(2,3) conjunct1 [OF zoneByName_in [OF z(3)]]] Some by (simp add: k)
qed

lemma sync_entries_frame:
  assumes "sync_entries db scoped es st = (st', Inr x)" "sync_inv db zs keys st" "sync_frame db keys st"
    and "\<forall>e \<in> set es. de_source e \<in> {''dhcp'', ''reservation''}" "set (lease_zones db scoped) \<subseteq> zs"
  shows "sync_frame db ({k. \<exists>e \<in> set es. entry_key db scoped e = Some k} \<union> keys) st'"
  using assms(1-4)
proof (induction es arbitrary: st keys)
  case (Cons e es)
  then obtain st1 where st1: "sync_entry db scoped e st = Inr st1" "sync_entries db scoped es st1 = (st', Inr x)"
    by (auto split: sum.splits)
  let ?keys = "{k. entry_key db scoped e = Some k} \<union> keys"
  have inv: "sync_inv db zs ?keys st1" "sync_frame db ?keys st1"
    using sync_entry_inv [OF st1(1) Cons.prems(2) _ assms(5)] sync_entry_frame [OF st1(1) Cons.prems(2,3)] Cons.prems(4) by simp_all
  have "sync_frame db ({k. \<exists>e \<in> set es. entry_key db scoped e = Some k} \<union> ?keys) st'"
    by (rule Cons.IH [OF st1(2) inv]) (use Cons.prems(4) in simp)
  moreover have "{k. \<exists>e \<in> set es. entry_key db scoped e = Some k} \<union> ?keys = {k. \<exists>e \<in> set (e # es). entry_key db scoped e = Some k} \<union> keys" by auto
  ultimately show ?case by simp
qed simp

section \<open>What the last part deletes\<close>

lemma drop_stale_step:
  assumes "records_ok db"
  shows "records_ok (drop_stale st rz db) \<and> rest (drop_stale st rz db) = rest db
    \<and> nonptr (drop_stale st rz db) = filter (\<lambda>r. \<not> (is_stale st (fst rz) \<and> rec_id r = rec_id (fst rz))) (nonptr db)"
proof (cases "is_stale st (fst rz)")
  case True
  let ?r = "fst rz"
  define d where "d = (if rec_value ?r \<notin> set (ds_ips st) then fst (clearPtrForARecord db (rec_name ?r) (rec_value ?r) (snd rz)) else db)"
  have d: "records_ok d" "nonptr d = nonptr db" "rest d = rest db"
    using assms ptr_write_clear [of db "rec_name ?r" "rec_value ?r" "snd rz"] by (auto simp: d_def ptr_write_def)
  have "nonptr (delete_record i d) = filter (\<lambda>r. rec_id r \<noteq> i) (nonptr d)" "rest (delete_record i d) = rest d" for i
    by (simp_all add: nonptr_def delete_record_def rest_def conj_commute)
  moreover have "records_ok (delete_record i d)" for i
    using d(1) by (auto simp: records_ok_def delete_record_def distinct_map_filter)
  moreover have "drop_stale st rz db = delete_record (rec_id ?r) d" using True by (cases rz) (simp add: drop_stale_def d_def)
  ultimately show ?thesis using d True by simp
qed (use assms in \<open>cases rz; simp add: drop_stale_def\<close>)

lemma drop_all_stale:
  "records_ok db \<Longrightarrow> records_ok (fold (drop_stale st) rzs db) \<and> rest (fold (drop_stale st) rzs db) = rest db
    \<and> nonptr (fold (drop_stale st) rzs db)
      = filter (\<lambda>r. \<not> (\<exists>rz \<in> set rzs. is_stale st (fst rz) \<and> rec_id r = rec_id (fst rz))) (nonptr db)"
proof (induction rzs arbitrary: db)
  case (Cons rz rzs)
  note step = drop_stale_step [OF Cons.prems, of st rz]
  show ?case using Cons.IH [of "drop_stale st rz db"] step by (auto intro: filter_cong)
qed simp

lemma stale_generated: "rz \<in> set (stale_records zs db) \<Longrightarrow> fst rz \<in> set (dns_records db) \<and> generated (fst rz) \<and> rec_zone_id (fst rz) \<in> set zs"
  by (auto simp: stale_records_def in_map_filter generated_def split: if_splits)

lemma stale_in:
  assumes "r \<in> set (dns_records db)" "generated r" "rec_zone_id r \<in> set zs" "find_zone db (rec_zone_id r) \<noteq> None"
  shows "r \<in> fst ` set (stale_records zs db)"
proof -
  obtain z where "find_zone db (rec_zone_id r) = Some z" using assms(4) by auto
  then have "(r, zone_name z) \<in> set (stale_records zs db)" using assms by (auto simp: stale_records_def in_map_filter generated_def)
  then show ?thesis by force
qed

lemma lease_zone_exists: "i \<in> set (lease_zones db scoped) \<Longrightarrow> find_zone db i \<noteq> None"
  by (auto simp: lease_zones_def in_map_filter zoneByName_def find_zone_def find_None_iff dest!: find_in) blast

text \<open>The PTRs the last part touches: those at the address of a dropped record that name it, which become
  placeholders or go. Rows are only removed.\<close>

definition dropped_ptr :: "db \<Rightarrow> dns_sync \<Rightarrow> (record_row \<times> string) set \<Rightarrow> record_row \<Rightarrow> bool" where
  "dropped_ptr db st rzs p \<longleftrightarrow> (\<exists>(r, zone) \<in> rzs. is_stale st r
     \<and> (rec_id p = rec_id r \<or> at_place db (rec_value r) p \<and> names_record (rec_name r) zone p))"

definition dropped_placeholder :: "db \<Rightarrow> dns_sync \<Rightarrow> (record_row \<times> string) set \<Rightarrow> record_row \<Rightarrow> bool" where
  "dropped_placeholder db st rzs q \<longleftrightarrow> (\<exists>(r, zone) \<in> rzs. is_stale st r
     \<and> at_place db (rec_value r) q \<and> rec_value q = trim (rec_value r) \<and> rec_source q = Some ''placeholder'')"

lemma record_ids: "rec_id ` set (dns_records db) = rec_id ` set (nonptr db) \<union> rec_id ` ptrs db"
  by (auto simp: nonptr_def ptrs_def)

lemma clear_ids:
  assumes "records_ok db"
  shows "rec_id ` set (dns_records (fst (clearPtrForARecord db n ip z))) \<subseteq> rec_id ` set (dns_records db)"
proof -
  have "rec_id ` ptrs (fst (clearPtrForARecord db n ip z)) \<subseteq> rec_id ` ptrs db"
    using clear_ptrs [OF assms, of n ip z] find_ptr_ptrs by (auto simp: set_ptr_def)
  moreover have "nonptr (fst (clearPtrForARecord db n ip z)) = nonptr db"
    using ptr_write_clear [of db n ip z] assms by (simp add: ptr_write_def)
  ultimately show ?thesis unfolding record_ids by auto
qed

lemma drop_stale_ptrs:
  assumes ok: "records_ok db" and keys: "zone_keys db = zone_keys db0" and rz: "rz \<in> rzs"
  shows "ptr_frame (dropped_ptr db0 st rzs) (dropped_placeholder db0 st rzs) db (drop_stale st rz db)"
    "zone_keys (drop_stale st rz db) = zone_keys db"
    "rec_id ` set (dns_records (drop_stale st rz db)) \<subseteq> rec_id ` set (dns_records db) - (if is_stale st (fst rz) then {rec_id (fst rz)} else {})"
proof -
  obtain r zone where r: "rz = (r, zone)" by (cases rz)
  let ?clear = "fst (clearPtrForARecord db (rec_name r) (rec_value r) zone)"
  define d where "d = (if rec_value r \<notin> set (ds_ips st) then ?clear else db)"
  have result: "drop_stale st rz db = (if is_stale st r then delete_record (rec_id r) d else db)" by (simp add: r drop_stale_def d_def)
  have dk: "zone_keys d = zone_keys db" using ptr_write_clear [of db "rec_name r" "rec_value r" zone] by (simp add: d_def ptr_write_def)
  then show "zone_keys (drop_stale st rz db) = zone_keys db" by (simp add: result zone_keys_def delete_record_def)
  have "rec_id ` set (dns_records d) \<subseteq> rec_id ` set (dns_records db)" using clear_ids [OF ok] by (simp add: d_def)
  then show "rec_id ` set (dns_records (drop_stale st rz db)) \<subseteq> rec_id ` set (dns_records db) - (if is_stale st (fst rz) then {rec_id (fst rz)} else {})"
    unfolding result unfolding r by (auto simp: delete_record_def)
  show "ptr_frame (dropped_ptr db0 st rzs) (dropped_placeholder db0 st rzs) db (drop_stale st rz db)"
  proof (cases "is_stale st r")
    case True
    have place: "at_place db ip p = at_place db0 ip p" for ip p by (rule at_place_keys [OF keys])
    have "ptr_frame (dropped_ptr db0 st rzs) (dropped_placeholder db0 st rzs) db ?clear"
      using frame_clear [OF ok, of "rec_value r" "rec_name r" zone] True rz r place
      by (elim ptr_frame_mono) (auto simp: dropped_ptr_def dropped_placeholder_def)
    then have "ptr_frame (dropped_ptr db0 st rzs) (dropped_placeholder db0 st rzs) db d" by (simp add: d_def ptr_frame_same)
    moreover have "ptr_frame (dropped_ptr db0 st rzs) (dropped_placeholder db0 st rzs) d (delete_record (rec_id r) d)"
      using True rz r by (auto simp: ptr_frame_def dropped_ptr_def)
    ultimately show ?thesis using True ptr_frame_trans by (fastforce simp: result)
  qed (simp add: result ptr_frame_same)
qed

lemma drop_all_ptrs:
  assumes "records_ok db" "zone_keys db = zone_keys db0" "set rzs \<subseteq> R"
  shows "ptr_frame (dropped_ptr db0 st R) (dropped_placeholder db0 st R) db (fold (drop_stale st) rzs db)
    \<and> rec_id ` set (dns_records (fold (drop_stale st) rzs db)) \<subseteq> rec_id ` set (dns_records db) - (\<lambda>x. rec_id (fst x)) ` {x \<in> set rzs. is_stale st (fst x)}
    \<and> zone_keys (fold (drop_stale st) rzs db) = zone_keys db0"
  using assms
proof (induction rzs arbitrary: db)
  case (Cons rz rzs)
  let ?db1 = "drop_stale st rz db"
  have step: "ptr_frame (dropped_ptr db0 st R) (dropped_placeholder db0 st R) db ?db1" "zone_keys ?db1 = zone_keys db"
    "rec_id ` set (dns_records ?db1) \<subseteq> rec_id ` set (dns_records db) - (if is_stale st (fst rz) then {rec_id (fst rz)} else {})"
    using drop_stale_ptrs [OF Cons.prems(1,2), of rz R st] Cons.prems(3) by simp_all
  have ok: "records_ok ?db1" using drop_stale_step [OF Cons.prems(1)] by simp
  note IH = Cons.IH [OF ok, unfolded step(2), OF Cons.prems(2)]
  have all: "(\<lambda>x. rec_id (fst x)) ` {x \<in> set (rz # rzs). is_stale st (fst x)}
      = (if is_stale st (fst rz) then {rec_id (fst rz)} else {}) \<union> (\<lambda>x. rec_id (fst x)) ` {x \<in> set rzs. is_stale st (fst x)}" by auto
  have diff: "A \<subseteq> B - Y \<Longrightarrow> B \<subseteq> C - X \<Longrightarrow> A \<subseteq> C - (X \<union> Y)" for A B C X Y :: "nat set" by blast
  have "rec_id ` set (dns_records (fold (drop_stale st) rzs ?db1))
      \<subseteq> rec_id ` set (dns_records db) - (\<lambda>x. rec_id (fst x)) ` {x \<in> set (rz # rzs). is_stale st (fst x)}"
    unfolding all by (rule diff [OF _ step(3)]) (use IH Cons.prems(3) in simp)
  moreover have "ptr_frame (dropped_ptr db0 st R) (dropped_placeholder db0 st R) db (fold (drop_stale st) rzs ?db1)"
    using ptr_frame_trans [OF step(1)] IH Cons.prems(3) by simp
  ultimately show ?case using IH Cons.prems(3) by simp
qed (simp add: ptr_frame_same)

section \<open>The whole sync\<close>

definition lease_record_keys :: "db \<Rightarrow> (option_scope \<times> string option) list \<Rightarrow> observed_lease list \<Rightarrow> record_key list" where
  "lease_record_keys db scoped leases = List.map_filter (entry_key db scoped) (dns_entries db leases)"

lemma entry_sources: "e \<in> set (dns_entries db leases) \<Longrightarrow> de_source e \<in> {''dhcp'', ''reservation''}"
  by (auto simp: dns_entries_def Let_def)

text \<open>The state after the loop, and the rows that remain.\<close>

lemma sync_parts:
  assumes "syncDhcpDnsRecords odb leases db = (db', Inr ())" "records_ok db" "scope_domains odb = Inr scoped"
  obtains st where "sync_inv db (set (lease_zones db scoped)) (set (lease_record_keys db scoped leases)) st"
    "sync_frame db (set (lease_record_keys db scoped leases)) st"
    "db' = fold (drop_stale st) (stale_records (ds_zones st) (ds_db st)) (ds_db st)"
proof -
  let ?start = "\<lparr>ds_db = db, ds_records = [], ds_ips = [], ds_names = [], ds_zones = lease_zones db scoped\<rparr>"
  obtain st x where st: "sync_entries db scoped (dns_entries db leases) ?start = (st, Inr x)"
    "db' = fold (drop_stale st) (stale_records (ds_zones st) (ds_db st)) (ds_db st)"
    using assms(1,3) by (auto simp: syncDhcpDnsRecords_def lease_zones_def Let_def split: prod.splits sum.splits)
  have keys: "{k. \<exists>e \<in> set (dns_entries db leases). entry_key db scoped e = Some k} \<union> {} = set (lease_record_keys db scoped leases)"
    by (auto simp: lease_record_keys_def in_map_filter)
  have start: "sync_inv db (set (lease_zones db scoped)) {} ?start" "sync_frame db {} ?start"
    using assms(2) by (simp_all add: sync_inv_def sync_frame_def ptr_frame_same)
  have sources: "\<forall>e \<in> set (dns_entries db leases). de_source e \<in> {''dhcp'', ''reservation''}" using entry_sources by blast
  show ?thesis
    by (rule that [OF sync_entries_inv [OF st(1) start(1) sources order_refl, unfolded keys]
          sync_entries_frame [OF st(1) start sources order_refl, unfolded keys] st(2)])
qed

lemma sync_remaining:
  assumes inv: "sync_inv db (set (lease_zones db scoped)) keys st"
    and db': "db' = fold (drop_stale st) (stale_records (ds_zones st) (ds_db st)) (ds_db st)"
  shows "records_ok db'" "rest db' = rest db"
    "nonptr db' = filter (\<lambda>r. \<not> (generated r \<and> rec_zone_id r \<in> set (lease_zones db scoped) \<and> is_stale st r)) (nonptr (ds_db st))"
proof -
  let ?stale = "stale_records (ds_zones st) (ds_db st)"
  have ok: "records_ok (ds_db st)" and zs: "set (ds_zones st) = set (lease_zones db scoped)" and r: "rest (ds_db st) = rest db"
    and zk: "zone_keys (ds_db st) = zone_keys db"
    using inv by (simp_all add: sync_inv_def)
  note drop = drop_all_stale [OF ok, of st ?stale]
  show "records_ok db'" "rest db' = rest db" using drop r by (simp_all add: db')
  have "(\<exists>rz \<in> set ?stale. is_stale st (fst rz) \<and> rec_id q = rec_id (fst rz))
      \<longleftrightarrow> generated q \<and> rec_zone_id q \<in> set (lease_zones db scoped) \<and> is_stale st q" if "q \<in> set (nonptr (ds_db st))" for q
  proof
    assume "\<exists>rz \<in> set ?stale. is_stale st (fst rz) \<and> rec_id q = rec_id (fst rz)"
    then obtain rz where rz: "rz \<in> set ?stale" "is_stale st (fst rz)" "rec_id q = rec_id (fst rz)" by blast
    then have "fst rz = q" using unique_record [OF ok, of q "fst rz"] stale_generated [OF rz(1)] that by (auto simp: nonptr_def)
    then show "generated q \<and> rec_zone_id q \<in> set (lease_zones db scoped) \<and> is_stale st q" using rz stale_generated [OF rz(1)] zs by auto
  next
    assume q: "generated q \<and> rec_zone_id q \<in> set (lease_zones db scoped) \<and> is_stale st q"
    then have "find_zone (ds_db st) (rec_zone_id q) \<noteq> None" using lease_zone_exists find_zone_keys [OF zk] by blast
    then have "q \<in> fst ` set ?stale" using q that zs by (intro stale_in) (auto simp: nonptr_def)
    then show "\<exists>rz \<in> set ?stale. is_stale st (fst rz) \<and> rec_id q = rec_id (fst rz)" using q by auto
  qed
  then show "nonptr db' = filter (\<lambda>r. \<not> (generated r \<and> rec_zone_id r \<in> set (lease_zones db scoped) \<and> is_stale st r)) (nonptr (ds_db st))"
    using drop by (simp add: db' cong: filter_cong)
qed

lemma sync_inv_own:
  assumes inv: "sync_inv db zs keys st" and r: "r \<in> set (nonptr (ds_db st))" and i: "rec_id r \<in> set (ds_records st)"
  shows "record_key r \<in> keys"
proof -
  obtain q where q: "q \<in> set (nonptr (ds_db st))" "rec_id q = rec_id r" "record_key q \<in> keys" using inv i by (auto simp: sync_inv_def)
  have "q = r" by (rule unique_record [of "ds_db st"]) (use inv q r in \<open>simp_all add: nonptr_def sync_inv_def\<close>)
  with q(3) show ?thesis by simp
qed

text \<open>A PTR belongs in a reverse zone, records of leases in forward ones.\<close>

lemma place_not_lease_zone:
  assumes "distinct (map zone_id (dns_zones db))" "at_place db ip p"
  shows "rec_zone_id p \<notin> set (lease_zones db scoped)"
proof
  assume "rec_zone_id p \<in> set (lease_zones db scoped)"
  then obtain d z where z: "zoneByName db d = Some z" "zone_id z = rec_zone_id p" by (auto simp: lease_zones_def in_map_filter)
  obtain y n where y: "findReversePtrLocation db ip True = Some (y, n)" "zone_id y = rec_zone_id p"
    using assms(2) by (auto simp: at_place_def ptr_place_def)
  have "y \<in> set (dns_zones db) \<and> zone_type y = REVERSE"
    using y(1) by (auto simp: findReversePtrLocation_def map_filter_def filter_eq_Cons_iff split: list.splits option.splits dest!: find_in)
  moreover have "z \<in> set (dns_zones db) \<and> zone_type z = FORWARD" by (rule zoneByName_in [OF z(1)])
  moreover have "inj_on zone_id (set (dns_zones db))" using assms(1) by (simp add: distinct_map)
  ultimately have "y = z" using z(2) y(2) by (metis inj_onD)
  with \<open>y \<in> set (dns_zones db) \<and> zone_type y = REVERSE\<close> \<open>z \<in> set (dns_zones db) \<and> zone_type z = FORWARD\<close> show False by simp
qed

text \<open>A record the last part drops was there before, and is gone.\<close>

lemma dropped_was_there:
  assumes inv: "sync_inv db (set (lease_zones db scoped)) keys st" and frame: "sync_frame db keys st"
    and zones: "distinct (map zone_id (dns_zones db))"
    and rz: "(r, zone) \<in> set (stale_records (ds_zones st) (ds_db st))" "is_stale st r"
  shows "r \<in> set (dns_records db) \<and> generated r \<and> rec_zone_id r \<in> set (lease_zones db scoped) \<and> zone = record_zone db r"
proof -
  have r: "r \<in> set (dns_records (ds_db st))" "generated r" "rec_zone_id r \<in> set (lease_zones db scoped)"
    using stale_generated [OF rz(1)] inv by (auto simp: sync_inv_def)
  have "r \<in> set (dns_records db)"
  proof (cases "rec_type r = ''PTR''")
    case True
    then have "r \<in> ptrs db \<or> entry_ptr_new db keys r" using frame r(1) by (auto simp: sync_frame_def ptr_frame_def ptrs_def)
    then show ?thesis using place_not_lease_zone [OF zones] r(3) by (auto simp: entry_ptr_new_def ptrs_def)
  next
    case False
    then have "r \<in> set (nonptr (ds_db st))" using r(1) by (simp add: nonptr_def)
    then show ?thesis using frame rz(2) by (auto simp: sync_frame_def is_stale_def nonptr_def)
  qed
  moreover have "zone = record_zone (ds_db st) r"
    using rz(1) by (auto simp: stale_records_def in_map_filter record_zone_def split: if_splits)
  moreover have "zone_keys (ds_db st) = zone_keys db" using inv by (simp add: sync_inv_def)
  ultimately show ?thesis using r record_zone_keys [of "ds_db st" db r] by simp
qed

text \<open>The PTRs after the whole sync.\<close>

lemma sync_ptrs:
  assumes inv: "sync_inv db (set (lease_zones db scoped)) keys st" and frame: "sync_frame db keys st"
    and zones: "distinct (map zone_id (dns_zones db))"
    and db': "db' = fold (drop_stale st) (stale_records (ds_zones st) (ds_db st)) (ds_db st)"
  defines "gone \<equiv> \<lambda>r. r \<in> set (dns_records db) - set (dns_records db') \<and> generated r \<and> rec_zone_id r \<in> set (lease_zones db scoped)"
  shows "p \<in> ptrs db \<Longrightarrow> p \<in> ptrs db' \<or> gone p \<or> entry_ptr_old db keys p \<or> (\<exists>r. gone r \<and> own_ptr db r p)"
    "q \<in> ptrs db' \<Longrightarrow> q \<in> ptrs db \<or> entry_ptr_new db keys q
       \<or> (\<exists>r. gone r \<and> at_place db (rec_value r) q \<and> rec_value q = trim (rec_value r) \<and> rec_source q = Some ''placeholder'')"
    "zone_keys db' = zone_keys db"
proof -
  let ?R = "set (stale_records (ds_zones st) (ds_db st))"
  have ok: "records_ok (ds_db st)" and keys: "zone_keys (ds_db st) = zone_keys db" using inv by (simp_all add: sync_inv_def)
  note drop = drop_all_ptrs [OF ok keys order_refl, where rzs = "stale_records (ds_zones st) (ds_db st)" and st = st, folded db']
  then show "zone_keys db' = zone_keys db" by simp
  have stale: "gone r \<and> zone = record_zone db r" if "(r, zone) \<in> ?R" "is_stale st r" for r zone
  proof -
    have "rec_id r \<notin> rec_id ` set (dns_records db')" using drop that by force
    then show ?thesis using dropped_was_there [OF inv frame zones that] by (auto simp: gone_def)
  qed
  have first: "ptr_frame (entry_ptr_old db keys) (entry_ptr_new db keys) db (ds_db st)" using frame by (simp add: sync_frame_def)
  show "p \<in> ptrs db' \<or> gone p \<or> entry_ptr_old db keys p \<or> (\<exists>r. gone r \<and> own_ptr db r p)" if p: "p \<in> ptrs db"
  proof (cases "p \<in> ptrs (ds_db st) \<and> p \<notin> ptrs db'")
    case True
    then have "dropped_ptr db st ?R p" using drop by (auto simp: ptr_frame_def)
    then obtain r zone where r: "(r, zone) \<in> ?R" "is_stale st r" "rec_id p = rec_id r \<or> at_place db (rec_value r) p \<and> names_record (rec_name r) zone p"
      by (auto simp: dropped_ptr_def)
    have "p = r" if "rec_id p = rec_id r"
      using that True stale_generated [OF r(1)] unique_record [OF ok, of r p] by (simp add: ptrs_def)
    then show ?thesis using stale [OF r(1,2)] r(3) by (auto simp: own_ptr_def)
  qed (use first p in \<open>auto simp: ptr_frame_def\<close>)
  show "q \<in> ptrs db \<or> entry_ptr_new db keys q
       \<or> (\<exists>r. gone r \<and> at_place db (rec_value r) q \<and> rec_value q = trim (rec_value r) \<and> rec_source q = Some ''placeholder'')" if "q \<in> ptrs db'"
  proof -
    have "q \<in> ptrs (ds_db st) \<or> dropped_placeholder db st ?R q" using drop that by (auto simp: ptr_frame_def)
    then show ?thesis using first stale unfolding ptr_frame_def dropped_placeholder_def by blast
  qed
qed

text \<open>C12. The records after a report, where zones and records have ids of their own. Every lease and reservation
  with a name in a zone has its record. In the zones of leases, a record that DHCP generated either is one of
  these, or is left from a lease that ended: then no lease or reservation answers its name any more, and none its
  address, except under a name that is a record someone entered. Records of other sources and of other zones that
  are not PTRs stay as they are. A PTR stays as it is too, unless it is at the address of a record called for and
  gives way to it (it is blank, an address, that record's name, or a name in that record's own zone, whoever
  entered it), or it is at the address of a record the report removed and names that record, or it is itself a
  record DHCP generated in a zone of leases and removed. A PTR that is new names a record called for, at
  its address, or is the placeholder for the address of a removed record. No table but those of records and zones
  changes, and of the zones only serials and times do.\<close>

theorem lease_records_exact:
  assumes "syncDhcpDnsRecords odb leases db = (db', Inr ())" "records_ok db" "scope_domains odb = Inr scoped"
    and "distinct (map zone_id (dns_zones db))"
  defines "keys \<equiv> lease_record_keys db scoped leases" and "zones \<equiv> set (lease_zones db scoped)"
    and "gone \<equiv> \<lambda>r. r \<in> set (dns_records db) - set (dns_records db') \<and> generated r \<and> rec_zone_id r \<in> set (lease_zones db scoped)"
  shows "(\<forall>k \<in> set keys. \<exists>r \<in> set (dns_records db'). record_key r = k)
    \<and> (\<forall>r \<in> set (dns_records db'). generated r \<and> rec_type r \<noteq> ''PTR'' \<and> rec_zone_id r \<in> zones \<longrightarrow>
         record_key r \<in> set keys
         \<or> rec_source r = Some ''dhcp'' \<and> key_name (record_key r) \<notin> key_name ` set keys
           \<and> (\<forall>k \<in> set keys. key_ip k = rec_value r \<longrightarrow> (\<exists>q \<in> set (dns_records db'). record_key q = k \<and> \<not> generated q)))
    \<and> foreign zones db' = foreign zones db
    \<and> (\<forall>p \<in> ptrs db. p \<in> ptrs db' \<or> gone p \<or> entry_ptr_old db (set keys) p \<or> (\<exists>r. gone r \<and> own_ptr db r p))
    \<and> (\<forall>q \<in> ptrs db'. q \<in> ptrs db \<or> entry_ptr_new db (set keys) q
         \<or> (\<exists>r. gone r \<and> at_place db (rec_value r) q \<and> rec_value q = trim (rec_value r) \<and> rec_source q = Some ''placeholder''))
    \<and> records_ok db' \<and> rest db' = rest db \<and> zone_keys db' = zone_keys db"
proof -
  let ?keys = "set (lease_record_keys db scoped leases)" and ?zs = "set (lease_zones db scoped)"
  obtain st where inv: "sync_inv db ?zs ?keys st" and frame: "sync_frame db ?keys st"
    and db': "db' = fold (drop_stale st) (stale_records (ds_zones st) (ds_db st)) (ds_db st)"
    by (rule sync_parts [OF assms(1-3)])
  note ptr = sync_ptrs [OF inv frame assms(4) db']
  note left = sync_remaining [OF inv db']
  have remain: "r \<in> set (dns_records db')" if "r \<in> set (nonptr (ds_db st))" "\<not> (generated r \<and> rec_zone_id r \<in> ?zs \<and> is_stale st r)" for r
  proof -
    have "r \<in> set (nonptr db')" using that unfolding left(3) by simp
    then show ?thesis by (simp add: nonptr_def)
  qed
  have answered: "\<exists>r \<in> set (nonptr (ds_db st)). record_key r = k \<and> (generated r \<longrightarrow> rec_id r \<in> set (ds_records st) \<and> key_ip k \<in> set (ds_ips st))"
    if "k \<in> ?keys" for k using inv that by (simp add: sync_inv_def)
  have "\<exists>r \<in> set (dns_records db'). record_key r = k" if "k \<in> ?keys" for k
    using answered [OF that] remain by (auto simp: is_stale_def)
  moreover have "record_key r \<in> ?keys \<or> rec_source r = Some ''dhcp'' \<and> key_name (record_key r) \<notin> key_name ` ?keys
      \<and> (\<forall>k \<in> ?keys. key_ip k = rec_value r \<longrightarrow> (\<exists>q \<in> set (dns_records db'). record_key q = k \<and> \<not> generated q))"
    if r: "r \<in> set (dns_records db')" "generated r" "rec_type r \<noteq> ''PTR''" "rec_zone_id r \<in> ?zs" for r
  proof -
    have "r \<in> set (nonptr db')" using r by (simp add: nonptr_def)
    then have row: "r \<in> set (nonptr (ds_db st))" and "\<not> is_stale st r" using r unfolding left(3) by simp_all
    then consider "rec_id r \<in> set (ds_records st)"
      | "rec_source r = Some ''dhcp''" "rec_value r \<notin> set (ds_ips st)" "key_name (record_key r) \<notin> set (ds_names st)"
      by (auto simp: is_stale_def key_name_def record_key_def)
    then show ?thesis
    proof cases
      case 2
      have "\<exists>q \<in> set (dns_records db'). record_key q = k \<and> \<not> generated q" if "k \<in> ?keys" "key_ip k = rec_value r" for k
        using answered [OF that(1)] that(2) 2(2) remain by auto
      then show ?thesis using 2 inv by (simp add: sync_inv_def)
    qed (use sync_inv_own [OF inv row] in blast)
  qed
  moreover have "foreign ?zs db' = foreign ?zs db"
  proof -
    have "foreign ?zs db' = foreign ?zs (ds_db st)" unfolding foreign_def left(3) by (auto intro: filter_cong)
    then show ?thesis using inv by (simp add: sync_inv_def)
  qed
  ultimately show ?thesis using left(1,2) ptr unfolding keys_def zones_def gone_def by blast
qed

section \<open>The whole report\<close>

lemma rest_ptr: "rest (fst (syncPtrForARecord db n ip zn force src)) = rest db" "rest (fst (clearPtrForARecord db n ip zn)) = rest db"
  using ptr_write_sync [of db n ip zn force src] ptr_write_clear [of db n ip zn] by (simp_all add: ptr_write_def)

lemma rest_sync_record: "rest (ds_db (sync_record zone name e st)) = rest (ds_db st)"
  by (simp add: sync_record_def Let_def rest_ptr rest_record_writes split: option.split)

lemma rest_sync_entry: "sync_entry db0 scoped e st = Inr st' \<Longrightarrow> rest (ds_db st') = rest (ds_db st)"
  by (auto simp: sync_entry_def ebind_eq_Inr_iff Let_def rest_sync_record split: option.splits)

lemma rest_sync_entries: "rest (ds_db (fst (sync_entries db0 scoped es st))) = rest (ds_db st)"
  by (induction es arbitrary: st) (auto simp: rest_sync_entry split: sum.split)

lemma rest_drop_stale: "rest (fold (drop_stale st) rzs db) = rest db"
proof -
  have "rest (drop_stale st rz db) = rest db" for rz db
  proof -
    have "rest (delete_record i d) = rest d" for i d by (simp add: delete_record_def rest_def)
    then show ?thesis by (cases rz) (simp add: drop_stale_def rest_ptr)
  qed
  then show ?thesis by (induction rzs arbitrary: db) simp_all
qed

lemma rest_syncDhcpDnsRecords: "rest (fst (syncDhcpDnsRecords odb leases db)) = rest db"
proof (cases "scope_domains odb")
  case (Inr scoped)
  show ?thesis
    using rest_sync_entries [of db scoped "dns_entries db leases" "\<lparr>ds_db = db, ds_records = [], ds_ips = [], ds_names = [],
       ds_zones = map zone_id (List.map_filter (zoneByName db) (allDomains db scoped))\<rparr>"]
    by (auto simp: syncDhcpDnsRecords_def Inr Let_def rest_drop_stale split: prod.split sum.split)
qed (simp add: syncDhcpDnsRecords_def)

lemma emap_judged: "emap (judge_lease db) ls = Inr judged \<Longrightarrow> (l, ok, blocks) \<in> set judged \<Longrightarrow>
    l \<in> set ls \<and> (ok \<longleftrightarrow> dhcpLeaseRejectionReason db (observed_lease.truncate l) = Inr None)
    \<and> (blocks \<longrightarrow> holdsAnotherClientsReservation db (observed_lease.truncate l))"
  by (induction ls arbitrary: judged) (auto simp: ebind_eq_Inr_iff judge_lease_def)

text \<open>The parts of a report that was stored.\<close>

lemma ingest_parts:
  assumes "ingestLeases vs odb nextId now leases db = (db', Inr result)"
  obtains judged db1 and named :: "observed_lease list" where "emap (judge_lease db) (List.map_filter (locate_lease db) leases) = Inr judged"
    and "replaceLeases nextId now True (map2 (\<lambda>l n. l\<lparr>ol_hostname := ol_hostname n\<rparr>) (map fst (filter (\<lambda>(l, ok, blocks). ok) judged)) named) db = (db1, Inr ())"
    and "rest db' = rest db1"
    and "result = \<lparr>ir_synced = length (map fst (filter (\<lambda>(l, ok, blocks). ok) judged)),
           ir_rejected = length judged - length (map fst (filter (\<lambda>(l, ok, blocks). ok) judged)),
           ir_blocking = map fst (filter (\<lambda>(l, ok, blocks). blocks) judged)\<rparr>"
proof -
  obtain judged where judged: "emap (judge_lease db) (List.map_filter (locate_lease db) leases) = Inr judged"
    using assms by (cases "emap (judge_lease db) (List.map_filter (locate_lease db) leases)") (simp_all add: ingestLeases_def)
  let ?accepted = "map fst (filter (\<lambda>(l, ok, blocks). ok) judged)"
  let ?stored = "\<lambda>named. map2 (\<lambda>l n. l\<lparr>ol_hostname := ol_hostname n\<rparr>) ?accepted named"
  have run: "andThen (throws db (assignLeaseNames (\<lambda>mac. generateFallbackHostname vs (Some mac)) odb db (map observed_lease.truncate ?accepted))) (\<lambda>db named.
      andThen (replaceLeases nextId now True (?stored named) db) (\<lambda>db _.
      andThen (syncDhcpDnsRecords odb (map observed_lease.truncate (?stored named)) db) (\<lambda>db _.
        (db, Inr \<lparr>ir_synced = length ?accepted, ir_rejected = length judged - length ?accepted,
                  ir_blocking = map fst (filter (\<lambda>(l, ok, blocks). blocks) judged)\<rparr>)))) = (db', Inr result)"
    using assms by (simp add: ingestLeases_def judged Let_def)
  let ?names = "assignLeaseNames (\<lambda>mac. generateFallbackHostname vs (Some mac)) odb db (map observed_lease.truncate ?accepted)"
  obtain named where named: "?names = Inr named" using run by (cases ?names) simp_all
  obtain db1 db2 where db1: "replaceLeases nextId now True (?stored named) db = (db1, Inr ())"
    "syncDhcpDnsRecords odb (map observed_lease.truncate (?stored named)) db1 = (db2, Inr ())"
    and last: "(db2, Inr \<lparr>ir_synced = length ?accepted, ir_rejected = length judged - length ?accepted,
      ir_blocking = map fst (filter (\<lambda>(l, ok, blocks). blocks) judged)\<rparr>) = (db', Inr result :: lc_error + ingest_result)"
    using run unfolding named throws_simps andThen_simps andThen_Inr by (elim exE conjE) simp
  from last have db2: "db2 = db'" and result: "result = \<lparr>ir_synced = length ?accepted, ir_rejected = length judged - length ?accepted,
      ir_blocking = map fst (filter (\<lambda>(l, ok, blocks). blocks) judged)\<rparr>" by simp_all
  have "rest db' = rest db1"
    using rest_syncDhcpDnsRecords [of odb "map observed_lease.truncate (?stored named)" db1] db1(2) db2 by simp
  then show ?thesis by (rule that [OF judged db1(1) _ result])
qed

text \<open>C14. What a report brings in. When a report is stored, every lease it reports with an identity is either
  taken or refused, every lease that is active in the table afterwards is one that was located in a network
  and accepted by every rule, and each lease handed back for release holds the address of another client's
  reservation. The claims on addresses are consistent after it when they were before.\<close>

theorem ingest_admits_accepted:
  assumes "ingestLeases vs odb nextId now leases db = (db', Inr result)"
  shows "(\<forall>row \<in> set (dhcp_leases db'). activeLeaseSql db' row \<longrightarrow>
            (\<exists>l \<in> set leases. \<exists>m. locate_lease db l = Some m \<and> key_of row = reported_key m
              \<and> dhcpLeaseRejectionReason db (observed_lease.truncate m) = Inr None))
    \<and> (\<forall>m \<in> set (ir_blocking result). holdsAnotherClientsReservation db (observed_lease.truncate m))
    \<and> ir_synced result + ir_rejected result = length (filter (\<lambda>l. locate_lease db l \<noteq> None) leases)
    \<and> (service_ok db \<longrightarrow> service_ok db')"
proof -
  obtain judged db1 and named :: "observed_lease list" where judged: "emap (judge_lease db) (List.map_filter (locate_lease db) leases) = Inr judged"
    and stored: "replaceLeases nextId now True (map2 (\<lambda>l n. l\<lparr>ol_hostname := ol_hostname n\<rparr>) (map fst (filter (\<lambda>(l, ok, blocks). ok) judged)) named) db = (db1, Inr ())"
    and same: "rest db' = rest db1"
    and result: "result = \<lparr>ir_synced = length (map fst (filter (\<lambda>(l, ok, blocks). ok) judged)),
           ir_rejected = length judged - length (map fst (filter (\<lambda>(l, ok, blocks). ok) judged)),
           ir_blocking = map fst (filter (\<lambda>(l, ok, blocks). blocks) judged)\<rparr>"
    by (rule ingest_parts [OF assms])
  let ?stored = "map2 (\<lambda>l n. l\<lparr>ol_hostname := ol_hostname n\<rparr>) (map fst (filter (\<lambda>(l, ok, blocks). ok) judged)) named"
  note table = stored_leases [OF stored]
  have "\<exists>l \<in> set leases. \<exists>m. locate_lease db l = Some m \<and> key_of row = reported_key m
      \<and> dhcpLeaseRejectionReason db (observed_lease.truncate m) = Inr None"
    if row: "row \<in> set (dhcp_leases db')" "activeLeaseSql db' row" for row
  proof -
    have "row \<in> set (dhcp_leases db1)" "activeLeaseSql db1 row"
      using row rest_projections [OF same] by (auto simp: activeLeaseSql_def split: expiry.splits)
    then have "key_of row \<in> reported_key ` set ?stored" using table(1) by blast
    then obtain m ok blocks where "(m, ok, blocks) \<in> set judged" "ok" "key_of row = reported_key m"
      by (auto simp: reported_key_def dest!: set_zip_leftD)
    then show ?thesis using emap_judged [OF judged] by (fastforce simp: in_map_filter)
  qed
  moreover have "\<forall>m \<in> set (ir_blocking result). holdsAnotherClientsReservation db (observed_lease.truncate m)"
    using emap_judged [OF judged] by (auto simp: result)
  moreover have "length judged = length (filter (\<lambda>l. locate_lease db l \<noteq> None) leases)"
    using emap_length [OF judged] by (simp add: map_filter_def)
  moreover have "service_ok db \<longrightarrow> service_ok db'" using table(2) claims.R_dns [OF same] by (simp add: safe_def)
  moreover have "length (filter (\<lambda>(l, ok, blocks). ok) judged) \<le> length judged" by (rule length_filter_le)
  ultimately show ?thesis by (simp add: result)
qed

definition no_options :: option_db where
  "no_options = \<lparr>option_scopes = [], scope_options = [], option_defaults = []\<rparr>"

text \<open>A named lease in a network whose domain is a zone.\<close>

definition sample_lan :: db where
  "sample_lan = empty_db\<lparr>subnets := [quiet_subnet\<lparr>sub_id := 7, sub_domain_name := Some ''lan''\<rparr>], dns_zones := [sample_zone 8 ''lan'' FORWARD]\<rparr>"

definition sample_named :: observed_lease where
  "sample_named = observed_lease.truncate (sample_report\<lparr>ol_subnetId := Some 7\<rparr>)"

lemma sample_entry:
  "dns_entries sample_lan [sample_named] = [\<lparr>de_ip = ''10.0.0.9'', de_hostname = Some ''laptop'', de_subnetId = Some 7, de_source = ''dhcp''\<rparr>]"
  "domainFor sample_lan [] 7 ''10.0.0.9'' = Inr (Some ''lan'')" "zoneByName sample_lan ''lan'' = Some (sample_zone 8 ''lan'' FORWARD)"
  by (simp_all add: dns_entries_def sample_lan_def empty_db_def sample_named_def sample_report_def observed_lease.truncate_def
      domainFor_def subnet_domain_def quiet_subnet_def sample_subnet_def map_filter_def zoneByName_def sample_zone_def)

theorem lease_records_exact_witness:
  "\<exists>r \<in> set (dns_records (fst (syncDhcpDnsRecords no_options [sample_named] sample_lan))). record_key r = (8, ''laptop'', ''A'', ''10.0.0.9'')"
proof -
  have scoped: "scope_domains no_options = Inr []" by (simp add: scope_domains_def no_options_def)
  have "snd (syncDhcpDnsRecords no_options [sample_named] sample_lan) = Inr ()"
    by (simp add: syncDhcpDnsRecords_def scoped sample_entry sync_entry_def or_null_num_def Let_def)
  then have run: "syncDhcpDnsRecords no_options [sample_named] sample_lan = (fst (syncDhcpDnsRecords no_options [sample_named] sample_lan), Inr ())"
    by (metis prod.collapse)
  have ok: "records_ok sample_lan" by (simp add: records_ok_def sample_lan_def empty_db_def)
  have "normalizeRecordNameForZone ''laptop'' ''lan'' = ''laptop''" "recordTypeFor ''10.0.0.9'' = ''A''" by code_simp+
  then have "(8, ''laptop'', ''A'', ''10.0.0.9'') \<in> set (lease_record_keys sample_lan [] [sample_named])"
    by (simp add: lease_record_keys_def sample_entry entry_key_def or_null_num_def map_filter_def sample_zone_def)
  moreover have "distinct (map zone_id (dns_zones sample_lan))" by (simp add: sample_lan_def)
  ultimately show ?thesis using lease_records_exact [OF run ok scoped] by blast
qed

text \<open>A report of one lease at an address of no network.\<close>

lemma sample_judged:
  "List.map_filter (locate_lease sample_leased) [sample_report] = [sample_report]"
  "emap (judge_lease sample_leased) [sample_report] = Inr [(sample_report, False, False)]"
proof -
  have "findSubnetForIp sample_leased ip \<noteq> Inr (Some s)" for ip s
    by (simp add: findSubnetForIp_def leaf_networks_def leaf_subnets_def sample_leased_def empty_db_def split: option.split)
  then have "locate_lease sample_leased sample_report = Some sample_report"
    by (auto simp: locate_lease_def sample_report_def split: sum.split option.split)
  then show "List.map_filter (locate_lease sample_leased) [sample_report] = [sample_report]" by (simp add: map_filter_def)
  show "emap (judge_lease sample_leased) [sample_report] = Inr [(sample_report, False, False)]"
    by (simp add: judge_lease_def dhcpLeaseRejectionReason_def holdsAnotherClientsReservation_def sample_report_def observed_lease.truncate_def
        or_null_num_def)
qed

lemma sample_ingest: "\<exists>result. snd (ingestLeases [] no_options 4 500 [sample_report] sample_leased) = Inr result"
proof -
  have scoped: "scope_domains no_options = Inr []" by (simp add: scope_domains_def no_options_def)
  have names: "assignLeaseNames f no_options sample_leased [] = Inr []" for f
    by (simp add: assignLeaseNames_def scoped Let_def enumerate_eq_zip)
  have observed: "observeDhcpLeases (sample_leased\<lparr>dhcp_leases := ls\<rparr>) [] True = (sample_leased\<lparr>dhcp_leases := ls\<rparr>, Inr 0)" for ls
    by (simp add: observeDhcpLeases_def syncLeasesToIps_def guarded_def reconcileExpiredDhcpAllocations_def sample_leased_def empty_db_def)
  have stored: "\<exists>ls. replaceLeases 4 500 True [] sample_leased = (sample_leased\<lparr>dhcp_leases := ls\<rparr>, Inr ())"
    by (intro exI [of _ "new_lease_table 4 500 [] sample_leased"]) (simp add: replaceLeases_def observed)
  have records: "\<exists>d. syncDhcpDnsRecords no_options [] (sample_leased\<lparr>dhcp_leases := ls\<rparr>) = (d, Inr ())" for ls
    by (simp add: syncDhcpDnsRecords_def scoped Let_def dns_entries_def sample_leased_def empty_db_def)
  obtain ls where ls: "replaceLeases 4 500 True [] sample_leased = (sample_leased\<lparr>dhcp_leases := ls\<rparr>, Inr ())" using stored by blast
  obtain d where d: "syncDhcpDnsRecords no_options [] (sample_leased\<lparr>dhcp_leases := ls\<rparr>) = (d, Inr ())" using records by blast
  show ?thesis unfolding ingestLeases_def sample_judged by (simp add: Let_def names ls d)
qed

theorem ingest_admits_accepted_witness:
  "\<exists>db' result. ingestLeases [] no_options 4 500 [sample_report] sample_leased = (db', Inr result)
     \<and> ir_synced result + ir_rejected result = 1"
proof -
  obtain result where run: "ingestLeases [] no_options 4 500 [sample_report] sample_leased
      = (fst (ingestLeases [] no_options 4 500 [sample_report] sample_leased), Inr result)"
    using sample_ingest by (metis prod.collapse)
  have "length (filter (\<lambda>l. locate_lease sample_leased l \<noteq> None) [sample_report]) = 1"
    using sample_judged(1) by (auto simp: map_filter_def split: if_splits)
  with ingest_admits_accepted [OF run] run show ?thesis by metis
qed

end
