(* ===== verification/Spec2Isabelle.thy ===== *)
theory Spec2Isabelle
  imports UrlGuard RangeHistory LifecycleInvariant UpstreamPool TransformProperties LeaseSync BulkProperties LeaseNamesProperties LeaseRecords
begin

text \<open>
  A verification development for CIDRella, an IP address management server with DNS and DHCP
  backends. Paths below are relative to \<open>src/server/src\<close>.

  \<^bold>\<open>The program.\<close> The server keeps networks, addresses, DNS zones and records, DHCP scopes, reservations
  and leases in one SQLite database. Every address of a network is a row of \<open>ip_addresses\<close> with an
  allocation state and the source that owns it. DNS, DHCP, the topology of the networks, administrators
  and observers (the scanner, neighbour discovery, passive traffic) change rows only through the
  lifecycle service, which checks a table of allowed transitions, writes through the address model, and
  leaves a history. Around this core stand the arithmetic of addresses and networks, Network Range Types
  with their history, reverse DNS, the guards on outbound connections, and the forwarder of DNS queries
  over encrypted connections. HTTP routes and the web client call these parts; backends turn the tables
  into the configuration of dnsmasq, Kea, PowerDNS and radvd.

  \<^bold>\<open>Theories and sources.\<close>
  \<^item> Prelude: JavaScript strings and numbers, errors as values (\<open>ebind\<close>, \<open>emap\<close>), shared lemmas.
  \<^item> Address: \<open>utils/address.js\<close>. Cidr, CidrSets: \<open>utils/cidr.js\<close>. CidrMatch: \<open>utils/cidr-match.js\<close> and
    \<open>utils/ip.js\<close>. UrlGuard: \<open>utils/url-guard.js\<close>.
  \<^item> Ranges, RangeHistory: \<open>backends/shared/pool-segments.js\<close>, \<open>models/range.js\<close> and the range part of
    \<open>models/ip-events.js\<close>.
  \<^item> DnsNames: \<open>utils/dns-names.js\<close>, \<open>utils/reverse-zones.js\<close>. DnsRecords, ReverseDns: \<open>models/dns-record.js\<close>.
  \<^item> Lifecycle: \<open>models/ip-lifecycle.js\<close>. Store: the tables, their statements and \<open>models/ip-events.js\<close>.
    ScanCoverage: \<open>utils/scan-coverage.js\<close>, the selection of \<open>utils/scan-scheduler.js\<close>,
    \<open>utils/ipv6-support.js\<close>, \<open>utils/lease-time.js\<close>, \<open>utils/lease-sql.js\<close>.
  \<^item> IpAddress, AddressStore, AddressLiveness: \<open>models/ip-address.js\<close>.
  \<^item> DhcpScope: \<open>models/dhcp-scope.js\<close> and \<open>utils/mac-vendor.js\<close>. IpSync: \<open>utils/ip-sync.js\<close>.
  \<^item> LifecycleService, LifecycleFrames, LifecycleProperties, LifecycleInvariant:
    \<open>services/ip-lifecycle-service.js\<close> and \<open>models/dhcp-lease-queries.js\<close>.
  \<^item> DnsWire: \<open>utils/dns-wire.js\<close>. DotConnection, UpstreamPool: \<open>utils/upstream-pool.js\<close>.
  \<^item> TransformPlan, TransformProperties: \<open>services/network-transformation-plan.js\<close>, the gateway rules of
    \<open>services/subnet-topology.js\<close>, the default pools and the moves of \<open>services/subnet-dhcp-topology.js\<close>.
  \<^item> ScopeOptions, OptionProperties, BulkProperties: the options of \<open>models/dhcp-scope.js\<close>,
    \<open>models/dhcp-option.js\<close>, \<open>utils/dhcp-network-options.js\<close>, \<open>models/dhcp-bulk-options.js\<close>, and filling and writing
    in \<open>services/subnet-dhcp-topology.js\<close>.
  \<^item> LeaseSync: when \<open>services/dhcp-lease-sync.js\<close> syncs. LeaseNames, LeaseNamesProperties: the zone of a leased
    address and its name (\<open>models/dhcp-lease.js\<close>, \<open>utils/duid.js\<close>). LeaseTable, LeaseTableProperties,
    LeaseRecords: storing a reported lease set and its records (\<open>models/dhcp-lease.js\<close>, \<open>ingestLeases\<close>).

  Each theory has one definition per function of the source, in its order and under its name; inner
  loops and SQL statements are definitions of their own, named after what they compute.

  \<^bold>\<open>State.\<close> The database is a record of tables (\<open>db\<close>, Store) and every operation a function from the
  database and its arguments to the database after it and a result, \<open>Inl\<close> of an error when the code
  throws. A transaction that throws gives back the database it started with (\<open>guarded\<close>); code outside a
  transaction keeps what it wrote before the error (\<open>andThen\<close>). The range operations work on a record of
  their own tables (\<open>range_db\<close>), the option operations on scopes joined with their networks, option rows and
  defaults (\<open>option_db\<close>). The variables of the lease sync are a record that its functions thread
  (\<open>lease_sync\<close>), and changes, ends of syncs and holds are its steps (\<open>sync_step\<close>). A connection to an upstream is a record driven by events
  (\<open>dot_connection\<close>); the pool of connections is a record that a query threads through (\<open>pool\<close>).

  \<^bold>\<open>What is shown.\<close>
  \<^item> Addresses and networks (Address, Cidr, CidrSets, CidrMatch): printing and parsing are inverse, the
    canonical spelling is unique, sort keys order addresses; carve, split and merge are exact on the sets
    of addresses; allowlist matching is membership; the routable networks are exactly those outside the
    listed blocks. Locale \<open>address_codec\<close> states the contract of a parser and a printer; it is interpreted
    for the lenient parser and the strict one.
  \<^item> UrlGuard: an allowed outbound URL never connects into a blocked block, unless its address carries a zone,
    which is not checked.
  \<^item> Ranges, RangeHistory: pools without their excluded addresses; range types stay disjoint and their
    history is exactly the change of coverage. Locale \<open>interval_cut\<close> carries the cutting of intervals.
  \<^item> DNS: names are stored in a form that is served unchanged; PTR names fall under the generated zones
    and read back; setting a PTR and removing lease records change exactly what they should, the other PTRs
    included (ReverseDns; \<open>ptr_frame\<close> says which PTR rows a write may touch).
  \<^item> Address model (AddressStore, AddressLiveness): an invariant of the table along every sequence of
    operations (relation \<open>model_step\<close>), read-after-write, and what scans, sweeps and retirement do.
  \<^item> Lifecycle service: locale \<open>db_preorder\<close> and its extension \<open>metadata_frame\<close> say which relations between
    databases the metadata projection stays inside; they are interpreted on \<open>safe\<close> (the claim invariant
    is kept), \<open>same_view\<close>, \<open>frees\<close> and \<open>refines\<close>. On them rest three results: every call refines the abstract
    transition system \<open>alloc_step\<close> of the table, for the sources the call acts for; a refused call changes
    nothing, and the batches that catch refusals go on; and the claim invariant \<open>service_ok\<close> holds along every run (relation \<open>service_step\<close>).
  \<^item> Scanner: each address of a readable network is probed or aged (ScanCoverage).
  \<^item> Forwarder: messages survive any chunking of the stream (DnsWire); replies go to the queries they
    answer and every query is settled, for every interleaving of events (DotConnection; locale
    \<open>traced_machine\<close>, interpreted on the connection); a query of the pool makes a bounded number of sends
    in bounded time, fails closed, and fails over (UpstreamPool).
  \<^item> Plans (TransformProperties): a plan without conflicts partitions or merges the networks exactly, with
    gateways that are usable and unclaimed; moving reservations cannot break a unique key; default pools
    stay inside the network and off the gateway.
  \<^item> Options (OptionProperties, BulkProperties): a scope serves, code by code, the first layer that has a
    value; what is saved is served, except where DHCPv4 takes the network's value; a bulk change writes exactly what it says, and a preview changes nothing
    and shows what applying does.
  \<^item> Leases (LeaseSync, LeaseNamesProperties, LeaseTableProperties, LeaseRecords): one sync at a time, none
    under a hold, no change lost; a name newly given is unique in its zone; the lease table and the records
    after a report are exactly what the report calls for, a PTR is touched only where it is such a record's
    own or gives way to it, and no refused lease becomes active. The locale
    \<open>lease_frame\<close> extends \<open>metadata_frame\<close> by what leases write; it is interpreted on the claim invariant
    and on the lease tables.

  \<^bold>\<open>Termination and bounds.\<close> All functions are total. Loops with an index or an offset are recursive with
  a measure (the bits of a prefix, the bytes left); loops over lists are structural. The walk over the
  descendants of a network takes the number of networks as fuel, which is enough because parent links
  have no cycle, so that a tree of n networks has at most n levels. The search for a wire id makes 65536 attempts, as the code does.
  Numbers the code keeps as BigInt are \<open>nat\<close>; where 32-bit operators wrap, the model reduces.

  \<^bold>\<open>Abstractions.\<close> A string is a list of characters below 256. A timestamp is a number of seconds, and
  \<open>clock\<close> does not advance inside an operation. Fields of a partial object are options of options:
  missing, null, or a value. Foreign keys are not modelled. The cache of leaf networks in
  \<open>utils/ip-sync.js\<close> is read through. Audit rows, console output and requests to regenerate a
  configuration are left out. These are parameters: the vendor table, the release of a lease by a
  backend, \<open>net.isIP\<close>, the URL parser and the resolver, the results of sends on HTTP connections, the
  clock and the network of the pool. One query of the pool is followed at a time; other queries may leave
  the pool in any state that satisfies \<open>pool_ok\<close> before it. The hash of the rows a plan depends on is a
  parameter and the hash of the plan itself is left out. A column that holds a JSON list is the list the
  code reads from it. Sort keys are compared as text, where the code uses \<open>localeCompare\<close> on strings of one
  form. A sync of leases enters the scheduler by its end only. The next key of
  the lease table and the time its expired rows are measured from are parameters; two spellings of one
  expiry are one value. The model of lease names refuses an
  invalid address, which the checks before it keep out.

  \<^bold>\<open>Not modelled.\<close> HTTP routes and middleware (request parsing, permissions, responses); the web client;
  authentication and sessions, which rest on cryptographic libraries; configuration files of the
  backends and control of their processes; raw sockets and external tools of the scanner and the probes,
  whose results enter through the modelled operations; backups, updates and one-time migrations; read
  models that only assemble rows for display; the catalogue of DHCP options, their seeding and import of
  records; creating, changing and deleting scopes with their pools; the handlers that carry out a plan
  (\<open>services/subnet-topology.js\<close>), which write most tables through the operations modelled here.
\<close>

end
